(* ===== verification/Prelude.thy ===== *)
theory Prelude
  imports Main "HOL-Library.Word" "HOL-Library.List_Lexorder"
begin

text \<open>
  Shared vocabulary of the development: the machine types of the firmware, hardware addresses,
  byte order and little-endian memory access, the two loop shapes every fixed-size table of the
  program is scanned with (first match, best match), slot tables searched by a key, and ring
  buffers addressed by a sequence number.
\<close>

unbundle bit_operations_syntax

named_theorems table_simps "what an update of one slot leaves of a table"

type_synonym u8 = "8 word"
type_synonym u16 = "16 word"
type_synonym u32 = "32 word"
type_synonym u64 = "64 word"

section \<open>Hardware addresses\<close>

text \<open>
  The code's \<open>uint8_t mac[6]\<close>. Equality of two values is \<open>memcmp(a, b, 6) == 0\<close>, and the order
  of the type is the order of \<open>memcmp\<close>: lexicographic on the unsigned bytes.
\<close>

datatype mac = Mac u8 u8 u8 u8 u8 u8

fun mac_bytes :: "mac \<Rightarrow> u8 list" where
  "mac_bytes (Mac a b c d e f) = [a, b, c, d, e, f]"

definition mac_of_bytes :: "u8 list \<Rightarrow> mac" where
  "mac_of_bytes bs = Mac (bs ! 0) (bs ! 1) (bs ! 2) (bs ! 3) (bs ! 4) (bs ! 5)"

lemma mac_of_bytes_append [simp]: "mac_of_bytes (mac_bytes m @ bs) = m"
  by (cases m) (simp add: mac_of_bytes_def)

lemma length_mac_bytes [simp]: "length (mac_bytes m) = 6"
  by (cases m) simp

lemma mac_bytes_inject: "mac_bytes m = mac_bytes n \<longleftrightarrow> m = n"
  by (cases m; cases n) simp

instantiation mac :: linorder
begin

definition less_eq_mac :: "mac \<Rightarrow> mac \<Rightarrow> bool" where
  "less_eq_mac m n \<longleftrightarrow> mac_bytes m \<le> mac_bytes n"

definition less_mac :: "mac \<Rightarrow> mac \<Rightarrow> bool" where
  "less_mac m n \<longleftrightarrow> mac_bytes m < mac_bytes n"

instance
  by standard (auto simp: less_eq_mac_def less_mac_def mac_bytes_inject less_le)

end

section \<open>Byte order and memory\<close>

text \<open>
  The ESP32 is little-endian: \<open>memcpy\<close> between a \<open>uint32_t\<close> and the bytes of a message or of a
  flash record reads and writes the low byte first. \<open>lwip_ntohl\<close> and \<open>lwip_htonl\<close> are then both
  the reversal of the four bytes.
\<close>

definition lwip_ntohl :: "u32 \<Rightarrow> u32" where
  "lwip_ntohl w =
     push_bit 24 (take_bit 8 w) OR push_bit 16 (take_bit 8 (drop_bit 8 w)) OR
     push_bit 8 (take_bit 8 (drop_bit 16 w)) OR take_bit 8 (drop_bit 24 w)"

abbreviation lwip_htonl :: "u32 \<Rightarrow> u32" where
  "lwip_htonl \<equiv> lwip_ntohl"

lemma bit_lwip_ntohl:
  assumes "n < 8"
  shows "bit (lwip_ntohl w) n = bit w (n + 24)"
    and "bit (lwip_ntohl w) (n + 8) = bit w (n + 16)"
    and "bit (lwip_ntohl w) (n + 16) = bit w (n + 8)"
    and "bit (lwip_ntohl w) (n + 24) = bit w n"
  using assms unfolding lwip_ntohl_def
  by (auto simp: bit_or_iff bit_push_bit_iff bit_take_bit_iff bit_drop_bit_eq add.commute)

lemma less_32_cases:
  "n < (32::nat) \<Longrightarrow> \<exists>m<8. n = m \<or> n = m + 8 \<or> n = m + 16 \<or> n = m + 24"
  by presburger

lemma ntohl_ntohl [simp]: "lwip_ntohl (lwip_ntohl w) = w"
proof (rule bit_word_eqI)
  fix n assume "n < LENGTH(32)"
  then obtain m where "m < 8" "n = m \<or> n = m + 8 \<or> n = m + 16 \<or> n = m + 24"
    using less_32_cases by auto
  then show "bit (lwip_ntohl (lwip_ntohl w)) n = bit w n"
    by (auto simp: bit_lwip_ntohl)
qed

lemma ntohl_inject [simp]: "lwip_ntohl v = lwip_ntohl w \<longleftrightarrow> v = w"
  by (metis ntohl_ntohl)

lemma ntohl_0 [simp]: "lwip_ntohl 0 = 0"
  by (simp add: lwip_ntohl_def)

lemma ntohl_eq_0 [simp]: "lwip_ntohl w = 0 \<longleftrightarrow> w = 0"
  by (metis ntohl_0 ntohl_ntohl)

definition bytes_of_u16 :: "u16 \<Rightarrow> u8 list" where
  "bytes_of_u16 w = [ucast w, ucast (drop_bit 8 w)]"

definition bytes_of_u32 :: "u32 \<Rightarrow> u8 list" where
  "bytes_of_u32 w =
     [ucast w, ucast (drop_bit 8 w), ucast (drop_bit 16 w), ucast (drop_bit 24 w)]"

definition u16_at :: "u8 list \<Rightarrow> nat \<Rightarrow> u16" where
  "u16_at bs i = ucast (bs ! i) OR push_bit 8 (ucast (bs ! Suc i))"

definition u32_at :: "u8 list \<Rightarrow> nat \<Rightarrow> u32" where
  "u32_at bs i =
     ucast (bs ! i) OR push_bit 8 (ucast (bs ! (i + 1))) OR
     push_bit 16 (ucast (bs ! (i + 2))) OR push_bit 24 (ucast (bs ! (i + 3)))"

text \<open>A big-endian 16-bit field, as in \<open>(uint16_t)((p[0] << 8) | p[1])\<close>.\<close>

definition be16_at :: "u8 list \<Rightarrow> nat \<Rightarrow> u16" where
  "be16_at bs i = push_bit 8 (ucast (bs ! i)) OR ucast (bs ! Suc i)"

lemma length_bytes_of_u16 [simp]: "length (bytes_of_u16 w) = 2"
  by (simp add: bytes_of_u16_def)

lemma length_bytes_of_u32 [simp]: "length (bytes_of_u32 w) = 4"
  by (simp add: bytes_of_u32_def)

lemma bit_byte32: "bit (ucast (ucast w :: u8) :: u32) n \<longleftrightarrow> n < 8 \<and> bit (w :: u32) n"
  by (auto simp: bit_unsigned_iff dest: bit_imp_le_length)

lemma bit_byte16: "bit (ucast (ucast w :: u8) :: u16) n \<longleftrightarrow> n < 8 \<and> bit (w :: u16) n"
  by (auto simp: bit_unsigned_iff dest: bit_imp_le_length)

lemma u32_of_parts:
  "ucast (ucast w :: u8) OR push_bit 8 (ucast (ucast (drop_bit 8 w) :: u8)) OR
   push_bit 16 (ucast (ucast (drop_bit 16 w) :: u8)) OR
   push_bit 24 (ucast (ucast (drop_bit 24 w) :: u8)) = (w :: u32)" (is "?l = w")
proof (rule bit_word_eqI)
  fix n assume "n < LENGTH(32)"
  then have "n < 32" by simp
  then consider "n < 8" | "8 \<le> n" "n < 16" | "16 \<le> n" "n < 24" | "24 \<le> n" "n < 32"
    by linarith
  then show "bit ?l n = bit w n"
    by cases (simp_all only: bit_or_iff bit_push_bit_iff bit_byte32 bit_drop_bit_eq o_def, auto)
qed

lemma u16_of_parts:
  "ucast (ucast w :: u8) OR push_bit 8 (ucast (ucast (drop_bit 8 w) :: u8)) = (w :: u16)"
    (is "?l = w")
proof (rule bit_word_eqI)
  fix n assume "n < LENGTH(16)"
  then consider "n < 8" | "8 \<le> n" "n < 16"
    by fastforce
  then show "bit ?l n = bit w n"
    by cases (simp_all only: bit_or_iff bit_push_bit_iff bit_byte16 bit_drop_bit_eq o_def, auto)
qed

lemma u32_at_bytes [simp]: "u32_at (bytes_of_u32 w @ bs) 0 = w"
  by (simp add: u32_at_def bytes_of_u32_def u32_of_parts)

lemma u16_at_bytes [simp]: "u16_at (bytes_of_u16 w @ bs) 0 = w"
  by (simp add: u16_at_def bytes_of_u16_def u16_of_parts)

lemma u32_at_bytes_only [simp]: "u32_at (bytes_of_u32 w) 0 = w"
  using u32_at_bytes [of w "[]"] by simp

lemma u16_at_bytes_only [simp]: "u16_at (bytes_of_u16 w) 0 = w"
  using u16_at_bytes [of w "[]"] by simp

lemma u32_at_drop: "i + 4 \<le> length bs \<Longrightarrow> u32_at bs i = u32_at (drop i bs) 0"
  by (simp add: u32_at_def)

lemma u16_at_drop: "i + 2 \<le> length bs \<Longrightarrow> u16_at bs i = u16_at (drop i bs) 0"
  by (simp add: u16_at_def)

lemma nth_append_skip:
  assumes "length a \<le> i"
  shows "(a @ bs) ! (i + k) = bs ! (i - length a + k)" "(a @ bs) ! Suc i = bs ! Suc (i - length a)"
proof -
  have "i + k - length a = i - length a + k" "Suc i - length a = Suc (i - length a)"
    using assms by linarith+
  then show "(a @ bs) ! (i + k) = bs ! (i - length a + k)" "(a @ bs) ! Suc i = bs ! Suc (i - length a)"
    using assms by (simp_all add: nth_append)
qed

lemma u32_at_skip [simp]: "length a \<le> i \<Longrightarrow> u32_at (a @ bs) i = u32_at bs (i - length a)"
  by (simp only: u32_at_def nth_append_skip) (simp only: nth_append_right)

lemma u16_at_skip [simp]: "length a \<le> i \<Longrightarrow> u16_at (a @ bs) i = u16_at bs (i - length a)"
  by (simp only: u16_at_def nth_append_skip) (simp only: nth_append_right)

lemma at_Cons [simp]:
  "u32_at (x # bs) (Suc i) = u32_at bs i" "u16_at (x # bs) (Suc i) = u16_at bs i"
  "be16_at (x # bs) (Suc i) = be16_at bs i"
  by (simp_all add: u32_at_def u16_at_def be16_at_def numeral_3_eq_3)

lemma at_Cons_numeral [simp]:
  "u32_at (x # bs) (numeral v) = u32_at bs (pred_numeral v)"
  "u16_at (x # bs) (numeral v) = u16_at bs (pred_numeral v)"
  "be16_at (x # bs) (numeral v) = be16_at bs (pred_numeral v)"
  by (simp_all only: numeral_eq_Suc at_Cons)

text \<open>The address \<open>a.b.c.d\<close> as a \<open>uint32_t\<close> in network byte order: \<open>a\<close> is the first byte in memory.\<close>

definition ip4 :: "u32 \<Rightarrow> u32 \<Rightarrow> u32 \<Rightarrow> u32 \<Rightarrow> u32" where
  "ip4 a b c d = a + 256 * (b + 256 * (c + 256 * d))"

section \<open>Scanning a table\<close>

text \<open>
  \<open>for (int i = 0; i < N; i++) if (P(i, xs[i])) return i;\<close> is the loop behind every \<open>find_*\<close> of
  the program. A pointer to an entry is the entry's index, a null pointer is \<open>None\<close>.
\<close>

fun scan :: "nat \<Rightarrow> (nat \<Rightarrow> 'a \<Rightarrow> bool) \<Rightarrow> 'a list \<Rightarrow> nat option" where
  "scan k P [] = None"
| "scan k P (x # xs) = (if P k x then Some k else scan (Suc k) P xs)"

definition first_slot :: "(nat \<Rightarrow> 'a \<Rightarrow> bool) \<Rightarrow> 'a list \<Rightarrow> nat option" where
  "first_slot P xs = scan 0 P xs"

lemma scan_SomeD:
  "scan k P xs = Some i \<Longrightarrow>
     k \<le> i \<and> i < k + length xs \<and> P i (xs ! (i - k)) \<and> (\<forall>j. k \<le> j \<and> j < i \<longrightarrow> \<not> P j (xs ! (j - k)))"
proof (induction k P xs rule: scan.induct)
  case (2 k P x xs)
  show ?case
  proof (cases "P k x")
    case False
    with "2.prems" have "scan (Suc k) P xs = Some i" by simp
    from "2.IH" [OF False this] False show ?thesis
      by (auto simp: nth_Cons' Suc_diff_le not_less_eq_eq dest: le_neq_implies_less)
  qed (use "2.prems" in auto)
qed simp

lemma scan_None: "scan k P xs = None \<longleftrightarrow> (\<forall>i<length xs. \<not> P (k + i) (xs ! i))"
proof (induction k P xs rule: scan.induct)
  case (2 k P x xs)
  then show ?case by (auto simp: less_Suc_eq_0_disj)
qed simp

lemma first_slot_None: "first_slot P xs = None \<longleftrightarrow> (\<forall>i<length xs. \<not> P i (xs ! i))"
  by (simp add: first_slot_def scan_None)

lemma first_slot_SomeD:
  "first_slot P xs = Some i \<Longrightarrow> i < length xs \<and> P i (xs ! i) \<and> (\<forall>j<i. \<not> P j (xs ! j))"
  unfolding first_slot_def by (drule scan_SomeD) simp

lemma first_slot_eq_Some:
  "first_slot P xs = Some i \<longleftrightarrow> i < length xs \<and> P i (xs ! i) \<and> (\<forall>j<i. \<not> P j (xs ! j))"
proof
  assume r: "i < length xs \<and> P i (xs ! i) \<and> (\<forall>j<i. \<not> P j (xs ! j))"
  then have "first_slot P xs \<noteq> None" by (auto simp: first_slot_None)
  then obtain k where k: "first_slot P xs = Some k" by auto
  from first_slot_SomeD [OF k] r have "k = i" by (meson linorder_less_linear)
  with k show "first_slot P xs = Some i" by simp
qed (rule first_slot_SomeD)

text \<open>
  The other loop: keep the best entry so far, replacing it only by one that is strictly better.
\<close>

fun best_slot ::
  "(nat \<Rightarrow> 'a \<Rightarrow> bool) \<Rightarrow> ('a \<Rightarrow> 'a \<Rightarrow> bool) \<Rightarrow> nat \<Rightarrow> 'a list \<Rightarrow> (nat \<times> 'a) option \<Rightarrow> (nat \<times> 'a) option"
where
  "best_slot ok better k [] b = b"
| "best_slot ok better k (x # xs) b =
     best_slot ok better (Suc k) xs
       (if ok k x \<and> (case b of None \<Rightarrow> True | Some (_, y) \<Rightarrow> better x y) then Some (k, x) else b)"

lemma all_slots_Cons:
  "(\<forall>i<length (x # xs). Q i ((x # xs) ! i)) \<longleftrightarrow> Q 0 x \<and> (\<forall>i<length xs. Q (Suc i) (xs ! i))"
  by (auto simp: less_Suc_eq_0_disj)

lemma best_slot_SomeD:
  "best_slot ok better k xs b = Some (i, e) \<Longrightarrow>
     b = Some (i, e) \<or> (k \<le> i \<and> i < k + length xs \<and> e = xs ! (i - k) \<and> ok i e)"
proof (induction xs arbitrary: k b)
  case (Cons x xs)
  from Cons.prems have "best_slot ok better (Suc k) xs
      (if ok k x \<and> (case b of None \<Rightarrow> True | Some (_, y) \<Rightarrow> better x y) then Some (k, x) else b)
      = Some (i, e)" by simp
  from Cons.IH [OF this] show ?case
    by (auto simp: nth_Cons' split: if_splits)
qed simp

lemma best_slot_None:
  "best_slot ok better k xs b = None \<longleftrightarrow> b = None \<and> (\<forall>i<length xs. \<not> ok (k + i) (xs ! i))"
proof (induction xs arbitrary: k b)
  case (Cons x xs)
  show ?case
    unfolding all_slots_Cons [of x xs "\<lambda>i e. \<not> ok (k + i) e"] best_slot.simps Cons.IH
    by (auto split: option.splits)
qed simp

text \<open>
  When \<open>better\<close> is a strict weak order (irreflexive, transitive, with transitive
  incomparability), no candidate is better than the entry kept at the end.
\<close>

lemma best_slot_best:
  assumes irrefl: "\<And>x. \<not> better x x"
    and trans: "\<And>x y z. better x y \<Longrightarrow> better y z \<Longrightarrow> better x z"
    and ntrans: "\<And>x y z. \<not> better x y \<Longrightarrow> \<not> better y z \<Longrightarrow> \<not> better x z"
  shows "best_slot ok better k xs b = Some (i, e) \<Longrightarrow>
    (\<forall>j<length xs. ok (k + j) (xs ! j) \<longrightarrow> \<not> better (xs ! j) e) \<and>
    (\<forall>j y. b = Some (j, y) \<longrightarrow> \<not> better y e)"
proof (induction xs arbitrary: k b)
  case Nil
  then show ?case using irrefl by auto
next
  case (Cons x xs)
  let ?b = "if ok k x \<and> (case b of None \<Rightarrow> True | Some (_, y) \<Rightarrow> better x y) then Some (k, x) else b"
  have IH: "(\<forall>j<length xs. ok (Suc k + j) (xs ! j) \<longrightarrow> \<not> better (xs ! j) e) \<and>
      (\<forall>j y. ?b = Some (j, y) \<longrightarrow> \<not> better y e)"
    using Cons.IH Cons.prems by simp
  have kept: "\<not> better y e" if "b = Some (j, y)" for j y
  proof (cases "ok k x \<and> better x y")
    case True
    then have "\<not> better x e" using IH that by simp
    moreover have "\<not> better y x" using True irrefl trans by blast
    ultimately show ?thesis using ntrans by blast
  next
    case False
    then show ?thesis using IH that by (auto split: if_splits)
  qed
  have head: "\<not> better x e" if "ok k x"
  proof (cases "case b of None \<Rightarrow> True | Some (_, y) \<Rightarrow> better x y")
    case True
    then show ?thesis using IH that by simp
  next
    case False
    then obtain j y where "b = Some (j, y)" "\<not> better x y" by (auto split: option.splits)
    with kept ntrans show ?thesis by blast
  qed
  show ?case
    using IH kept head all_slots_Cons [of x xs "\<lambda>j e'. ok (k + j) e' \<longrightarrow> \<not> better e' e"]
    by auto
qed

section \<open>Slot tables\<close>

text \<open>
  The program keeps its leases, its clients and its DHCP port records in arrays of slots, each
  live or not and found by a key. \<open>uniq_by\<close> says that no two live slots carry one key, which is
  what makes "the first match" mean "the match".
\<close>

definition uniq_by :: "('e \<Rightarrow> bool) \<Rightarrow> ('e \<Rightarrow> 'k) \<Rightarrow> 'e list \<Rightarrow> bool" where
  "uniq_by live key xs \<longleftrightarrow>
     (\<forall>i<length xs. \<forall>j<length xs.
        live (xs ! i) \<and> live (xs ! j) \<and> key (xs ! i) = key (xs ! j) \<longrightarrow> i = j)"

lemma uniq_by_Cons:
  "uniq_by live key (x # xs) \<longleftrightarrow>
     (live x \<longrightarrow> (\<forall>y\<in>set xs. live y \<longrightarrow> key y \<noteq> key x)) \<and> uniq_by live key xs"
  unfolding uniq_by_def
  by (simp add: All_less_Suc2 all_set_conv_all_nth) (auto; metis)

text \<open>The form that evaluates.\<close>

lemma uniq_by_code [code]: "uniq_by live key xs \<longleftrightarrow> distinct (map key (filter live xs))"
proof (induction xs)
  case (Cons x xs)
  then show ?case by (auto simp: uniq_by_Cons image_iff)
qed (simp add: uniq_by_def)

lemma uniq_by_map: "uniq_by live key (map f xs) = uniq_by (live \<circ> f) (key \<circ> f) xs"
  by (auto simp: uniq_by_def)

lemma uniq_by_filter: "uniq_by live key xs \<Longrightarrow> uniq_by live' key (filter P xs)"
  if "\<And>x. P x \<Longrightarrow> live' x \<Longrightarrow> live x"
proof -
  assume u: "uniq_by live key xs"
  have "filter live' (filter P xs) = filter (\<lambda>x. live' x \<and> P x) (filter live xs)"
    unfolding filter_filter by (rule filter_cong) (auto dest: that)
  then show ?thesis using u unfolding uniq_by_code by (simp only: distinct_map_filter)
qed

lemma uniq_by_nthD:
  "uniq_by live key xs \<Longrightarrow> i < length xs \<Longrightarrow> j < length xs \<Longrightarrow> live (xs ! i) \<Longrightarrow> live (xs ! j) \<Longrightarrow>
     key (xs ! i) = key (xs ! j) \<Longrightarrow> i = j"
  by (simp add: uniq_by_def)

definition lookup_slot :: "('e \<Rightarrow> bool) \<Rightarrow> ('e \<Rightarrow> 'k) \<Rightarrow> 'k \<Rightarrow> 'e list \<Rightarrow> nat option" where
  "lookup_slot live key k xs = first_slot (\<lambda>_ e. live e \<and> key e = k) xs"

lemma lookup_slot_SomeD:
  "lookup_slot live key k xs = Some i \<Longrightarrow> i < length xs \<and> live (xs ! i) \<and> key (xs ! i) = k"
  unfolding lookup_slot_def by (drule first_slot_SomeD) simp

lemma lookup_slot_None:
  "lookup_slot live key k xs = None \<longleftrightarrow> (\<forall>i<length xs. live (xs ! i) \<longrightarrow> key (xs ! i) \<noteq> k)"
  unfolding lookup_slot_def by (auto simp: first_slot_None)

lemma lookup_slot_unique:
  "uniq_by live key xs \<Longrightarrow> i < length xs \<Longrightarrow> live (xs ! i) \<Longrightarrow> lookup_slot live key (key (xs ! i)) xs = Some i"
  unfolding lookup_slot_def first_slot_eq_Some uniq_by_def
  by (metis (no_types, lifting) less_trans nat_neq_iff)

lemma uniq_by_update:
  assumes "uniq_by live key xs"
    and "\<And>j. live e \<Longrightarrow> j < length xs \<Longrightarrow> j \<noteq> i \<Longrightarrow> live (xs ! j) \<Longrightarrow> key (xs ! j) \<noteq> key e"
  shows "uniq_by live key (xs[i := e])"
  unfolding uniq_by_def
proof (intro allI impI)
  fix a b
  assume a: "a < length (xs[i := e])" and b: "b < length (xs[i := e])"
    and h: "live (xs[i := e] ! a) \<and> live (xs[i := e] ! b) \<and> key (xs[i := e] ! a) = key (xs[i := e] ! b)"
  consider "a = i" "b = i" | "a = i" "b \<noteq> i" | "a \<noteq> i" "b = i" | "a \<noteq> i" "b \<noteq> i" by blast
  then show "a = b"
  proof cases
    case 2
    then show ?thesis using assms(2) [of b] a b h by (simp add: nth_list_update)
  next
    case 3
    then show ?thesis using assms(2) [of a] a b h by (simp add: nth_list_update)
  next
    case 4
    then show ?thesis using assms(1) a b h by (simp add: uniq_by_def)
  qed simp
qed

lemma uniq_by_kill: "uniq_by live key xs \<Longrightarrow> \<not> live e \<Longrightarrow> uniq_by live key (xs[i := e])"
  by (rule uniq_by_update) auto

lemma uniq_by_same:
  "uniq_by live key xs \<Longrightarrow> i < length xs \<Longrightarrow> (live e \<Longrightarrow> live (xs ! i) \<and> key (xs ! i) = key e) \<Longrightarrow>
     uniq_by live key (xs[i := e])"
  by (rule uniq_by_update) (auto simp: uniq_by_def)

text \<open>
  The contract of such a table: claiming a slot for a key writes a live entry under that key.
  From it follow what the clients of the tables rely on, that a claim of an absent key keeps the
  keys unique, that the key is then found in the claimed slot, and that every other key is found
  where it was unless its slot was the one taken over.
\<close>

locale slot_table =
  fixes live :: "'e \<Rightarrow> bool" and key :: "'e \<Rightarrow> 'k" and fresh :: "'k \<Rightarrow> 'e" and ok :: "'k \<Rightarrow> bool"
  assumes live_fresh: "ok k \<Longrightarrow> live (fresh k)"
    and key_fresh: "key (fresh k) = k"
begin

lemma claim_uniq:
  "uniq_by live key xs \<Longrightarrow> lookup_slot live key k xs = None \<Longrightarrow> uniq_by live key (xs[i := fresh k])"
  by (rule uniq_by_update) (auto simp: lookup_slot_None key_fresh)

lemma claim_lookup:
  assumes "uniq_by live key xs" "lookup_slot live key k xs = None" "i < length xs" "ok k"
  shows "lookup_slot live key k (xs[i := fresh k]) = Some i"
  using lookup_slot_unique [OF claim_uniq [OF assms(1,2)], of i i] assms(3,4)
  by (simp add: live_fresh key_fresh)

lemma claim_lookup_other:
  assumes "uniq_by live key xs" "lookup_slot live key k xs = None"
    and "lookup_slot live key k' xs = Some j" "j \<noteq> i"
  shows "lookup_slot live key k' (xs[i := fresh k]) = Some j"
  using lookup_slot_SomeD [OF assms(3)] assms(4)
    lookup_slot_unique [OF claim_uniq [OF assms(1,2), of i], of j]
  by simp

end

section \<open>Ring buffers\<close>

lemma unat_of_nat_eq: "n < 2 ^ LENGTH('a) \<Longrightarrow> unat (of_nat n :: 'a::len word) = n"
  by (simp add: unat_of_nat)


text \<open>
  A ring of \<open>cap\<close> slots holding the newest items of a sequence: item \<open>n\<close> (from 0) lives in slot
  \<open>n mod cap\<close>. \<open>ring_holds\<close> relates the slots to the whole history \<open>h\<close>, oldest first.
\<close>

definition ring_holds :: "nat \<Rightarrow> 'a list \<Rightarrow> 'a list \<Rightarrow> bool" where
  "ring_holds cap slots h \<longleftrightarrow>
     length slots = cap \<and>
     (\<forall>n<length h. length h \<le> n + cap \<longrightarrow> slots ! (n mod cap) = h ! n)"

lemma ring_holds_Nil: "length slots = cap \<Longrightarrow> ring_holds cap slots []"
  by (simp add: ring_holds_def)

lemma ring_holds_snoc:
  assumes "ring_holds cap slots h" "0 < cap"
  shows "ring_holds cap (slots[length h mod cap := x]) (h @ [x])"
proof -
  have neq: "n mod cap \<noteq> length h mod cap" if "n < length h" "length h < n + cap" for n
  proof
    assume eq: "n mod cap = length h mod cap"
    have "cap dvd (length h - n)" using eq that(1) by (metis less_imp_le mod_eq_dvd_iff_nat)
    moreover have "0 < length h - n" "length h - n < cap" using that by auto
    ultimately show False by (meson dvd_imp_le leD)
  qed
  have "slots[length h mod cap := x] ! (n mod cap) = h ! n"
    if "n < length h" "length h < n + cap" for n
    using neq [OF that] that assms(1) by (simp add: ring_holds_def nth_list_update_neq [symmetric])
  then show ?thesis
    using assms unfolding ring_holds_def by (auto simp: nth_append less_Suc_eq)
qed

lemma ring_holds_nth:
  "ring_holds cap slots h \<Longrightarrow> n < length h \<Longrightarrow> length h \<le> n + cap \<Longrightarrow> slots ! (n mod cap) = h ! n"
  by (simp add: ring_holds_def)

section \<open>State machines\<close>

text \<open>
  A component that other tasks call into is a step relation on its state. What every step keeps,
  every run keeps.
\<close>

locale state_machine =
  fixes step :: "'s \<Rightarrow> 's \<Rightarrow> bool" and inv :: "'s \<Rightarrow> bool"
  assumes inv_step: "inv s \<Longrightarrow> step s t \<Longrightarrow> inv t"
begin

lemma inv_run: "step\<^sup>*\<^sup>* s t \<Longrightarrow> inv s \<Longrightarrow> inv t"
  by (induction rule: rtranclp_induct) (auto intro: inv_step)

lemma inv_during:
  "step\<^sup>*\<^sup>* s t \<Longrightarrow> inv s \<Longrightarrow> step\<^sup>*\<^sup>* t u \<Longrightarrow> inv t \<and> inv u"
  by (meson inv_run)

end

end
