(* ===== verification/DhcpLease.thy ===== *)
theory DhcpLease
  imports Prelude
begin

text \<open>
  The lease table of \<open>main/dhcp_server.c\<close>: its entries, the module's state, and the address
  bookkeeping every caller performs with \<open>s_mutex\<close> held (lookups, who is really on an address,
  which entry is given up under pressure, which address a client is offered, how a lease is
  recorded). A \<open>lease_t *\<close> is an index into \<open>s_leases\<close>; addresses are \<open>uint32_t\<close> in network
  byte order, as in the code. Every operation reads the clock as its argument \<open>now\<close>, the value of
  \<open>esp_timer_get_time()\<close> in microseconds while the lock is held. Log lines are not modelled.
\<close>

section \<open>State\<close>

abbreviation DHCP_SERVER_MAX_LEASES :: nat where "DHCP_SERVER_MAX_LEASES \<equiv> 32"
abbreviation MAX_DECLINED :: nat where "MAX_DECLINED \<equiv> 8"
abbreviation WIRED_FULL_LOG_US :: int where "WIRED_FULL_LOG_US \<equiv> 5 * 60 * 1000000"

record lease =
  l_in_use :: bool
  l_mac :: mac
  l_ip :: u32
  l_observed_ip :: u32
  l_saved_ip :: u32
  l_saved_observed_ip :: u32
  l_expires_us :: int
  l_last_seen_seq :: u32
  l_last_seen_us :: int
  l_quarantined :: bool

text \<open>An entry after \<open>memset(e, 0, sizeof(*e))\<close>, which is also what static storage holds.\<close>

definition zero_lease :: lease where
  "zero_lease =
     \<lparr>l_in_use = False, l_mac = Mac 0 0 0 0 0 0, l_ip = 0, l_observed_ip = 0, l_saved_ip = 0,
      l_saved_observed_ip = 0, l_expires_us = 0, l_last_seen_seq = 0, l_last_seen_us = 0,
      l_quarantined = False\<rparr>"

text \<open>
  The module's static variables. \<open>s_declined\<close> holds the first \<open>s_declined_count\<close> entries of the
  array, \<open>s_ready\<close> says that \<open>s_mutex\<close> has been created, \<open>s_wired_full_last_us\<close> is the static
  \<open>last_us\<close> of \<open>note_wired_range_full()\<close>, and \<open>s_flash\<close> is the blob that NVS holds under the
  module's key.
\<close>

record dhcp =
  s_leases :: "lease list"
  s_declined :: "u32 list"
  s_server_ip :: u32
  s_netmask :: u32
  s_pool_start :: u32
  s_pool_end :: u32
  s_wired_start :: u32
  s_wired_end :: u32
  s_boot_seq :: u32
  s_dirty :: bool
  s_dirty_since_us :: int
  s_restored_count :: nat
  s_wired_full_last_us :: int
  s_ready :: bool
  s_flash :: "u8 list option"

text \<open>
  Static storage at power-on, and the same with the network \<open>main.c\<close> configures: the bridge is
  192.168.5.1/24, the wired range .2 to .9, the WiFi pool .10 to .101.
\<close>

definition static_dhcp :: dhcp where
  "static_dhcp =
     \<lparr>s_leases = replicate DHCP_SERVER_MAX_LEASES zero_lease, s_declined = [], s_server_ip = 0,
      s_netmask = 0, s_pool_start = 0, s_pool_end = 0, s_wired_start = 0, s_wired_end = 0,
      s_boot_seq = 0, s_dirty = False, s_dirty_since_us = 0, s_restored_count = 0,
      s_wired_full_last_us = 0, s_ready = False, s_flash = None\<rparr>"

definition lan_dhcp :: dhcp where
  "lan_dhcp = static_dhcp
     \<lparr>s_server_ip := ip4 192 168 5 1, s_netmask := ip4 255 255 255 0,
      s_wired_start := ip4 192 168 5 2, s_wired_end := ip4 192 168 5 9,
      s_pool_start := ip4 192 168 5 10, s_pool_end := ip4 192 168 5 101,
      s_boot_seq := 1, s_ready := True\<rparr>"

definition set_lease :: "dhcp \<Rightarrow> nat \<Rightarrow> lease \<Rightarrow> dhcp" where
  "set_lease s i e = s\<lparr>s_leases := (s_leases s)[i := e]\<rparr>"

definition mark_dirty_locked :: "int \<Rightarrow> dhcp \<Rightarrow> dhcp" where
  "mark_dirty_locked now s =
     (if \<not> s_dirty s then s\<lparr>s_dirty := True, s_dirty_since_us := now\<rparr> else s)"

definition persisted_observed_ip :: "lease \<Rightarrow> u32" where
  "persisted_observed_ip e = (if l_quarantined e then 0 else l_observed_ip e)"

section \<open>Address bookkeeping\<close>

definition ip_offset :: "u32 \<Rightarrow> u32 \<Rightarrow> u32" where
  "ip_offset net_ip delta = lwip_htonl (lwip_ntohl net_ip + delta)"

definition ip_in_range :: "u32 \<Rightarrow> u32 \<Rightarrow> u32 \<Rightarrow> bool" where
  "ip_in_range net_ip st en \<longleftrightarrow>
     net_ip \<noteq> 0 \<and> st \<noteq> 0 \<and> lwip_ntohl st \<le> lwip_ntohl net_ip \<and> lwip_ntohl net_ip \<le> lwip_ntohl en"

definition ip_declined :: "dhcp \<Rightarrow> u32 \<Rightarrow> bool" where
  "ip_declined s net_ip \<longleftrightarrow> first_slot (\<lambda>_ d. d = net_ip) (s_declined s) \<noteq> None"

definition find_by_mac_locked :: "dhcp \<Rightarrow> mac \<Rightarrow> nat option" where
  "find_by_mac_locked s m = first_slot (\<lambda>_ e. l_in_use e \<and> l_mac e = m) (s_leases s)"

definition find_by_ip_locked :: "dhcp \<Rightarrow> u32 \<Rightarrow> nat option" where
  "find_by_ip_locked s net_ip = first_slot (\<lambda>_ e. l_in_use e \<and> l_ip e = net_ip) (s_leases s)"

definition find_by_any_ip_locked :: "dhcp \<Rightarrow> u32 \<Rightarrow> nat option" where
  "find_by_any_ip_locked s net_ip =
     first_slot
       (\<lambda>_ e. l_in_use e \<and> \<not> l_quarantined e \<and> (l_ip e = net_ip \<or> l_observed_ip e = net_ip))
       (s_leases s)"

definition ip_in_use_locked :: "int \<Rightarrow> dhcp \<Rightarrow> u32 \<Rightarrow> nat option \<Rightarrow> bool" where
  "ip_in_use_locked now s net_ip except \<longleftrightarrow>
     first_slot
       (\<lambda>i e. \<not> (\<not> l_in_use e \<or> Some i = except \<or> l_quarantined e) \<and>
              (l_observed_ip e = net_ip \<or> (l_ip e = net_ip \<and> l_expires_us e \<ge> now)))
       (s_leases s) \<noteq> None"

definition seen_this_boot :: "dhcp \<Rightarrow> lease \<Rightarrow> bool" where
  "seen_this_boot s e \<longleftrightarrow> l_last_seen_seq e \<ge> s_boot_seq s"

definition older_than :: "lease \<Rightarrow> lease \<Rightarrow> bool" where
  "older_than a b =
     (if l_last_seen_seq a \<noteq> l_last_seen_seq b then l_last_seen_seq a < l_last_seen_seq b
      else l_last_seen_us a < l_last_seen_us b)"

definition reclaimable_address :: "lease \<Rightarrow> u32 \<Rightarrow> u32 \<Rightarrow> u32" where
  "reclaimable_address e st en =
     (if ip_in_range (l_ip e) st en then l_ip e
      else if ip_in_range (l_observed_ip e) st en then l_observed_ip e
      else 0)"

section \<open>Reclaiming\<close>

text \<open>The guards of the inner loop of \<open>pick_victim_locked()\<close>, in the code's order.\<close>

definition victim_candidate ::
  "int \<Rightarrow> dhcp \<Rightarrow> nat \<Rightarrow> bool \<Rightarrow> u32 \<Rightarrow> u32 \<Rightarrow> lease \<Rightarrow> bool"
where
  "victim_candidate now s pass need_address st en e =
     (if \<not> l_in_use e \<or> seen_this_boot s e then False
      else let manual = (l_observed_ip e \<noteq> 0) in
        if manual \<noteq> (pass = 1) then False
        else if \<not> manual \<and> l_expires_us e \<ge> now then False
        else let ip = reclaimable_address e st en in
          \<not> (need_address \<and> (ip = 0 \<or> ip_declined s ip)))"

definition pick_victim_pass ::
  "int \<Rightarrow> dhcp \<Rightarrow> nat \<Rightarrow> bool \<Rightarrow> u32 \<Rightarrow> u32 \<Rightarrow> (nat \<times> u32) option"
where
  "pick_victim_pass now s pass need_address st en =
     map_option (\<lambda>(i, e). (i, reclaimable_address e st en))
       (best_slot (\<lambda>_. victim_candidate now s pass need_address st en) older_than 0 (s_leases s) None)"

text \<open>The result is the victim's slot with the address it releases (\<open>*out_ip\<close>).\<close>

definition pick_victim_locked ::
  "int \<Rightarrow> dhcp \<Rightarrow> bool \<Rightarrow> u32 \<Rightarrow> u32 \<Rightarrow> (nat \<times> u32) option"
where
  "pick_victim_locked now s need_address st en =
     (case pick_victim_pass now s 0 need_address st en of
        Some v \<Rightarrow> Some v
      | None \<Rightarrow> pick_victim_pass now s 1 need_address st en)"

definition reclaim_locked :: "int \<Rightarrow> dhcp \<Rightarrow> nat \<Rightarrow> dhcp" where
  "reclaim_locked now s i =
     (let e = s_leases s ! i;
          s = set_lease s i (e\<lparr>l_in_use := False\<rparr>)
      in if l_saved_ip e \<noteq> 0 \<or> l_saved_observed_ip e \<noteq> 0 then mark_dirty_locked now s else s)"

text \<open>Only the rate limiter of this function is state; its line goes to the log.\<close>

definition note_wired_range_full :: "int \<Rightarrow> dhcp \<Rightarrow> dhcp" where
  "note_wired_range_full now s =
     (let last = s_wired_full_last_us s in
      if last \<noteq> 0 \<and> now - last < WIRED_FULL_LOG_US then s
      else s\<lparr>s_wired_full_last_us := now\<rparr>)"

section \<open>Choosing an address\<close>

text \<open>
  Step 3: the first address of the range that no entry claims. The loop counts \<open>i\<close> from 0 to
  \<open>span\<close>; \<open>range_addresses\<close> is the candidates in the order it visits them.
\<close>

definition range_addresses :: "u32 \<Rightarrow> u32 \<Rightarrow> u32 list" where
  "range_addresses st en =
     map (\<lambda>i. ip_offset st (of_nat i)) [0..<Suc (unat (lwip_ntohl en - lwip_ntohl st))]"

definition first_free_address :: "dhcp \<Rightarrow> u32 \<Rightarrow> u32 \<Rightarrow> u32 option" where
  "first_free_address s st en =
     find (\<lambda>cand. \<not> (cand = s_server_ip s \<or> ip_declined s cand) \<and>
                  find_by_any_ip_locked s cand = None)
          (range_addresses st en)"

text \<open>
  The four steps, against one range. \<open>None\<close> is falling through all of them; otherwise the address
  is returned with the state, which only step 4 changes.
\<close>

definition select_steps ::
  "int \<Rightarrow> dhcp \<Rightarrow> nat option \<Rightarrow> u32 \<Rightarrow> u32 \<Rightarrow> u32 \<Rightarrow> (u32 \<times> dhcp) option"
where
  "select_steps now s mine requested st en =
     (let mine_ip = (case mine of
              None \<Rightarrow> None
            | Some i \<Rightarrow>
                let e = s_leases s ! i in
                if \<not> l_quarantined e \<and> ip_in_range (l_ip e) st en \<and> \<not> ip_declined s (l_ip e) \<and>
                   \<not> ip_in_use_locked now s (l_ip e) mine
                then Some (l_ip e) else None)
      in case mine_ip of
           Some ip \<Rightarrow> Some (ip, s)
         | None \<Rightarrow>
             if ip_in_range requested st en \<and> \<not> ip_declined s requested \<and>
                \<not> ip_in_use_locked now s requested mine
             then Some (requested, s)
             else case first_free_address s st en of
                 Some cand \<Rightarrow> Some (cand, s)
               | None \<Rightarrow>
                   map_option (\<lambda>(i, ip). (ip, reclaim_locked now s i))
                     (pick_victim_locked now s True st en))"

function select_address_locked ::
  "int \<Rightarrow> dhcp \<Rightarrow> mac \<Rightarrow> u32 \<Rightarrow> bool \<Rightarrow> u32 \<times> dhcp"
where
  "select_address_locked now s m requested wired =
     (let mine = find_by_mac_locked s m;
          st = (if wired \<and> s_wired_start s \<noteq> 0 then s_wired_start s else s_pool_start s);
          en = (if wired \<and> s_wired_start s \<noteq> 0 then s_wired_end s else s_pool_end s)
      in case select_steps now s mine requested st en of
           Some r \<Rightarrow> r
         | None \<Rightarrow>
             if wired \<and> st = s_wired_start s \<and> s_wired_start s \<noteq> 0
             then select_address_locked now (note_wired_range_full now s) m requested False
             else (0, s))"
  by pat_completeness auto
termination
  by (relation "measure (\<lambda>(now, s, m, requested, wired). if wired then 1 else 0)") auto

declare select_address_locked.simps [simp del]

section \<open>Recording a lease\<close>

text \<open>The entry \<open>take_free_slot_locked()\<close> leaves: zeroed, in use, keyed by the client.\<close>

definition fresh_lease :: "mac \<Rightarrow> lease" where
  "fresh_lease m = zero_lease\<lparr>l_in_use := True, l_mac := m\<rparr>"

definition take_free_slot_locked :: "int \<Rightarrow> dhcp \<Rightarrow> mac \<Rightarrow> nat option \<times> dhcp" where
  "take_free_slot_locked now s m =
     (case first_slot (\<lambda>_ e. \<not> l_in_use e) (s_leases s) of
        Some i \<Rightarrow> (Some i, set_lease s i (fresh_lease m))
      | None \<Rightarrow>
          (case pick_victim_locked now s False 0 0 of
             None \<Rightarrow> (None, s)
           | Some (i, _) \<Rightarrow> (Some i, set_lease (reclaim_locked now s i) i (fresh_lease m))))"

text \<open>The slot a commit writes: the client's own, or the one made for it.\<close>

definition commit_slot :: "int \<Rightarrow> dhcp \<Rightarrow> mac \<Rightarrow> nat option \<times> dhcp" where
  "commit_slot now s m =
     (case find_by_mac_locked s m of Some i \<Rightarrow> (Some i, s) | None \<Rightarrow> take_free_slot_locked now s m)"

text \<open>
  An address moving to a different client clears the old holder; dropping one that was in flash is
  itself a change worth writing.
\<close>

definition clear_clash :: "int \<Rightarrow> dhcp \<Rightarrow> nat \<Rightarrow> u32 \<Rightarrow> dhcp" where
  "clear_clash now s i ip =
     (case find_by_ip_locked s ip of
        None \<Rightarrow> s
      | Some c \<Rightarrow>
          if c \<noteq> i
          then let clash = s_leases s ! c;
                   s = set_lease s c (clash\<lparr>l_in_use := False\<rparr>)
               in if l_saved_ip clash \<noteq> 0 then mark_dirty_locked now s else s
          else s)"

definition commit_lease_locked ::
  "int \<Rightarrow> dhcp \<Rightarrow> mac \<Rightarrow> u32 \<Rightarrow> u32 \<Rightarrow> bool \<Rightarrow> bool \<times> dhcp"
where
  "commit_lease_locked now s m ip hold_s persist =
     (case commit_slot now s m of
        (None, s) \<Rightarrow> (False, s)
      | (Some i, s) \<Rightarrow>
          let s = clear_clash now s i ip;
              e = (s_leases s ! i)
                \<lparr>l_ip := ip, l_expires_us := now + uint hold_s * 1000000,
                 l_last_seen_seq := s_boot_seq s, l_last_seen_us := now\<rparr>;
              s = set_lease s i e
          in (True, if persist \<and> l_saved_ip e \<noteq> l_ip e then mark_dirty_locked now s else s))"

section \<open>Ranges\<close>

text \<open>
  A range that can be served: it has a start and does not run backwards, which is what
  \<open>dhcp_server_start()\<close> checks of both. Its candidates are then exactly its addresses, each once.
\<close>

definition valid_range :: "u32 \<Rightarrow> u32 \<Rightarrow> bool" where
  "valid_range st en \<longleftrightarrow> st \<noteq> 0 \<and> lwip_ntohl st \<le> lwip_ntohl en"

lemma range_addresses_iff:
  assumes "valid_range st en"
  shows "ip \<in> set (range_addresses st en) \<longleftrightarrow> ip_in_range ip st en"
proof -
  let ?a = "lwip_ntohl st" and ?b = "lwip_ntohl en"
  have ab: "?a \<le> ?b" "?a \<noteq> 0" using assms by (simp_all add: valid_range_def)
  have span: "unat (?b - ?a) = unat ?b - unat ?a"
    using ab(1) by (simp add: unat_sub)
  have "(\<exists>i\<le>unat (?b - ?a). v = ?a + of_nat i) \<longleftrightarrow> ?a \<le> v \<and> v \<le> ?b" for v :: u32
  proof
    assume "\<exists>i\<le>unat (?b - ?a). v = ?a + of_nat i"
    then obtain i where i: "i \<le> unat ?b - unat ?a" "v = ?a + of_nat i" by (auto simp: span)
    have lt: "unat ?a + i < 2 ^ 32"
      using i(1) ab(1) unsigned_less [of ?b, where 'a = nat] by (simp add: word_le_nat_alt)
    then have "unat v = unat ?a + i"
      using i(2) by (simp add: unat_word_ariths unat_of_nat)
    then show "?a \<le> v \<and> v \<le> ?b"
      using i(1) ab(1) by (simp add: word_le_nat_alt)
  next
    assume v: "?a \<le> v \<and> v \<le> ?b"
    then have "unat (v - ?a) \<le> unat (?b - ?a)"
      by (simp add: span unat_sub word_le_nat_alt diff_le_mono)
    moreover have "v = ?a + of_nat (unat (v - ?a))" by simp
    ultimately show "\<exists>i\<le>unat (?b - ?a). v = ?a + of_nat i" by blast
  qed
  then have "(\<exists>i\<le>unat (?b - ?a). ip = lwip_ntohl (?a + of_nat i)) \<longleftrightarrow> ?a \<le> lwip_ntohl ip \<and> lwip_ntohl ip \<le> ?b"
    by (metis ntohl_ntohl)
  moreover have "?a \<le> lwip_ntohl ip \<Longrightarrow> ip \<noteq> 0"
    using ab(2) by (auto simp: word_le_nat_alt unat_eq_0)
  ultimately show ?thesis
    using assms unfolding range_addresses_def ip_offset_def ip_in_range_def valid_range_def
    by (auto simp del: upt_Suc simp: less_Suc_eq_le image_iff)
qed

lemma distinct_range_addresses:
  assumes "valid_range st en"
  shows "distinct (range_addresses st en)"
proof -
  have "inj_on (\<lambda>i. ip_offset st (of_nat i)) {0..<Suc (unat (lwip_ntohl en - lwip_ntohl st))}"
  proof (rule inj_onI)
    fix i j assume "i \<in> {0..<Suc (unat (lwip_ntohl en - lwip_ntohl st))}"
      "j \<in> {0..<Suc (unat (lwip_ntohl en - lwip_ntohl st))}"
      "ip_offset st (of_nat i) = ip_offset st (of_nat j)"
    then have "(of_nat i :: u32) = of_nat j" "i < 2 ^ 32" "j < 2 ^ 32"
      using unsigned_less [of "lwip_ntohl en - lwip_ntohl st", where 'a = nat] by (auto simp: ip_offset_def)
    then show "i = j"
      by (simp add: word_of_nat_eq_iff take_bit_nat_eq_self) 
  qed
  then show ?thesis by (simp add: range_addresses_def distinct_map del: upt_Suc)
qed
lemma length_range_addresses:
  "length (range_addresses st en) = Suc (unat (lwip_ntohl en - lwip_ntohl st))"
  by (simp add: range_addresses_def del: upt_Suc)

section \<open>Frames\<close>

text \<open>What an operation never touches: everything but the table, the dirty mark and the log limiter.\<close>

definition same_config :: "dhcp \<Rightarrow> dhcp \<Rightarrow> bool" where
  "same_config s s' \<longleftrightarrow>
     s_declined s' = s_declined s \<and> s_server_ip s' = s_server_ip s \<and> s_netmask s' = s_netmask s \<and>
     s_pool_start s' = s_pool_start s \<and> s_pool_end s' = s_pool_end s \<and>
     s_wired_start s' = s_wired_start s \<and> s_wired_end s' = s_wired_end s \<and>
     s_boot_seq s' = s_boot_seq s \<and> s_restored_count s' = s_restored_count s \<and>
     s_ready s' = s_ready s \<and> s_flash s' = s_flash s"

lemma same_config_refl [simp]: "same_config s s"
  by (simp add: same_config_def)

lemma same_config_trans: "same_config s t \<Longrightarrow> same_config t u \<Longrightarrow> same_config s u"
  by (simp add: same_config_def)

lemma same_config_set_lease [simp]: "same_config s (set_lease s i e)"
  by (simp add: same_config_def set_lease_def)

lemma same_config_mark_dirty [simp]: "same_config s (mark_dirty_locked now s)"
  by (simp add: same_config_def mark_dirty_locked_def)

lemma same_config_note [simp]: "same_config s (note_wired_range_full now s)"
  by (simp add: same_config_def note_wired_range_full_def Let_def)

lemma leases_set_lease [simp, table_simps]: "s_leases (set_lease s i e) = (s_leases s)[i := e]"
  by (simp add: set_lease_def)

lemma leases_mark_dirty [simp, table_simps]: "s_leases (mark_dirty_locked now s) = s_leases s"
  by (simp add: mark_dirty_locked_def)

lemma leases_note [simp]: "s_leases (note_wired_range_full now s) = s_leases s"
  by (simp add: note_wired_range_full_def Let_def)

lemma leases_reclaim [simp, table_simps]:
  "s_leases (reclaim_locked now s i) = (s_leases s)[i := (s_leases s ! i)\<lparr>l_in_use := False\<rparr>]"
  by (simp add: reclaim_locked_def Let_def)

lemma same_config_reclaim [simp]: "same_config s (reclaim_locked now s i)"
  unfolding reclaim_locked_def Let_def
  by (simp add: same_config_trans [OF same_config_set_lease same_config_mark_dirty])

lemma declined_simps [simp]:
  "s_declined (set_lease s i e) = s_declined s"
  "s_declined (mark_dirty_locked now s) = s_declined s"
  "s_declined (reclaim_locked now s i) = s_declined s"
  by (simp_all add: set_lease_def mark_dirty_locked_def reclaim_locked_def Let_def)

lemma dirty_set_lease [simp]: "s_dirty (set_lease s i e) = s_dirty s"
  by (simp add: set_lease_def)

lemma dirty_mark_dirty [simp]: "s_dirty (mark_dirty_locked now s)"
  by (simp add: mark_dirty_locked_def)

lemma dirty_reclaim: "s_dirty s \<Longrightarrow> s_dirty (reclaim_locked now s i)"
  by (simp add: reclaim_locked_def Let_def)

text \<open>Reading through a change of state that leaves the table and the configuration alone.\<close>

lemma find_by_mac_cong: "s_leases s = s_leases t \<Longrightarrow> find_by_mac_locked s = find_by_mac_locked t"
  by (simp add: find_by_mac_locked_def fun_eq_iff)

lemma ip_declined_iff: "ip_declined s ip \<longleftrightarrow> ip \<in> set (s_declined s)"
  unfolding ip_declined_def by (auto simp: first_slot_None in_set_conv_nth)

lemma find_by_mac_lookup: "find_by_mac_locked s m = lookup_slot l_in_use l_mac m (s_leases s)"
  by (simp add: find_by_mac_locked_def lookup_slot_def)

section \<open>The table invariant\<close>

text \<open>
  The table always has its 32 slots, no client owns two entries, no address is leased to two
  entries, and at most 8 declined addresses are remembered.
\<close>

definition leased :: "lease \<Rightarrow> bool" where
  "leased e \<longleftrightarrow> l_in_use e \<and> l_ip e \<noteq> 0"

definition wf_dhcp :: "dhcp \<Rightarrow> bool" where
  "wf_dhcp s \<longleftrightarrow>
     length (s_leases s) = DHCP_SERVER_MAX_LEASES \<and>
     uniq_by l_in_use l_mac (s_leases s) \<and> uniq_by leased l_ip (s_leases s) \<and>
     length (s_declined s) \<le> MAX_DECLINED"

lemma wf_lan_dhcp: "wf_dhcp lan_dhcp"
  by (simp add: wf_dhcp_def lan_dhcp_def static_dhcp_def uniq_by_def leased_def zero_lease_def)

interpretation leases: slot_table l_in_use l_mac fresh_lease "\<lambda>_. True"
  by unfold_locales (simp_all add: fresh_lease_def)

lemma fresh_lease_simps [simp]:
  "l_in_use (fresh_lease m)" "l_mac (fresh_lease m) = m" "l_ip (fresh_lease m) = 0"
  "l_observed_ip (fresh_lease m) = 0" "l_saved_ip (fresh_lease m) = 0"
  "l_saved_observed_ip (fresh_lease m) = 0" "\<not> l_quarantined (fresh_lease m)"
  "l_expires_us (fresh_lease m) = 0"
  by (simp_all add: fresh_lease_def zero_lease_def)

lemma wf_dhcp_cong:
  "s_leases s = s_leases t \<Longrightarrow> s_declined s = s_declined t \<Longrightarrow> wf_dhcp s = wf_dhcp t"
  by (simp add: wf_dhcp_def)

lemma wf_mark_dirty [simp]: "wf_dhcp (mark_dirty_locked now s) = wf_dhcp s"
  by (rule wf_dhcp_cong) (simp_all add: mark_dirty_locked_def)

lemma wf_note [simp]: "wf_dhcp (note_wired_range_full now s) = wf_dhcp s"
  by (rule wf_dhcp_cong) (simp_all add: note_wired_range_full_def Let_def)

lemma wf_kill: "wf_dhcp s \<Longrightarrow> \<not> l_in_use e \<Longrightarrow> wf_dhcp (set_lease s i e)"
  by (simp add: wf_dhcp_def set_lease_def uniq_by_kill leased_def)

lemma wf_reclaim: "wf_dhcp s \<Longrightarrow> wf_dhcp (reclaim_locked now s i)"
  by (simp add: reclaim_locked_def Let_def wf_kill)

text \<open>An entry rewritten in place keeps the invariant when it stays the same client's and
  takes no address another entry has leased.\<close>

lemma wf_rewrite:
  assumes "wf_dhcp s" "i < length (s_leases s)"
    and "l_in_use e \<Longrightarrow> l_in_use (s_leases s ! i) \<and> l_mac (s_leases s ! i) = l_mac e"
    and "\<And>j. leased e \<Longrightarrow> j < length (s_leases s) \<Longrightarrow> j \<noteq> i \<Longrightarrow> leased (s_leases s ! j) \<Longrightarrow>
      l_ip (s_leases s ! j) \<noteq> l_ip e"
  shows "wf_dhcp (set_lease s i e)"
proof -
  have "uniq_by l_in_use l_mac ((s_leases s)[i := e])"
    using assms(1-3) by (intro uniq_by_same) (auto simp: wf_dhcp_def)
  moreover have "uniq_by leased l_ip ((s_leases s)[i := e])"
    using assms(1,4) by (intro uniq_by_update) (auto simp: wf_dhcp_def)
  ultimately show ?thesis using assms(1) by (simp add: wf_dhcp_def)
qed

lemma pick_victim_SomeD:
  assumes "pick_victim_locked now s need st en = Some (i, ip)"
  shows "i < length (s_leases s)" "l_in_use (s_leases s ! i)" "\<not> seen_this_boot s (s_leases s ! i)"
    "ip = reclaimable_address (s_leases s ! i) st en" "need \<Longrightarrow> ip \<noteq> 0 \<and> \<not> ip_declined s ip"
    "l_observed_ip (s_leases s ! i) = 0 \<Longrightarrow> l_expires_us (s_leases s ! i) < now"
  using assms unfolding pick_victim_locked_def pick_victim_pass_def
  by (auto split: option.splits if_splits dest!: best_slot_SomeD simp: victim_candidate_def Let_def)

lemma take_free_slot_wf:
  assumes "wf_dhcp s" "find_by_mac_locked s m = None" "take_free_slot_locked now s m = (r, s')"
  shows "wf_dhcp s'" "same_config s s'"
    "\<And>i. r = Some i \<Longrightarrow> i < length (s_leases s') \<and> s_leases s' ! i = fresh_lease m"
    "r = None \<Longrightarrow> s' = s"
    "\<And>i. r = Some i \<Longrightarrow> s_leases s' = (s_leases s)[i := fresh_lease m]"
proof -
  have none: "lookup_slot l_in_use l_mac m (s_leases s) = None"
    using assms(2) by (simp add: find_by_mac_lookup)
  have wf_claim: "wf_dhcp t" if "s_leases t = (s_leases s)[i := fresh_lease m]"
    "s_declined t = s_declined s" for t i
    using assms(1) that leases.claim_uniq [OF _ none]
    by (simp add: wf_dhcp_def uniq_by_kill leased_def)
  show "wf_dhcp s'" "same_config s s'"
    "\<And>i. r = Some i \<Longrightarrow> i < length (s_leases s') \<and> s_leases s' ! i = fresh_lease m"
    "r = None \<Longrightarrow> s' = s"
    "\<And>i. r = Some i \<Longrightarrow> s_leases s' = (s_leases s)[i := fresh_lease m]"
    using assms(1,3) unfolding take_free_slot_locked_def
    by (auto split: option.splits dest!: first_slot_SomeD pick_victim_SomeD(1)
        intro!: wf_claim same_config_trans [OF same_config_reclaim same_config_set_lease])
qed

end
