(* ===== verification/DhcpAlloc.thy ===== *)
theory DhcpAlloc
  imports DhcpLease
begin

text \<open>
  What the allocator of \<open>main/dhcp_server.c\<close> promises: which address \<open>select_address_locked\<close>
  returns, whom it takes one from when there is none left, that a pool of the size \<open>main.c\<close>
  configures never runs out, and what \<open>commit_lease_locked\<close> makes of the table.
\<close>

section \<open>Configurations\<close>

text \<open>The ranges as \<open>dhcp_server_start()\<close> leaves them.\<close>

definition ranges_ok :: "dhcp \<Rightarrow> bool" where
  "ranges_ok s \<longleftrightarrow>
     valid_range (s_pool_start s) (s_pool_end s) \<and>
     (s_wired_start s \<noteq> 0 \<longrightarrow>
        valid_range (s_wired_start s) (s_wired_end s) \<and>
        \<not> (lwip_ntohl (s_wired_start s) \<le> lwip_ntohl (s_pool_end s) \<and>
           lwip_ntohl (s_pool_start s) \<le> lwip_ntohl (s_wired_end s)) \<and>
        \<not> ip_in_range (s_server_ip s) (s_wired_start s) (s_wired_end s))"

definition in_pool :: "dhcp \<Rightarrow> u32 \<Rightarrow> bool" where
  "in_pool s ip \<longleftrightarrow> ip_in_range ip (s_pool_start s) (s_pool_end s)"

definition in_wired :: "dhcp \<Rightarrow> u32 \<Rightarrow> bool" where
  "in_wired s ip \<longleftrightarrow> ip_in_range ip (s_wired_start s) (s_wired_end s)"

lemma ranges_disjoint: "ranges_ok s \<Longrightarrow> in_pool s ip \<Longrightarrow> \<not> in_wired s ip"
  unfolding ranges_ok_def in_pool_def in_wired_def ip_in_range_def
  by (meson order_trans)

lemma ip_in_range_nonzero: "ip_in_range ip st en \<Longrightarrow> ip \<noteq> 0"
  by (simp add: ip_in_range_def)

lemma ranges_ok_frame: "same_config s s' \<Longrightarrow> ranges_ok s' = ranges_ok s"
  by (simp add: ranges_ok_def same_config_def)

lemma ranges_ok_note [simp]: "ranges_ok (note_wired_range_full now s) = ranges_ok s"
  by (rule ranges_ok_frame) simp

section \<open>The four steps\<close>

text \<open>Every way one range can give an address, with what the code has checked by then.\<close>

lemma select_steps_cases:
  assumes "select_steps now s mine requested st en = Some (ip, s')"
  obtains
    (own) i where "s' = s" "mine = Some i" "ip = l_ip (s_leases s ! i)"
      "\<not> l_quarantined (s_leases s ! i)" "ip_in_range ip st en" "\<not> ip_declined s ip"
      "\<not> ip_in_use_locked now s ip mine"
  | (asked) "s' = s" "ip = requested" "ip_in_range ip st en" "\<not> ip_declined s ip"
      "\<not> ip_in_use_locked now s ip mine"
  | (free) "s' = s" "first_free_address s st en = Some ip"
  | (reclaimed) i where "first_free_address s st en = None"
      "pick_victim_locked now s True st en = Some (i, ip)" "s' = reclaim_locked now s i"
proof -
  let ?own = "\<lambda>i e. \<not> l_quarantined e \<and> ip_in_range (l_ip e) st en \<and> \<not> ip_declined s (l_ip e) \<and>
    \<not> ip_in_use_locked now s (l_ip e) mine"
  consider (1) i where "mine = Some i" "?own i (s_leases s ! i)" "(ip, s') = (l_ip (s_leases s ! i), s)"
    | (2) "ip_in_range requested st en \<and> \<not> ip_declined s requested \<and>
        \<not> ip_in_use_locked now s requested mine" "(ip, s') = (requested, s)"
    | (3) c where "first_free_address s st en = Some c" "(ip, s') = (c, s)"
    | (4) "first_free_address s st en = None"
        "map_option (\<lambda>(i, ip). (ip, reclaim_locked now s i)) (pick_victim_locked now s True st en) = Some (ip, s')"
    using assms unfolding select_steps_def Let_def
    by (cases mine) (fastforce split: option.split_asm if_split_asm)+
  then show thesis
  proof cases
    case 1 then show thesis using own [of i] by blast
  next
    case 2 then show thesis by (intro asked) simp_all
  next
    case 3 then show thesis by (intro free) simp_all
  next
    case 4 then show thesis by (auto intro: reclaimed)
  qed
qed

lemma first_free_SomeD:
  assumes "first_free_address s st en = Some ip" "valid_range st en"
  shows "ip_in_range ip st en" "ip \<noteq> s_server_ip s" "\<not> ip_declined s ip"
    "find_by_any_ip_locked s ip = None"
  using assms range_addresses_iff [OF assms(2), of ip] unfolding first_free_address_def
  by (auto simp: find_Some_iff in_set_conv_nth)

lemma reclaimable_in_range:
  "reclaimable_address e st en \<noteq> 0 \<Longrightarrow> ip_in_range (reclaimable_address e st en) st en"
  by (auto simp: reclaimable_address_def)

text \<open>Whatever step answered, the address is one of the range that nobody has declined.\<close>

lemma select_steps_range:
  assumes "select_steps now s mine requested st en = Some (ip, s')" "valid_range st en"
  shows "ip_in_range ip st en \<and> \<not> ip_declined s ip"
  using assms(1)
proof (cases rule: select_steps_cases)
  case (reclaimed i)
  then show ?thesis
    using pick_victim_SomeD(4,5) [OF reclaimed(2)] reclaimable_in_range by simp
qed (use assms(2) first_free_SomeD in auto)

lemma select_steps_frame:
  assumes "select_steps now s mine requested st en = Some (ip, s')"
  shows "same_config s s' \<and> (wf_dhcp s \<longrightarrow> wf_dhcp s')"
  using assms by (cases rule: select_steps_cases) (simp_all add: wf_reclaim)

text \<open>The range a request is answered from, and the two ways a wired one ends in the pool.\<close>

lemma select_address_cases:
  assumes "select_address_locked now s m requested wired = (ip, s')"
  obtains
    (wired) "wired" "s_wired_start s \<noteq> 0"
      "select_steps now s (find_by_mac_locked s m) requested (s_wired_start s) (s_wired_end s) = Some (ip, s')"
  | (pool) s0 where "s0 = s \<or> (wired \<and> s0 = note_wired_range_full now s)"
      "select_steps now s0 (find_by_mac_locked s m) requested (s_pool_start s) (s_pool_end s) = Some (ip, s')"
  | (none) "ip = 0" "s' = s \<or> (wired \<and> s' = note_wired_range_full now s)"
      "select_steps now s' (find_by_mac_locked s m) requested (s_pool_start s) (s_pool_end s) = None"
proof -
  have plain: thesis
    if eq: "select_address_locked now t m requested w = (ip, s')"
      and "w \<longrightarrow> s_wired_start t = 0" and "t = s \<or> (wired \<and> t = note_wired_range_full now s)" for t w
  proof -
    have f: "find_by_mac_locked t m = find_by_mac_locked s m" "s_pool_start t = s_pool_start s"
      "s_pool_end t = s_pool_end s"
      using that(3) by (auto simp: find_by_mac_locked_def note_wired_range_full_def Let_def)
    show thesis
    proof (cases "select_steps now t (find_by_mac_locked s m) requested (s_pool_start s) (s_pool_end s)")
      case None
      have "(0, t) = (ip, s')"
        using eq that(2) None f by (subst (asm) select_address_locked.simps) (auto simp: Let_def)
      with None none that(3) show thesis by auto
    next
      case (Some r)
      have "r = (ip, s')"
        using eq that(2) Some f by (subst (asm) select_address_locked.simps) (auto simp: Let_def)
      with Some pool that(3) show thesis by blast
    qed
  qed
  show thesis
  proof (cases "wired \<and> s_wired_start s \<noteq> 0")
    case True
    show thesis
    proof (cases "select_steps now s (find_by_mac_locked s m) requested (s_wired_start s) (s_wired_end s)")
      case None
      have "select_address_locked now (note_wired_range_full now s) m requested False = (ip, s')"
        using assms True None by (subst (asm) select_address_locked.simps) (simp add: Let_def)
      then show thesis by (rule plain) (use True in simp_all)
    next
      case (Some r)
      have "r = (ip, s')"
        using assms True Some by (subst (asm) select_address_locked.simps) (simp add: Let_def)
      with Some True wired show thesis by blast
    qed
  next
    case False
    show thesis by (rule plain [OF assms]) (use False in auto)
  qed
qed

lemma same_config_declined: "same_config s s' \<Longrightarrow> ip_declined s' ip = ip_declined s ip"
  by (simp add: same_config_def ip_declined_def)

lemma select_address_frame:
  assumes "select_address_locked now s m requested wired = (ip, s')"
  shows "same_config s s' \<and> (wf_dhcp s \<longrightarrow> wf_dhcp s')"
  using assms
proof (cases rule: select_address_cases)
  case (pool s0)
  then show ?thesis
    using select_steps_frame [OF pool(2)] same_config_trans [OF same_config_note] by auto
qed (auto dest: select_steps_frame)

section \<open>Who is on an address\<close>

text \<open>
  An entry has a claim when its client was seen using the address, or holds an unexpired lease of
  it. A client that is cut off claims nothing.
\<close>

definition claims :: "int \<Rightarrow> lease \<Rightarrow> u32 \<Rightarrow> bool" where
  "claims now e ip \<longleftrightarrow>
     l_in_use e \<and> \<not> l_quarantined e \<and>
     (l_observed_ip e = ip \<or> (l_ip e = ip \<and> now \<le> l_expires_us e))"

lemma ip_in_use_iff:
  "ip_in_use_locked now s ip except \<longleftrightarrow>
     (\<exists>j<length (s_leases s). claims now (s_leases s ! j) ip \<and> Some j \<noteq> except)"
  unfolding ip_in_use_locked_def claims_def by (auto simp: first_slot_None)

lemma find_by_any_ip_None:
  "find_by_any_ip_locked s ip = None \<Longrightarrow> j < length (s_leases s) \<Longrightarrow> \<not> claims now (s_leases s ! j) ip"
  unfolding find_by_any_ip_locked_def claims_def by (auto simp: first_slot_None)

lemma select_steps_exclusive:
  assumes "select_steps now s mine requested st en = Some (ip, s')" "valid_range st en"
  shows "(\<forall>j<length (s_leases s). claims now (s_leases s ! j) ip \<longrightarrow> mine = Some j) \<or>
    (first_free_address s st en = None \<and>
     (\<exists>i. pick_victim_locked now s True st en = Some (i, ip) \<and> s' = reclaim_locked now s i))"
  using assms(1)
proof (cases rule: select_steps_cases)
  case free
  then show ?thesis
    using find_by_any_ip_None first_free_SomeD(4) [OF free(2) assms(2)] by blast
qed (auto simp: ip_in_use_iff)

lemma claims_nonzero_frame: "s_leases s = s_leases t \<Longrightarrow> find_by_any_ip_locked s = find_by_any_ip_locked t"
  by (simp add: find_by_any_ip_locked_def fun_eq_iff)

lemma note_reads [simp]:
  "find_by_any_ip_locked (note_wired_range_full now s) = find_by_any_ip_locked s"
  "ip_declined (note_wired_range_full now s) = ip_declined s"
  "seen_this_boot (note_wired_range_full now s) = seen_this_boot s"
  "s_server_ip (note_wired_range_full now s) = s_server_ip s"
  by (simp_all add: find_by_any_ip_locked_def ip_declined_def fun_eq_iff seen_this_boot_def
      note_wired_range_full_def Let_def)

lemma note_first_free [simp]: "first_free_address (note_wired_range_full now s) = first_free_address s"
  by (simp add: first_free_address_def fun_eq_iff)

lemma note_victim [simp]: "pick_victim_locked now (note_wired_range_full now s) = pick_victim_locked now s"
proof -
  have "victim_candidate now (note_wired_range_full now s) = victim_candidate now s"
    by (intro ext) (simp add: victim_candidate_def)
  then show ?thesis
    by (intro ext) (simp add: pick_victim_locked_def pick_victim_pass_def split: option.split)
qed

section \<open>Soundness of an allocation\<close>

lemma select_address_range:
  assumes "ranges_ok s" "select_address_locked now s m requested wired = (ip, s')" "ip \<noteq> 0"
  shows "\<not> ip_declined s ip \<and> (in_pool s ip \<or> wired \<and> in_wired s ip) \<and>
    (\<not> wired \<longrightarrow> \<not> in_wired s ip)"
proof -
  have "\<not> ip_declined s ip \<and> (in_pool s ip \<or> wired \<and> s_wired_start s \<noteq> 0 \<and> in_wired s ip)"
    using assms(2)
  proof (cases rule: select_address_cases)
    case wired
    then show ?thesis
      using select_steps_range [OF wired(3)] assms(1) by (simp add: ranges_ok_def in_wired_def)
  next
    case (pool s0)
    then have "ip_in_range ip (s_pool_start s) (s_pool_end s) \<and> \<not> ip_declined s0 ip"
      using select_steps_range [OF pool(2)] assms(1) by (simp add: ranges_ok_def)
    then show ?thesis using pool(1) by (auto simp: in_pool_def)
  qed (use assms(3) in simp)
  then show ?thesis using ranges_disjoint [OF assms(1)] by auto
qed

text \<open>\<open>select_address_locked\<close> only ever hands out an address of the range the request is
  served from, one that no client has declined this boot, and never one of the wired range to a
  client that asked over WiFi. A wired client may spill into the pool, never the other way.\<close>

theorem select_address_sound:
  assumes "ranges_ok s" "select_address_locked now s m requested wired = (ip, s')" "ip \<noteq> 0"
  shows "\<not> ip_declined s ip \<and> (in_pool s ip \<or> wired \<and> in_wired s ip) \<and>
    (\<not> wired \<longrightarrow> \<not> in_wired s ip)"
  using assms by (rule select_address_range)

lemma select_address_sound_witness:
  "\<not> ip_declined lan_dhcp (ip4 192 168 5 20) \<and> in_pool lan_dhcp (ip4 192 168 5 20) \<and>
   \<not> in_wired lan_dhcp (ip4 192 168 5 20)"
proof -
  have "ranges_ok lan_dhcp" "ip4 192 168 5 20 \<noteq> 0"
    "select_address_locked 5 lan_dhcp (Mac 2 0 0 0 0 1) (ip4 192 168 5 20) False =
      (ip4 192 168 5 20, lan_dhcp)" by code_simp+
  from select_address_sound [OF this(1,3,2)] show ?thesis by simp
qed

text \<open>Every address of a range is the bridge's own, declined, or on record for a client that is not cut off.\<close>

definition range_full :: "dhcp \<Rightarrow> u32 \<Rightarrow> u32 \<Rightarrow> bool" where
  "range_full s st en \<longleftrightarrow>
     (\<forall>a\<in>set (range_addresses st en). a = s_server_ip s \<or> ip_declined s a \<or>
       (\<exists>e\<in>set (s_leases s). l_in_use e \<and> \<not> l_quarantined e \<and> (l_ip e = a \<or> l_observed_ip e = a)))"

lemma first_free_None_full: "first_free_address s st en = None \<Longrightarrow> range_full s st en"
  by (fastforce simp: range_full_def first_free_address_def find_None_iff find_by_any_ip_locked_def
      dest: first_slot_SomeD)

lemma select_address_taken:
  assumes "ranges_ok s" "select_address_locked now s m requested wired = (ip, s')" "ip \<noteq> 0"
  shows "(\<forall>j<length (s_leases s). claims now (s_leases s ! j) ip \<longrightarrow> find_by_mac_locked s m = Some j) \<or>
    (\<exists>(st, en)\<in>{(s_pool_start s, s_pool_end s)} \<union> (if wired then {(s_wired_start s, s_wired_end s)} else {}).
       ip_in_range ip st en \<and> range_full s st en) \<and>
    (\<exists>i<length (s_leases s).
       s_leases s' = (s_leases s)[i := (s_leases s ! i)\<lparr>l_in_use := False\<rparr>] \<and>
       l_in_use (s_leases s ! i) \<and> \<not> seen_this_boot s (s_leases s ! i) \<and>
       (l_ip (s_leases s ! i) = ip \<or> l_observed_ip (s_leases s ! i) = ip))"
proof -
  have victim: "\<exists>i<length (s_leases s).
       s_leases s' = (s_leases s)[i := (s_leases s ! i)\<lparr>l_in_use := False\<rparr>] \<and>
       l_in_use (s_leases s ! i) \<and> \<not> seen_this_boot s (s_leases s ! i) \<and>
       (l_ip (s_leases s ! i) = ip \<or> l_observed_ip (s_leases s ! i) = ip)"
    if v: "pick_victim_locked now s True st en = Some (i, ip)"
      and l: "s_leases s' = (s_leases s)[i := (s_leases s ! i)\<lparr>l_in_use := False\<rparr>]" for i st en
    using pick_victim_SomeD [OF v] l by (auto simp: reclaimable_address_def split: if_splits)
  show ?thesis
    using assms(2)
  proof (cases rule: select_address_cases)
    case wired
    have r: "valid_range (s_wired_start s) (s_wired_end s)"
      using assms(1) wired(2) by (simp add: ranges_ok_def)
    have in_range: "ip_in_range ip (s_wired_start s) (s_wired_end s)"
      using select_steps_range [OF wired(3)] r by simp
    from select_steps_exclusive [OF wired(3) r] show ?thesis
    proof
      assume "first_free_address s (s_wired_start s) (s_wired_end s) = None \<and>
        (\<exists>i. pick_victim_locked now s True (s_wired_start s) (s_wired_end s) = Some (i, ip) \<and> s' = reclaim_locked now s i)"
      then show ?thesis using victim first_free_None_full in_range wired(1) by fastforce
    qed blast
  next
    case (pool s0)
    have s0: "s_leases s0 = s_leases s" "pick_victim_locked now s0 = pick_victim_locked now s"
      "first_free_address s0 = first_free_address s"
      using pool(1) by auto
    have r: "valid_range (s_pool_start s) (s_pool_end s)" using assms(1) by (simp add: ranges_ok_def)
    have in_range: "ip_in_range ip (s_pool_start s) (s_pool_end s)"
      using select_steps_range [OF pool(2)] r by simp
    from select_steps_exclusive [OF pool(2) r] show ?thesis unfolding s0
    proof
      assume "first_free_address s (s_pool_start s) (s_pool_end s) = None \<and>
        (\<exists>i. pick_victim_locked now s True (s_pool_start s) (s_pool_end s) = Some (i, ip) \<and> s' = reclaim_locked now s0 i)"
      then show ?thesis using victim first_free_None_full in_range s0(1) by fastforce
    qed blast
  qed (use assms(3) in simp)
qed

lemma select_address_claims:
  assumes "ranges_ok s" "select_address_locked now s m requested wired = (ip, s')" "ip \<noteq> 0"
  shows "(\<forall>j<length (s_leases s). claims now (s_leases s ! j) ip \<longrightarrow> find_by_mac_locked s m = Some j) \<or>
    (\<exists>i<length (s_leases s).
       s_leases s' = (s_leases s)[i := (s_leases s ! i)\<lparr>l_in_use := False\<rparr>] \<and>
       l_in_use (s_leases s ! i) \<and> \<not> seen_this_boot s (s_leases s ! i) \<and>
       (l_ip (s_leases s ! i) = ip \<or> l_observed_ip (s_leases s ! i) = ip))"
  using select_address_taken [OF assms] by blast

text \<open>C5: the address given is on nobody else. The one exception is a range, the one asked for or the
  pool, in which every address is the bridge's own, declined or on record for a client; and then the
  address is one of that range, taken from an entry that is dropped in the same step, was not heard
  from since boot, and held the address.\<close>

theorem select_address_exclusive:
  assumes "ranges_ok s" "select_address_locked now s m requested wired = (ip, s')" "ip \<noteq> 0"
  shows "(\<forall>j<length (s_leases s). claims now (s_leases s ! j) ip \<longrightarrow> find_by_mac_locked s m = Some j) \<or>
    (\<exists>(st, en)\<in>{(s_pool_start s, s_pool_end s)} \<union> (if wired then {(s_wired_start s, s_wired_end s)} else {}).
       ip_in_range ip st en \<and> range_full s st en) \<and>
    (\<exists>i<length (s_leases s).
       s_leases s' = (s_leases s)[i := (s_leases s ! i)\<lparr>l_in_use := False\<rparr>] \<and>
       l_in_use (s_leases s ! i) \<and> \<not> seen_this_boot s (s_leases s ! i) \<and>
       (l_ip (s_leases s ! i) = ip \<or> l_observed_ip (s_leases s ! i) = ip))"
  using assms by (rule select_address_taken)

lemma select_address_exclusive_witness:
  "let s = lan_dhcp\<lparr>s_wired_end := ip4 192 168 5 2, s_leases :=
         (fresh_lease (Mac 2 0 0 0 0 1))\<lparr>l_ip := ip4 192 168 5 2\<rparr> #
         (fresh_lease (Mac 2 0 0 0 0 2))\<lparr>l_observed_ip := ip4 192 168 5 2, l_last_seen_seq := 1\<rparr> #
         replicate 30 zero_lease\<rparr>;
       s' = snd (select_address_locked 5 s (Mac 2 0 0 0 0 3) 0 True)
   in (\<exists>i. s_leases s' = (s_leases s)[i := (s_leases s ! i)\<lparr>l_in_use := False\<rparr>] \<and>
          \<not> seen_this_boot s (s_leases s ! i)) \<and> (\<exists>st en. range_full s st en)"
proof -
  define s where "s = lan_dhcp\<lparr>s_wired_end := ip4 192 168 5 2, s_leases :=
    (fresh_lease (Mac 2 0 0 0 0 1))\<lparr>l_ip := ip4 192 168 5 2\<rparr> #
    (fresh_lease (Mac 2 0 0 0 0 2))\<lparr>l_observed_ip := ip4 192 168 5 2, l_last_seen_seq := 1\<rparr> #
    replicate 30 zero_lease\<rparr>"
  have f: "ranges_ok s" "ip4 192 168 5 2 \<noteq> 0"
    "fst (select_address_locked 5 s (Mac 2 0 0 0 0 3) 0 True) = ip4 192 168 5 2"
    "find_by_mac_locked s (Mac 2 0 0 0 0 3) = None" "claims 5 (s_leases s ! 1) (ip4 192 168 5 2)"
    unfolding s_def by code_simp+
  have "1 < length (s_leases s)" by (simp add: s_def)
  then have "\<not> (\<forall>j<length (s_leases s). claims 5 (s_leases s ! j) (ip4 192 168 5 2) \<longrightarrow>
      find_by_mac_locked s (Mac 2 0 0 0 0 3) = Some j)"
    using f(4,5) by auto
  with select_address_exclusive [OF f(1) prod.collapse [symmetric], of 5 "Mac 2 0 0 0 0 3" 0 True, unfolded f(3), OF f(2)]
  show ?thesis unfolding Let_def s_def [symmetric] by blast
qed

lemma select_address_own:
  assumes "find_by_mac_locked s m = Some i" "\<not> l_quarantined (s_leases s ! i)"
    and "if wired \<and> s_wired_start s \<noteq> 0 then in_wired s (l_ip (s_leases s ! i))
         else in_pool s (l_ip (s_leases s ! i))"
    and "\<not> ip_declined s (l_ip (s_leases s ! i))"
    and "\<forall>j<length (s_leases s). claims now (s_leases s ! j) (l_ip (s_leases s ! i)) \<longrightarrow> j = i"
  shows "select_address_locked now s m requested wired = (l_ip (s_leases s ! i), s)"
proof -
  have "\<not> ip_in_use_locked now s (l_ip (s_leases s ! i)) (Some i)"
    using assms(5) by (auto simp: ip_in_use_iff)
  then have own: "ip_in_range (l_ip (s_leases s ! i)) st en \<Longrightarrow>
      select_steps now s (Some i) requested st en = Some (l_ip (s_leases s ! i), s)" for st en
    using assms(2,4) by (simp add: select_steps_def Let_def)
  show ?thesis
    using assms(1,3) unfolding select_address_locked.simps [of now s m requested wired] in_wired_def in_pool_def
    by (cases "wired \<and> s_wired_start s \<noteq> 0") (auto simp: Let_def own)
qed

text \<open>The sticky reservation. A client whose stored address lies in the range its request is
  served from, is not declined, not cut off and not claimed by somebody else is given exactly that
  address, whatever it asks for and whoever asked before it, and the table does not change.\<close>

theorem select_address_sticky:
  assumes "find_by_mac_locked s m = Some i" "\<not> l_quarantined (s_leases s ! i)"
    and "if wired \<and> s_wired_start s \<noteq> 0 then in_wired s (l_ip (s_leases s ! i))
         else in_pool s (l_ip (s_leases s ! i))"
    and "\<not> ip_declined s (l_ip (s_leases s ! i))"
    and "\<forall>j<length (s_leases s). claims now (s_leases s ! j) (l_ip (s_leases s ! i)) \<longrightarrow> j = i"
  shows "select_address_locked now s m requested wired = (l_ip (s_leases s ! i), s)"
  using assms by (rule select_address_own)

lemma select_address_sticky_witness:
  "let s = lan_dhcp\<lparr>s_leases :=
         (fresh_lease (Mac 2 0 0 0 0 1))\<lparr>l_ip := ip4 192 168 5 33\<rparr> # replicate 31 zero_lease\<rparr>
   in select_address_locked 5 s (Mac 2 0 0 0 0 1) (ip4 192 168 5 44) False = (ip4 192 168 5 33, s)"
proof -
  let ?s = "lan_dhcp\<lparr>s_leases :=
    (fresh_lease (Mac 2 0 0 0 0 1))\<lparr>l_ip := ip4 192 168 5 33\<rparr> # replicate 31 zero_lease\<rparr>"
  have "find_by_mac_locked ?s (Mac 2 0 0 0 0 1) = Some 0" "in_pool ?s (ip4 192 168 5 33)"
    "\<not> ip_declined ?s (ip4 192 168 5 33)"
    by code_simp+
  moreover have "\<forall>j<length (s_leases ?s). claims 5 (s_leases ?s ! j) (ip4 192 168 5 33) \<longrightarrow> j = 0"
    by (auto simp: nth_Cons' claims_def zero_lease_def)
  ultimately show ?thesis
    using select_address_sticky [of ?s "Mac 2 0 0 0 0 1" 0 False 5 "ip4 192 168 5 44"]
    by (simp add: Let_def)
qed

section \<open>Whom an address is taken from\<close>

lemma older_than_order:
  "\<not> older_than x x"
  "older_than x y \<Longrightarrow> older_than y z \<Longrightarrow> older_than x z"
  "\<not> older_than x y \<Longrightarrow> \<not> older_than y z \<Longrightarrow> \<not> older_than x z"
  by (auto simp: older_than_def split: if_splits)

lemma best_slot_oldest:
  assumes "best_slot ok older_than k xs None = Some (i, e)"
  shows "\<forall>j<length xs. ok (k + j) (xs ! j) \<longrightarrow> \<not> older_than (xs ! j) e"
  by (rule best_slot_best [where better = older_than, THEN conjunct1, OF _ _ _ assms])
    (fact older_than_order)+

text \<open>The victim is the stalest entry of the gentlest class: it was not heard from since boot,
  no candidate of its class is older, and an entry that holds a self-assigned address is given up
  only when no lapsed plain lease could be.\<close>

theorem pick_victim_oldest:
  assumes "pick_victim_locked now s need st en = Some (i, ip)"
  shows "\<exists>pass. victim_candidate now s pass need st en (s_leases s ! i) \<and>
    (\<forall>j<length (s_leases s). victim_candidate now s pass need st en (s_leases s ! j) \<longrightarrow>
       \<not> older_than (s_leases s ! j) (s_leases s ! i)) \<and>
    (l_observed_ip (s_leases s ! i) \<noteq> 0 \<longrightarrow>
       (\<forall>j<length (s_leases s). \<not> victim_candidate now s 0 need st en (s_leases s ! j)))"
proof -
  have best: "victim_candidate now s p need st en (s_leases s ! i) \<and>
      (\<forall>j<length (s_leases s). victim_candidate now s p need st en (s_leases s ! j) \<longrightarrow>
         \<not> older_than (s_leases s ! j) (s_leases s ! i))"
    if "pick_victim_pass now s p need st en = Some (i, ip)" for p
  proof -
    from that obtain e where e:
      "best_slot (\<lambda>_. victim_candidate now s p need st en) older_than 0 (s_leases s) None = Some (i, e)"
      by (auto simp: pick_victim_pass_def)
    show ?thesis
      using best_slot_SomeD [OF e] best_slot_oldest [OF e] by auto
  qed
  show ?thesis
  proof (cases "pick_victim_pass now s 0 need st en")
    case None
    then have "pick_victim_pass now s 1 need st en = Some (i, ip)"
      using assms by (simp add: pick_victim_locked_def)
    moreover have "\<forall>j<length (s_leases s). \<not> victim_candidate now s 0 need st en (s_leases s ! j)"
      using None by (simp add: pick_victim_pass_def best_slot_None)
    ultimately show ?thesis using best by blast
  next
    case (Some v)
    then have "pick_victim_pass now s 0 need st en = Some (i, ip)"
      using assms by (simp add: pick_victim_locked_def)
    moreover from best [OF this] have "l_observed_ip (s_leases s ! i) = 0"
      by (auto simp: victim_candidate_def Let_def split: if_splits)
    ultimately show ?thesis using best by blast
  qed
qed

lemma pick_victim_oldest_witness:
  "let s = lan_dhcp\<lparr>s_boot_seq := 4, s_leases :=
         (fresh_lease (Mac 2 0 0 0 0 1))\<lparr>l_last_seen_seq := 3\<rparr> #
         (fresh_lease (Mac 2 0 0 0 0 2))\<lparr>l_last_seen_seq := 2\<rparr> # replicate 30 zero_lease\<rparr>
   in \<exists>pass. victim_candidate 5 s pass False 0 0 (s_leases s ! 1)"
proof -
  let ?s = "lan_dhcp\<lparr>s_boot_seq := 4, s_leases :=
    (fresh_lease (Mac 2 0 0 0 0 1))\<lparr>l_last_seen_seq := 3\<rparr> #
    (fresh_lease (Mac 2 0 0 0 0 2))\<lparr>l_last_seen_seq := 2\<rparr> # replicate 30 zero_lease\<rparr>"
  have "pick_victim_locked 5 ?s False 0 0 = Some (1, 0)" by code_simp
  from pick_victim_oldest [OF this] show ?thesis unfolding Let_def by blast
qed

section \<open>A pool that cannot run out\<close>

text \<open>Everything an address can be refused for in step 3: two addresses an entry, the declined
  ones, the server's own.\<close>

definition blocked :: "dhcp \<Rightarrow> u32 set" where
  "blocked s = l_ip ` set (s_leases s) \<union> l_observed_ip ` set (s_leases s) \<union>
     set (s_declined s) \<union> {s_server_ip s}"

lemma card_blocked:
  assumes "wf_dhcp s"
  shows "card (blocked s) \<le> 73" "finite (blocked s)"
proof -
  have n: "card (set (s_leases s)) \<le> 32"
    using assms card_length [of "s_leases s"] by (simp add: wf_dhcp_def)
  have "card (l_ip ` set (s_leases s)) \<le> 32" "card (l_observed_ip ` set (s_leases s)) \<le> 32"
    using card_image_le [OF finite_set] n le_trans by blast+
  moreover have "card (set (s_declined s)) \<le> 8"
    using assms card_length [of "s_declined s"] by (simp add: wf_dhcp_def)
  ultimately show "card (blocked s) \<le> 73"
    unfolding blocked_def
    using card_Un_le [of "l_ip ` set (s_leases s)" "l_observed_ip ` set (s_leases s)"]
      card_Un_le [of "l_ip ` set (s_leases s) \<union> l_observed_ip ` set (s_leases s)" "set (s_declined s)"]
      card_Un_le [of "l_ip ` set (s_leases s) \<union> l_observed_ip ` set (s_leases s) \<union> set (s_declined s)"
        "{s_server_ip s}"]
    by simp
  show "finite (blocked s)" by (simp add: blocked_def)
qed

lemma find_by_any_ip_SomeD:
  "find_by_any_ip_locked s ip = Some i \<Longrightarrow>
     i < length (s_leases s) \<and> (l_ip (s_leases s ! i) = ip \<or> l_observed_ip (s_leases s ! i) = ip)"
  unfolding find_by_any_ip_locked_def by (drule first_slot_SomeD) blast

lemma first_free_None_blocked:
  assumes "first_free_address s st en = None"
  shows "set (range_addresses st en) \<subseteq> blocked s"
proof
  fix x assume "x \<in> set (range_addresses st en)"
  with assms consider "x = s_server_ip s" | "x \<in> set (s_declined s)" | i where "find_by_any_ip_locked s x = Some i"
    unfolding first_free_address_def find_None_iff by (auto simp: ip_declined_iff)
  then show "x \<in> blocked s"
    by cases (auto simp: blocked_def dest: find_by_any_ip_SomeD)
qed

lemma first_free_exists:
  assumes "wf_dhcp s" "valid_range st en" "73 < length (range_addresses st en)"
  shows "first_free_address s st en \<noteq> None"
proof
  assume "first_free_address s st en = None"
  then have "card (set (range_addresses st en)) \<le> 73"
    using card_mono [OF card_blocked(2) [OF assms(1)] first_free_None_blocked] card_blocked(1) [OF assms(1)]
      le_trans by blast
  then show False
    using assms(3) distinct_card [OF distinct_range_addresses [OF assms(2)]] by simp
qed

lemma select_address_pool:
  assumes "ranges_ok s" "wf_dhcp s" "73 < length (range_addresses (s_pool_start s) (s_pool_end s))"
  shows "fst (select_address_locked now s m requested wired) \<noteq> 0 \<and>
    (\<not> wired \<longrightarrow> snd (select_address_locked now s m requested wired) = s)"
proof -
  obtain ip s' where r: "select_address_locked now s m requested wired = (ip, s')" by fastforce
  have free: "first_free_address t (s_pool_start s) (s_pool_end s) \<noteq> None"
    if "t = s \<or> wired \<and> t = note_wired_range_full now s" for t
    using first_free_exists [of t "s_pool_start s" "s_pool_end s"] assms that
    by (auto simp: ranges_ok_def)
  from r have "ip \<noteq> 0 \<and> (\<not> wired \<longrightarrow> s' = s)"
  proof (cases rule: select_address_cases)
    case wired
    then show ?thesis
      using select_steps_range [OF wired(3)] assms(1) ip_in_range_nonzero by (auto simp: ranges_ok_def)
  next
    case (pool s0)
    have "ip \<noteq> 0"
      using select_steps_range [OF pool(2)] assms(1) ip_in_range_nonzero by (auto simp: ranges_ok_def)
    moreover have "s' = s0"
      using pool(2) by (cases rule: select_steps_cases) (use free [OF pool(1)] in auto)
    ultimately show ?thesis using pool(1) by auto
  next
    case none
    then show ?thesis
      using free [OF none(2)] by (auto simp: select_steps_def Let_def split: option.splits if_splits)
  qed
  then show ?thesis using r by auto
qed

text \<open>C22: with at least 74 addresses (\<open>main.c\<close> configures 92) the WiFi pool never runs out: however
  the 32 entries and the 8 declined addresses lie, every client that asks is given an address,
  and a WiFi client is given one without any entry being reclaimed.\<close>

theorem pool_never_exhausted:
  assumes "ranges_ok s" "wf_dhcp s" "73 < length (range_addresses (s_pool_start s) (s_pool_end s))"
  shows "fst (select_address_locked now s m requested wired) \<noteq> 0 \<and>
    (\<not> wired \<longrightarrow> snd (select_address_locked now s m requested wired) = s)"
  using assms by (rule select_address_pool)

lemma pool_never_exhausted_witness:
  "fst (select_address_locked 5 lan_dhcp (Mac 2 0 0 0 0 1) 0 False) \<noteq> 0 \<and>
   snd (select_address_locked 5 lan_dhcp (Mac 2 0 0 0 0 1) 0 False) = lan_dhcp"
proof -
  have "ranges_ok lan_dhcp" by code_simp
  moreover have "73 < length (range_addresses (s_pool_start lan_dhcp) (s_pool_end lan_dhcp))"
    unfolding length_range_addresses by code_simp
  ultimately show ?thesis using pool_never_exhausted [OF _ wf_lan_dhcp] by blast
qed

section \<open>Recording a lease\<close>

text \<open>The entry a commit leaves, and the table around it.\<close>

lemma find_by_ip_lookup:
  "ip \<noteq> 0 \<Longrightarrow> find_by_ip_locked s ip = lookup_slot leased l_ip ip (s_leases s)"
  unfolding find_by_ip_locked_def lookup_slot_def leased_def
  by (rule arg_cong [where f = "\<lambda>P. first_slot P (s_leases s)"]) auto

lemma find_by_mac_SomeD:
  "find_by_mac_locked s m = Some i \<Longrightarrow>
     i < length (s_leases s) \<and> l_in_use (s_leases s ! i) \<and> l_mac (s_leases s ! i) = m"
  unfolding find_by_mac_lookup by (rule lookup_slot_SomeD)

lemma find_by_mac_unique:
  "wf_dhcp s \<Longrightarrow> i < length (s_leases s) \<Longrightarrow> l_in_use (s_leases s ! i) \<Longrightarrow>
     find_by_mac_locked s (l_mac (s_leases s ! i)) = Some i"
  unfolding find_by_mac_lookup by (rule lookup_slot_unique) (simp_all add: wf_dhcp_def)

lemma find_by_ip_unique:
  "wf_dhcp s \<Longrightarrow> i < length (s_leases s) \<Longrightarrow> leased (s_leases s ! i) \<Longrightarrow>
     find_by_ip_locked s (l_ip (s_leases s ! i)) = Some i"
  by (subst find_by_ip_lookup) (auto simp: leased_def wf_dhcp_def intro: lookup_slot_unique)

lemma commit_slot_wf:
  assumes "wf_dhcp s" "commit_slot now s m = (Some i, t)"
  shows "wf_dhcp t" "same_config s t" "i < length (s_leases t)" "l_in_use (s_leases t ! i)"
    "l_mac (s_leases t ! i) = m" "s_leases t = (s_leases s)[i := s_leases t ! i]"
    "find_by_mac_locked s m = Some i \<and> t = s \<or>
     find_by_mac_locked s m = None \<and> s_leases t ! i = fresh_lease m"
proof -
  have "wf_dhcp t \<and> same_config s t \<and> i < length (s_leases t) \<and> l_in_use (s_leases t ! i) \<and>
    l_mac (s_leases t ! i) = m \<and> s_leases t = (s_leases s)[i := s_leases t ! i] \<and>
    (find_by_mac_locked s m = Some i \<and> t = s \<or>
     find_by_mac_locked s m = None \<and> s_leases t ! i = fresh_lease m)"
  proof (cases "find_by_mac_locked s m")
    case None
    then have "take_free_slot_locked now s m = (Some i, t)" using assms(2) by (simp add: commit_slot_def)
    from take_free_slot_wf [OF assms(1) None this] None show ?thesis by simp
  next
    case (Some k)
    then show ?thesis using assms find_by_mac_SomeD [OF Some] by (simp add: commit_slot_def)
  qed
  then show "wf_dhcp t" "same_config s t" "i < length (s_leases t)" "l_in_use (s_leases t ! i)"
    "l_mac (s_leases t ! i) = m" "s_leases t = (s_leases s)[i := s_leases t ! i]"
    "find_by_mac_locked s m = Some i \<and> t = s \<or>
     find_by_mac_locked s m = None \<and> s_leases t ! i = fresh_lease m"
    by blast+
qed

lemma clear_clash_cases:
  obtains "clear_clash now s i ip = s" "\<And>c. find_by_ip_locked s ip = Some c \<Longrightarrow> c = i"
  | c t where "find_by_ip_locked s ip = Some c" "c \<noteq> i" "t = set_lease s c ((s_leases s ! c)\<lparr>l_in_use := False\<rparr>)"
      "clear_clash now s i ip = t \<or> clear_clash now s i ip = mark_dirty_locked now t"
proof (cases "find_by_ip_locked s ip")
  case None
  then show thesis by (intro that(1)) (simp_all add: clear_clash_def)
next
  case (Some c)
  show thesis
  proof (cases "c = i")
    case True
    with Some show thesis by (intro that(1)) (simp_all add: clear_clash_def)
  next
    case False
    then show thesis by (intro that(2) [OF Some _ refl]) (simp_all add: clear_clash_def Let_def Some)
  qed
qed

lemma clear_clash_wf:
  assumes "wf_dhcp s" "i < length (s_leases s)" "ip \<noteq> 0" and t_def: "t = clear_clash now s i ip"
  shows "wf_dhcp t \<and> same_config s t \<and> length (s_leases t) = length (s_leases s) \<and>
    s_leases t ! i = s_leases s ! i \<and>
    (\<forall>j<length (s_leases s). j \<noteq> i \<longrightarrow>
       (leased (s_leases t ! j) \<longrightarrow> l_ip (s_leases t ! j) \<noteq> ip) \<and>
       (s_leases t ! j = s_leases s ! j \<or>
        l_ip (s_leases s ! j) = ip \<and> s_leases t ! j = (s_leases s ! j)\<lparr>l_in_use := False\<rparr>))"
proof (cases rule: clear_clash_cases [of now s i ip])
  case 1
  have "l_ip (s_leases s ! j) \<noteq> ip" if "j < length (s_leases s)" "j \<noteq> i" "leased (s_leases s ! j)" for j
    using find_by_ip_unique [OF assms(1) that(1,3)] 1(2) [of j] that(2) by auto
  then show ?thesis using 1(1) assms(1) by (simp add: t_def)
next
  case (2 c u)
  have c: "c < length (s_leases s)" "l_in_use (s_leases s ! c)" "l_ip (s_leases s ! c) = ip"
    using 2(1) unfolding find_by_ip_locked_def by (auto dest: first_slot_SomeD)
  have tu: "s_leases t = (s_leases s)[c := (s_leases s ! c)\<lparr>l_in_use := False\<rparr>]" "wf_dhcp t = wf_dhcp u"
    "same_config s t"
    using 2(3,4) same_config_trans [OF same_config_set_lease same_config_mark_dirty] by (auto simp: t_def)
  have "l_ip (s_leases s ! j) \<noteq> ip" if "j < length (s_leases s)" "j \<noteq> c" "leased (s_leases s ! j)" for j
    using find_by_ip_unique [OF assms(1) that(1,3)] 2(1) that(2) by auto
  then show ?thesis
    using c 2(2) tu wf_kill [OF assms(1)] by (auto simp: 2(3) nth_list_update leased_def)
qed

lemma commit_lease_spec:
  assumes "wf_dhcp s" "ip \<noteq> 0" "commit_lease_locked now s m ip hold_s persist = (True, s')"
  shows "wf_dhcp s' \<and> same_config s s' \<and>
    (\<exists>i. find_by_mac_locked s' m = Some i \<and> find_by_ip_locked s' ip = Some i \<and>
       l_ip (s_leases s' ! i) = ip \<and> l_expires_us (s_leases s' ! i) = now + uint hold_s * 1000000 \<and>
       seen_this_boot s' (s_leases s' ! i) \<and>
       (\<forall>j<length (s_leases s). j \<noteq> i \<longrightarrow> s_leases s' ! j = s_leases s ! j \<or>
          l_ip (s_leases s ! j) = ip \<and> \<not> l_in_use (s_leases s' ! j)))"
proof -
  obtain i t where it: "commit_slot now s m = (Some i, t)"
    using assms(3) by (auto simp: commit_lease_locked_def split: prod.splits option.splits)
  note t = commit_slot_wf [OF assms(1) it]
  define u where "u = clear_clash now t i ip"
  note u = clear_clash_wf [OF t(1,3) assms(2) u_def]
  define e where "e = (s_leases u ! i)
    \<lparr>l_ip := ip, l_expires_us := now + uint hold_s * 1000000, l_last_seen_seq := s_boot_seq u,
     l_last_seen_us := now\<rparr>"
  have len: "i < length (s_leases u)" using t(3) u by simp
  have s': "s' = set_lease u i e \<or> s' = mark_dirty_locked now (set_lease u i e)"
    using assms(3) it by (auto simp: commit_lease_locked_def Let_def u_def e_def split: if_splits)
  then have leases: "s_leases s' = (s_leases u)[i := e]" and wf: "wf_dhcp s' = wf_dhcp (set_lease u i e)"
    and cfg: "same_config u s'"
    using same_config_trans [OF same_config_set_lease same_config_mark_dirty] by auto
  have "wf_dhcp (set_lease u i e)"
    using u t len by (intro wf_rewrite) (auto simp: e_def)
  then have wf': "wf_dhcp s'" using wf by simp
  have e: "s_leases s' ! i = e" "i < length (s_leases s')" "l_in_use e" "leased e" "l_mac e = m" "l_ip e = ip"
    using leases len u t assms(2) by (simp_all add: e_def leased_def)
  have boot: "s_boot_seq s' = s_boot_seq u" using cfg by (simp add: same_config_def)
  have others: "s_leases s' ! j = s_leases s ! j \<or> l_ip (s_leases s ! j) = ip \<and> \<not> l_in_use (s_leases s' ! j)"
    if "j < length (s_leases s)" "j \<noteq> i" for j
  proof -
    have "s_leases t ! j = s_leases s ! j" "length (s_leases t) = length (s_leases s)"
      using t(6) that by (metis nth_list_update_neq, metis length_list_update)
    then show ?thesis using u that leases by auto
  qed
  have "same_config s s'"
    using same_config_trans [OF t(2) same_config_trans [OF _ cfg]] u by blast
  moreover have "find_by_mac_locked s' m = Some i" "find_by_ip_locked s' ip = Some i"
    using find_by_mac_unique [OF wf' e(2)] find_by_ip_unique [OF wf' e(2)] e by simp_all
  moreover have "l_expires_us e = now + uint hold_s * 1000000" "seen_this_boot s' e"
    by (simp_all add: e_def seen_this_boot_def boot)
  ultimately show ?thesis using wf' e others by (intro conjI exI [of _ i]) auto
qed

text \<open>C16: a commit that succeeds leaves the client the one holder of the address: its entry is found
  by the client and by the address, carries the expiry, and is stamped as heard from in this boot.
  Of the other entries only a previous holder of the address changes, and it is dropped.\<close>

theorem commit_lease_functional:
  assumes "wf_dhcp s" "ip \<noteq> 0" "commit_lease_locked now s m ip hold_s persist = (True, s')"
  shows "wf_dhcp s' \<and> same_config s s' \<and>
    (\<exists>i. find_by_mac_locked s' m = Some i \<and> find_by_ip_locked s' ip = Some i \<and>
       l_ip (s_leases s' ! i) = ip \<and> l_expires_us (s_leases s' ! i) = now + uint hold_s * 1000000 \<and>
       seen_this_boot s' (s_leases s' ! i) \<and>
       (\<forall>j<length (s_leases s). j \<noteq> i \<longrightarrow> s_leases s' ! j = s_leases s ! j \<or>
          l_ip (s_leases s ! j) = ip \<and> \<not> l_in_use (s_leases s' ! j)))"
  using assms by (rule commit_lease_spec)

lemma commit_lease_functional_witness:
  "let s' = snd (commit_lease_locked 5 lan_dhcp (Mac 2 0 0 0 0 1) (ip4 192 168 5 20) 30 True)
   in wf_dhcp s' \<and> find_by_mac_locked s' (Mac 2 0 0 0 0 1) = find_by_ip_locked s' (ip4 192 168 5 20)"
proof -
  let ?r = "commit_lease_locked 5 lan_dhcp (Mac 2 0 0 0 0 1) (ip4 192 168 5 20) 30 True"
  have "ip4 192 168 5 20 \<noteq> 0" "fst ?r" by code_simp+
  then have "?r = (True, snd ?r)" by (simp add: prod_eq_iff)
  from commit_lease_functional [OF wf_lan_dhcp \<open>ip4 192 168 5 20 \<noteq> 0\<close> this]
  show ?thesis unfolding Let_def by (elim conjE exE) simp
qed

lemma pick_victim_pass_None:
  "pick_victim_pass now s p need st en = None \<longleftrightarrow>
     (\<forall>j<length (s_leases s). \<not> victim_candidate now s p need st en (s_leases s ! j))"
  by (simp add: pick_victim_pass_def best_slot_None)

lemma pick_victim_None:
  "pick_victim_locked now s need st en = None \<longleftrightarrow>
     pick_victim_pass now s 0 need st en = None \<and> pick_victim_pass now s 1 need st en = None"
  by (simp add: pick_victim_locked_def split: option.split)

lemma commit_lease_False:
  "\<not> fst (commit_lease_locked now s m ip hold_s persist) \<longleftrightarrow>
     find_by_mac_locked s m = None \<and>
     (\<forall>j<length (s_leases s). l_in_use (s_leases s ! j) \<and>
        (seen_this_boot s (s_leases s ! j) \<or>
         l_observed_ip (s_leases s ! j) = 0 \<and> now \<le> l_expires_us (s_leases s ! j)))"
proof -
  have "\<not> fst (commit_lease_locked now s m ip hold_s persist) \<longleftrightarrow> fst (commit_slot now s m) = None"
    unfolding commit_lease_locked_def Let_def by (simp split: prod.split option.split)
  also have "\<dots> \<longleftrightarrow> find_by_mac_locked s m = None \<and> (\<forall>j<length (s_leases s). l_in_use (s_leases s ! j)) \<and>
      pick_victim_locked now s False 0 0 = None"
    unfolding commit_slot_def take_free_slot_locked_def
    by (auto simp: first_slot_None split: option.splits dest!: first_slot_SomeD)
  also have "\<dots> \<longleftrightarrow> find_by_mac_locked s m = None \<and>
      (\<forall>j<length (s_leases s). l_in_use (s_leases s ! j) \<and>
        (seen_this_boot s (s_leases s ! j) \<or>
         l_observed_ip (s_leases s ! j) = 0 \<and> now \<le> l_expires_us (s_leases s ! j)))"
    unfolding pick_victim_None pick_victim_pass_None
    by (auto simp: victim_candidate_def Let_def)
  finally show ?thesis .
qed

text \<open>Every entry of the table is of another client, heard from since boot or holding an unexpired lease.\<close>

definition table_full :: "int \<Rightarrow> dhcp \<Rightarrow> mac \<Rightarrow> bool" where
  "table_full now s m \<longleftrightarrow>
     (\<forall>e\<in>set (s_leases s). l_in_use e \<and> l_mac e \<noteq> m \<and>
        (seen_this_boot s e \<or> l_observed_ip e = 0 \<and> now \<le> l_expires_us e))"

lemma commit_lease_full: "fst (commit_lease_locked now s m ip hold_s persist) \<longleftrightarrow> \<not> table_full now s m"
  using commit_lease_False [of now s m ip hold_s persist]
  unfolding table_full_def find_by_mac_lookup lookup_slot_None all_set_conv_all_nth by blast

lemma commit_lease_unrecorded:
  "table_full now s m \<Longrightarrow> commit_lease_locked now s m ip hold_s persist = (False, s)"
  using commit_lease_full [of now s m ip hold_s persist]
  by (auto simp: commit_lease_locked_def commit_slot_def take_free_slot_locked_def Let_def
      split: option.splits prod.splits)

text \<open>
  So with a full table the answers go out unrecorded: the address one client was just given is given to
  the next that asks.
\<close>

lemma full_table_duplicates_address:
  assumes "select_address_locked now s m requested False = (ip, s)" "table_full now s m" "table_full now s m'"
  shows "select_address_locked now (snd (commit_lease_locked now s m ip hold_s persist)) m' requested False = (ip, s)"
proof -
  have "find_by_mac_locked s m = None" "find_by_mac_locked s m' = None"
    using assms(2,3) by (auto simp: table_full_def find_by_mac_lookup lookup_slot_None all_set_conv_all_nth)
  then show ?thesis
    using assms(1) unfolding commit_lease_unrecorded [OF assms(2)] by (auto simp: select_address_locked.simps [of now s] Let_def split: option.splits)
qed

text \<open>A commit fails in one situation only, and then changes nothing: the client has no entry,
  all the slots are taken, and every one of them belongs to a client heard from since boot or
  holding an unexpired lease.\<close>

theorem commit_lease_fails_iff:
  "\<not> fst (commit_lease_locked now s m ip hold_s persist) \<longleftrightarrow>
     find_by_mac_locked s m = None \<and>
     (\<forall>j<length (s_leases s). l_in_use (s_leases s ! j) \<and>
        (seen_this_boot s (s_leases s ! j) \<or>
         l_observed_ip (s_leases s ! j) = 0 \<and> now \<le> l_expires_us (s_leases s ! j)))"
  by (rule commit_lease_False)

lemma commit_lease_fails_iff_witness:
  "fst (commit_lease_locked 5 lan_dhcp (Mac 2 0 0 0 0 1) (ip4 192 168 5 20) 30 True)"
proof -
  have "0 < length (s_leases lan_dhcp)" "\<not> l_in_use (s_leases lan_dhcp ! 0)" by code_simp+
  then show ?thesis
    using commit_lease_fails_iff [of 5 lan_dhcp "Mac 2 0 0 0 0 1" "ip4 192 168 5 20" 30 True] by blast
qed

text \<open>a renewal of the address that flash already holds costs no flash write: it only pushes
  the expiry and the stamps of the client's own entry forward.\<close>

theorem commit_renewal_quiet:
  assumes "wf_dhcp s" "ip \<noteq> 0" "find_by_mac_locked s m = Some i" "l_ip (s_leases s ! i) = ip"
    "l_saved_ip (s_leases s ! i) = ip"
  shows "commit_lease_locked now s m ip hold_s persist =
    (True, set_lease s i ((s_leases s ! i)
       \<lparr>l_expires_us := now + uint hold_s * 1000000, l_last_seen_seq := s_boot_seq s,
        l_last_seen_us := now\<rparr>))"
proof -
  have "find_by_ip_locked s ip = Some i"
    using find_by_ip_unique [OF assms(1), of i] find_by_mac_SomeD [OF assms(3)] assms(2,4)
    by (simp add: leased_def)
  then have "clear_clash now s i ip = s" by (simp add: clear_clash_def)
  then show ?thesis
    using assms(3-5) by (cases "s_leases s ! i") (simp add: commit_lease_locked_def commit_slot_def Let_def)
qed

lemma commit_renewal_quiet_witness:
  "let s = lan_dhcp\<lparr>s_leases := (fresh_lease (Mac 2 0 0 0 0 1))
         \<lparr>l_ip := ip4 192 168 5 33, l_saved_ip := ip4 192 168 5 33\<rparr> # replicate 31 zero_lease\<rparr>
   in fst (commit_lease_locked 5 s (Mac 2 0 0 0 0 1) (ip4 192 168 5 33) 7200 True) \<and>
      \<not> s_dirty (snd (commit_lease_locked 5 s (Mac 2 0 0 0 0 1) (ip4 192 168 5 33) 7200 True))"
proof -
  let ?s = "lan_dhcp\<lparr>s_leases := (fresh_lease (Mac 2 0 0 0 0 1))
    \<lparr>l_ip := ip4 192 168 5 33, l_saved_ip := ip4 192 168 5 33\<rparr> # replicate 31 zero_lease\<rparr>"
  have "wf_dhcp ?s" "ip4 192 168 5 33 \<noteq> 0" "find_by_mac_locked ?s (Mac 2 0 0 0 0 1) = Some 0" "\<not> s_dirty ?s"
    by code_simp+
  then show ?thesis
    using commit_renewal_quiet [of ?s "ip4 192 168 5 33" "Mac 2 0 0 0 0 1" 0] by (simp add: Let_def)
qed

text \<open>the exception in the exclusivity of an allocation is real. When a range has no free address
  the reclaimed one is not checked against the other entries: a reservation whose owner is away is
  given up and its address leased out although another client, heard from this boot, was observed
  using it. The eight addresses of the wired range can get there; the pool cannot.\<close>

theorem reclaim_duplicates_address:
  "\<exists>now s m ip s'. ranges_ok s \<and> wf_dhcp s \<and>
     select_address_locked now s m 0 True = (ip, s') \<and> ip \<noteq> 0 \<and>
     (\<exists>e\<in>set (s_leases s'). claims now e ip \<and> seen_this_boot s' e \<and> l_mac e \<noteq> m)"
proof -
  let ?ip = "ip4 192 168 5 2"
  let ?away = "(fresh_lease (Mac 2 0 0 0 0 1))\<lparr>l_ip := ?ip, l_saved_ip := ?ip\<rparr>"
  let ?user = "(fresh_lease (Mac 2 0 0 0 0 2))\<lparr>l_observed_ip := ?ip, l_last_seen_seq := 1\<rparr>"
  let ?s = "lan_dhcp\<lparr>s_wired_end := ?ip, s_leases := ?away # ?user # replicate 30 zero_lease\<rparr>"
  have "ranges_ok ?s \<and> wf_dhcp ?s \<and>
      select_address_locked 5 ?s (Mac 2 0 0 0 0 3) 0 True = (?ip, reclaim_locked 5 ?s 0) \<and> ?ip \<noteq> 0 \<and>
      (\<exists>e\<in>set (s_leases (reclaim_locked 5 ?s 0)).
         claims 5 e ?ip \<and> seen_this_boot (reclaim_locked 5 ?s 0) e \<and> l_mac e \<noteq> Mac 2 0 0 0 0 3)"
    by code_simp
  then show ?thesis by blast
qed

end
