(* ===== verification/DhcpStore.thy ===== *)
theory DhcpStore
  imports DhcpAlloc
begin

text \<open>
  The lease table in flash (\<open>load_from_nvs()\<close> and \<open>save_to_nvs_locked()\<close> of
  \<open>main/dhcp_server.c\<close>): the stored records in their three revisions, what a boot restores,
  forgets and refuses to inherit, and that a reservation survives the restart. The NVS library is
  a parameter: \<open>nvs_set blob old\<close> is the outcome of open, \<open>nvs_set_blob\<close> and \<open>nvs_commit\<close> (did
  all succeed, and what flash holds after), \<open>nvs_get cap flash\<close> that of open and \<open>nvs_get_blob\<close>
  into a buffer of \<open>cap\<close> bytes (\<open>None\<close> for any error).
\<close>

section \<open>Records\<close>

abbreviation STORE_MAGIC :: u32 where "STORE_MAGIC \<equiv> 0x4C504344"
abbreviation STORE_VERSION :: u16 where "STORE_VERSION \<equiv> 3"
abbreviation FORGET_AFTER_BOOTS :: u32 where "FORGET_AFTER_BOOTS \<equiv> 5"
abbreviation SIZEOF_STORED_HDR :: nat where "SIZEOF_STORED_HDR \<equiv> 12"
abbreviation SIZEOF_STORED_LEASE :: nat where "SIZEOF_STORED_LEASE \<equiv> 18"

definition STORE_BUF_LEN :: nat where
  "STORE_BUF_LEN = SIZEOF_STORED_HDR + DHCP_SERVER_MAX_LEASES * SIZEOF_STORED_LEASE"

record stored_lease =
  st_mac :: mac
  st_ip :: u32
  st_observed_ip :: u32
  st_last_seen_seq :: u32

definition stored_lease_bytes :: "stored_lease \<Rightarrow> u8 list" where
  "stored_lease_bytes r =
     mac_bytes (st_mac r) @ bytes_of_u32 (st_ip r) @ bytes_of_u32 (st_observed_ip r) @
     bytes_of_u32 (st_last_seen_seq r)"

definition stored_hdr_bytes :: "u16 \<Rightarrow> u32 \<Rightarrow> u8 list" where
  "stored_hdr_bytes count boot_seq =
     bytes_of_u32 STORE_MAGIC @ bytes_of_u16 STORE_VERSION @ bytes_of_u16 count @ bytes_of_u32 boot_seq"

definition stored_hdr_len :: "u16 \<Rightarrow> nat" where
  "stored_hdr_len ver = (if ver \<ge> 3 then SIZEOF_STORED_HDR else 8)"

definition stored_rec_size :: "u16 \<Rightarrow> nat" where
  "stored_rec_size ver = (if ver = 1 then 10 else if ver = 2 then 14 else SIZEOF_STORED_LEASE)"

text \<open>\<open>memcpy\<close> of \<open>rec_size\<close> bytes into a zeroed record: the fields a revision predates read as 0.\<close>

definition read_stored_lease :: "u16 \<Rightarrow> u8 list \<Rightarrow> stored_lease" where
  "read_stored_lease ver bs =
     (let b = take (stored_rec_size ver) bs @ replicate (SIZEOF_STORED_LEASE - stored_rec_size ver) 0 in
      \<lparr>st_mac = mac_of_bytes b, st_ip = u32_at b 6, st_observed_ip = u32_at b 10,
       st_last_seen_seq = u32_at b 14\<rparr>)"

section \<open>Loading\<close>

definition stored_age :: "u32 \<Rightarrow> stored_lease \<Rightarrow> u32" where
  "stored_age boot_seq r =
     (if boot_seq > st_last_seen_seq r then boot_seq - st_last_seen_seq r else 0)"

definition restore_lease :: "stored_lease \<Rightarrow> lease \<Rightarrow> lease" where
  "restore_lease r e = e
     \<lparr>l_in_use := True, l_mac := st_mac r, l_ip := st_ip r, l_observed_ip := st_observed_ip r,
      l_saved_ip := st_ip r, l_saved_observed_ip := st_observed_ip r, l_expires_us := 0,
      l_last_seen_seq := st_last_seen_seq r, l_last_seen_us := 0\<rparr>"

text \<open>The loop over the records, with its counters \<open>n\<close> and \<open>forgotten\<close>.\<close>

fun restore_records ::
  "u16 \<Rightarrow> u32 \<Rightarrow> stored_lease list \<Rightarrow> lease list \<Rightarrow> nat \<Rightarrow> nat \<Rightarrow> lease list \<times> nat \<times> nat"
where
  "restore_records ver boot_seq [] es n forgotten = (es, n, forgotten)"
| "restore_records ver boot_seq (r # rs) es n forgotten =
     (if ver \<ge> 3 \<and> stored_age boot_seq r > FORGET_AFTER_BOOTS
      then restore_records ver boot_seq rs es n (forgotten + 1)
      else restore_records ver boot_seq rs (es[n := restore_lease r (es ! n)]) (n + 1) forgotten)"

text \<open>\<open>drop_observed[i]\<close>, decided from the values as they were read.\<close>

definition drop_observed :: "lease list \<Rightarrow> nat \<Rightarrow> nat \<Rightarrow> bool" where
  "drop_observed es n i \<longleftrightarrow>
     l_observed_ip (es ! i) \<noteq> 0 \<and>
     list_ex (\<lambda>j. j \<noteq> i \<and> (l_ip (es ! j) = l_observed_ip (es ! i) \<or>
                          l_observed_ip (es ! j) = l_observed_ip (es ! i))) [0..<n]"

definition forget_observed :: "int \<Rightarrow> lease list \<Rightarrow> nat \<Rightarrow> nat \<Rightarrow> dhcp \<Rightarrow> dhcp" where
  "forget_observed now es n i s =
     (if drop_observed es n i
      then mark_dirty_locked now (set_lease s i ((s_leases s ! i)\<lparr>l_observed_ip := 0\<rparr>))
      else s)"

definition restore_table :: "int \<Rightarrow> u16 \<Rightarrow> u32 \<Rightarrow> stored_lease list \<Rightarrow> dhcp \<Rightarrow> dhcp" where
  "restore_table now ver boot_seq recs s =
     (let s = s\<lparr>s_boot_seq := boot_seq + 1\<rparr>;
          (es, n, forgotten) = restore_records ver (s_boot_seq s) recs (s_leases s) 0 0;
          s = fold (forget_observed now es n) [0..<n] (s\<lparr>s_leases := es\<rparr>);
          s = (if forgotten > 0 then mark_dirty_locked now s else s)
      in s\<lparr>s_restored_count := n\<rparr>)"

definition load_from_nvs ::
  "(nat \<Rightarrow> u8 list option \<Rightarrow> u8 list option) \<Rightarrow> int \<Rightarrow> dhcp \<Rightarrow> dhcp"
where
  "load_from_nvs nvs_get now s =
     (let s = s\<lparr>s_boot_seq := 1\<rparr> in
      case nvs_get STORE_BUF_LEN (s_flash s) of
        None \<Rightarrow> s
      | Some buf \<Rightarrow>
          let len = length buf in
          if len < stored_hdr_len 1 then s
          else let magic = u32_at buf 0; version = u16_at buf 4; count = unat (u16_at buf 6) in
            if magic \<noteq> STORE_MAGIC \<or> version < 1 \<or> version > STORE_VERSION then s
            else let hdr_len = stored_hdr_len version in
              if len < hdr_len then s
              else let boot_seq = (if version \<ge> 3 then u32_at buf 8 else 0);
                       rec_size = stored_rec_size version
                in if count > DHCP_SERVER_MAX_LEASES \<or> len < hdr_len + count * rec_size then s
                else restore_table now version boot_seq
                       (map (\<lambda>i. read_stored_lease version (drop (hdr_len + i * rec_size) buf)) [0..<count]) s)"

section \<open>Saving\<close>

definition worth_storing :: "lease \<Rightarrow> bool" where
  "worth_storing e \<longleftrightarrow> \<not> (\<not> l_in_use e \<or> (l_ip e = 0 \<and> persisted_observed_ip e = 0))"

definition stored_of :: "lease \<Rightarrow> stored_lease" where
  "stored_of e =
     \<lparr>st_mac = l_mac e, st_ip = l_ip e, st_observed_ip = persisted_observed_ip e,
      st_last_seen_seq = l_last_seen_seq e\<rparr>"

text \<open>The blob the function builds in \<open>buf\<close>: the header, then the records of the entries worth it.\<close>

definition table_blob :: "dhcp \<Rightarrow> u8 list" where
  "table_blob s =
     (let recs = map stored_of (filter worth_storing (s_leases s)) in
      stored_hdr_bytes (of_nat (length recs)) (s_boot_seq s) @ concat (map stored_lease_bytes recs))"

definition note_saved :: "lease \<Rightarrow> lease" where
  "note_saved e =
     (if l_in_use e then e\<lparr>l_saved_ip := l_ip e, l_saved_observed_ip := persisted_observed_ip e\<rparr> else e)"

definition save_to_nvs_locked ::
  "(u8 list \<Rightarrow> u8 list option \<Rightarrow> bool \<times> u8 list option) \<Rightarrow> dhcp \<Rightarrow> dhcp"
where
  "save_to_nvs_locked nvs_set s =
     (let (ok, flash) = nvs_set (table_blob s) (s_flash s);
          s = s\<lparr>s_flash := flash\<rparr>
      in if ok then s\<lparr>s_leases := map note_saved (s_leases s), s_dirty := False\<rparr> else s)"

section \<open>Reading back what was written\<close>

lemma length_stored_lease_bytes [simp]: "length (stored_lease_bytes r) = SIZEOF_STORED_LEASE"
  by (simp add: stored_lease_bytes_def)

lemma length_stored_hdr_bytes [simp]: "length (stored_hdr_bytes c b) = SIZEOF_STORED_HDR"
  by (simp add: stored_hdr_bytes_def)

lemma read_stored_lease_bytes [simp]:
  "read_stored_lease STORE_VERSION (stored_lease_bytes r @ bs) = r"
  by (simp add: read_stored_lease_def stored_rec_size_def stored_lease_bytes_def Let_def)

lemma drop_concat_records:
  assumes "\<And>x. x \<in> set xs \<Longrightarrow> length (f x) = k" "i < length xs"
  shows "drop (i * k) (concat (map f xs)) = f (xs ! i) @ drop (Suc i * k) (concat (map f xs))"
  using assms
proof (induction xs arbitrary: i)
  case (Cons x xs)
  then show ?case by (cases i) (simp_all add: drop_append)
qed simp

lemma read_records:
  "map (\<lambda>i. read_stored_lease STORE_VERSION
          (drop (SIZEOF_STORED_HDR + i * SIZEOF_STORED_LEASE)
            (stored_hdr_bytes c b @ concat (map stored_lease_bytes rs)))) [0..<length rs] = rs"
proof (rule nth_equalityI)
  fix i assume "i < length (map (\<lambda>i. read_stored_lease STORE_VERSION
          (drop (SIZEOF_STORED_HDR + i * SIZEOF_STORED_LEASE)
            (stored_hdr_bytes c b @ concat (map stored_lease_bytes rs)))) [0..<length rs])"
  then have i: "i < length rs" by simp
  have "drop (SIZEOF_STORED_HDR + i * SIZEOF_STORED_LEASE)
      (stored_hdr_bytes c b @ concat (map stored_lease_bytes rs)) =
      drop (i * SIZEOF_STORED_LEASE) (concat (map stored_lease_bytes rs))"
    by (simp add: drop_append)
  with drop_concat_records [of rs stored_lease_bytes SIZEOF_STORED_LEASE i] i
  show "map (\<lambda>i. read_stored_lease STORE_VERSION
          (drop (SIZEOF_STORED_HDR + i * SIZEOF_STORED_LEASE)
            (stored_hdr_bytes c b @ concat (map stored_lease_bytes rs)))) [0..<length rs] ! i = rs ! i"
    by simp
qed simp

lemma header_fields:
  "u32_at (stored_hdr_bytes c b @ bs) 0 = STORE_MAGIC"
  "u16_at (stored_hdr_bytes c b @ bs) 4 = STORE_VERSION"
  "u16_at (stored_hdr_bytes c b @ bs) 6 = c"
  "u32_at (stored_hdr_bytes c b @ bs) 8 = b"
  by (simp_all add: stored_hdr_bytes_def)

section \<open>What a boot restores\<close>

definition kept_records :: "u16 \<Rightarrow> u32 \<Rightarrow> stored_lease list \<Rightarrow> stored_lease list" where
  "kept_records ver boot_seq rs =
     filter (\<lambda>r. \<not> (ver \<ge> 3 \<and> stored_age boot_seq r > FORGET_AFTER_BOOTS)) rs"

lemma kept_records_simps [simp]:
  "kept_records ver boot_seq [] = []"
  "kept_records ver boot_seq (r # rs) =
     (if ver \<ge> 3 \<and> stored_age boot_seq r > FORGET_AFTER_BOOTS then kept_records ver boot_seq rs
      else r # kept_records ver boot_seq rs)"
  by (simp_all add: kept_records_def)

lemma length_kept_records: "length (kept_records ver boot_seq rs) \<le> length rs"
  by (simp add: kept_records_def)

lemma restore_records_spec:
  assumes "restore_records ver boot_seq rs es n f = (es', n', f')" "n + length rs \<le> length es"
  shows "length es' = length es \<and> n' = n + length (kept_records ver boot_seq rs) \<and>
    f' = f + (length rs - length (kept_records ver boot_seq rs)) \<and>
    (\<forall>k<length (kept_records ver boot_seq rs).
       es' ! (n + k) = restore_lease (kept_records ver boot_seq rs ! k) (es ! (n + k))) \<and>
    (\<forall>k. k < n \<or> n' \<le> k \<longrightarrow> es' ! k = es ! k)"
  using assms
proof (induction ver boot_seq rs es n f rule: restore_records.induct)
  case (2 ver boot_seq r rs es n f)
  show ?case
  proof (cases "ver \<ge> 3 \<and> stored_age boot_seq r > FORGET_AFTER_BOOTS")
    case True
    then show ?thesis
      using "2.IH"(1) [OF True] "2.prems" length_kept_records [of ver boot_seq rs]
      by (simp add: Suc_diff_le)
  next
    case False
    let ?es = "es[n := restore_lease r (es ! n)]"
    have IH: "length es' = length ?es \<and> n' = n + 1 + length (kept_records ver boot_seq rs) \<and>
        f' = f + (length rs - length (kept_records ver boot_seq rs)) \<and>
        (\<forall>k<length (kept_records ver boot_seq rs).
           es' ! (n + 1 + k) = restore_lease (kept_records ver boot_seq rs ! k) (?es ! (n + 1 + k))) \<and>
        (\<forall>k. k < n + 1 \<or> n' \<le> k \<longrightarrow> es' ! k = ?es ! k)"
      using "2.IH"(2) [OF False] "2.prems" False by simp
    have "es' ! n = restore_lease r (es ! n)" using IH "2.prems"(2) by simp
    then show ?thesis
      using IH False "2.prems"(2) by (auto simp: nth_Cons' All_less_Suc2 nth_list_update)
  qed
qed simp

definition settled :: "lease list \<Rightarrow> nat \<Rightarrow> nat \<Rightarrow> lease" where
  "settled es n i = (if drop_observed es n i then (es ! i)\<lparr>l_observed_ip := 0\<rparr> else es ! i)"

lemma fold_forget_observed:
  assumes "s_leases s = es" "n \<le> length es" "m \<le> n"
    and t_def: "t = fold (forget_observed now es n) [0..<m] s"
  shows "same_config s t" "length (s_leases t) = length es"
    "\<forall>k<length es. s_leases t ! k = (if k < m then settled es n k else es ! k)"
proof -
  have "same_config s (fold (forget_observed now es n) [0..<m] s) \<and>
      length (s_leases (fold (forget_observed now es n) [0..<m] s)) = length es \<and>
      (\<forall>k<length es. s_leases (fold (forget_observed now es n) [0..<m] s) ! k =
         (if k < m then settled es n k else es ! k))"
    using assms(3)
  proof (induction m)
    case (Suc m)
    let ?u = "fold (forget_observed now es n) [0..<m] s"
    have IH: "same_config s ?u" "length (s_leases ?u) = length es"
      "\<forall>k<length es. s_leases ?u ! k = (if k < m then settled es n k else es ! k)"
      using Suc by simp_all
    have "same_config ?u (forget_observed now es n m ?u)"
      using same_config_trans [OF same_config_set_lease same_config_mark_dirty]
      by (simp add: forget_observed_def)
    then have "same_config s (forget_observed now es n m ?u)" using IH(1) same_config_trans by blast
    moreover have "s_leases (forget_observed now es n m ?u) = (s_leases ?u)[m := settled es n m]"
    proof -
      have "s_leases ?u ! m = es ! m" using IH(2,3) Suc.prems assms(2) by simp
      then show ?thesis
        by (cases "drop_observed es n m") (simp_all add: forget_observed_def settled_def list_update_same_conv, metis list_update_id)
    qed
    ultimately show ?case using IH(2,3) by (auto simp: nth_list_update less_Suc_eq)
  qed (simp_all add: assms(1))
  then show "same_config s t" "length (s_leases t) = length es"
    "\<forall>k<length es. s_leases t ! k = (if k < m then settled es n k else es ! k)"
    by (simp_all add: t_def)
qed

text \<open>The table after a boot, for any flash content: nothing restored, or the records kept with the
  disputed halves gone.\<close>

lemma restore_table_spec:
  assumes "s_leases s = replicate DHCP_SERVER_MAX_LEASES zero_lease" "length recs \<le> DHCP_SERVER_MAX_LEASES"
    and kept_def: "kept = kept_records ver (boot_seq + 1) recs"
  shows "\<exists>es. length es = DHCP_SERVER_MAX_LEASES \<and>
    (\<forall>k<length kept. es ! k = restore_lease (kept ! k) zero_lease) \<and>
    (\<forall>k<DHCP_SERVER_MAX_LEASES. length kept \<le> k \<longrightarrow> es ! k = zero_lease) \<and>
    length (s_leases (restore_table now ver boot_seq recs s)) = DHCP_SERVER_MAX_LEASES \<and>
    (\<forall>k<DHCP_SERVER_MAX_LEASES. s_leases (restore_table now ver boot_seq recs s) ! k =
       (if k < length kept then settled es (length kept) k else zero_lease))"
    "s_restored_count (restore_table now ver boot_seq recs s) = length kept"
    "s_boot_seq (restore_table now ver boot_seq recs s) = boot_seq + 1"
    "s_declined (restore_table now ver boot_seq recs s) = s_declined s"
    "ranges_ok (restore_table now ver boot_seq recs s) = ranges_ok s"
    "in_pool (restore_table now ver boot_seq recs s) = in_pool s"
    "in_wired (restore_table now ver boot_seq recs s) = in_wired s"
    "s_wired_start (restore_table now ver boot_seq recs s) = s_wired_start s"
proof -
  obtain es n f where r: "restore_records ver (boot_seq + 1) recs (s_leases s) 0 0 = (es, n, f)"
    by (cases "restore_records ver (boot_seq + 1) recs (s_leases s) 0 0") auto
  note R = restore_records_spec [OF r, folded kept_def]
  have n: "n = length kept" and es: "length es = DHCP_SERVER_MAX_LEASES"
    using R assms(1,2) by simp_all
  have kept: "length kept \<le> DHCP_SERVER_MAX_LEASES"
    using length_kept_records [of ver "boot_seq + 1" recs] assms(2) by (simp add: kept_def)
  let ?s = "s\<lparr>s_boot_seq := boot_seq + 1, s_leases := es\<rparr>"
  let ?u = "fold (forget_observed now es n) [0..<n] ?s"
  note F = fold_forget_observed [of ?s es n n ?u now]
  have F: "same_config ?s ?u" "length (s_leases ?u) = length es"
    "\<forall>k<length es. s_leases ?u ! k = (if k < n then settled es n k else es ! k)"
    using F n es kept by simp_all
  have t: "restore_table now ver boot_seq recs s =
      (if f > 0 then mark_dirty_locked now ?u else ?u)\<lparr>s_restored_count := n\<rparr>"
    by (simp add: restore_table_def r Let_def)
  then have tl: "s_leases (restore_table now ver boot_seq recs s) = s_leases ?u" by simp
  have zero: "\<forall>k<DHCP_SERVER_MAX_LEASES. length kept \<le> k \<longrightarrow> es ! k = zero_lease"
    using R n assms(1,2) by simp
  have "\<forall>k<length kept. es ! k = restore_lease (kept ! k) zero_lease"
    using R assms(1,2) kept by simp
  then show "\<exists>es. length es = DHCP_SERVER_MAX_LEASES \<and>
    (\<forall>k<length kept. es ! k = restore_lease (kept ! k) zero_lease) \<and>
    (\<forall>k<DHCP_SERVER_MAX_LEASES. length kept \<le> k \<longrightarrow> es ! k = zero_lease) \<and>
    length (s_leases (restore_table now ver boot_seq recs s)) = DHCP_SERVER_MAX_LEASES \<and>
    (\<forall>k<DHCP_SERVER_MAX_LEASES. s_leases (restore_table now ver boot_seq recs s) ! k =
       (if k < length kept then settled es (length kept) k else zero_lease))"
    using es zero F(2,3) n by (intro exI [of _ es]) (simp add: tl)
  have c: "same_config ?s (if f > 0 then mark_dirty_locked now ?u else ?u)"
    using F(1) same_config_trans [OF F(1) same_config_mark_dirty] by simp
  show "s_restored_count (restore_table now ver boot_seq recs s) = length kept"
    "s_boot_seq (restore_table now ver boot_seq recs s) = boot_seq + 1"
    "s_declined (restore_table now ver boot_seq recs s) = s_declined s"
    "ranges_ok (restore_table now ver boot_seq recs s) = ranges_ok s"
    "in_pool (restore_table now ver boot_seq recs s) = in_pool s"
    "in_wired (restore_table now ver boot_seq recs s) = in_wired s"
    "s_wired_start (restore_table now ver boot_seq recs s) = s_wired_start s"
    using c unfolding t
    by (auto simp: same_config_def n ranges_ok_def in_pool_def in_wired_def fun_eq_iff)
qed

lemma restore_table_boot_seq: "restore_table now ver b recs (s\<lparr>s_boot_seq := c\<rparr>) = restore_table now ver b recs s"
  by (simp add: restore_table_def)

lemma load_cases:
  obtains "load_from_nvs nvs_get now s = s\<lparr>s_boot_seq := 1\<rparr>"
  | ver b recs where "length recs \<le> DHCP_SERVER_MAX_LEASES"
      "load_from_nvs nvs_get now s = restore_table now ver b recs s"
proof (cases "nvs_get STORE_BUF_LEN (s_flash s)")
  case None
  then show thesis using that(1) by (simp add: load_from_nvs_def)
next
  case (Some buf)
  show thesis
  proof (cases "load_from_nvs nvs_get now s = s\<lparr>s_boot_seq := 1\<rparr>")
    case False
    then have "unat (u16_at buf 6) \<le> DHCP_SERVER_MAX_LEASES"
      using Some by (auto simp: load_from_nvs_def Let_def split: if_splits)
    moreover have "load_from_nvs nvs_get now s =
        restore_table now (u16_at buf 4) (if u16_at buf 4 \<ge> 3 then u32_at buf 8 else 0)
          (map (\<lambda>i. read_stored_lease (u16_at buf 4)
             (drop (stored_hdr_len (u16_at buf 4) + i * stored_rec_size (u16_at buf 4)) buf))
             [0..<unat (u16_at buf 6)]) s"
      using False Some by (simp add: load_from_nvs_def Let_def restore_table_boot_seq split: if_split_asm)
    ultimately show thesis by (intro that(2)) simp_all
  qed (rule that(1))
qed

definition saved_records :: "dhcp \<Rightarrow> stored_lease list" where
  "saved_records s = map stored_of (filter worth_storing (s_leases s))"

lemma load_saved:
  assumes "length (s_leases s) \<le> DHCP_SERVER_MAX_LEASES"
    and "nvs_get STORE_BUF_LEN (s_flash s0) = Some (table_blob s)"
  shows "load_from_nvs nvs_get now s0 = restore_table now STORE_VERSION (s_boot_seq s) (saved_records s) s0"
proof -
  let ?rs = "saved_records s" and ?buf = "table_blob s"
  have n: "length ?rs \<le> 32"
    using le_trans [OF length_filter_le assms(1)] by (simp add: saved_records_def)
  have buf: "?buf = stored_hdr_bytes (of_nat (length ?rs)) (s_boot_seq s) @ concat (map stored_lease_bytes ?rs)"
    by (simp add: table_blob_def saved_records_def Let_def)
  have count: "unat (of_nat (length ?rs) :: u16) = length ?rs"
    using n by (simp add: unat_of_nat take_bit_nat_eq_self)
  have len: "length ?buf = SIZEOF_STORED_HDR + length ?rs * SIZEOF_STORED_LEASE"
    unfolding buf by (simp add: length_concat o_def sum_list_triv)
  have fields: "u32_at ?buf 0 = STORE_MAGIC" "u16_at ?buf 4 = STORE_VERSION"
    "u16_at ?buf 6 = of_nat (length ?rs)" "u32_at ?buf 8 = s_boot_seq s"
    unfolding buf by (rule header_fields)+
  show ?thesis
    unfolding load_from_nvs_def restore_table_boot_seq
    using assms(2) n read_records [of "of_nat (length ?rs)" "s_boot_seq s" ?rs, folded buf]
    by (simp add: fields count len stored_hdr_len_def stored_rec_size_def Let_def restore_table_boot_seq)
qed

lemma uniq_saved_records:
  assumes "wf_dhcp s"
  shows "uniq_by (\<lambda>_. True) st_mac (kept_records ver b (saved_records s))"
    "uniq_by (\<lambda>r. st_ip r \<noteq> 0) st_ip (kept_records ver b (saved_records s))"
proof -
  have "uniq_by (\<lambda>_. True) l_mac (filter worth_storing (s_leases s))"
    by (rule uniq_by_filter [where live = l_in_use])
      (use assms in \<open>auto simp: worth_storing_def wf_dhcp_def\<close>)
  then have "uniq_by (\<lambda>_. True) st_mac (saved_records s)"
    by (simp add: saved_records_def uniq_by_map o_def stored_of_def)
  then show "uniq_by (\<lambda>_. True) st_mac (kept_records ver b (saved_records s))"
    unfolding kept_records_def by (rule uniq_by_filter [rotated]) simp
  have "uniq_by (\<lambda>e. l_ip e \<noteq> 0) l_ip (filter worth_storing (s_leases s))"
    by (rule uniq_by_filter [where live = leased])
      (use assms in \<open>auto simp: worth_storing_def wf_dhcp_def leased_def\<close>)
  then have "uniq_by (\<lambda>r. st_ip r \<noteq> 0) st_ip (saved_records s)"
    by (simp add: saved_records_def uniq_by_map o_def stored_of_def)
  then show "uniq_by (\<lambda>r. st_ip r \<noteq> 0) st_ip (kept_records ver b (saved_records s))"
    unfolding kept_records_def by (rule uniq_by_filter [rotated]) simp
qed

text \<open>A static table and a working flash: what a boot finds.\<close>

definition booting :: "dhcp \<Rightarrow> bool" where
  "booting s \<longleftrightarrow> s_leases s = replicate DHCP_SERVER_MAX_LEASES zero_lease \<and> s_declined s = []"

lemma settled_simps [simp]:
  "l_in_use (settled es n i) = l_in_use (es ! i)" "l_mac (settled es n i) = l_mac (es ! i)"
  "l_ip (settled es n i) = l_ip (es ! i)" "l_expires_us (settled es n i) = l_expires_us (es ! i)"
  "l_quarantined (settled es n i) = l_quarantined (es ! i)"
  "l_last_seen_seq (settled es n i) = l_last_seen_seq (es ! i)"
  by (simp_all add: settled_def)

lemma restore_lease_simps [simp]:
  "l_in_use (restore_lease r e)" "l_mac (restore_lease r e) = st_mac r" "l_ip (restore_lease r e) = st_ip r"
  "l_observed_ip (restore_lease r e) = st_observed_ip r" "l_expires_us (restore_lease r e) = 0"
  "l_quarantined (restore_lease r e) = l_quarantined e"
  "l_last_seen_seq (restore_lease r e) = st_last_seen_seq r"
  by (simp_all add: restore_lease_def)

lemma zero_lease_simps [simp]:
  "\<not> l_in_use zero_lease" "l_expires_us zero_lease = 0" "\<not> l_quarantined zero_lease"
  "l_observed_ip zero_lease = 0" "l_ip zero_lease = 0"
  by (simp_all add: zero_lease_def)

lemma settled_undisputed:
  assumes "l_observed_ip (settled es n i) \<noteq> 0" "j < n" "j \<noteq> i"
  shows "l_ip (es ! j) \<noteq> l_observed_ip (settled es n i)"
    "l_observed_ip (settled es n j) \<noteq> l_observed_ip (settled es n i)"
  using assms by (auto simp: settled_def drop_observed_def list_ex_iff split: if_splits)

section \<open>Properties of the store\<close>

text \<open>C18: whatever bytes flash holds, a boot never inherits a duplicate-address argument: at most 32
  entries come back, all of them expired, and an address an entry is restored as using is neither
  leased to nor used by another entry.\<close>

theorem load_inherits_no_dispute:
  assumes "booting s" "t = load_from_nvs nvs_get now s"
  shows "length (s_leases t) = DHCP_SERVER_MAX_LEASES \<and>
    (\<forall>i<DHCP_SERVER_MAX_LEASES. l_expires_us (s_leases t ! i) = 0 \<and> \<not> l_quarantined (s_leases t ! i)) \<and>
    (\<forall>i<DHCP_SERVER_MAX_LEASES. \<forall>j<DHCP_SERVER_MAX_LEASES.
       i \<noteq> j \<and> l_in_use (s_leases t ! j) \<and> l_observed_ip (s_leases t ! i) \<noteq> 0 \<longrightarrow>
       l_ip (s_leases t ! j) \<noteq> l_observed_ip (s_leases t ! i) \<and>
       l_observed_ip (s_leases t ! j) \<noteq> l_observed_ip (s_leases t ! i))"
  using load_cases [of nvs_get now s]
proof cases
  case 1
  then show ?thesis using assms by (simp add: booting_def)
next
  case (2 ver b recs)
  let ?kept = "kept_records ver (b + 1) recs"
  obtain es where es: "length es = DHCP_SERVER_MAX_LEASES"
      "\<forall>k<length ?kept. es ! k = restore_lease (?kept ! k) zero_lease"
      "\<forall>k<DHCP_SERVER_MAX_LEASES. length ?kept \<le> k \<longrightarrow> es ! k = zero_lease"
      "length (s_leases t) = DHCP_SERVER_MAX_LEASES"
      "\<forall>k<DHCP_SERVER_MAX_LEASES. s_leases t ! k =
         (if k < length ?kept then settled es (length ?kept) k else zero_lease)"
    using restore_table_spec(1) [OF _ 2(1) refl, where s = s and now = now and ver = ver and boot_seq = b]
      assms 2(2) by (auto simp: booting_def)
  then show ?thesis using settled_undisputed [of es "length ?kept"] by auto
qed

lemma load_saved_entries:
  assumes "wf_dhcp s" "booting s0" "nvs_get STORE_BUF_LEN (s_flash s0) = Some (table_blob s)"
  defines "kept \<equiv> kept_records STORE_VERSION (s_boot_seq s + 1) (saved_records s)"
  shows "\<exists>es. \<forall>k<DHCP_SERVER_MAX_LEASES. s_leases (load_from_nvs nvs_get now s0) ! k =
      (if k < length kept then settled es (length kept) k else zero_lease) \<and>
      (k < length kept \<longrightarrow> es ! k = restore_lease (kept ! k) zero_lease)"
    "wf_dhcp (load_from_nvs nvs_get now s0)"
    "length kept \<le> length (s_leases (load_from_nvs nvs_get now s0))"
    "s_boot_seq (load_from_nvs nvs_get now s0) = s_boot_seq s + 1"
    "s_declined (load_from_nvs nvs_get now s0) = []"
    "in_pool (load_from_nvs nvs_get now s0) = in_pool s0"
    "in_wired (load_from_nvs nvs_get now s0) = in_wired s0"
    "s_wired_start (load_from_nvs nvs_get now s0) = s_wired_start s0"
proof -
  let ?t = "load_from_nvs nvs_get now s0"
  have n: "length (saved_records s) \<le> DHCP_SERVER_MAX_LEASES"
    using assms(1) le_trans [OF length_filter_le, of "s_leases s"] by (simp add: saved_records_def wf_dhcp_def)
  have len: "length kept \<le> DHCP_SERVER_MAX_LEASES"
    using le_trans [OF length_kept_records n] by (simp add: kept_def)
  have t: "?t = restore_table now STORE_VERSION (s_boot_seq s) (saved_records s) s0"
    using load_saved [of s nvs_get s0 now] assms(1,3) by (simp add: wf_dhcp_def)
  have z: "s_leases s0 = replicate DHCP_SERVER_MAX_LEASES zero_lease" using assms(2) by (simp add: booting_def)
  from restore_table_spec(1) [OF z n kept_def [THEN meta_eq_to_obj_eq], of now] obtain es where
    es: "\<forall>k<length kept. es ! k = restore_lease (kept ! k) zero_lease"
      "length (s_leases ?t) = DHCP_SERVER_MAX_LEASES"
      "\<forall>k<DHCP_SERVER_MAX_LEASES. s_leases ?t ! k =
         (if k < length kept then settled es (length kept) k else zero_lease)"
    unfolding t by blast
  show "length kept \<le> length (s_leases ?t)" using len es(2) by simp
  from es show "\<exists>es. \<forall>k<DHCP_SERVER_MAX_LEASES. s_leases ?t ! k =
      (if k < length kept then settled es (length kept) k else zero_lease) \<and>
      (k < length kept \<longrightarrow> es ! k = restore_lease (kept ! k) zero_lease)"
    by auto
  have "uniq_by l_in_use l_mac (s_leases ?t)" "uniq_by leased l_ip (s_leases ?t)"
    using es uniq_saved_records [OF assms(1), of STORE_VERSION "s_boot_seq s + 1", folded kept_def]
    unfolding uniq_by_def by (auto simp: leased_def split: if_splits)
  moreover show "s_declined ?t = []"
    using restore_table_spec(4) [OF z n refl] assms(2) by (simp add: t booting_def)
  ultimately show "wf_dhcp ?t" using es(2) by (simp add: wf_dhcp_def)
  show "s_boot_seq ?t = s_boot_seq s + 1" "in_pool ?t = in_pool s0" "in_wired ?t = in_wired s0"
    "s_wired_start ?t = s_wired_start s0"
    using restore_table_spec(3,6,7,8) [OF z n refl] by (simp_all add: t)
qed


definition one_lease_lan :: dhcp where
  "one_lease_lan = lan_dhcp\<lparr>s_leases :=
     (fresh_lease (Mac 2 0 0 0 0 1))
       \<lparr>l_ip := ip4 192 168 5 33, l_expires_us := 7200000000, l_last_seen_seq := 1\<rparr> #
     replicate 31 zero_lease\<rparr>"


lemma load_inherits_no_dispute_witness:
  "length (s_leases (load_from_nvs (\<lambda>cap f. f) 0 (lan_dhcp\<lparr>s_flash := Some [1, 2, 3]\<rparr>))) = 32"
  using load_inherits_no_dispute [of "lan_dhcp\<lparr>s_flash := Some [1, 2, 3]\<rparr>" _ "\<lambda>cap f. f" 0]
  by (simp add: booting_def lan_dhcp_def static_dhcp_def)

text \<open>A save either fails, and then the table and its dirty mark stay for the next attempt, or
  succeeds, and then every entry in use is up to date with flash and the table is clean. The blob
  written never carries the address of a client that is cut off.\<close>

theorem save_outcome:
  assumes "s' = save_to_nvs_locked nvs_set s"
  shows "(\<not> fst (nvs_set (table_blob s) (s_flash s)) \<longrightarrow>
       s_leases s' = s_leases s \<and> s_dirty s' = s_dirty s) \<and>
    (fst (nvs_set (table_blob s) (s_flash s)) \<longrightarrow> \<not> s_dirty s' \<and>
       (\<forall>e\<in>set (s_leases s'). l_in_use e \<longrightarrow>
          l_saved_ip e = l_ip e \<and> l_saved_observed_ip e = persisted_observed_ip e)) \<and>
    (\<forall>e\<in>set (s_leases s). l_quarantined e \<longrightarrow> st_observed_ip (stored_of e) = 0) \<and>
    table_blob s = stored_hdr_bytes (of_nat (length (saved_records s))) (s_boot_seq s) @
      concat (map stored_lease_bytes (saved_records s))"
  using assms
  by (auto simp: save_to_nvs_locked_def note_saved_def persisted_observed_ip_def stored_of_def
      table_blob_def saved_records_def Let_def split: prod.splits if_splits)

lemma save_outcome_witness:
  "\<not> s_dirty (save_to_nvs_locked (\<lambda>b f. (True, Some b)) (one_lease_lan\<lparr>s_dirty := True\<rparr>))"
  using save_outcome [OF refl, of "\<lambda>b f. (True, Some b)" "one_lease_lan\<lparr>s_dirty := True\<rparr>"] by simp

section \<open>Tables written by earlier revisions\<close>

text \<open>The blob of revision 1 or 2: the shorter header, and records cut to their first bytes.\<close>

definition old_blob :: "u16 \<Rightarrow> stored_lease list \<Rightarrow> u8 list" where
  "old_blob ver rs =
     bytes_of_u32 STORE_MAGIC @ bytes_of_u16 ver @ bytes_of_u16 (of_nat (length rs)) @
     concat (map (\<lambda>r. take (stored_rec_size ver) (stored_lease_bytes r)) rs)"

lemma u32_at_replicate_0 [simp]: "i + 4 \<le> n \<Longrightarrow> u32_at (replicate n 0) i = 0"
  by (simp add: u32_at_def)

lemma read_old_lease:
  assumes "ver = 1 \<or> ver = 2"
  shows "st_mac (read_stored_lease ver (take (stored_rec_size ver) (stored_lease_bytes r) @ bs)) = st_mac r"
    "st_ip (read_stored_lease ver (take (stored_rec_size ver) (stored_lease_bytes r) @ bs)) = st_ip r"
    "st_last_seen_seq (read_stored_lease ver (take (stored_rec_size ver) (stored_lease_bytes r) @ bs)) = 0"
  using assms
  by (auto simp: read_stored_lease_def stored_rec_size_def stored_lease_bytes_def Let_def)

lemma length_old_record:
  "ver = 1 \<or> ver = 2 \<Longrightarrow> length (take (stored_rec_size ver) (stored_lease_bytes r)) = stored_rec_size ver"
  by (auto simp: stored_rec_size_def)

text \<open>An upgrade keeps what a device has learnt. A blob written by revision 1 or 2 is restored
  record for record, none forgotten for its age although its generation reads as 0.\<close>

theorem upgrade_keeps_reservations:
  assumes "ver = 1 \<or> ver = 2" "length rs \<le> DHCP_SERVER_MAX_LEASES" "booting s"
    and "nvs_get STORE_BUF_LEN (s_flash s) = Some (old_blob ver rs)"
  shows "s_restored_count (load_from_nvs nvs_get now s) = length rs \<and>
    (\<forall>k<length rs. l_in_use (s_leases (load_from_nvs nvs_get now s) ! k) \<and>
       l_mac (s_leases (load_from_nvs nvs_get now s) ! k) = st_mac (rs ! k) \<and>
       l_ip (s_leases (load_from_nvs nvs_get now s) ! k) = st_ip (rs ! k))"
proof -
  let ?f = "\<lambda>r. take (stored_rec_size ver) (stored_lease_bytes r)" and ?buf = "old_blob ver rs"
  define recs where "recs = map (\<lambda>i. read_stored_lease ver (drop (8 + i * stored_rec_size ver) ?buf)) [0..<length rs]"
  have count: "unat (of_nat (length rs) :: u16) = length rs"
    using assms(2) by (simp add: unat_of_nat take_bit_nat_eq_self)
  have len: "length ?buf = 8 + length rs * stored_rec_size ver"
    unfolding old_blob_def using length_old_record [OF assms(1)]
    by (simp add: length_concat o_def sum_list_triv)
  have fields: "u32_at ?buf 0 = STORE_MAGIC" "u16_at ?buf 4 = ver" "u16_at ?buf 6 = of_nat (length rs)"
    by (simp_all add: old_blob_def)
  have hl: "stored_hdr_len ver = 8" "ver \<noteq> 0" "\<not> STORE_VERSION < ver" "\<not> ver \<ge> 3"
    using assms(1) by (auto simp: stored_hdr_len_def word_le_nat_alt word_less_nat_alt)
  have h1: "stored_hdr_len 1 = 8" by code_simp
  have load: "load_from_nvs nvs_get now s = restore_table now ver 0 recs s"
    using assms(2,4) by (simp add: load_from_nvs_def Let_def fields count len hl restore_table_boot_seq
        recs_def not_less h1)
  have old: "st_mac (recs ! k) = st_mac (rs ! k)" "st_ip (recs ! k) = st_ip (rs ! k)" if "k < length rs" for k
  proof -
    have "drop (8 + k * stored_rec_size ver) ?buf = drop (k * stored_rec_size ver) (concat (map ?f rs))"
      by (simp add: old_blob_def)
    also have "\<dots> = ?f (rs ! k) @ drop (Suc k * stored_rec_size ver) (concat (map ?f rs))"
      by (rule drop_concat_records [OF length_old_record [OF assms(1)] that])
    finally show "st_mac (recs ! k) = st_mac (rs ! k)" "st_ip (recs ! k) = st_ip (rs ! k)"
      using that read_old_lease [OF assms(1)] by (simp_all add: recs_def)
  qed
  have kept: "kept_records ver (0 + 1) recs = recs" using hl(4) by (simp add: kept_records_def)
  have len: "length recs = length rs" by (simp add: recs_def)
  have z: "s_leases s = replicate DHCP_SERVER_MAX_LEASES zero_lease" using assms(3) by (simp add: booting_def)
  have n: "length recs \<le> DHCP_SERVER_MAX_LEASES" using assms(2) len by simp
  show ?thesis
    using restore_table_spec(1,2) [OF z n kept [symmetric], of now] assms(2) len old
    unfolding load by fastforce
qed

lemma upgrade_keeps_reservations_witness:
  "let rs = [\<lparr>st_mac = Mac 2 0 0 0 0 1, st_ip = ip4 192 168 5 33, st_observed_ip = 0, st_last_seen_seq = 9\<rparr>];
       s = lan_dhcp\<lparr>s_flash := Some (old_blob 1 rs)\<rparr>
   in s_restored_count (load_from_nvs (\<lambda>cap f. f) 0 s) = 1"
proof -
  let ?rs = "[\<lparr>st_mac = Mac 2 0 0 0 0 1, st_ip = ip4 192 168 5 33, st_observed_ip = 0, st_last_seen_seq = 9\<rparr>]"
  let ?s = "lan_dhcp\<lparr>s_flash := Some (old_blob 1 ?rs)\<rparr>"
  have "booting ?s" by code_simp
  then show ?thesis
    using upgrade_keeps_reservations [of 1 ?rs ?s "\<lambda>cap f. f" 0] by (simp add: Let_def)
qed

end
