(* ===== verification/DhcpProtocol.thy ===== *)
theory DhcpProtocol
  imports DhcpStore
begin

text \<open>
  The protocol half of \<open>main/dhcp_server.c\<close>: the message and its wire layout, option parsing and
  building, replies, and \<open>handle_message()\<close>. What the code sends is the list of its outputs, in
  order. What it asks other modules is its environment: whether the request came over the cable
  (\<open>client_track_mac_on_wired_port\<close>), whether an uplink is configured, and the two readings of
  \<open>wan_get_dns\<close>, by \<open>lease_time_s\<close> and by \<open>put_offer_options\<close>, which may differ. A failed
  \<open>sendto\<close> is only logged.
\<close>

section \<open>Messages\<close>

record dhcp_msg =
  m_op :: u8
  m_htype :: u8
  m_hlen :: u8
  m_hops :: u8
  m_xid :: u32
  m_secs :: u16
  m_flags :: u16
  m_ciaddr :: u32
  m_yiaddr :: u32
  m_siaddr :: u32
  m_giaddr :: u32
  m_chaddr :: "u8 list"
  m_sname :: "u8 list"
  m_file :: "u8 list"
  m_options :: "u8 list"

abbreviation SIZEOF_OPTIONS :: nat where "SIZEOF_OPTIONS \<equiv> 312"
abbreviation DHCP_FIXED_LEN :: nat where "DHCP_FIXED_LEN \<equiv> 236"
abbreviation DHCP_MIN_REPLY :: nat where "DHCP_MIN_REPLY \<equiv> 300"
abbreviation SIZEOF_DHCP_MSG :: nat where "SIZEOF_DHCP_MSG \<equiv> 548"
abbreviation LEASE_TIME_S :: u32 where "LEASE_TIME_S \<equiv> 7200"
abbreviation LEASE_TIME_NO_DNS_S :: u32 where "LEASE_TIME_NO_DNS_S \<equiv> 120"
abbreviation OFFER_HOLD_S :: u32 where "OFFER_HOLD_S \<equiv> 30"
abbreviation BOOTREQUEST :: u8 where "BOOTREQUEST \<equiv> 1"
abbreviation BOOTREPLY :: u8 where "BOOTREPLY \<equiv> 2"
abbreviation DHCPDISCOVER :: u8 where "DHCPDISCOVER \<equiv> 1"
abbreviation DHCPOFFER :: u8 where "DHCPOFFER \<equiv> 2"
abbreviation DHCPREQUEST :: u8 where "DHCPREQUEST \<equiv> 3"
abbreviation DHCPDECLINE :: u8 where "DHCPDECLINE \<equiv> 4"
abbreviation DHCPACK :: u8 where "DHCPACK \<equiv> 5"
abbreviation DHCPNAK :: u8 where "DHCPNAK \<equiv> 6"
abbreviation DHCPRELEASE :: u8 where "DHCPRELEASE \<equiv> 7"
abbreviation DHCPINFORM :: u8 where "DHCPINFORM \<equiv> 8"
abbreviation OPT_SUBNET_MASK :: u8 where "OPT_SUBNET_MASK \<equiv> 1"
abbreviation OPT_ROUTER :: u8 where "OPT_ROUTER \<equiv> 3"
abbreviation OPT_DNS_SERVER :: u8 where "OPT_DNS_SERVER \<equiv> 6"
abbreviation OPT_HOSTNAME :: u8 where "OPT_HOSTNAME \<equiv> 12"
abbreviation OPT_INTERFACE_MTU :: u8 where "OPT_INTERFACE_MTU \<equiv> 26"
abbreviation OPT_BROADCAST :: u8 where "OPT_BROADCAST \<equiv> 28"
abbreviation OPT_ROUTER_DISC :: u8 where "OPT_ROUTER_DISC \<equiv> 31"
abbreviation OPT_REQUESTED_IP :: u8 where "OPT_REQUESTED_IP \<equiv> 50"
abbreviation OPT_LEASE_TIME :: u8 where "OPT_LEASE_TIME \<equiv> 51"
abbreviation OPT_MSG_TYPE :: u8 where "OPT_MSG_TYPE \<equiv> 53"
abbreviation OPT_SERVER_ID :: u8 where "OPT_SERVER_ID \<equiv> 54"
abbreviation OPT_END :: u8 where "OPT_END \<equiv> 255"
abbreviation MAGIC_COOKIE :: u32 where "MAGIC_COOKIE \<equiv> 0x63825363"
abbreviation INADDR_BROADCAST :: u32 where "INADDR_BROADCAST \<equiv> 0xFFFFFFFF"

text \<open>The packed layout, in both directions.\<close>

definition msg_bytes :: "dhcp_msg \<Rightarrow> u8 list" where
  "msg_bytes m =
     [m_op m, m_htype m, m_hlen m, m_hops m] @ bytes_of_u32 (m_xid m) @
     bytes_of_u16 (m_secs m) @ bytes_of_u16 (m_flags m) @
     bytes_of_u32 (m_ciaddr m) @ bytes_of_u32 (m_yiaddr m) @ bytes_of_u32 (m_siaddr m) @
     bytes_of_u32 (m_giaddr m) @ m_chaddr m @ m_sname m @ m_file m @ m_options m"

definition msg_of_bytes :: "u8 list \<Rightarrow> dhcp_msg" where
  "msg_of_bytes b =
     \<lparr>m_op = b ! 0, m_htype = b ! 1, m_hlen = b ! 2, m_hops = b ! 3, m_xid = u32_at b 4,
      m_secs = u16_at b 8, m_flags = u16_at b 10, m_ciaddr = u32_at b 12, m_yiaddr = u32_at b 16,
      m_siaddr = u32_at b 20, m_giaddr = u32_at b 24, m_chaddr = take 16 (drop 28 b),
      m_sname = take 64 (drop 44 b), m_file = take 128 (drop 108 b),
      m_options = take SIZEOF_OPTIONS (drop DHCP_FIXED_LEN b)\<rparr>"

record dhcp_env =
  e_wired :: bool
  e_wan_enabled :: bool
  e_dns_lease :: u32
  e_dns_reply :: u32
  e_event_hostname_size :: nat

datatype dhcp_output = SendTo u32 "u8 list" | PostAssigned mac u32 "u8 list"

definition lease_time_s :: "dhcp_env \<Rightarrow> u32" where
  "lease_time_s env = (if e_wan_enabled env \<and> e_dns_lease env = 0 then LEASE_TIME_NO_DNS_S else LEASE_TIME_S)"

section \<open>Options\<close>

text \<open>The scan, from index \<open>i\<close>; the result is the index of the option's value with its length.\<close>

function find_option_from :: "u8 list \<Rightarrow> nat \<Rightarrow> u8 \<Rightarrow> nat \<Rightarrow> (nat \<times> u8) option" where
  "find_option_from opts opts_len want i =
     (if i + 1 < opts_len then
        let code = opts ! i in
        if code = OPT_END then None
        else if code = 0 then find_option_from opts opts_len want (i + 1)
        else let len = opts ! (i + 1) in
          if i + 2 + unat len > opts_len then None
          else if code = want then Some (i + 2, len)
          else find_option_from opts opts_len want (i + 2 + unat len)
      else None)"
  by pat_completeness auto
termination
  by (relation "measure (\<lambda>(opts, opts_len, want, i). opts_len - i)") auto

declare find_option_from.simps [simp del]

definition find_option :: "dhcp_msg \<Rightarrow> nat \<Rightarrow> u8 \<Rightarrow> (nat \<times> u8) option" where
  "find_option m opts_len want = find_option_from (m_options m) opts_len want 4"

definition put_opt_ip :: "u8 \<Rightarrow> u32 \<Rightarrow> u8 list" where
  "put_opt_ip code net_ip = [code, 4] @ bytes_of_u32 net_ip"

definition put_offer_options :: "dhcp_env \<Rightarrow> dhcp \<Rightarrow> u32 \<Rightarrow> u8 list" where
  "put_offer_options env s lease_s =
     put_opt_ip OPT_SUBNET_MASK (s_netmask s) @
     (if lease_s \<noteq> 0 then [OPT_LEASE_TIME, 4] @ bytes_of_u32 (lwip_htonl lease_s) else []) @
     put_opt_ip OPT_SERVER_ID (s_server_ip s) @
     put_opt_ip OPT_ROUTER (s_server_ip s) @
     put_opt_ip OPT_DNS_SERVER (if e_dns_reply env \<noteq> 0 then e_dns_reply env else s_server_ip s) @
     put_opt_ip OPT_BROADCAST ((s_server_ip s AND s_netmask s) OR NOT (s_netmask s)) @
     [OPT_INTERFACE_MTU, 2, 0x05, 0xdc] @
     [OPT_ROUTER_DISC, 1, 0x00]"

definition hostname_char_ok :: "u8 \<Rightarrow> bool" where
  "hostname_char_ok c \<longleftrightarrow>
     (97 \<le> c \<and> c \<le> 122) \<or> (65 \<le> c \<and> c \<le> 90) \<or> (48 \<le> c \<and> c \<le> 57) \<or> c = 46 \<or> c = 45 \<or> c = 95"

text \<open>The string left in \<open>out\<close>, without its terminator.\<close>

definition copy_hostname :: "u8 list \<Rightarrow> nat \<Rightarrow> nat \<Rightarrow> u8 list" where
  "copy_hostname val len out_size =
     (let n = (if len \<ge> out_size then out_size - 1 else len) in
      map (\<lambda>c. if hostname_char_ok c then c else 45) (take n val))"

section \<open>Replies\<close>

text \<open>The options part of a reply up to its end mark, and the reply with the rest of it zero.\<close>

definition reply_options :: "dhcp_env \<Rightarrow> dhcp \<Rightarrow> u8 \<Rightarrow> u32 \<Rightarrow> u8 list" where
  "reply_options env s type lease_s =
     bytes_of_u32 (lwip_htonl MAGIC_COOKIE) @ [OPT_MSG_TYPE, 1, type] @
     (if type = DHCPNAK then put_opt_ip OPT_SERVER_ID (s_server_ip s)
      else put_offer_options env s lease_s) @
     [OPT_END]"

definition reply_msg :: "dhcp_env \<Rightarrow> dhcp \<Rightarrow> dhcp_msg \<Rightarrow> u8 \<Rightarrow> u32 \<Rightarrow> u32 \<Rightarrow> dhcp_msg" where
  "reply_msg env s req type yiaddr lease_s =
     (let opts = reply_options env s type lease_s in
      \<lparr>m_op = BOOTREPLY, m_htype = m_htype req, m_hlen = m_hlen req, m_hops = 0, m_xid = m_xid req,
       m_secs = 0, m_flags = m_flags req, m_ciaddr = (if type = DHCPACK then m_ciaddr req else 0),
       m_yiaddr = yiaddr, m_siaddr = 0, m_giaddr = m_giaddr req, m_chaddr = m_chaddr req,
       m_sname = replicate 64 0, m_file = replicate 128 0,
       m_options = opts @ replicate (SIZEOF_OPTIONS - length opts) 0\<rparr>)"

definition send_reply :: "dhcp_env \<Rightarrow> dhcp \<Rightarrow> dhcp_msg \<Rightarrow> u8 \<Rightarrow> u32 \<Rightarrow> u32 \<Rightarrow> dhcp_output" where
  "send_reply env s req type yiaddr lease_s =
     (let len = DHCP_FIXED_LEN + length (reply_options env s type lease_s);
          len = (if len < DHCP_MIN_REPLY then DHCP_MIN_REPLY else len);
          dst = (if m_ciaddr req \<noteq> 0 \<and> type \<noteq> DHCPNAK then m_ciaddr req else INADDR_BROADCAST)
      in SendTo dst (take len (msg_bytes (reply_msg env s req type yiaddr lease_s))))"

text \<open>\<open>strlcpy\<close> into the event's hostname, a field of the event library's structure.\<close>

definition post_assigned_event :: "dhcp_env \<Rightarrow> mac \<Rightarrow> u32 \<Rightarrow> u8 list \<Rightarrow> dhcp_output" where
  "post_assigned_event env m ip hostname = PostAssigned m ip (take (e_event_hostname_size env - 1) hostname)"

section \<open>Handling a message\<close>

definition handle_discover ::
  "dhcp_env \<Rightarrow> int \<Rightarrow> dhcp_msg \<Rightarrow> mac \<Rightarrow> u32 \<Rightarrow> dhcp \<Rightarrow> dhcp_output list \<times> dhcp"
where
  "handle_discover env now m client requested s =
     (let (ip, s) = select_address_locked now s client requested (e_wired env);
          s = (if ip \<noteq> 0 then snd (commit_lease_locked now s client ip OFFER_HOLD_S False) else s)
      in if ip = 0 then ([], s)
         else ([send_reply env s m DHCPOFFER ip (lease_time_s env)], s))"

definition handle_request ::
  "dhcp_env \<Rightarrow> int \<Rightarrow> dhcp_msg \<Rightarrow> mac \<Rightarrow> u32 \<Rightarrow> u32 \<Rightarrow> u8 list \<Rightarrow> dhcp \<Rightarrow> dhcp_output list \<times> dhcp"
where
  "handle_request env now m client requested server_id hostname s =
     (if server_id \<noteq> 0 \<and> server_id \<noteq> s_server_ip s
      then ([], case find_by_mac_locked s client of
                  None \<Rightarrow> s
                | Some i \<Rightarrow>
                    let e = s_leases s ! i in
                    if l_expires_us e \<noteq> 0 then set_lease s i (e\<lparr>l_in_use := False\<rparr>) else s)
      else let lease_s = lease_time_s env;
               (ip, s) = select_address_locked now s client requested (e_wired env);
               ok = (ip \<noteq> 0 \<and> (requested = 0 \<or> requested = ip));
               s = (if ok then snd (commit_lease_locked now s client ip lease_s True) else s)
           in if \<not> ok then ([send_reply env s m DHCPNAK 0 0], s)
              else ([send_reply env s m DHCPACK ip lease_s, post_assigned_event env client ip hostname], s))"

definition handle_decline :: "int \<Rightarrow> mac \<Rightarrow> u32 \<Rightarrow> dhcp \<Rightarrow> dhcp" where
  "handle_decline now client requested s =
     (let e = find_by_mac_locked s client;
          bad = (case e of Some i \<Rightarrow> l_ip (s_leases s ! i) | None \<Rightarrow> requested);
          s = (if bad \<noteq> 0 \<and> \<not> ip_declined s bad \<and> length (s_declined s) < MAX_DECLINED
               then s\<lparr>s_declined := s_declined s @ [bad]\<rparr> else s)
      in case e of
           None \<Rightarrow> s
         | Some i \<Rightarrow>
             let e = s_leases s ! i;
                 s = set_lease s i (e\<lparr>l_in_use := False\<rparr>)
             in if l_saved_ip e \<noteq> 0 then mark_dirty_locked now s else s)"

definition handle_release :: "mac \<Rightarrow> dhcp \<Rightarrow> dhcp" where
  "handle_release client s =
     (case find_by_mac_locked s client of
        None \<Rightarrow> s
      | Some i \<Rightarrow>
          let e = (s_leases s ! i)\<lparr>l_expires_us := 0\<rparr>;
              e = (if s_boot_seq s > 0 then e\<lparr>l_last_seen_seq := s_boot_seq s - 1\<rparr> else e)
          in set_lease s i e)"

text \<open>The value of an address option, \<open>None\<close> when it is absent or short.\<close>

definition ip_option :: "dhcp_msg \<Rightarrow> nat \<Rightarrow> u8 \<Rightarrow> u32 option" where
  "ip_option m opts_len want =
     (case find_option m opts_len want of
        Some (k, olen) \<Rightarrow> if olen \<ge> 4 then Some (u32_at (m_options m) k) else None
      | None \<Rightarrow> None)"

definition client_mac :: "dhcp_msg \<Rightarrow> mac" where
  "client_mac m = mac_of_bytes (m_chaddr m)"

definition dispatch ::
  "dhcp_env \<Rightarrow> int \<Rightarrow> dhcp_msg \<Rightarrow> u8 \<Rightarrow> u32 \<Rightarrow> u32 \<Rightarrow> u8 list \<Rightarrow> dhcp \<Rightarrow> dhcp_output list \<times> dhcp"
where
  "dispatch env now m type requested server_id hostname s =
     (let client = client_mac m in
      if type = DHCPDISCOVER then handle_discover env now m client requested s
      else if type = DHCPREQUEST then handle_request env now m client requested server_id hostname s
      else if type = DHCPDECLINE then ([], handle_decline now client requested s)
      else if type = DHCPRELEASE then ([], handle_release client s)
      else if type = DHCPINFORM
      then ((if m_ciaddr m \<noteq> 0 then [send_reply env s m DHCPACK 0 0] else []), s)
      else ([], s))"

definition handle_message ::
  "dhcp_env \<Rightarrow> int \<Rightarrow> dhcp_msg \<Rightarrow> nat \<Rightarrow> dhcp \<Rightarrow> dhcp_output list \<times> dhcp"
where
  "handle_message env now m len s =
     (if len < DHCP_FIXED_LEN + 4 \<or> m_op m \<noteq> BOOTREQUEST \<or> m_hlen m \<noteq> 6 then ([], s)
      else if u32_at (m_options m) 0 \<noteq> lwip_htonl MAGIC_COOKIE then ([], s)
      else if m_giaddr m \<noteq> 0 then ([], s)
      else let opts_len = min (len - DHCP_FIXED_LEN) SIZEOF_OPTIONS in
        case find_option m opts_len OPT_MSG_TYPE of
          None \<Rightarrow> ([], s)
        | Some (k, olen) \<Rightarrow>
            if olen < 1 then ([], s)
            else let type = m_options m ! k;
                     requested = (case ip_option m opts_len OPT_REQUESTED_IP of
                                    Some ip \<Rightarrow> ip | None \<Rightarrow> m_ciaddr m);
                     server_id = (case ip_option m opts_len OPT_SERVER_ID of Some ip \<Rightarrow> ip | None \<Rightarrow> 0);
                     hostname = (case find_option m opts_len OPT_HOSTNAME of
                                   Some (j, hlen) \<Rightarrow>
                                     if hlen > 0 then copy_hostname (drop j (m_options m)) (unat hlen) 64 else []
                                 | None \<Rightarrow> [])
              in dispatch env now m type requested server_id hostname s)"

text \<open>One pass of the task: a datagram overwrites the front of the static buffer, whose rest is what
  earlier datagrams left there.\<close>

definition receive :: "dhcp_env \<Rightarrow> int \<Rightarrow> u8 list \<Rightarrow> u8 list \<Rightarrow> dhcp \<Rightarrow> dhcp_output list \<times> dhcp" where
  "receive env now rx datagram s =
     (let n = length (take SIZEOF_DHCP_MSG datagram);
          rx = take SIZEOF_DHCP_MSG datagram @ drop n rx
      in if n > 0 then handle_message env now (msg_of_bytes rx) n s else ([], s))"

section \<open>The wire layout\<close>

definition wf_msg :: "dhcp_msg \<Rightarrow> bool" where
  "wf_msg m \<longleftrightarrow> length (m_chaddr m) = 16 \<and> length (m_sname m) = 64 \<and> length (m_file m) = 128 \<and>
     length (m_options m) = SIZEOF_OPTIONS"

definition fixed_bytes :: "dhcp_msg \<Rightarrow> u8 list" where
  "fixed_bytes m =
     [m_op m, m_htype m, m_hlen m, m_hops m] @ bytes_of_u32 (m_xid m) @
     bytes_of_u16 (m_secs m) @ bytes_of_u16 (m_flags m) @
     bytes_of_u32 (m_ciaddr m) @ bytes_of_u32 (m_yiaddr m) @ bytes_of_u32 (m_siaddr m) @
     bytes_of_u32 (m_giaddr m) @ m_chaddr m @ m_sname m @ m_file m"

lemma msg_bytes_fixed: "msg_bytes m = fixed_bytes m @ m_options m"
  by (simp add: msg_bytes_def fixed_bytes_def)

lemma length_fixed_bytes: "wf_msg m \<Longrightarrow> length (fixed_bytes m) = DHCP_FIXED_LEN"
  by (simp add: fixed_bytes_def wf_msg_def)

lemma msg_of_fixed_bytes:
  assumes "wf_msg m"
  shows "msg_of_bytes (fixed_bytes m @ opts) = m\<lparr>m_options := take SIZEOF_OPTIONS opts\<rparr>"
  using assms unfolding msg_of_bytes_def fixed_bytes_def wf_msg_def by simp

lemma msg_of_msg_bytes:
  "wf_msg m \<Longrightarrow> DHCP_FIXED_LEN \<le> n \<Longrightarrow>
     msg_of_bytes (take n (msg_bytes m)) = m\<lparr>m_options := take (n - DHCP_FIXED_LEN) (m_options m)\<rparr>"
  by (simp add: msg_bytes_fixed length_fixed_bytes msg_of_fixed_bytes wf_msg_def min_def)

section \<open>Option scanning\<close>

lemma find_option_from_bounds:
  "find_option_from opts n want i = Some (k, len) \<Longrightarrow>
     i + 2 \<le> k \<and> k + unat len \<le> n \<and> opts ! (k - 2) = want \<and> opts ! (k - 1) = len"
proof (induction opts n want i rule: find_option_from.induct)
  case (1 opts n want i)
  show ?case
    using "1.prems" "1.IH"
    by (subst (asm) find_option_from.simps) (fastforce simp: Let_def split: if_splits)
qed

lemma find_option_from_cong:
  "take n opts = take n opts' \<Longrightarrow> find_option_from opts n want i = find_option_from opts' n want i"
proof (induction opts n want i rule: find_option_from.induct)
  case (1 opts n want i)
  have nth: "opts ! j = opts' ! j" if "j < n" for j
    using "1.prems" nth_take [OF that, of opts] nth_take [OF that, of opts'] by simp
  show ?case
  proof (cases "i + 1 < n")
    case True
    then have "opts ! i = opts' ! i" "opts ! (i + 1) = opts' ! (i + 1)" using nth by auto
    then show ?thesis
      using "1.IH" "1.prems" True
      by (subst (1 2) find_option_from.simps) (simp add: Let_def)
  qed (simp add: find_option_from.simps)
qed

lemma u32_at_cong:
  assumes "take n xs = take n ys" "i + 4 \<le> n"
  shows "u32_at xs i = u32_at ys i"
proof -
  have "xs ! j = ys ! j" if "j < n" for j
    using assms(1) nth_take [OF that, of xs] nth_take [OF that, of ys] by simp
  then show ?thesis using assms(2) by (simp add: u32_at_def)
qed

lemma nth_cong_take: "take n xs = take n ys \<Longrightarrow> i < n \<Longrightarrow> xs ! i = ys ! i"
  by (metis nth_take)

text \<open>The handler reads the options only below the length that was received.\<close>

lemma find_option_cong:
  "take n (m_options m) = take n opts \<Longrightarrow> find_option (m\<lparr>m_options := opts\<rparr>) n want = find_option m n want"
  unfolding find_option_def by (simp add: find_option_from_cong [of n opts "m_options m"])

lemma ip_option_cong:
  assumes "take n (m_options m) = take n opts"
  shows "ip_option (m\<lparr>m_options := opts\<rparr>) n want = ip_option m n want"
proof (cases "find_option m n want")
  case (Some r)
  obtain k olen where r: "r = (k, olen)" by fastforce
  then have "k + unat olen \<le> n"
    using Some find_option_from_bounds unfolding find_option_def by blast
  then have "olen \<ge> 4 \<Longrightarrow> u32_at opts k = u32_at (m_options m) k"
    using u32_at_cong [OF assms [symmetric], of k] by (simp add: word_le_nat_alt)
  then show ?thesis using Some r by (simp add: ip_option_def find_option_cong [OF assms])
qed (simp add: ip_option_def find_option_cong [OF assms])

lemma send_reply_cong: "send_reply env s (m\<lparr>m_options := opts\<rparr>) = send_reply env s m"
  by (intro ext) (simp add: send_reply_def reply_msg_def)

lemma copy_hostname_cong:
  assumes "take n xs = take n ys" "j + len \<le> n"
  shows "copy_hostname (drop j xs) len sz = copy_hostname (drop j ys) len sz"
proof -
  have "take k (drop j xs) = take k (drop j ys)" if "k \<le> len" for k
    using arg_cong [OF assms(1), of "\<lambda>l. take k (drop j l)"] assms(2) that
    by (simp add: take_drop min_def)
  then show ?thesis by (simp add: copy_hostname_def Let_def)
qed

lemma handlers_cong:
  "handle_discover env now (m\<lparr>m_options := opts\<rparr>) = handle_discover env now m"
  "handle_request env now (m\<lparr>m_options := opts\<rparr>) = handle_request env now m"
  "client_mac (m\<lparr>m_options := opts\<rparr>) = client_mac m"
  unfolding handle_discover_def handle_request_def send_reply_cong client_mac_def by simp_all

lemma dispatch_cong: "dispatch env now (m\<lparr>m_options := opts\<rparr>) = dispatch env now m"
  by (intro ext) (simp add: dispatch_def Let_def handlers_cong send_reply_cong cong: if_cong)

lemma handle_message_cong:
  assumes "take (min (len - DHCP_FIXED_LEN) SIZEOF_OPTIONS) (m_options m) =
      take (min (len - DHCP_FIXED_LEN) SIZEOF_OPTIONS) opts"
  shows "handle_message env now (m\<lparr>m_options := opts\<rparr>) len s = handle_message env now m len s"
proof (cases "len < DHCP_FIXED_LEN + 4")
  case False
  let ?n = "min (len - DHCP_FIXED_LEN) SIZEOF_OPTIONS"
  note cong = find_option_cong [OF assms] ip_option_cong [OF assms]
  have cookie: "u32_at opts 0 = u32_at (m_options m) 0"
    using False by (intro u32_at_cong [OF assms [symmetric]]) simp
  have type: "opts ! k = m_options m ! k"
    if "find_option m ?n OPT_MSG_TYPE = Some (k, olen)" "\<not> olen < 1" for k olen
  proof (rule nth_cong_take [OF assms [symmetric]])
    have "k + unat olen \<le> ?n" using that(1) find_option_from_bounds unfolding find_option_def by blast
    moreover have "1 \<le> unat olen" using that(2) by (simp add: word_less_nat_alt)
    ultimately show "k < ?n" by simp
  qed
  have "copy_hostname (drop k opts) (unat olen) 64 = copy_hostname (drop k (m_options m)) (unat olen) 64"
    if "find_option m ?n OPT_HOSTNAME = Some (k, olen)" for k olen
    using that find_option_from_bounds unfolding find_option_def
    by (intro copy_hostname_cong [OF assms [symmetric]]) blast
  then have host: "(case find_option m ?n OPT_HOSTNAME of
        Some (j, hlen) \<Rightarrow> if hlen > 0 then copy_hostname (drop j opts) (unat hlen) 64 else []
      | None \<Rightarrow> []) =
      (case find_option m ?n OPT_HOSTNAME of
        Some (j, hlen) \<Rightarrow> if hlen > 0 then copy_hostname (drop j (m_options m)) (unat hlen) 64 else []
      | None \<Rightarrow> [])"
    by (auto split: option.split)
  have ciaddr: "m_ciaddr (m\<lparr>m_options := opts\<rparr>) = m_ciaddr m"
    and options: "m_options (m\<lparr>m_options := opts\<rparr>) = opts" by simp_all
  show ?thesis
  proof (cases "find_option m ?n OPT_MSG_TYPE")
    case None
    then show ?thesis by (simp add: handle_message_def Let_def cong cookie)
  next
    case (Some r)
    obtain k olen where r: "r = (k, olen)" by fastforce
    show ?thesis
    proof (cases "olen < 1")
      case True
      then show ?thesis using Some r by (simp add: handle_message_def Let_def cong cookie)
    next
      case False
      then have "opts ! k = m_options m ! k" using type Some r by simp
      then show ?thesis
        unfolding handle_message_def Let_def cong dispatch_cong Some r option.case prod.case
          ciaddr options host
        by (simp add: cookie)
    qed
  qed
qed (simp add: handle_message_def)

lemma msg_of_bytes_append:
  "240 \<le> length d \<Longrightarrow>
     msg_of_bytes (d @ r) = (msg_of_bytes (d @ r'))\<lparr>m_options := m_options (msg_of_bytes (d @ r))\<rparr>"
  by (cases d) (auto simp: msg_of_bytes_def u32_at_def u16_at_def nth_append)

text \<open>What earlier datagrams left in the receive buffer never matters: the reply and the effect
  of a datagram depend on its own bytes only, so no client sees or steers with another's message.\<close>

theorem stale_bytes_irrelevant:
  assumes "length rx = SIZEOF_DHCP_MSG" "length rx' = SIZEOF_DHCP_MSG"
  shows "receive env now rx datagram s = receive env now rx' datagram s"
proof -
  let ?d = "take SIZEOF_DHCP_MSG datagram"
  let ?n = "length ?d"
  show ?thesis
  proof (cases "?n < DHCP_FIXED_LEN + 4")
    case True
    then show ?thesis by (simp add: receive_def handle_message_def Let_def del: length_take)
  next
    case False
    let ?m = "\<lambda>r. msg_of_bytes (?d @ drop ?n r)"
    have "?m rx = (?m rx')\<lparr>m_options := m_options (?m rx)\<rparr>"
      using False by (intro msg_of_bytes_append) simp
    moreover have "take (min (?n - DHCP_FIXED_LEN) SIZEOF_OPTIONS) (m_options (?m rx')) =
        take (min (?n - DHCP_FIXED_LEN) SIZEOF_OPTIONS) (m_options (?m rx))"
      using False by (simp add: msg_of_bytes_def min_def del: length_take)
    ultimately have "handle_message env now (?m rx) ?n s = handle_message env now (?m rx') ?n s"
      using handle_message_cong by metis
    then show ?thesis by (simp add: receive_def Let_def del: length_take)
  qed
qed

definition env_example :: dhcp_env where
  "env_example = \<lparr>e_wired = False, e_wan_enabled = False, e_dns_lease = 0, e_dns_reply = 0,
     e_event_hostname_size = 64\<rparr>"

lemma stale_bytes_irrelevant_witness:
  "receive env_example 5 (replicate 548 0) [1, 1, 6] lan_dhcp = receive env_example 5 (replicate 548 7) [1, 1, 6] lan_dhcp"
  by (rule stale_bytes_irrelevant) simp_all

section \<open>Replies are what a client can read\<close>

lemma length_put_opt_ip [simp]: "length (put_opt_ip code ip) = 6"
  by (simp add: put_opt_ip_def)

lemma length_reply_options: "length (reply_options env s type lease_s) \<le> 51"
  by (simp add: reply_options_def put_offer_options_def)

lemma wf_reply_msg: "length (m_chaddr req) = 16 \<Longrightarrow> wf_msg (reply_msg env s req type yiaddr lease_s)"
  using length_reply_options [of env s type lease_s] by (simp add: reply_msg_def wf_msg_def Let_def)

lemma send_reply_payload:
  "send_reply env s req type yiaddr lease_s =
     SendTo (if m_ciaddr req \<noteq> 0 \<and> type \<noteq> DHCPNAK then m_ciaddr req else INADDR_BROADCAST)
       (take 300 (msg_bytes (reply_msg env s req type yiaddr lease_s)))"
  using length_reply_options [of env s type lease_s] by (simp add: send_reply_def Let_def)

text \<open>One step of the scan over an option that is there.\<close>

lemma find_option_step:
  assumes "c \<noteq> OPT_END" "c \<noteq> 0" "length val = unat l" "length pre = i" "i + 2 + unat l \<le> n"
  shows "find_option_from (pre @ [c, l] @ val @ rest) n want i =
    (if c = want then Some (i + 2, l)
     else find_option_from ((pre @ [c, l] @ val) @ rest) n want (length (pre @ [c, l] @ val)))"
  using assms by (subst find_option_from.simps) (simp add: Let_def nth_append)

lemma find_option_end: "length pre = i \<Longrightarrow> find_option_from (pre @ OPT_END # rest) n want i = None"
  by (subst find_option_from.simps) (simp add: nth_append)

lemma u32_at_explicit [simp]:
  "u32_at (ucast w # ucast (drop_bit 8 w) # ucast (drop_bit 16 w) # ucast (drop_bit 24 w) # bs) 0 = w"
  using u32_at_bytes [of w bs] by (simp add: bytes_of_u32_def)

text \<open>C24: a reply other than a NAK reads back as what was meant, by this file's own option scan: it is
  300 bytes, echoes the client's transaction, hardware address and relay field, carries the address
  given, and its options are the type, the server, the mask, the router, the resolver and the lease.\<close>

theorem reply_roundtrip:
  assumes "length (m_chaddr req) = 16" "type \<noteq> DHCPNAK" "lease_s \<noteq> 0"
    and "send_reply env s req type yiaddr lease_s = SendTo dst b"
  shows "length b = 300 \<and> m_op (msg_of_bytes b) = BOOTREPLY \<and> m_xid (msg_of_bytes b) = m_xid req \<and>
    m_chaddr (msg_of_bytes b) = m_chaddr req \<and> m_yiaddr (msg_of_bytes b) = yiaddr \<and>
    map_option (\<lambda>(k, olen). (m_options (msg_of_bytes b) ! k, olen)) (find_option (msg_of_bytes b) 64 OPT_MSG_TYPE) =
      Some (type, 1) \<and>
    ip_option (msg_of_bytes b) 64 OPT_SERVER_ID = Some (s_server_ip s) \<and>
    ip_option (msg_of_bytes b) 64 OPT_SUBNET_MASK = Some (s_netmask s) \<and>
    ip_option (msg_of_bytes b) 64 OPT_ROUTER = Some (s_server_ip s) \<and>
    ip_option (msg_of_bytes b) 64 OPT_DNS_SERVER =
      Some (if e_dns_reply env \<noteq> 0 then e_dns_reply env else s_server_ip s) \<and>
    map_option lwip_ntohl (ip_option (msg_of_bytes b) 64 OPT_LEASE_TIME) = Some lease_s"
proof -
  let ?r = "reply_msg env s req type yiaddr lease_s"
  have b: "b = take 300 (msg_bytes ?r)" using assms(4) by (simp add: send_reply_payload)
  have wf: "wf_msg ?r" using assms(1) by (rule wf_reply_msg)
  have m: "msg_of_bytes b = ?r\<lparr>m_options := take 64 (m_options ?r)\<rparr>"
    unfolding b using msg_of_msg_bytes [OF wf, of 300] by simp
  have len: "length b = 300"
    using length_fixed_bytes [OF wf] wf unfolding b by (simp add: msg_bytes_fixed wf_msg_def)
  have opts: "take 64 (m_options ?r) = take 64 (reply_options env s type lease_s @ replicate 312 0)"
    using length_reply_options [of env s type lease_s] by (simp add: reply_msg_def Let_def)
  show ?thesis
    unfolding m find_option_def ip_option_def opts
    using assms(2,3) len
    by (simp add: reply_msg_def reply_options_def put_offer_options_def put_opt_ip_def bytes_of_u32_def
        find_option_from.simps Let_def)
qed

lemma reply_roundtrip_witness:
  "let req = (msg_of_bytes (replicate 548 1));
       env = \<lparr>e_wired = False, e_wan_enabled = False, e_dns_lease = 0, e_dns_reply = 0, e_event_hostname_size = 64\<rparr>
   in ip_option (msg_of_bytes (take 300 (msg_bytes (reply_msg env lan_dhcp req DHCPACK (ip4 192 168 5 20) 7200))))
        64 OPT_SUBNET_MASK = Some (ip4 255 255 255 0)"
proof -
  let ?env = "\<lparr>e_wired = False, e_wan_enabled = False, e_dns_lease = 0, e_dns_reply = 0, e_event_hostname_size = 64\<rparr>"
  have "length (m_chaddr (msg_of_bytes (replicate 548 1))) = 16" "s_netmask lan_dhcp = ip4 255 255 255 0"
    by (simp_all add: msg_of_bytes_def lan_dhcp_def)
  then show ?thesis
    using reply_roundtrip [OF _ _ _ send_reply_payload, of "msg_of_bytes (replicate 548 1)" DHCPACK 7200
        ?env lan_dhcp "ip4 192 168 5 20"]
    by (simp add: Let_def)
qed

section \<open>What a message does\<close>

text \<open>Every message is one of the five requests, or leaves no trace.\<close>

lemma handle_message_cases:
  obtains (discover) requested where "handle_message env now m len s = handle_discover env now m (client_mac m) requested s"
  | (request) requested server_id hostname where
      "handle_message env now m len s = handle_request env now m (client_mac m) requested server_id hostname s"
  | (decline) requested where "handle_message env now m len s = ([], handle_decline now (client_mac m) requested s)"
  | (release) "handle_message env now m len s = ([], handle_release (client_mac m) s)"
  | (inform) "handle_message env now m len s = ([send_reply env s m DHCPACK 0 0], s)"
  | (silent) "handle_message env now m len s = ([], s)"
proof -
  have "handle_message env now m len s = ([], s) \<or>
      (\<exists>type requested server_id hostname.
         handle_message env now m len s = dispatch env now m type requested server_id hostname s)"
    unfolding handle_message_def Let_def by (simp split: option.split prod.split) blast
  then show thesis
  proof (elim disjE exE)
    fix type requested server_id hostname
    assume eq: "handle_message env now m len s = dispatch env now m type requested server_id hostname s"
    consider "type = DHCPDISCOVER" | "type = DHCPREQUEST" | "type = DHCPDECLINE" | "type = DHCPRELEASE"
      | "type = DHCPINFORM \<and> m_ciaddr m \<noteq> 0"
      | "type \<noteq> DHCPDISCOVER \<and> type \<noteq> DHCPREQUEST \<and> type \<noteq> DHCPDECLINE \<and> type \<noteq> DHCPRELEASE \<and>
          \<not> (type = DHCPINFORM \<and> m_ciaddr m \<noteq> 0)"
      by blast
    then show thesis
      by cases (use eq that in \<open>simp_all add: dispatch_def Let_def\<close>)
  qed (rule silent)
qed

lemma reply_yiaddr:
  "length (m_chaddr req) = 16 \<Longrightarrow> send_reply env s req type yiaddr lease_s = SendTo dst b \<Longrightarrow>
     m_yiaddr (msg_of_bytes b) = yiaddr"
  using msg_of_msg_bytes [OF wf_reply_msg, of req 300] by (auto simp: send_reply_payload reply_msg_def Let_def)

text \<open>An address that goes out in a reply is one the allocator chose and the table was told of.\<close>

lemma served_cases:
  assumes "length (m_chaddr m) = 16" "handle_message env now m len s = (out, s')" "SendTo dst b \<in> set out"
    and "m_yiaddr (msg_of_bytes b) \<noteq> 0"
  obtains requested hold persist t where
    "select_address_locked now s (client_mac m) requested (e_wired env) = (m_yiaddr (msg_of_bytes b), t)"
    "s' = snd (commit_lease_locked now t (client_mac m) (m_yiaddr (msg_of_bytes b)) hold persist)"
  using handle_message_cases [of env now m len s]
proof cases
  case (discover requested)
  obtain ip t where sel: "select_address_locked now s (client_mac m) requested (e_wired env) = (ip, t)" by fastforce
  with discover assms(2,3) have "ip \<noteq> 0" "SendTo dst b = send_reply env s' m DHCPOFFER ip (lease_time_s env)"
    "s' = snd (commit_lease_locked now t (client_mac m) ip OFFER_HOLD_S False)"
    by (auto simp: handle_discover_def Let_def split: if_splits)
  then show thesis using that sel reply_yiaddr [OF assms(1)] by metis
next
  case (request requested server_id hostname)
  obtain ip t where sel: "select_address_locked now s (client_mac m) requested (e_wired env) = (ip, t)" by fastforce
  show thesis
  proof (cases "SendTo dst b = send_reply env s' m DHCPACK ip (lease_time_s env)")
    case True
    then have "ip = m_yiaddr (msg_of_bytes b)" using reply_yiaddr [OF assms(1)] by metis
    moreover from this have "s' = snd (commit_lease_locked now t (client_mac m) ip (lease_time_s env) True)"
      using request assms(2-4) sel reply_yiaddr [OF assms(1), of env _ DHCPNAK 0 0 dst b]
      by (auto simp: handle_request_def Let_def split: if_splits)
    ultimately show thesis using that sel by blast
  next
    case False
    then have "SendTo dst b = send_reply env s' m DHCPNAK 0 0"
      using request assms(2,3) sel
      by (auto simp: handle_request_def post_assigned_event_def Let_def split: if_splits)
    then show thesis using reply_yiaddr [OF assms(1)] assms(4) by metis
  qed
next
  case inform
  then have "SendTo dst b = send_reply env s m DHCPACK 0 0" using assms(2,3) by simp
  then show thesis using reply_yiaddr [OF assms(1)] assms(4) by metis
qed (use assms(2,3) in auto)


definition discover_example :: dhcp_msg where
  "discover_example =
     \<lparr>m_op = BOOTREQUEST, m_htype = 1, m_hlen = 6, m_hops = 0, m_xid = 77, m_secs = 0, m_flags = 0,
      m_ciaddr = 0, m_yiaddr = 0, m_siaddr = 0, m_giaddr = 0,
      m_chaddr = [2, 0, 0, 0, 0, 1, 0, 0, 0, 0, 0, 0, 0, 0, 0, 0],
      m_sname = replicate 64 0, m_file = replicate 128 0,
      m_options = [0x63, 0x82, 0x53, 0x63, OPT_MSG_TYPE, 1, DHCPDISCOVER, OPT_END] @ replicate 304 0\<rparr>"


text \<open>a duplicate address heals by itself when its holder speaks DHCP. A request over the air for
  an address that another client claims is answered with a NAK and changes nothing, on a pool as
  large as the one configured, whatever the requester's own entry says.\<close>

theorem conflicting_request_refused:
  assumes "wf_dhcp s" "ranges_ok s" "73 < length (range_addresses (s_pool_start s) (s_pool_end s))"
    and "\<not> e_wired env" "server_id = 0 \<or> server_id = s_server_ip s" "requested \<noteq> 0"
    and "e \<in> set (s_leases s)" "claims now e requested" "l_mac e \<noteq> client"
  shows "handle_request env now m client requested server_id hostname s = ([send_reply env s m DHCPNAK 0 0], s)"
proof -
  obtain ip t where sel: "select_address_locked now s client requested False = (ip, t)" by fastforce
  have t: "t = s" "ip \<noteq> 0"
    using select_address_pool [OF assms(2,1,3), of now client requested False] sel by simp_all
  have "ip \<noteq> requested"
  proof
    assume "ip = requested"
    from select_address_claims [OF assms(2) sel t(2)] show False
    proof
      assume "\<forall>j<length (s_leases s). claims now (s_leases s ! j) ip \<longrightarrow> find_by_mac_locked s client = Some j"
      then show False using assms(7-9) find_by_mac_SomeD \<open>ip = requested\<close> by (metis in_set_conv_nth)
    next
      assume "\<exists>i<length (s_leases s). s_leases t = (s_leases s)[i := (s_leases s ! i)\<lparr>l_in_use := False\<rparr>] \<and>
         l_in_use (s_leases s ! i) \<and> \<not> seen_this_boot s (s_leases s ! i) \<and>
         (l_ip (s_leases s ! i) = ip \<or> l_observed_ip (s_leases s ! i) = ip)"
      then obtain i where "i < length (s_leases s)" "l_in_use (s_leases s ! i)"
        "s_leases s = (s_leases s)[i := (s_leases s ! i)\<lparr>l_in_use := False\<rparr>]" unfolding t(1) by blast
      then show False by (metis nth_list_update_eq lease.select_convs(1) lease.surjective lease.update_convs(1))
    qed
  qed
  then show ?thesis using assms(4-6) sel t by (auto simp: handle_request_def Let_def)
qed

lemma conflicting_request_refused_witness:
  "let s = lan_dhcp\<lparr>s_leases :=
         (fresh_lease (Mac 2 0 0 0 0 9))\<lparr>l_observed_ip := ip4 192 168 5 33\<rparr> # replicate 31 zero_lease\<rparr>
   in handle_request env_example 5 discover_example (Mac 2 0 0 0 0 1) (ip4 192 168 5 33) 0 [] s =
      ([send_reply env_example s discover_example DHCPNAK 0 0], s)"
proof -
  let ?e = "(fresh_lease (Mac 2 0 0 0 0 9))\<lparr>l_observed_ip := ip4 192 168 5 33\<rparr>"
  let ?s = "lan_dhcp\<lparr>s_leases := ?e # replicate 31 zero_lease\<rparr>"
  have "wf_dhcp ?s" "ranges_ok ?s" "ip4 192 168 5 33 \<noteq> 0" "claims 5 ?e (ip4 192 168 5 33)"
    "l_mac ?e \<noteq> Mac 2 0 0 0 0 1"
    by code_simp+
  moreover have "73 < length (range_addresses (s_pool_start ?s) (s_pool_end ?s))"
    unfolding length_range_addresses by code_simp
  ultimately show ?thesis
    using conflicting_request_refused [of ?s env_example 0 "ip4 192 168 5 33" ?e 5 "Mac 2 0 0 0 0 1"]
    by (simp add: Let_def env_example_def)
qed

end
