(* ===== verification/DhcpServer.thy ===== *)
theory DhcpServer
  imports DhcpProtocol
begin

text \<open>
  The rest of \<open>main/dhcp_server.c\<close>: starting the server, the calls other modules make
  (\<open>dhcp_server_note_observed_ip\<close>, \<open>dhcp_server_set_quarantined\<close>, \<open>dhcp_server_lookup_ip\<close>,
  \<open>dhcp_server_get_leases\<close>), the debounced write of the task, and the server as a step relation in
  which these interleave freely. \<open>s_mutex\<close> makes each call one step.
\<close>

section \<open>Starting\<close>

datatype esp_err = ESP_OK | ESP_FAIL | ESP_ERR_INVALID_ARG | ESP_ERR_NO_MEM

text \<open>What the libraries answer while the server starts.\<close>

record dhcp_start_env =
  st_mutex_created :: bool
  st_socket_opened :: bool
  st_port_bound :: bool
  st_task_created :: bool

definition wired_range_bad :: "u32 \<Rightarrow> u32 \<Rightarrow> u32 \<Rightarrow> u32 \<Rightarrow> u32 \<Rightarrow> u32 \<Rightarrow> bool" where
  "wired_range_bad ip netmask pool_start pool_end wired_start wired_end \<longleftrightarrow>
     (let ws = lwip_ntohl wired_start; we = lwip_ntohl wired_end;
          ps = lwip_ntohl pool_start; pe = lwip_ntohl pool_end
      in wired_end = 0 \<or> ws > we \<or> (ws \<le> pe \<and> ps \<le> we) \<or> ip_in_range ip wired_start wired_end \<or>
         (wired_start AND netmask) \<noteq> (ip AND netmask) \<or> (wired_end AND netmask) \<noteq> (ip AND netmask))"

definition dhcp_server_start ::
  "dhcp_start_env \<Rightarrow> (nat \<Rightarrow> u8 list option \<Rightarrow> u8 list option) \<Rightarrow> int \<Rightarrow> bool \<Rightarrow>
   u32 \<Rightarrow> u32 \<Rightarrow> u32 \<Rightarrow> u32 \<Rightarrow> u32 \<Rightarrow> u32 \<Rightarrow> dhcp \<Rightarrow> esp_err \<times> dhcp"
where
  "dhcp_server_start env nvs_get now br_netif ip netmask pool_start pool_end wired_start wired_end s =
     (if \<not> br_netif \<or> ip = 0 \<or> pool_start = 0 \<or> pool_end = 0 then (ESP_ERR_INVALID_ARG, s)
      else if lwip_ntohl pool_start > lwip_ntohl pool_end then (ESP_ERR_INVALID_ARG, s)
      else let s = s\<lparr>s_server_ip := ip, s_netmask := netmask, s_pool_start := pool_start,
                    s_pool_end := pool_end, s_wired_start := wired_start, s_wired_end := wired_end\<rparr>;
               s = (if wired_start \<noteq> 0 \<and>
                       wired_range_bad ip netmask pool_start pool_end wired_start wired_end
                    then s\<lparr>s_wired_start := 0, s_wired_end := 0\<rparr> else s);
               s = s\<lparr>s_ready := st_mutex_created env\<rparr>
           in if \<not> s_ready s then (ESP_ERR_NO_MEM, s)
              else let s = load_from_nvs nvs_get now s
                in if \<not> st_socket_opened env then (ESP_FAIL, s)
                   else if \<not> st_port_bound env then (ESP_FAIL, s)
                   else if \<not> st_task_created env then (ESP_FAIL, s)
                   else (ESP_OK, s))"

section \<open>Calls from other modules\<close>

definition dhcp_server_note_observed_ip :: "int \<Rightarrow> mac \<Rightarrow> u32 \<Rightarrow> dhcp \<Rightarrow> dhcp" where
  "dhcp_server_note_observed_ip now m ip s =
     (if \<not> s_ready s \<or> ip = 0 then s
      else if (ip AND s_netmask s) \<noteq> (s_server_ip s AND s_netmask s) \<or> ip = s_server_ip s then s
      else case commit_slot now s m of
             (None, s) \<Rightarrow> s
           | (Some i, s) \<Rightarrow>
               let e = s_leases s ! i;
                   want = (if ip = l_ip e then 0 else ip);
                   e = (if l_observed_ip e \<noteq> want then e\<lparr>l_observed_ip := want\<rparr> else e);
                   e = e\<lparr>l_last_seen_seq := s_boot_seq s, l_last_seen_us := now\<rparr>;
                   s = set_lease s i e
               in if l_saved_observed_ip e \<noteq> persisted_observed_ip e then mark_dirty_locked now s else s)"

definition quarantine_lease :: "mac list \<Rightarrow> lease \<Rightarrow> lease" where
  "quarantine_lease macs e =
     e\<lparr>l_quarantined := l_in_use e \<and> list_ex (\<lambda>m. l_mac e = m) macs\<rparr>"

definition dhcp_server_set_quarantined :: "int \<Rightarrow> mac list \<Rightarrow> dhcp \<Rightarrow> dhcp" where
  "dhcp_server_set_quarantined now macs s =
     (if \<not> s_ready s then s
      else let s = s\<lparr>s_leases := map (quarantine_lease macs) (s_leases s)\<rparr>
        in if list_ex (\<lambda>e. l_in_use e \<and> l_saved_observed_ip e \<noteq> persisted_observed_ip e) (s_leases s)
           then mark_dirty_locked now s else s)"

definition dhcp_server_lookup_ip :: "mac \<Rightarrow> dhcp \<Rightarrow> u32 option" where
  "dhcp_server_lookup_ip m s =
     (if \<not> s_ready s then None
      else case find_by_mac_locked s m of
             None \<Rightarrow> None
           | Some i \<Rightarrow>
               let e = s_leases s ! i in
               if l_observed_ip e \<noteq> 0 then Some (l_observed_ip e)
               else if l_ip e \<noteq> 0 \<and> l_expires_us e > 0 then Some (l_ip e)
               else None)"

record dhcp_lease_info =
  i_mac :: mac
  i_ip :: u32
  i_observed_ip :: u32
  i_expires_in_s :: u32
  i_boots_since_seen :: u32
  i_stored :: bool
  i_saved_ip :: u32
  i_saved_observed_ip :: u32

definition lease_info :: "int \<Rightarrow> dhcp \<Rightarrow> lease \<Rightarrow> dhcp_lease_info" where
  "lease_info now s e =
     \<lparr>i_mac = l_mac e, i_ip = l_ip e, i_observed_ip = l_observed_ip e,
      i_expires_in_s = (if l_expires_us e > now then of_int ((l_expires_us e - now) div 1000000) else 0),
      i_boots_since_seen = (if seen_this_boot s e then 0 else s_boot_seq s - l_last_seen_seq e),
      i_stored = (l_saved_ip e = l_ip e \<and> l_saved_observed_ip e = persisted_observed_ip e),
      i_saved_ip = l_saved_ip e, i_saved_observed_ip = l_saved_observed_ip e\<rparr>"

definition dhcp_server_get_leases :: "int \<Rightarrow> nat \<Rightarrow> dhcp \<Rightarrow> dhcp_lease_info list" where
  "dhcp_server_get_leases now limit s =
     (if \<not> s_ready s then []
      else map (lease_info now s)
             (take limit (filter (\<lambda>e. \<not> (\<not> l_in_use e \<or> (l_ip e = 0 \<and> l_observed_ip e = 0))) (s_leases s))))"

definition dhcp_server_get_restored_count :: "dhcp \<Rightarrow> nat" where
  "dhcp_server_get_restored_count s = s_restored_count s"

section \<open>The task\<close>

abbreviation SAVE_DEBOUNCE_US :: int where "SAVE_DEBOUNCE_US \<equiv> 10 * 1000 * 1000"

definition save_if_due ::
  "(u8 list \<Rightarrow> u8 list option \<Rightarrow> bool \<times> u8 list option) \<Rightarrow> int \<Rightarrow> dhcp \<Rightarrow> dhcp"
where
  "save_if_due nvs_set now s =
     (if s_dirty s \<and> now - s_dirty_since_us s > SAVE_DEBOUNCE_US then save_to_nvs_locked nvs_set s else s)"

text \<open>One pass of the loop: a datagram or a receive timeout, then the write if it is due.\<close>

definition dhcp_server_task_pass ::
  "(u8 list \<Rightarrow> u8 list option \<Rightarrow> bool \<times> u8 list option) \<Rightarrow> dhcp_env \<Rightarrow> int \<Rightarrow> int \<Rightarrow> u8 list \<Rightarrow>
   u8 list option \<Rightarrow> dhcp \<Rightarrow> dhcp_output list \<times> dhcp"
where
  "dhcp_server_task_pass nvs_set env now now' rx datagram s =
     (let (out, s) = (case datagram of
                        Some d \<Rightarrow> receive env now rx d s
                      | None \<Rightarrow> ([], s))
      in (out, save_if_due nvs_set now' s))"

section \<open>The server as a state machine\<close>

inductive dhcp_step :: "dhcp \<Rightarrow> dhcp \<Rightarrow> bool" where
  pass: "snd (dhcp_server_task_pass nvs_set env now now' rx datagram s) = s' \<Longrightarrow> dhcp_step s s'"
| observed: "dhcp_step s (dhcp_server_note_observed_ip now m ip s)"
| quarantined: "dhcp_step s (dhcp_server_set_quarantined now macs s)"

inductive_cases dhcp_stepE: "dhcp_step s s'"

section \<open>What every step keeps\<close>

definition keeps :: "dhcp \<Rightarrow> dhcp \<Rightarrow> bool" where
  "keeps s s' \<longleftrightarrow> (wf_dhcp s \<longrightarrow> wf_dhcp s') \<and> ranges_ok s' = ranges_ok s \<and>
     set (s_declined s) \<subseteq> set (s_declined s')"

lemma keeps_refl [simp]: "keeps s s"
  by (simp add: keeps_def)

lemma keeps_trans: "keeps s t \<Longrightarrow> keeps t u \<Longrightarrow> keeps s u"
  by (auto simp: keeps_def)

lemma keeps_config: "same_config s s' \<Longrightarrow> (wf_dhcp s \<Longrightarrow> wf_dhcp s') \<Longrightarrow> keeps s s'"
  by (auto simp: keeps_def ranges_ok_frame) (simp add: same_config_def)

lemma keeps_mark_dirty [simp]: "keeps s (mark_dirty_locked now s)"
  by (simp add: keeps_config)

lemma keeps_kill: "\<not> l_in_use e \<Longrightarrow> keeps s (set_lease s i e)"
  by (simp add: keeps_config wf_kill)

lemma keeps_touch:
  assumes "i < length (s_leases s)" "l_in_use e = l_in_use (s_leases s ! i)"
    "l_mac e = l_mac (s_leases s ! i)" "l_ip e = l_ip (s_leases s ! i)"
  shows "keeps s (set_lease s i e)"
proof (rule keeps_config)
  assume wf: "wf_dhcp s"
  then show "wf_dhcp (set_lease s i e)"
    using assms uniq_by_nthD [of leased l_ip "s_leases s" _ i] 
    by (intro wf_rewrite) (auto simp: wf_dhcp_def leased_def)
qed simp

lemma keeps_map:
  assumes "\<And>e. l_in_use (f e) = l_in_use e" "\<And>e. l_mac (f e) = l_mac e" "\<And>e. l_ip (f e) = l_ip e"
  shows "keeps s (s\<lparr>s_leases := map f (s_leases s)\<rparr>)"
proof -
  have "l_in_use \<circ> f = l_in_use" "l_mac \<circ> f = l_mac" "l_ip \<circ> f = l_ip" "leased \<circ> f = leased"
    using assms by (auto simp: leased_def)
  then show ?thesis by (simp add: keeps_def wf_dhcp_def uniq_by_map ranges_ok_def)
qed

lemma same_config_commit_slot: "same_config s (snd (commit_slot now s m))"
  unfolding commit_slot_def take_free_slot_locked_def
  by (auto split: option.split intro: same_config_trans [OF same_config_reclaim same_config_set_lease])

lemma same_config_clear_clash: "same_config s (clear_clash now s i ip)"
  by (cases rule: clear_clash_cases [of now s i ip])
    (auto intro: same_config_trans [OF same_config_set_lease same_config_mark_dirty])

lemma keeps_commit:
  assumes "ip \<noteq> 0"
  shows "keeps s (snd (commit_lease_locked now s m ip hold_s persist))" (is "keeps s (snd ?r)")
proof (rule keeps_config)
  have "same_config s (mark_dirty_locked now (set_lease (clear_clash now t i ip) i e))"
    "same_config s (set_lease (clear_clash now t i ip) i e)" if "same_config s t" for t i e
    by (rule same_config_trans [OF that same_config_trans [OF same_config_clear_clash
          same_config_trans [OF same_config_set_lease same_config_mark_dirty]]])
      (rule same_config_trans [OF that same_config_trans [OF same_config_clear_clash same_config_set_lease]])
  then show "same_config s (snd ?r)"
    using same_config_commit_slot [of s now m]
    by (cases "commit_slot now s m"; cases "fst (commit_slot now s m)")
      (simp_all add: commit_lease_locked_def Let_def)
  assume wf: "wf_dhcp s"
  show "wf_dhcp (snd ?r)"
  proof (cases "fst ?r")
    case True
    then have "?r = (True, snd ?r)" by (simp add: prod_eq_iff)
    from commit_lease_spec [OF wf assms this] show ?thesis by blast
  next
    case False
    then obtain t where t: "commit_slot now s m = (None, t)" "snd ?r = t"
      by (auto simp: commit_lease_locked_def Let_def split: prod.splits option.splits)
    then have "t = s"
      using take_free_slot_wf(4) [OF wf] by (auto simp: commit_slot_def split: option.splits)
    then show ?thesis using t wf by simp
  qed
qed

lemma keeps_select: "select_address_locked now s m requested wired = (ip, t) \<Longrightarrow> keeps s t"
  using select_address_frame by (simp add: keeps_config)

lemma keeps_discover: "keeps s (snd (handle_discover env now m client requested s))"
proof -
  obtain ip t where "select_address_locked now s client requested (e_wired env) = (ip, t)" by fastforce
  then show ?thesis
    using keeps_trans [OF keeps_select keeps_commit] keeps_select by (simp add: handle_discover_def Let_def)
qed

lemma keeps_request: "keeps s (snd (handle_request env now m client requested server_id hostname s))"
proof -
  obtain ip t where "select_address_locked now s client requested (e_wired env) = (ip, t)" by fastforce
  then show ?thesis
    using keeps_trans [OF keeps_select keeps_commit] keeps_select
    by (auto simp: handle_request_def Let_def keeps_kill split: option.split)
qed

lemma keeps_declined: "length ds \<le> MAX_DECLINED \<Longrightarrow> set (s_declined s) \<subseteq> set ds \<Longrightarrow> keeps s (s\<lparr>s_declined := ds\<rparr>)"
  by (simp add: keeps_def wf_dhcp_def ranges_ok_def)

lemma keeps_decline: "keeps s (handle_decline now client requested s)"
proof -
  have kill: "keeps t (mark_dirty_locked now (set_lease t i (e\<lparr>l_in_use := False\<rparr>)))"
    "keeps t (set_lease t i (e\<lparr>l_in_use := False\<rparr>))" for t i e
    using keeps_trans [OF keeps_kill keeps_mark_dirty] by (simp_all add: keeps_kill)
  have "length (s_declined s) < MAX_DECLINED \<Longrightarrow> keeps s (s\<lparr>s_declined := s_declined s @ [bad]\<rparr>)" for bad
    by (rule keeps_declined) auto
  then show ?thesis
    unfolding handle_decline_def Let_def
    by (auto split: option.split intro: kill keeps_trans [OF _ kill(1)] keeps_trans [OF _ kill(2)])
qed

lemma keeps_release: "keeps s (handle_release client s)"
proof (cases "find_by_mac_locked s client")
  case (Some i)
  then show ?thesis
    unfolding handle_release_def Let_def using find_by_mac_SomeD [OF Some] by (auto intro: keeps_touch)
qed (simp add: handle_release_def)

lemma keeps_message: "keeps s (snd (handle_message env now m len s))"
  using handle_message_cases [of env now m len s]
  by cases (simp_all add: keeps_discover keeps_request keeps_decline keeps_release)

lemma keeps_receive: "keeps s (snd (receive env now rx d s))"
  by (simp add: receive_def Let_def keeps_message)

lemma keeps_save: "keeps s (save_to_nvs_locked nvs_set s)"
proof -
  have "keeps s (s\<lparr>s_flash := f\<rparr>)" "keeps s (s\<lparr>s_flash := f, s_dirty := d\<rparr>)" for f d
    by (simp_all add: keeps_def wf_dhcp_def ranges_ok_def)
  from keeps_trans [OF this(2) keeps_map [of note_saved]] this(1) show ?thesis
    unfolding save_to_nvs_locked_def Let_def
    by (auto simp: note_saved_def keeps_def wf_dhcp_def ranges_ok_def split: prod.split)
qed

lemma keeps_set_quarantined: "keeps s (dhcp_server_set_quarantined now macs s)"
proof -
  have "keeps s (s\<lparr>s_leases := map (quarantine_lease macs) (s_leases s)\<rparr>)"
    by (rule keeps_map) (simp_all add: quarantine_lease_def)
  then show ?thesis
    using keeps_trans [OF _ keeps_mark_dirty] by (simp add: dhcp_server_set_quarantined_def Let_def)
qed

lemma keeps_commit_slot: "commit_slot now s m = (r, t) \<Longrightarrow> keeps s t"
proof (rule keeps_config)
  assume r: "commit_slot now s m = (r, t)"
  show "same_config s t" using same_config_commit_slot [of s now m] r by simp
  assume wf: "wf_dhcp s"
  show "wf_dhcp t"
  proof (cases r)
    case None
    with r wf show ?thesis
      using take_free_slot_wf(1) [OF wf] by (auto simp: commit_slot_def split: option.splits)
  next
    case (Some i)
    then show ?thesis using commit_slot_wf(1) [OF wf] r by simp
  qed
qed

lemma keeps_note_observed: "keeps s (dhcp_server_note_observed_ip now m ip s)"
proof (cases "dhcp_server_note_observed_ip now m ip s = s")
  case False
  obtain r t where r: "commit_slot now s m = (r, t)" by fastforce
  show ?thesis
  proof (cases r)
    case None
    then show ?thesis
      using keeps_commit_slot [OF r] r by (simp add: dhcp_server_note_observed_ip_def)
  next
    case (Some i)
    show ?thesis
    proof (cases "i < length (s_leases t)")
      case True
      have "keeps t (set_lease t i e)" "keeps t (mark_dirty_locked now (set_lease t i e))"
        if "l_in_use e = l_in_use (s_leases t ! i)" "l_mac e = l_mac (s_leases t ! i)"
          "l_ip e = l_ip (s_leases t ! i)" for e
        using keeps_touch [OF True that] keeps_trans [OF _ keeps_mark_dirty] by blast+
      then show ?thesis
        using False r Some keeps_trans [OF keeps_commit_slot [OF r]]
        by (simp add: dhcp_server_note_observed_ip_def Let_def)
    next
      case outside: False
      then have "set_lease t i e = t" for e by (simp add: set_lease_def list_update_beyond)
      then show ?thesis
        using False r Some keeps_commit_slot [OF r] keeps_trans [OF keeps_commit_slot [OF r] keeps_mark_dirty]
        by (simp add: dhcp_server_note_observed_ip_def Let_def)
    qed
  qed
qed simp

lemma keeps_pass: "keeps s (snd (dhcp_server_task_pass nvs_set env now now' rx datagram s))"
proof -
  obtain out t where t: "(case datagram of Some d \<Rightarrow> receive env now rx d s | None \<Rightarrow> ([], s)) = (out, t)" by fastforce
  then have "keeps s t" using keeps_receive [of s env now rx] by (auto split: option.splits) (metis snd_conv)
  moreover have "keeps t (save_if_due nvs_set now' t)" by (simp add: save_if_due_def keeps_save)
  ultimately show ?thesis using t keeps_trans by (simp add: dhcp_server_task_pass_def)
qed

lemma keeps_step: "dhcp_step s s' \<Longrightarrow> keeps s s'"
  by (elim dhcp_stepE) (auto simp: keeps_pass keeps_note_observed keeps_set_quarantined)

interpretation server: state_machine dhcp_step "\<lambda>s. wf_dhcp s \<and> ranges_ok s"
  by unfold_locales (auto dest!: keeps_step simp: keeps_def)

interpretation declined: state_machine dhcp_step "\<lambda>s. ranges_ok s \<and> ip \<in> set (s_declined s)"
  by unfold_locales (auto dest!: keeps_step simp: keeps_def)

section \<open>Properties of the running server\<close>

lemma load_ranges:
  assumes "s_leases s = replicate DHCP_SERVER_MAX_LEASES zero_lease"
  shows "ranges_ok (load_from_nvs nvs_get now s) = ranges_ok s"
  using load_cases [of nvs_get now s]
proof cases
  case 1
  then show ?thesis by (simp add: ranges_ok_def)
next
  case (2 ver b recs)
  then show ?thesis using restore_table_spec(5) [OF assms 2(1) refl] by simp
qed

text \<open>C34: whatever constants the server is started with, it serves well-formed ranges: when it does not
  refuse them, the pool does not run backwards, and the wired range, where one is left on, does not
  either, is apart from the pool and does not hold the server's own address.\<close>

theorem start_ranges_ok:
  assumes "dhcp_server_start env nvs_get now br ip netmask ps pe ws we s = (err, s')"
    and "err \<noteq> ESP_ERR_INVALID_ARG" "booting s"
  shows "ranges_ok s'"
proof -
  let ?s = "s\<lparr>s_server_ip := ip, s_netmask := netmask, s_pool_start := ps, s_pool_end := pe,
    s_wired_start := ws, s_wired_end := we\<rparr>"
  let ?t = "(if ws \<noteq> 0 \<and> wired_range_bad ip netmask ps pe ws we
    then ?s\<lparr>s_wired_start := 0, s_wired_end := 0\<rparr> else ?s)\<lparr>s_ready := st_mutex_created env\<rparr>"
  have ok: "ps \<noteq> 0" "lwip_ntohl ps \<le> lwip_ntohl pe"
    using assms(1,2) by (auto simp: dhcp_server_start_def not_less split: if_splits)
  have t: "ranges_ok ?t"
    using ok by (auto simp: ranges_ok_def valid_range_def wired_range_bad_def Let_def not_less)
  have "s' = ?t \<or> s' = load_from_nvs nvs_get now ?t"
    using assms(1,2) by (auto simp: dhcp_server_start_def Let_def split: if_splits)
  moreover have "s_leases ?t = replicate DHCP_SERVER_MAX_LEASES zero_lease"
    using assms(3) by (simp add: booting_def)
  ultimately show ?thesis using t load_ranges by metis
qed

lemma start_ranges_ok_witness:
  "let env = \<lparr>st_mutex_created = True, st_socket_opened = True, st_port_bound = True, st_task_created = True\<rparr>
   in ranges_ok (snd (dhcp_server_start env (\<lambda>cap f. f) 0 True (ip4 192 168 5 1) (ip4 255 255 255 0)
        (ip4 192 168 5 10) (ip4 192 168 5 101) (ip4 192 168 5 50) (ip4 192 168 5 60) static_dhcp))"
proof -
  let ?env = "\<lparr>st_mutex_created = True, st_socket_opened = True, st_port_bound = True, st_task_created = True\<rparr>"
  let ?r = "dhcp_server_start ?env (\<lambda>cap f. f) 0 True (ip4 192 168 5 1) (ip4 255 255 255 0)
        (ip4 192 168 5 10) (ip4 192 168 5 101) (ip4 192 168 5 50) (ip4 192 168 5 60) static_dhcp"
  have "fst ?r = ESP_OK" by code_simp
  then have "?r = (ESP_OK, snd ?r)" by (simp add: prod_eq_iff)
  from start_ranges_ok [OF this] show ?thesis by (simp add: Let_def booting_def static_dhcp_def)
qed

text \<open>C17: the table stays well-formed for good. From a well-formed table, however datagrams, timeouts,
  flash writes that may fail, address sightings and cut-offs follow each other, there are 32 slots,
  no client has two entries, no address is leased twice, and the ranges are as configured.\<close>

theorem server_invariant:
  assumes "dhcp_step\<^sup>*\<^sup>* s t" "wf_dhcp s" "ranges_ok s"
  shows "wf_dhcp t \<and> ranges_ok t"
  using server.inv_run [OF assms(1)] assms(2,3) by blast

lemma server_invariant_witness:
  "wf_dhcp (dhcp_server_note_observed_ip 7 (Mac 2 0 0 0 0 1) (ip4 192 168 5 40) lan_dhcp)"
proof -
  have "dhcp_step\<^sup>*\<^sup>* lan_dhcp (dhcp_server_note_observed_ip 7 (Mac 2 0 0 0 0 1) (ip4 192 168 5 40) lan_dhcp)"
    by (rule r_into_rtranclp, rule dhcp_step.observed)
  moreover have "ranges_ok lan_dhcp" by code_simp
  ultimately show ?thesis using server_invariant wf_lan_dhcp by blast
qed

text \<open>A message the server takes for a client's DHCPDECLINE, and the address the client names in it.\<close>

definition is_decline :: "dhcp_msg \<Rightarrow> nat \<Rightarrow> bool" where
  "is_decline m len \<longleftrightarrow>
     DHCP_FIXED_LEN + 4 \<le> len \<and> m_op m = BOOTREQUEST \<and> m_hlen m = 6 \<and>
     u32_at (m_options m) 0 = lwip_htonl MAGIC_COOKIE \<and> m_giaddr m = 0 \<and>
     (case find_option m (min (len - DHCP_FIXED_LEN) SIZEOF_OPTIONS) OPT_MSG_TYPE of
        None \<Rightarrow> False | Some (k, olen) \<Rightarrow> 1 \<le> olen \<and> m_options m ! k = DHCPDECLINE)"

definition named_ip :: "dhcp_msg \<Rightarrow> nat \<Rightarrow> u32" where
  "named_ip m len =
     (case ip_option m (min (len - DHCP_FIXED_LEN) SIZEOF_OPTIONS) OPT_REQUESTED_IP of
        Some ip \<Rightarrow> ip | None \<Rightarrow> m_ciaddr m)"

lemma decline_handled:
  "is_decline m len \<Longrightarrow> handle_message env now m len s = ([], handle_decline now (client_mac m) (named_ip m len) s)"
  by (auto simp: is_decline_def named_ip_def handle_message_def dispatch_def Let_def not_less word_le_nat_alt
      word_less_nat_alt split: option.splits prod.splits)

lemma decline_recorded:
  assumes "ip = (case find_by_mac_locked s m of Some i \<Rightarrow> l_ip (s_leases s ! i) | None \<Rightarrow> requested)" "ip \<noteq> 0"
    and "length (s_declined s) < MAX_DECLINED"
  shows "ip \<in> set (s_declined (handle_decline now m requested s))"
  using assms by (auto simp: handle_decline_def Let_def ip_declined_iff split: option.splits)

lemma decline_drops:
  assumes "wf_dhcp s"
  shows "find_by_mac_locked (handle_decline now m requested s) m = None"
proof (cases "find_by_mac_locked s m")
  case None
  then show ?thesis by (simp add: handle_decline_def find_by_mac_lookup Let_def)
next
  case (Some i)
  have "j = i" if "j < length (s_leases s)" "l_in_use (s_leases s ! j)" "l_mac (s_leases s ! j) = m" for j
    using find_by_mac_unique [OF assms that(1,2)] that(3) Some by simp
  moreover have "s_leases (handle_decline now m requested s) = (s_leases s)[i := (s_leases s ! i)\<lparr>l_in_use := False\<rparr>]"
    using Some by (simp add: handle_decline_def Let_def)
  ultimately show ?thesis
    unfolding find_by_mac_lookup lookup_slot_None by (metis lease.select_convs(1) lease.surjective
        lease.update_convs(1) length_list_update nth_list_update_eq nth_list_update_neq)
qed


definition decline_example :: dhcp_msg where
  "decline_example = discover_example
     \<lparr>m_options := [0x63, 0x82, 0x53, 0x63, OPT_MSG_TYPE, 1, DHCPDECLINE, OPT_END] @ replicate 304 0\<rparr>"


text \<open>A client that is cut off loses its say. Replacing the cut-off set makes exactly the entries
  of its members claim nothing, and what they were seen using either is not in flash or is marked
  to be written out of it.\<close>

theorem cut_off_loses_claim:
  assumes "s_ready s" "s' = dhcp_server_set_quarantined now macs s"
  shows "(\<forall>e\<in>set (s_leases s'). l_in_use e \<and> l_mac e \<in> set macs \<longrightarrow>
       \<not> claims t e ip \<and> persisted_observed_ip e = 0 \<and> (l_saved_observed_ip e = 0 \<or> s_dirty s')) \<and>
    (\<forall>e\<in>set (s_leases s'). l_quarantined e \<longrightarrow> l_mac e \<in> set macs)"
proof -
  let ?es = "map (quarantine_lease macs) (s_leases s)"
  have es: "s_leases s' = ?es" using assms by (simp add: dhcp_server_set_quarantined_def Let_def)
  have q: "l_quarantined e \<longleftrightarrow> l_in_use e \<and> l_mac e \<in> set macs" if "e \<in> set ?es" for e
    using that by (auto simp: quarantine_lease_def list_ex_iff)
  have dirty: "s_dirty s'" if "e \<in> set ?es" "l_in_use e" "l_saved_observed_ip e \<noteq> persisted_observed_ip e" for e
  proof -
    have "list_ex (\<lambda>e. l_in_use e \<and> l_saved_observed_ip e \<noteq> persisted_observed_ip e) ?es"
      using that by (auto simp: list_ex_iff)
    then show ?thesis using assms by (simp add: dhcp_server_set_quarantined_def Let_def)
  qed
  have "\<not> claims t e ip \<and> persisted_observed_ip e = 0 \<and> (l_saved_observed_ip e = 0 \<or> s_dirty s')"
    if "e \<in> set ?es" "l_in_use e" "l_mac e \<in> set macs" for e
    using q [OF that(1)] that dirty [OF that(1,2)] by (auto simp: claims_def persisted_observed_ip_def)
  then show ?thesis unfolding es using q by blast
qed

lemma cut_off_loses_claim_witness:
  "\<not> claims 5 (hd (s_leases (dhcp_server_set_quarantined 5 [Mac 2 0 0 0 0 1] one_lease_lan))) (ip4 192 168 5 33)"
proof -
  let ?s' = "dhcp_server_set_quarantined 5 [Mac 2 0 0 0 0 1] one_lease_lan"
  have "s_ready one_lease_lan" "hd (s_leases ?s') \<in> set (s_leases ?s')" "l_in_use (hd (s_leases ?s'))"
    "l_mac (hd (s_leases ?s')) \<in> set [Mac 2 0 0 0 0 1]"
    by code_simp+
  with cut_off_loses_claim [OF this(1) refl, of 5 "[Mac 2 0 0 0 0 1]"] show ?thesis by blast
qed

text \<open>what other modules report is what they look up. A sighting of a client on an address of the
  bridge's subnet that is not its lease is found again under its hardware address, with or without
  a lease; a sighting outside the subnet, or of the server's own address, changes nothing.\<close>

theorem observed_then_looked_up:
  assumes "wf_dhcp s" "s_ready s" "ip \<noteq> 0" "commit_slot now s m = (Some i, t)" "l_ip (s_leases t ! i) \<noteq> ip"
  shows "if (ip AND s_netmask s) = (s_server_ip s AND s_netmask s) \<and> ip \<noteq> s_server_ip s
    then dhcp_server_lookup_ip m (dhcp_server_note_observed_ip now m ip s) = Some ip
    else dhcp_server_note_observed_ip now m ip s = s"
proof (cases "(ip AND s_netmask s) = (s_server_ip s AND s_netmask s) \<and> ip \<noteq> s_server_ip s")
  case True
  note t = commit_slot_wf [OF assms(1,4)]
  let ?e = "(s_leases t ! i)\<lparr>l_observed_ip := ip, l_last_seen_seq := s_boot_seq t, l_last_seen_us := now\<rparr>"
  let ?s' = "dhcp_server_note_observed_ip now m ip s"
  have "?s' = set_lease t i ?e \<or> ?s' = mark_dirty_locked now (set_lease t i ?e)"
    using True assms(2-5) by (auto simp: dhcp_server_note_observed_ip_def Let_def)
  moreover have "s_ready t" using t(2) assms(2) by (simp add: same_config_def)
  moreover have "s_ready (set_lease t i ?e) = s_ready t" "s_ready (mark_dirty_locked now (set_lease t i ?e)) = s_ready t"
    by (simp_all add: set_lease_def mark_dirty_locked_def)
  ultimately have s': "s_leases ?s' = (s_leases t)[i := ?e]" "s_ready ?s'" by auto
  have "wf_dhcp ?s'" using keeps_note_observed [of s now m ip] assms(1) by (simp add: keeps_def)
  from find_by_mac_unique [OF this, of i] have "find_by_mac_locked ?s' m = Some i"
    using s'(1) t by simp
  then show ?thesis using True s' t(3) assms(3) by (simp add: dhcp_server_lookup_ip_def)
qed (use assms(3) in \<open>auto simp: dhcp_server_note_observed_ip_def\<close>)

lemma observed_then_looked_up_witness:
  "dhcp_server_lookup_ip (Mac 2 0 0 0 0 7)
     (dhcp_server_note_observed_ip 7 (Mac 2 0 0 0 0 7) (ip4 192 168 5 200) lan_dhcp) = Some (ip4 192 168 5 200)"
proof -
  have "s_ready lan_dhcp" "ip4 192 168 5 200 \<noteq> 0"
    "commit_slot 7 lan_dhcp (Mac 2 0 0 0 0 7) = (Some 0, set_lease lan_dhcp 0 (fresh_lease (Mac 2 0 0 0 0 7)))"
    "l_ip (s_leases (set_lease lan_dhcp 0 (fresh_lease (Mac 2 0 0 0 0 7))) ! 0) \<noteq> ip4 192 168 5 200"
    "(ip4 192 168 5 200 AND s_netmask lan_dhcp) = (s_server_ip lan_dhcp AND s_netmask lan_dhcp) \<and>
      ip4 192 168 5 200 \<noteq> s_server_ip lan_dhcp"
    by code_simp+
  with observed_then_looked_up [OF wf_lan_dhcp this(1-4)] show ?thesis by simp
qed

end
