(* ===== verification/ClientTable.thy ===== *)
theory ClientTable
  imports DhcpServer
begin

text \<open>
  The client table of \<open>main/client_track.c\<close>: who is on the bridge, on which address since when, how
  much each carries, and the 100 ms history behind the traffic graphs. \<open>s_mutex\<close> makes each
  operation one step; \<open>now\<close> is the clock while it is held. An operation that calls the DHCP server
  takes and returns that server's state as well. The WiFi station list and the ARP cache are
  arguments: what the libraries answered.
\<close>

section \<open>State\<close>

abbreviation CLIENT_TRACK_MAX_CLIENTS :: nat where "CLIENT_TRACK_MAX_CLIENTS \<equiv> 16"
abbreviation CLIENT_TRACK_NAME_MAX_LEN :: nat where "CLIENT_TRACK_NAME_MAX_LEN \<equiv> 32"
abbreviation CLIENT_TRACK_HISTORY_LEN :: nat where "CLIENT_TRACK_HISTORY_LEN \<equiv> 32"
abbreviation CLIENT_TRACK_HISTORY_PERIOD_MS :: nat where "CLIENT_TRACK_HISTORY_PERIOD_MS \<equiv> 100"
abbreviation CLIENT_AGE_OUT_US :: int where "CLIENT_AGE_OUT_US \<equiv> 5 * 60 * 1000000"

record client_entry =
  c_active :: bool
  c_mac :: mac
  c_ip :: u32
  c_is_wifi :: bool
  c_rssi :: u8
  c_rx_bytes :: u32
  c_tx_bytes :: u32
  c_rx_bytes_prev :: u32
  c_tx_bytes_prev :: u32
  c_rx_bps :: u32
  c_tx_bps :: u32
  c_rx_pkts :: u32
  c_tx_pkts :: u32
  c_rx_pkts_prev :: u32
  c_tx_pkts_prev :: u32
  c_rx_pps :: u32
  c_tx_pps :: u32
  c_last_seen_us :: int
  c_ip_since_us :: int
  c_name :: "u8 list"
  c_rx_bytes_prev_fast :: u32
  c_tx_bytes_prev_fast :: u32
  c_rx_pkts_prev_fast :: u32
  c_tx_pkts_prev_fast :: u32
  c_hist_rx :: "u32 list"
  c_hist_tx :: "u32 list"
  c_hist_rx_pps :: "u32 list"
  c_hist_tx_pps :: "u32 list"
  c_hist_seq :: u32

definition zero_client :: client_entry where
  "zero_client =
     \<lparr>c_active = False, c_mac = Mac 0 0 0 0 0 0, c_ip = 0, c_is_wifi = False, c_rssi = 0,
      c_rx_bytes = 0, c_tx_bytes = 0, c_rx_bytes_prev = 0, c_tx_bytes_prev = 0, c_rx_bps = 0,
      c_tx_bps = 0, c_rx_pkts = 0, c_tx_pkts = 0, c_rx_pkts_prev = 0, c_tx_pkts_prev = 0,
      c_rx_pps = 0, c_tx_pps = 0, c_last_seen_us = 0, c_ip_since_us = 0, c_name = [],
      c_rx_bytes_prev_fast = 0, c_tx_bytes_prev_fast = 0, c_rx_pkts_prev_fast = 0,
      c_tx_pkts_prev_fast = 0, c_hist_rx = replicate CLIENT_TRACK_HISTORY_LEN 0,
      c_hist_tx = replicate CLIENT_TRACK_HISTORY_LEN 0,
      c_hist_rx_pps = replicate CLIENT_TRACK_HISTORY_LEN 0,
      c_hist_tx_pps = replicate CLIENT_TRACK_HISTORY_LEN 0, c_hist_seq = 0\<rparr>"

record tracker =
  t_clients :: "client_entry list"
  t_net_rx_pps :: u32
  t_net_tx_pps :: u32

definition static_tracker :: tracker where
  "static_tracker =
     \<lparr>t_clients = replicate CLIENT_TRACK_MAX_CLIENTS zero_client, t_net_rx_pps = 0, t_net_tx_pps = 0\<rparr>"

definition set_client :: "tracker \<Rightarrow> nat \<Rightarrow> client_entry \<Rightarrow> tracker" where
  "set_client t i e = t\<lparr>t_clients := (t_clients t)[i := e]\<rparr>"

section \<open>Operations\<close>

definition find_locked :: "tracker \<Rightarrow> mac \<Rightarrow> nat option" where
  "find_locked t m = first_slot (\<lambda>_ e. c_active e \<and> c_mac e = m) (t_clients t)"

definition fresh_client :: "int \<Rightarrow> mac \<Rightarrow> client_entry" where
  "fresh_client now m = zero_client\<lparr>c_mac := m, c_active := True, c_last_seen_us := now\<rparr>"

text \<open>The loop returns an entry of the client wherever it is, and otherwise the first free slot.\<close>

definition find_or_create_locked :: "int \<Rightarrow> mac \<Rightarrow> tracker \<Rightarrow> nat option \<times> tracker" where
  "find_or_create_locked now m t =
     (case first_slot (\<lambda>_ e. c_active e \<and> c_mac e = m) (t_clients t) of
        Some i \<Rightarrow> (Some i, t)
      | None \<Rightarrow>
          (case first_slot (\<lambda>_ e. \<not> c_active e) (t_clients t) of
             Some i \<Rightarrow> (Some i, set_client t i (fresh_client now m))
           | None \<Rightarrow> (None, t)))"

definition update_client_ip_locked :: "client_entry \<Rightarrow> u32 \<Rightarrow> client_entry" where
  "update_client_ip_locked e new_ip =
     (if new_ip = 0 \<or> new_ip = c_ip e then e else e\<lparr>c_ip := new_ip, c_ip_since_us := 0\<rparr>)"

definition count_traffic :: "bool \<Rightarrow> u16 \<Rightarrow> bool \<Rightarrow> client_entry \<Rightarrow> client_entry" where
  "count_traffic is_wifi bytes is_uplink e =
     (let e = e\<lparr>c_is_wifi := is_wifi\<rparr> in
      if is_uplink then e\<lparr>c_tx_bytes := c_tx_bytes e + ucast bytes, c_tx_pkts := c_tx_pkts e + 1\<rparr>
      else e\<lparr>c_rx_bytes := c_rx_bytes e + ucast bytes, c_rx_pkts := c_rx_pkts e + 1\<rparr>)"

definition account_traffic ::
  "int \<Rightarrow> mac \<Rightarrow> bool \<Rightarrow> u16 \<Rightarrow> bool \<Rightarrow> u32 option \<Rightarrow> tracker \<times> dhcp \<Rightarrow> tracker \<times> dhcp"
where
  "account_traffic now m is_wifi bytes is_uplink observed_ip td =
     (let (t, d) = td;
          (slot, t) = find_or_create_locked now m t
      in case slot of
           None \<Rightarrow> (t, d)
         | Some i \<Rightarrow>
             let e = (count_traffic is_wifi bytes is_uplink (t_clients t ! i))\<lparr>c_last_seen_us := now\<rparr>
             in case observed_ip of
                  None \<Rightarrow> (set_client t i e, d)
                | Some ip \<Rightarrow>
                    let ip_is_new = (c_ip e \<noteq> ip);
                        e = update_client_ip_locked e ip;
                        e = (if c_ip_since_us e = 0 \<and> c_ip e = ip then e\<lparr>c_ip_since_us := now\<rparr> else e);
                        d = (if ip_is_new then dhcp_server_note_observed_ip now (c_mac e) ip d else d)
                    in (set_client t i e, d))"

text \<open>
  The DHCP server's event, of an interface that may not be the bridge's: the address only when none is known,
  the name whenever it has one.
\<close>

definition on_client_ip_assigned :: "bool \<Rightarrow> int \<Rightarrow> mac \<Rightarrow> u32 \<Rightarrow> u8 list \<Rightarrow> tracker \<Rightarrow> tracker" where
  "on_client_ip_assigned of_bridge now m ip hostname t =
     (if \<not> of_bridge then t
      else
        let (slot, t) = find_or_create_locked now m t in
        case slot of
          None \<Rightarrow> t
        | Some i \<Rightarrow>
            let e = t_clients t ! i;
                e = (if c_ip e = 0 then update_client_ip_locked e ip else e);
                e = (if hostname \<noteq> [] then e\<lparr>c_name := take (CLIENT_TRACK_NAME_MAX_LEN - 1) hostname\<rparr> else e)
            in set_client t i e)"

section \<open>The one-second tick\<close>

definition tick_client :: "int \<Rightarrow> client_entry \<Rightarrow> client_entry" where
  "tick_client now e =
     (if \<not> c_active e then e
      else if now - c_last_seen_us e > CLIENT_AGE_OUT_US then e\<lparr>c_active := False\<rparr>
      else e\<lparr>c_rx_bps := c_rx_bytes e - c_rx_bytes_prev e, c_tx_bps := c_tx_bytes e - c_tx_bytes_prev e,
             c_rx_bytes_prev := c_rx_bytes e, c_tx_bytes_prev := c_tx_bytes e,
             c_rx_pps := c_rx_pkts e - c_rx_pkts_prev e, c_tx_pps := c_tx_pkts e - c_tx_pkts_prev e,
             c_rx_pkts_prev := c_rx_pkts e, c_tx_pkts_prev := c_tx_pkts e\<rparr>)"

text \<open>The first half: rates and ages; the result is the hardware addresses that are left.\<close>

definition tick_rates :: "int \<Rightarrow> tracker \<Rightarrow> mac list \<times> tracker" where
  "tick_rates now t =
     (let es = map (tick_client now) (t_clients t);
          live = filter c_active es
      in (map c_mac live,
          t\<lparr>t_clients := es, t_net_rx_pps := sum_list (map c_rx_pps live),
            t_net_tx_pps := sum_list (map c_tx_pps live)\<rparr>))"

text \<open>The second half: an address for those that have none, then the station list.\<close>

definition resolve_client :: "int \<Rightarrow> mac \<times> u32 \<Rightarrow> tracker \<Rightarrow> tracker" where
  "resolve_client now = (\<lambda>(m, ip) t.
     let (slot, t) = find_or_create_locked now m t in
     case slot of
       None \<Rightarrow> t
     | Some i \<Rightarrow>
         let e = t_clients t ! i in
         if c_ip e = 0 then set_client t i (update_client_ip_locked e ip) else t)"

definition note_station :: "int \<Rightarrow> mac \<times> u8 \<Rightarrow> tracker \<Rightarrow> tracker" where
  "note_station now = (\<lambda>(m, rssi) t.
     let (slot, t) = find_or_create_locked now m t in
     case slot of
       None \<Rightarrow> t
     | Some i \<Rightarrow> set_client t i ((t_clients t ! i)\<lparr>c_is_wifi := True, c_rssi := rssi\<rparr>))"

definition tick_lookup :: "(mac \<Rightarrow> u32) \<Rightarrow> dhcp \<Rightarrow> mac \<Rightarrow> u32" where
  "tick_lookup arp d m = (case dhcp_server_lookup_ip m d of Some ip \<Rightarrow> ip | None \<Rightarrow> arp m)"

definition tick_resolve :: "int \<Rightarrow> (mac \<times> u32) list \<Rightarrow> (mac \<times> u8) list option \<Rightarrow> tracker \<Rightarrow> tracker" where
  "tick_resolve now pairs sta_list t =
     (let t = fold (resolve_client now) pairs t in
      case sta_list of Some sta \<Rightarrow> fold (note_station now) sta t | None \<Rightarrow> t)"

section \<open>The fast sample and the history\<close>

abbreviation SAMPLES_PER_SECOND :: u32 where "SAMPLES_PER_SECOND \<equiv> 10"

definition fast_sample_client :: "client_entry \<Rightarrow> client_entry" where
  "fast_sample_client e =
     (if \<not> c_active e then e
      else let rx_delta = c_rx_bytes e - c_rx_bytes_prev_fast e;
               tx_delta = c_tx_bytes e - c_tx_bytes_prev_fast e;
               rx_pkt_delta = c_rx_pkts e - c_rx_pkts_prev_fast e;
               tx_pkt_delta = c_tx_pkts e - c_tx_pkts_prev_fast e;
               idx = unat (c_hist_seq e) mod CLIENT_TRACK_HISTORY_LEN
           in e\<lparr>c_rx_bytes_prev_fast := c_rx_bytes e, c_tx_bytes_prev_fast := c_tx_bytes e,
                c_rx_pkts_prev_fast := c_rx_pkts e, c_tx_pkts_prev_fast := c_tx_pkts e,
                c_hist_rx := (c_hist_rx e)[idx := rx_delta * SAMPLES_PER_SECOND],
                c_hist_tx := (c_hist_tx e)[idx := tx_delta * SAMPLES_PER_SECOND],
                c_hist_rx_pps := (c_hist_rx_pps e)[idx := rx_pkt_delta * SAMPLES_PER_SECOND],
                c_hist_tx_pps := (c_hist_tx_pps e)[idx := tx_pkt_delta * SAMPLES_PER_SECOND],
                c_hist_seq := c_hist_seq e + 1\<rparr>)"

definition client_track_fast_sample :: "tracker \<Rightarrow> tracker" where
  "client_track_fast_sample t = t\<lparr>t_clients := map fast_sample_client (t_clients t)\<rparr>"

record client_history =
  h_seq :: u32
  h_reset :: bool
  h_count :: nat
  h_rx_bps :: "u32 list"
  h_tx_bps :: "u32 list"
  h_rx_pps :: "u32 list"
  h_tx_pps :: "u32 list"

definition entry_history :: "u32 \<Rightarrow> client_entry \<Rightarrow> client_history" where
  "entry_history since_seq e =
     (let avail = c_hist_seq e - since_seq;
          reset = avail > of_nat CLIENT_TRACK_HISTORY_LEN;
          avail = (if reset
                   then (if c_hist_seq e < of_nat CLIENT_TRACK_HISTORY_LEN then c_hist_seq e
                         else of_nat CLIENT_TRACK_HISTORY_LEN)
                   else avail);
          st = c_hist_seq e - avail;
          pick = (\<lambda>ring. map (\<lambda>k. ring ! (unat (st + of_nat k) mod CLIENT_TRACK_HISTORY_LEN)) [0..<unat avail])
      in \<lparr>h_seq = c_hist_seq e, h_reset = reset, h_count = unat avail, h_rx_bps = pick (c_hist_rx e),
          h_tx_bps = pick (c_hist_tx e), h_rx_pps = pick (c_hist_rx_pps e), h_tx_pps = pick (c_hist_tx_pps e)\<rparr>)"

definition client_track_get_history :: "mac \<Rightarrow> u32 \<Rightarrow> tracker \<Rightarrow> client_history option" where
  "client_track_get_history m since_seq t =
     map_option (\<lambda>i. entry_history since_seq (t_clients t ! i))
       (first_slot (\<lambda>_ e. \<not> (\<not> c_active e \<or> c_mac e \<noteq> m)) (t_clients t))"

section \<open>Reports\<close>

record client_info =
  ci_mac :: mac
  ci_ip :: u32
  ci_is_wifi :: bool
  ci_rssi :: u8
  ci_rx_bps :: u32
  ci_tx_bps :: u32
  ci_rx_pps :: u32
  ci_tx_pps :: u32
  ci_last_seen_s :: u32
  ci_name :: "u8 list"

definition client_info_of :: "int \<Rightarrow> client_entry \<Rightarrow> client_info" where
  "client_info_of now e =
     (let age_us = now - c_last_seen_us e in
      \<lparr>ci_mac = c_mac e, ci_ip = c_ip e, ci_is_wifi = c_is_wifi e, ci_rssi = c_rssi e,
       ci_rx_bps = c_rx_bps e, ci_tx_bps = c_tx_bps e, ci_rx_pps = c_rx_pps e, ci_tx_pps = c_tx_pps e,
       ci_last_seen_s = (if age_us > 0 then of_int (age_us div 1000000) else 0),
       ci_name = take (CLIENT_TRACK_NAME_MAX_LEN - 1) (c_name e)\<rparr>)"

definition client_track_get_snapshot :: "int \<Rightarrow> nat \<Rightarrow> tracker \<Rightarrow> client_info list" where
  "client_track_get_snapshot now limit t =
     map (client_info_of now) (take limit (filter c_active (t_clients t)))"

definition client_track_get_traffic_pps :: "tracker \<Rightarrow> u32 \<times> u32" where
  "client_track_get_traffic_pps t = (t_net_rx_pps t, t_net_tx_pps t)"

text \<open>
  The station is torn down only when its client is live and on WiFi, and is still associated
  (\<open>aid\<close>, the library's answer); the result is then the library's for the request.
\<close>

definition client_track_kick_station ::
  "mac \<Rightarrow> u16 option \<Rightarrow> (u16 \<Rightarrow> bool) \<Rightarrow> tracker \<Rightarrow> bool"
where
  "client_track_kick_station m aid deauth t =
     (case find_locked t m of
        None \<Rightarrow> False
      | Some i \<Rightarrow>
          if \<not> c_is_wifi (t_clients t ! i) then False
          else (case aid of None \<Rightarrow> False | Some a \<Rightarrow> deauth a))"

section \<open>The table as a state machine\<close>

text \<open>
  The operations as events with the time they were served at. \<open>Rates\<close> and \<open>Resolve\<close> are the two
  locked halves of \<open>client_track_tick\<close>; \<open>Server\<close> is any step of the DHCP server in between.
\<close>

datatype track_event =
  Account mac bool u16 bool "u32 option"
| Assigned bool mac u32 "u8 list"
| Rates
| Resolve "(mac \<times> u32) list" "(mac \<times> u8) list option"
| Sample
| Server

inductive track_step :: "int \<times> track_event \<Rightarrow> tracker \<times> dhcp \<Rightarrow> tracker \<times> dhcp \<Rightarrow> bool" where
  account: "track_step (now, Account m w b up ip) td (account_traffic now m w b up ip td)"
| assigned: "track_step (now, Assigned br m ip name) (t, d) (on_client_ip_assigned br now m ip name t, d)"
| rates: "track_step (now, Rates) (t, d) (snd (tick_rates now t), d)"
| resolve: "track_step (now, Resolve pairs sta) (t, d) (tick_resolve now pairs sta t, d)"
| sample: "track_step (now, Sample) (t, d) (client_track_fast_sample t, d)"
| server: "dhcp_step d d' \<Longrightarrow> track_step (now, Server) (t, d) (t, d')"

inductive_cases track_stepE: "track_step ev td td'"

inductive track_run :: "(int \<times> track_event) list \<Rightarrow> tracker \<times> dhcp \<Rightarrow> tracker \<times> dhcp \<Rightarrow> bool" where
  start: "track_run [] td td"
| snoc: "track_run evs td td' \<Longrightarrow> track_step ev td' td'' \<Longrightarrow> track_run (evs @ [ev]) td td''"

section \<open>Well-formed tables\<close>

definition rings_ok :: "client_entry \<Rightarrow> bool" where
  "rings_ok e \<longleftrightarrow>
     length (c_hist_rx e) = CLIENT_TRACK_HISTORY_LEN \<and> length (c_hist_tx e) = CLIENT_TRACK_HISTORY_LEN \<and>
     length (c_hist_rx_pps e) = CLIENT_TRACK_HISTORY_LEN \<and> length (c_hist_tx_pps e) = CLIENT_TRACK_HISTORY_LEN"

definition tracker_ok :: "tracker \<Rightarrow> bool" where
  "tracker_ok t \<longleftrightarrow>
     length (t_clients t) = CLIENT_TRACK_MAX_CLIENTS \<and> uniq_by c_active c_mac (t_clients t) \<and>
     list_all rings_ok (t_clients t)"

text \<open>What the table holds of one client, wherever its slot is.\<close>

definition entry :: "tracker \<Rightarrow> mac \<Rightarrow> client_entry option" where
  "entry t m = map_option (\<lambda>i. t_clients t ! i) (find_locked t m)"

text \<open>The address the client's own traffic vouched for, and since when.\<close>

definition sighting :: "tracker \<Rightarrow> mac \<Rightarrow> (u32 \<times> int) option" where
  "sighting t m =
     (case entry t m of
        Some e \<Rightarrow> if c_ip_since_us e \<noteq> 0 then Some (c_ip e, c_ip_since_us e) else None
      | None \<Rightarrow> None)"

interpretation clients: slot_table c_active c_mac "fresh_client now" "\<lambda>_. True" for now
  by unfold_locales (auto simp: fresh_client_def)

lemma find_locked_lookup: "find_locked t m = lookup_slot c_active c_mac m (t_clients t)"
  by (simp add: find_locked_def lookup_slot_def)

lemma entry_SomeD:
  "entry t m = Some e \<Longrightarrow> c_active e \<and> c_mac e = m \<and> e \<in> set (t_clients t)"
  by (auto simp: entry_def find_locked_lookup dest: lookup_slot_SomeD)

lemma entryI:
  "uniq_by c_active c_mac (t_clients t) \<Longrightarrow> i < length (t_clients t) \<Longrightarrow> c_active (t_clients t ! i) \<Longrightarrow>
     c_mac (t_clients t ! i) = m \<Longrightarrow> entry t m = Some (t_clients t ! i)"
  unfolding entry_def find_locked_lookup using lookup_slot_unique by fastforce

lemma entry_None:
  "entry t m = None \<longleftrightarrow> (\<forall>i<length (t_clients t). c_active (t_clients t ! i) \<longrightarrow> c_mac (t_clients t ! i) \<noteq> m)"
  by (simp add: entry_def find_locked_lookup lookup_slot_None)

lemma fresh_client_simps [simp]:
  "c_active (fresh_client now m)" "c_mac (fresh_client now m) = m" "c_ip (fresh_client now m) = 0"
  "c_ip_since_us (fresh_client now m) = 0" "rings_ok (fresh_client now m)"
  "c_last_seen_us (fresh_client now m) = now" "c_hist_seq (fresh_client now m) = 0"
  by (simp_all add: fresh_client_def zero_client_def rings_ok_def)

text \<open>
  Every operation on one client finds or makes its entry and writes it back: the entry of no
  other client changes.
\<close>

lemma find_or_create_cases:
  assumes ok: "tracker_ok t" and fc: "find_or_create_locked now m t = (slot, t1)"
  obtains (full) "slot = None" "t1 = t" "entry t m = None"
  | (slot) i where "slot = Some i"
      "t_clients t1 ! i = (case entry t m of Some e \<Rightarrow> e | None \<Rightarrow> fresh_client now m)"
      "\<And>e k. c_active e \<Longrightarrow> c_mac e = m \<Longrightarrow>
         entry (set_client t1 i e) k = (if k = m then Some e else entry t k)"
      "\<And>e. c_active e \<Longrightarrow> c_mac e = m \<Longrightarrow> rings_ok e \<Longrightarrow> tracker_ok (set_client t1 i e)"
      "set_client t1 i (t_clients t1 ! i) = t1"
proof -
  have u: "uniq_by c_active c_mac (t_clients t)" and l: "length (t_clients t) = 16"
    and r: "list_all rings_ok (t_clients t)" using ok by (simp_all add: tracker_ok_def)
  have put: "entry (set_client t i e) k = (if k = m then Some e else entry t k)"
    "rings_ok e \<Longrightarrow> tracker_ok (set_client t i e)"
    if i: "i < length (t_clients t)" and e: "c_active e" "c_mac e = m"
      and own: "\<And>j. j < length (t_clients t) \<Longrightarrow> j \<noteq> i \<Longrightarrow> c_active (t_clients t ! j) \<Longrightarrow> c_mac (t_clients t ! j) \<noteq> m"
      and free: "c_active (t_clients t ! i) \<Longrightarrow> c_mac (t_clients t ! i) = m" for i e k
  proof -
    let ?xs = "(t_clients t)[i := e]"
    have u': "uniq_by c_active c_mac ?xs"
      by (rule uniq_by_update [OF u]) (use own e in blast)
    then show "rings_ok e \<Longrightarrow> tracker_ok (set_client t i e)"
      using l r i by (auto simp: tracker_ok_def set_client_def list_all_length nth_list_update)
    have self: "entry (set_client t i e) m = Some e"
      using entryI [of "set_client t i e" i m] u' i e by (simp add: set_client_def)
    have other: "entry (set_client t i e) k = entry t k" if k: "k \<noteq> m"
    proof (cases "entry t k")
      case None
      then have "entry (set_client t i e) k = None"
        using k e i by (auto simp: entry_None set_client_def nth_list_update)
      with None show ?thesis by simp
    next
      case (Some f)
      then obtain j where j: "lookup_slot c_active c_mac k (t_clients t) = Some j" "f = t_clients t ! j"
        by (auto simp: entry_def find_locked_lookup)
      from lookup_slot_SomeD [OF j(1)] k free have "j < length (t_clients t)" "j \<noteq> i"
        "c_active f" "c_mac f = k" by (auto simp: j(2))
      then show ?thesis
        using entryI [of "set_client t i e" j k] u' Some j(2) by (simp add: set_client_def)
    qed
    show "entry (set_client t i e) k = (if k = m then Some e else entry t k)"
      using self other by simp
  qed
  show thesis
  proof (cases "lookup_slot c_active c_mac m (t_clients t)")
    case (Some i)
    note i = lookup_slot_SomeD [OF Some]
    have "slot = Some i" "t1 = t"
      using fc Some by (simp_all add: find_or_create_locked_def lookup_slot_def)
    moreover have e: "entry t m = Some (t_clients t ! i)"
      using Some by (simp add: entry_def find_locked_lookup)
    moreover have "c_mac (t_clients t ! j) \<noteq> m"
      if "j < length (t_clients t)" "j \<noteq> i" "c_active (t_clients t ! j)" for j
      using uniq_by_nthD [OF u that(1)] i that by metis
    ultimately show thesis
      using i put [of i] by (intro that(2) [of i]) (simp_all add: set_client_def)
  next
    case None
    then have absent: "entry t m = None" by (simp add: entry_def find_locked_lookup)
    show thesis
    proof (cases "first_slot (\<lambda>_ e. \<not> c_active e) (t_clients t)")
      case None
      with \<open>lookup_slot _ _ _ _ = None\<close> fc absent show thesis
        by (intro that(1)) (simp_all add: find_or_create_locked_def lookup_slot_def)
    next
      case (Some i)
      with \<open>lookup_slot _ _ _ _ = None\<close> fc have s: "slot = Some i" "t1 = set_client t i (fresh_client now m)"
        by (simp_all add: find_or_create_locked_def lookup_slot_def)
      note i = first_slot_SomeD [OF Some]
      have "set_client t1 i e = set_client t i e" for e by (simp add: s set_client_def)
      moreover have "c_mac (t_clients t ! j) \<noteq> m"
        if "j < length (t_clients t)" "c_active (t_clients t ! j)" for j
        using absent that by (simp add: entry_None)
      moreover have "t_clients t1 ! i = fresh_client now m" using i by (simp add: s set_client_def)
      ultimately show thesis
        using i put [of i] absent s by (intro that(2) [of i]) simp_all
    qed
  qed
qed

text \<open>
  So each operation is a function applied to the client's entry (or to a fresh one), if a slot can
  be had; \<open>same_client\<close> functions keep whose entry it is.
\<close>

definition on_client :: "int \<Rightarrow> mac \<Rightarrow> (client_entry \<Rightarrow> client_entry) \<Rightarrow> tracker \<Rightarrow> tracker" where
  "on_client now m f t =
     (let (slot, t1) = find_or_create_locked now m t in
      case slot of None \<Rightarrow> t1 | Some i \<Rightarrow> set_client t1 i (f (t_clients t1 ! i)))"

definition same_client :: "(client_entry \<Rightarrow> client_entry) \<Rightarrow> bool" where
  "same_client f \<longleftrightarrow>
     (\<forall>e. c_active (f e) = c_active e \<and> c_mac (f e) = c_mac e \<and> rings_ok (f e) = rings_ok e)"

lemma on_client:
  assumes ok: "tracker_ok t" and f: "same_client f"
  shows "tracker_ok (on_client now m f t) \<and>
    ((entry t m = None \<and> on_client now m f t = t) \<or>
     entry (on_client now m f t) k =
       (if k = m then Some (f (case entry t m of Some e \<Rightarrow> e | None \<Rightarrow> fresh_client now m)) else entry t k))"
proof (cases "find_or_create_locked now m t")
  case fc: (Pair slot t1)
  show ?thesis
  proof (rule find_or_create_cases [OF ok fc])
    fix i
    assume s: "slot = Some i"
      and at: "t_clients t1 ! i = (case entry t m of Some e \<Rightarrow> e | None \<Rightarrow> fresh_client now m)"
      and ent: "\<And>e k. c_active e \<Longrightarrow> c_mac e = m \<Longrightarrow>
         entry (set_client t1 i e) k = (if k = m then Some e else entry t k)"
      and tok: "\<And>e. c_active e \<Longrightarrow> c_mac e = m \<Longrightarrow> rings_ok e \<Longrightarrow> tracker_ok (set_client t1 i e)"
    let ?e = "case entry t m of Some e \<Rightarrow> e | None \<Rightarrow> fresh_client now m"
    have e: "c_active ?e" "c_mac ?e = m" "rings_ok ?e"
      using ok by (auto simp: tracker_ok_def list_all_iff split: option.splits dest: entry_SomeD)
    then have fe: "c_active (f ?e)" "c_mac (f ?e) = m" "rings_ok (f ?e)"
      using f by (simp_all add: same_client_def)
    show ?thesis using ent [OF fe(1,2)] tok [OF fe] by (simp add: on_client_def fc s at)
  qed (use ok in \<open>simp add: on_client_def fc\<close>)
qed

lemma on_client_id: "tracker_ok t \<Longrightarrow> entry t m = Some e \<Longrightarrow> f e = e \<Longrightarrow> on_client now m f t = t"
  by (auto simp: on_client_def find_or_create_locked_def entry_def find_locked_def set_client_def
           dest: first_slot_SomeD)

definition accounted :: "int \<Rightarrow> bool \<Rightarrow> u16 \<Rightarrow> bool \<Rightarrow> u32 option \<Rightarrow> client_entry \<Rightarrow> client_entry" where
  "accounted now w b up ip e =
     (let e = (count_traffic w b up e)\<lparr>c_last_seen_us := now\<rparr> in
      case ip of
        None \<Rightarrow> e
      | Some ip \<Rightarrow>
          let e = update_client_ip_locked e ip in
          if c_ip_since_us e = 0 \<and> c_ip e = ip then e\<lparr>c_ip_since_us := now\<rparr> else e)"

lemma account_traffic_fst: "fst (account_traffic now m w b up ip (t, d)) = on_client now m (accounted now w b up ip) t"
  by (simp add: account_traffic_def on_client_def accounted_def Let_def split: option.split prod.split)

definition assigned :: "u32 \<Rightarrow> u8 list \<Rightarrow> client_entry \<Rightarrow> client_entry" where
  "assigned ip hostname e =
     (let e = (if c_ip e = 0 then update_client_ip_locked e ip else e) in
      if hostname \<noteq> [] then e\<lparr>c_name := take (CLIENT_TRACK_NAME_MAX_LEN - 1) hostname\<rparr> else e)"

lemma on_client_ip_assigned_on:
  "on_client_ip_assigned br now m ip name t = (if br then on_client now m (assigned ip name) t else t)"
  by (simp add: on_client_ip_assigned_def on_client_def assigned_def Let_def split: option.split prod.split)

definition resolved :: "u32 \<Rightarrow> client_entry \<Rightarrow> client_entry" where
  "resolved ip e = (if c_ip e = 0 then update_client_ip_locked e ip else e)"

lemma resolve_client_on: "resolve_client now (m, ip) t = on_client now m (resolved ip) t"
  by (auto simp: resolve_client_def on_client_def resolved_def Let_def set_client_def split: option.split prod.split)

lemma note_station_on:
  "note_station now (m, rssi) t = on_client now m (\<lambda>e. e\<lparr>c_is_wifi := True, c_rssi := rssi\<rparr>) t"
  by (simp add: note_station_def on_client_def Let_def)

lemma update_client_ip_simps [simp]:
  "c_active (update_client_ip_locked e a) = c_active e" "c_mac (update_client_ip_locked e a) = c_mac e"
  "rings_ok (update_client_ip_locked e a) = rings_ok e"
  "c_ip (update_client_ip_locked e a) = (if a = 0 then c_ip e else a)"
  "c_ip_since_us (update_client_ip_locked e a) = (if a = 0 \<or> a = c_ip e then c_ip_since_us e else 0)"
  by (simp_all add: update_client_ip_locked_def rings_ok_def)

lemma count_traffic_simps [simp]:
  "c_active (count_traffic w b up e) = c_active e" "c_mac (count_traffic w b up e) = c_mac e"
  "rings_ok (count_traffic w b up e) = rings_ok e" "c_ip (count_traffic w b up e) = c_ip e"
  "c_ip_since_us (count_traffic w b up e) = c_ip_since_us e" "c_hist_seq (count_traffic w b up e) = c_hist_seq e"
  "c_hist_rx (count_traffic w b up e) = c_hist_rx e" "c_hist_tx (count_traffic w b up e) = c_hist_tx e"
  "c_hist_rx_pps (count_traffic w b up e) = c_hist_rx_pps e" "c_hist_tx_pps (count_traffic w b up e) = c_hist_tx_pps e"
  "c_rx_bytes_prev_fast (count_traffic w b up e) = c_rx_bytes_prev_fast e"
  "c_tx_bytes_prev_fast (count_traffic w b up e) = c_tx_bytes_prev_fast e"
  "c_rx_pkts_prev_fast (count_traffic w b up e) = c_rx_pkts_prev_fast e"
  "c_tx_pkts_prev_fast (count_traffic w b up e) = c_tx_pkts_prev_fast e"
  by (simp_all add: count_traffic_def rings_ok_def Let_def)

lemma rings_ok_updates [simp]:
  "rings_ok (e\<lparr>c_last_seen_us := x\<rparr>) = rings_ok e" "rings_ok (e\<lparr>c_ip_since_us := x\<rparr>) = rings_ok e"
  "rings_ok (e\<lparr>c_name := n\<rparr>) = rings_ok e" "rings_ok (e\<lparr>c_is_wifi := w, c_rssi := r\<rparr>) = rings_ok e"
  by (simp_all add: rings_ok_def)

lemma same_client_ops [simp, intro]:
  "same_client (accounted now w b up ip)"
  "same_client (assigned a name)"
  "same_client (resolved a)"
  "same_client (\<lambda>e. e\<lparr>c_is_wifi := True, c_rssi := rssi\<rparr>)"
  by (simp_all add: same_client_def accounted_def assigned_def resolved_def Let_def split: option.split)

text \<open>The two passes over the whole table.\<close>

lemma tick_client_active: "c_active (tick_client now e) \<Longrightarrow> c_active e"
  by (simp add: tick_client_def split: if_splits)

lemma tick_client_simps [simp]:
  "c_mac (tick_client now e) = c_mac e" "rings_ok (tick_client now e) = rings_ok e" "c_ip (tick_client now e) = c_ip e"
  "c_ip_since_us (tick_client now e) = c_ip_since_us e"
  by (auto simp: tick_client_def rings_ok_def split: if_splits)

lemma fast_sample_client_simps [simp]:
  "c_mac (fast_sample_client e) = c_mac e" "c_active (fast_sample_client e) = c_active e"
  "rings_ok (fast_sample_client e) = rings_ok e" "c_ip (fast_sample_client e) = c_ip e"
  "c_ip_since_us (fast_sample_client e) = c_ip_since_us e"
  by (auto simp: fast_sample_client_def rings_ok_def Let_def split: if_splits)

lemma map_clients:
  assumes ok: "tracker_ok t" and cs: "t_clients t' = map f (t_clients t)"
    and f: "\<And>e. c_mac (f e) = c_mac e" "\<And>e. c_active (f e) \<Longrightarrow> c_active e" "\<And>e. rings_ok (f e) = rings_ok e"
  shows "tracker_ok t' \<and>
    entry t' k = (case entry t k of Some e \<Rightarrow> if c_active (f e) then Some (f e) else None | None \<Rightarrow> None)"
proof -
  have u: "uniq_by c_active c_mac (t_clients t)" using ok by (simp add: tracker_ok_def)
  have u': "uniq_by c_active c_mac (t_clients t')"
    unfolding uniq_by_def cs
  proof (intro allI impI)
    fix i j
    assume "i < length (map f (t_clients t))" "j < length (map f (t_clients t))"
      and "c_active (map f (t_clients t) ! i) \<and> c_active (map f (t_clients t) ! j) \<and>
        c_mac (map f (t_clients t) ! i) = c_mac (map f (t_clients t) ! j)"
    then show "i = j"
      using uniq_by_nthD [OF u, of i j] f(2) [of "t_clients t ! i"] f(2) [of "t_clients t ! j"] by (simp add: f(1))
  qed
  then have "tracker_ok t'" using ok by (simp add: tracker_ok_def cs list.pred_map comp_def f(3))
  moreover have "entry t' k = (case entry t k of Some e \<Rightarrow> if c_active (f e) then Some (f e) else None | None \<Rightarrow> None)"
  proof (cases "entry t k")
    case None
    have "entry t' k = None"
      unfolding entry_None
    proof (intro allI impI)
      fix i assume "i < length (t_clients t')" "c_active (t_clients t' ! i)"
      then show "c_mac (t_clients t' ! i) \<noteq> k"
        using None f(2) [of "t_clients t ! i"] by (simp add: entry_None cs f(1))
    qed
    with None show ?thesis by simp
  next
    case (Some e)
    then obtain i where "lookup_slot c_active c_mac k (t_clients t) = Some i" and e: "e = t_clients t ! i"
      unfolding entry_def find_locked_lookup by blast
    from lookup_slot_SomeD [OF this(1)] e
    have i: "i < length (t_clients t)" "e = t_clients t ! i" "c_active e" "c_mac e = k" by simp_all
    show ?thesis
    proof (cases "c_active (f e)")
      case True
      then show ?thesis using entryI [OF u', of i k] i Some by (simp add: cs f(1))
    next
      case False
      have "entry t' k = None"
        unfolding entry_None
      proof (intro allI impI notI)
        fix j assume j: "j < length (t_clients t')" "c_active (t_clients t' ! j)" "c_mac (t_clients t' ! j) = k"
        then have "j = i" using uniq_by_nthD [OF u, of j i] i f(2) [of "t_clients t ! j"] by (simp add: cs f(1))
        with j False i show False by (simp add: cs)
      qed
      with Some False show ?thesis by simp
    qed
  qed
  ultimately show ?thesis ..
qed

lemma tick_rates_clients: "t_clients (snd (tick_rates now t)) = map (tick_client now) (t_clients t)"
  by (simp add: tick_rates_def Let_def)

lemma fast_sample_clients: "t_clients (client_track_fast_sample t) = map fast_sample_client (t_clients t)"
  by (simp add: client_track_fast_sample_def)

lemma tracker_ok_static: "tracker_ok static_tracker"
  by (simp add: tracker_ok_def static_tracker_def uniq_by_code rings_ok_def zero_client_def list_all_iff)

section \<open>What a sighting means\<close>

text \<open>
  \<open>vouch k f\<close>: applying \<open>f\<close> to an entry neither moves a vouched address nor invents one; at most it
  forgets that the address was vouched for.
\<close>

definition seen_at :: "client_entry \<Rightarrow> (u32 \<times> int) option" where
  "seen_at e = (if c_ip_since_us e \<noteq> 0 then Some (c_ip e, c_ip_since_us e) else None)"

lemma sighting_entry: "sighting t m = Option.bind (entry t m) seen_at"
  by (auto simp: sighting_def seen_at_def split: option.split)

lemma seen_at_keeps:
  "seen_at (assigned ip name e) = Some p \<Longrightarrow> seen_at e = Some p"
  "seen_at (resolved ip e) = Some p \<Longrightarrow> seen_at e = Some p"
  "seen_at (e\<lparr>c_is_wifi := True, c_rssi := rssi\<rparr>) = Some p \<Longrightarrow> seen_at e = Some p"
  by (simp_all add: seen_at_def assigned_def resolved_def Let_def split: if_splits)

lemma seen_at_fresh [simp]: "seen_at (fresh_client now m) = None"
  by (simp add: seen_at_def)

lemma sighting_on_client:
  assumes ok: "tracker_ok t" and f: "same_client f" and k: "\<And>e p. seen_at (f e) = Some p \<Longrightarrow> seen_at e = Some p"
    and s: "sighting (on_client now m f t) k = Some p"
  shows "sighting t k = Some p"
proof -
  let ?e = "case entry t m of Some e \<Rightarrow> e | None \<Rightarrow> fresh_client now m"
  consider "on_client now m f t = t" | "k \<noteq> m" "entry (on_client now m f t) k = entry t k"
    | "k = m" "entry (on_client now m f t) k = Some (f ?e)"
    using on_client [OF ok f, of now m k] by metis
  then show ?thesis
  proof cases
    case 3
    then have "seen_at ?e = Some p" using s k [of ?e p] by (simp add: sighting_entry)
    then show ?thesis using 3 by (cases "entry t m") (simp_all add: sighting_entry)
  qed (use s in \<open>simp_all add: sighting_entry\<close>)
qed

lemma sighting_map:
  assumes ok: "tracker_ok t" and cs: "t_clients t' = map f (t_clients t)"
    and f: "\<And>e. c_mac (f e) = c_mac e" "\<And>e. c_active (f e) \<Longrightarrow> c_active e" "\<And>e. rings_ok (f e) = rings_ok e"
      "\<And>e. seen_at (f e) = seen_at e"
    and s: "sighting t' k = Some p"
  shows "sighting t k = Some p"
proof -
  note me = conjunct2 [OF map_clients [OF ok cs f(1,2,3), of k]]
  show ?thesis
    using me s by (cases "entry t k") (simp_all add: sighting_entry f(4) split: if_splits)
qed

lemma fold_keeps:
  assumes "\<And>x t. x \<in> set xs \<Longrightarrow> P t \<Longrightarrow> P (f x t) \<and> (Q (f x t) \<longrightarrow> Q t)" "P t"
  shows "P (fold f xs t) \<and> (Q (fold f xs t) \<longrightarrow> Q t)"
  using assms by (induction xs arbitrary: t) (simp, metis fold_simps(2) list.set_intros)

lemma tick_resolve_keeps:
  assumes "tracker_ok t"
  shows "tracker_ok (tick_resolve now pairs sta t) \<and>
    (sighting (tick_resolve now pairs sta t) k = Some p \<longrightarrow> sighting t k = Some p)"
proof -
  have r: "tracker_ok (resolve_client now x t) \<and>
      (sighting (resolve_client now x t) k = Some p \<longrightarrow> sighting t k = Some p)" if "tracker_ok t" for x t
    using conjunct1 [OF on_client [OF that, of "resolved (snd x)" now "fst x"]]
      sighting_on_client [OF that, of "resolved (snd x)" now "fst x" k p, OF same_client_ops(3) seen_at_keeps(2)]
    by (cases x) (simp add: resolve_client_on)
  have n: "tracker_ok (note_station now x t) \<and>
      (sighting (note_station now x t) k = Some p \<longrightarrow> sighting t k = Some p)" if "tracker_ok t" for x t
    using conjunct1 [OF on_client [OF that, of "\<lambda>e. e\<lparr>c_is_wifi := True, c_rssi := snd x\<rparr>" now "fst x"]]
      sighting_on_client [OF that, of "\<lambda>e. e\<lparr>c_is_wifi := True, c_rssi := snd x\<rparr>" now "fst x" k p,
        OF same_client_ops(4) seen_at_keeps(3)]
    by (cases x) (simp add: note_station_on)
  let ?t = "fold (resolve_client now) pairs t"
  have 1: "tracker_ok ?t \<and> (sighting ?t k = Some p \<longrightarrow> sighting t k = Some p)"
    by (rule fold_keeps [where P = tracker_ok and Q = "\<lambda>t. sighting t k = Some p"]) (use r assms in auto)
  have 2: "tracker_ok (fold (note_station now) xs u) \<and>
      (sighting (fold (note_station now) xs u) k = Some p \<longrightarrow> sighting u k = Some p)"
    if "tracker_ok u" for xs u
    by (rule fold_keeps [where P = tracker_ok and Q = "\<lambda>t. sighting t k = Some p"]) (use n that in auto)
  show ?thesis using 1 2 by (auto simp: tick_resolve_def Let_def split: option.split)
qed

lemma accounted_seen_at:
  assumes "seen_at (accounted now w b up ip e) = Some (a, since)"
  shows "(seen_at e = Some (a, since) \<and> (\<forall>a'. ip = Some a' \<longrightarrow> a' = 0 \<or> a' = a)) \<or> (since = now \<and> ip = Some a)"
proof (cases ip)
  case None
  then show ?thesis using assms by (simp add: accounted_def seen_at_def Let_def split: if_splits)
next
  case (Some x)
  then show ?thesis using assms by (simp add: accounted_def seen_at_def Let_def split: if_splits)
qed

lemma track_step_effect:
  assumes "track_step (now, ev) (t, d) (t', d')" "tracker_ok t"
  shows "tracker_ok t' \<and>
    (sighting t' k = Some (a, since) \<longrightarrow>
      (sighting t k = Some (a, since) \<and> (\<forall>w b up a'. ev = Account k w b up (Some a') \<longrightarrow> a' = 0 \<or> a' = a)) \<or>
      (since = now \<and> (\<exists>w b up. ev = Account k w b up (Some a))))"
  using assms(1)
proof (cases rule: track_step.cases)
  case (account m w b up ip)
  then have t': "t' = on_client now m (accounted now w b up ip) t"
    using account_traffic_fst [of now m w b up ip t d] by (metis fst_conv)
  note oc = on_client [OF assms(2), of "accounted now w b up ip" now m k, simplified, folded t']
  show ?thesis
  proof (intro conjI impI)
    assume s: "sighting t' k = Some (a, since)"
    let ?e = "case entry t m of Some e \<Rightarrow> e | None \<Rightarrow> fresh_client now m"
    from oc consider "t' = t" "entry t m = None"
      | "k \<noteq> m" "entry t' k = entry t k"
      | "k = m" "entry t' k = Some (accounted now w b up ip ?e)"
      by metis
    then show "(sighting t k = Some (a, since) \<and> (\<forall>w b up a'. ev = Account k w b up (Some a') \<longrightarrow> a' = 0 \<or> a' = a)) \<or>
      (since = now \<and> (\<exists>w b up. ev = Account k w b up (Some a)))"
    proof cases
      case 1
      then have "k \<noteq> m" using s by (metis bind.bind_lzero option.distinct(1) sighting_entry)
      with 1 s account show ?thesis by simp
    next
      case 2
      then show ?thesis using s account by (simp add: sighting_entry)
    next
      case 3
      then have "seen_at (accounted now w b up ip ?e) = Some (a, since)" using s by (simp add: sighting_entry)
      from accounted_seen_at [OF this] consider
        "seen_at ?e = Some (a, since)" "\<forall>a'. ip = Some a' \<longrightarrow> a' = 0 \<or> a' = a" | "since = now" "ip = Some a" by blast
      then show ?thesis
      proof cases
        case 1
        then have "sighting t k = Some (a, since)"
          using 3(1) by (cases "entry t m") (simp_all add: sighting_entry)
        with 1 account show ?thesis by simp
      qed (use account 3(1) in simp)
    qed
  qed (use oc in simp)
next
  case (assigned br m ip name)
  then show ?thesis
    using conjunct1 [OF on_client [OF assms(2), of "assigned ip name" now m]]
      sighting_on_client [OF assms(2), of "assigned ip name" now m k "(a, since)", OF same_client_ops(2) seen_at_keeps(1)]
    by (simp add: on_client_ip_assigned_on assms(2))
next
  case rates
  have s: "seen_at (tick_client now e) = seen_at e" for e by (simp add: seen_at_def)
  show ?thesis
    using rates conjunct1 [OF map_clients [OF assms(2) tick_rates_clients [of now t] tick_client_simps(1) tick_client_active tick_client_simps(2)]]
      sighting_map [OF assms(2) tick_rates_clients [of now t] tick_client_simps(1) tick_client_active tick_client_simps(2) s, where k = k and p = "(a, since)"]
    by simp
next
  case (resolve pairs sta)
  then show ?thesis using tick_resolve_keeps [OF assms(2)] by simp
next
  case sample
  have s: "seen_at (fast_sample_client e) = seen_at e" for e by (simp add: seen_at_def)
  have a: "c_active (fast_sample_client e) \<Longrightarrow> c_active e" for e by simp
  show ?thesis
    using sample conjunct1 [OF map_clients [OF assms(2) fast_sample_clients [of t] fast_sample_client_simps(1) a
        fast_sample_client_simps(3)]]
      sighting_map [OF assms(2) fast_sample_clients [of t] fast_sample_client_simps(1) a
        fast_sample_client_simps(3) s, where k = k and p = "(a, since)"]
    by simp
qed (use assms(2) in simp)

interpretation tracker: state_machine "\<lambda>s s'. \<exists>ev. track_step ev s s'" "\<lambda>(t, d). tracker_ok t"
  proof
  fix s s' :: "tracker \<times> dhcp"
  assume "case s of (t, d) \<Rightarrow> tracker_ok t" "\<exists>ev. track_step ev s s'"
  then show "case s' of (t, d) \<Rightarrow> tracker_ok t"
    using track_step_effect by (cases s, cases s') force
qed

lemma track_run_steps: "track_run evs s s' \<Longrightarrow> (\<lambda>s s'. \<exists>ev. track_step ev s s')\<^sup>*\<^sup>* s s'"
  by (induction rule: track_run.induct) (auto intro: rtranclp.rtrancl_into_rtrancl)

lemma track_run_ok: "track_run evs (t, d) (t', d') \<Longrightarrow> tracker_ok t \<Longrightarrow> tracker_ok t'"
  using tracker.inv_run [OF track_run_steps] by fastforce

lemma sighting_origin:
  assumes "track_run evs s s'" "tracker_ok (fst s)" "sighting (fst s) m = None"
    and "sighting (fst s') m = Some (a, since)"
  shows "\<exists>xs w b up ys. evs = xs @ (since, Account m w b up (Some a)) # ys \<and>
    (\<forall>now' w' b' up' a'. (now', Account m w' b' up' (Some a')) \<in> set ys \<longrightarrow> a' = 0 \<or> a' = a)"
  using assms
proof (induction rule: track_run.induct)
  case (snoc evs s s' ev s'')
  obtain now e where ev: "ev = (now, e)" by (cases ev)
  have "tracker_ok (fst s')" using track_run_ok snoc by (metis prod.collapse)
  then consider
      "sighting (fst s') m = Some (a, since)" "\<forall>w b up a'. e = Account m w b up (Some a') \<longrightarrow> a' = 0 \<or> a' = a"
    | "since = now" "\<exists>w b up. e = Account m w b up (Some a)"
    using track_step_effect [of now e "fst s'" "snd s'" "fst s''" "snd s''" m a since] snoc.hyps(2) snoc.prems(3)
    by (auto simp: ev)
  then show ?case
  proof cases
    case 1
    from snoc.IH [OF snoc.prems(1,2) 1(1)] obtain xs w b up ys where
      "evs = xs @ (since, Account m w b up (Some a)) # ys"
      "\<forall>now' w' b' up' a'. (now', Account m w' b' up' (Some a')) \<in> set ys \<longrightarrow> a' = 0 \<or> a' = a" by blast
    then show ?thesis using 1(2)
      by (intro exI [of _ xs] exI [of _ w] exI [of _ b] exI [of _ up] exI [of _ "ys @ [ev]"]) (auto simp: ev)
  next
    case 2
    then obtain w b up where "e = Account m w b up (Some a)" by blast
    with 2 show ?thesis by (intro exI [of _ evs] exI [of _ w] exI [of _ b] exI [of _ up] exI [of _ "[]"]) (simp add: ev)
  qed
qed simp

text \<open>C13: When the table says a client has been on an address since a time, then at exactly that time a
  frame of the client's own carried the address as its source, and no later frame of its own had
  another: nothing the bridge believes (leases, events, the ARP cache) can produce such a record,
  and it is not refreshed by later traffic.\<close>

theorem sighting_is_own_traffic:
  assumes "track_run evs (static_tracker, d0) (t, d)" "sighting t m = Some (a, since)"
  shows "\<exists>xs w b up ys. evs = xs @ (since, Account m w b up (Some a)) # ys \<and>
    (\<forall>now' w' b' up' a'. (now', Account m w' b' up' (Some a')) \<in> set ys \<longrightarrow> a' = 0 \<or> a' = a)"
proof (rule sighting_origin [OF assms(1)])
  have "entry static_tracker m = None"
    by (simp add: entry_None static_tracker_def zero_client_def)
  then show "sighting (fst (static_tracker, d0)) m = None" by (simp add: sighting_entry)
qed (use assms(2) tracker_ok_static in simp_all)

lemma sighting_is_own_traffic_witness:
  "\<exists>t d. track_run [(7, Account (Mac 2 0 0 0 0 1) True 60 True (Some (ip4 192 168 5 20)))] (static_tracker, static_dhcp) (t, d) \<and>
     sighting t (Mac 2 0 0 0 0 1) = Some (ip4 192 168 5 20, 7) \<and>
     (\<exists>xs w b up ys. [(7, Account (Mac 2 0 0 0 0 1) True 60 True (Some (ip4 192 168 5 20)))]
        = xs @ (7, Account (Mac 2 0 0 0 0 1) w b up (Some (ip4 192 168 5 20))) # ys)"
proof -
  let ?m = "Mac 2 0 0 0 0 1" and ?a = "ip4 192 168 5 20"
  obtain t d where td: "account_traffic 7 ?m True 60 True (Some ?a) (static_tracker, static_dhcp) = (t, d)"
    by (cases "account_traffic 7 ?m True 60 True (Some ?a) (static_tracker, static_dhcp)")
  have run: "track_run [(7, Account ?m True 60 True (Some ?a))] (static_tracker, static_dhcp) (t, d)"
    using track_run.snoc [OF track_run.start track_step.account, of 7 ?m True 60 True "Some ?a" "(static_tracker, static_dhcp)"]
    by (simp add: td)
  have "sighting (fst (account_traffic 7 ?m True 60 True (Some ?a) (static_tracker, static_dhcp))) ?m = Some (?a, 7)"
    by code_simp
  then have s: "sighting t ?m = Some (?a, 7)" by (simp add: td)
  have "\<exists>xs w b up ys. [(7, Account ?m True 60 True (Some ?a))] = xs @ (7, Account ?m w b up (Some ?a)) # ys"
    using sighting_is_own_traffic [OF run s] by blast
  then show ?thesis using run s by blast
qed

section \<open>The history is the traffic\<close>

text \<open>One 100 ms period of a client: its frames are accounted, then the sample is taken.\<close>

definition sample_period :: "bool \<Rightarrow> (bool \<times> u16) list \<Rightarrow> client_entry \<Rightarrow> client_entry" where
  "sample_period w frames e = fast_sample_client (fold (\<lambda>(up, b). count_traffic w b up) frames e)"

definition bytes_of :: "bool \<Rightarrow> (bool \<times> u16) list \<Rightarrow> u32" where
  "bytes_of up frames = sum_list (map (\<lambda>(_, b). ucast b) (filter (\<lambda>(u, _). u = up) frames))"

definition frames_of :: "bool \<Rightarrow> (bool \<times> u16) list \<Rightarrow> u32" where
  "frames_of up frames = of_nat (length (filter (\<lambda>(u, _). u = up) frames))"

lemma fold_count_traffic:
  "c_rx_bytes (fold (\<lambda>(up, b). count_traffic w b up) fs e) = c_rx_bytes e + bytes_of False fs"
  "c_tx_bytes (fold (\<lambda>(up, b). count_traffic w b up) fs e) = c_tx_bytes e + bytes_of True fs"
  "c_rx_pkts (fold (\<lambda>(up, b). count_traffic w b up) fs e) = c_rx_pkts e + frames_of False fs"
  "c_tx_pkts (fold (\<lambda>(up, b). count_traffic w b up) fs e) = c_tx_pkts e + frames_of True fs"
  by (induction fs arbitrary: e) (auto simp: bytes_of_def frames_of_def count_traffic_def Let_def)

lemma fold_count_traffic_frame:
  "c_active (fold (\<lambda>(up, b). count_traffic w b up) fs e) = c_active e"
  "c_hist_seq (fold (\<lambda>(up, b). count_traffic w b up) fs e) = c_hist_seq e"
  "c_hist_rx (fold (\<lambda>(up, b). count_traffic w b up) fs e) = c_hist_rx e"
  "c_hist_tx (fold (\<lambda>(up, b). count_traffic w b up) fs e) = c_hist_tx e"
  "c_hist_rx_pps (fold (\<lambda>(up, b). count_traffic w b up) fs e) = c_hist_rx_pps e"
  "c_hist_tx_pps (fold (\<lambda>(up, b). count_traffic w b up) fs e) = c_hist_tx_pps e"
  "c_rx_bytes_prev_fast (fold (\<lambda>(up, b). count_traffic w b up) fs e) = c_rx_bytes_prev_fast e"
  "c_tx_bytes_prev_fast (fold (\<lambda>(up, b). count_traffic w b up) fs e) = c_tx_bytes_prev_fast e"
  "c_rx_pkts_prev_fast (fold (\<lambda>(up, b). count_traffic w b up) fs e) = c_rx_pkts_prev_fast e"
  "c_tx_pkts_prev_fast (fold (\<lambda>(up, b). count_traffic w b up) fs e) = c_tx_pkts_prev_fast e"
  by (induction fs arbitrary: e) (simp_all add: split_beta)

definition per_second :: "(bool \<Rightarrow> (bool \<times> u16) list \<Rightarrow> u32) \<Rightarrow> bool \<Rightarrow> (bool \<times> u16) list list \<Rightarrow> u32 list" where
  "per_second quantity up = map (\<lambda>frames. quantity up frames * SAMPLES_PER_SECOND)"

text \<open>The relation between an entry just sampled and the periods it has lived through.\<close>

definition history_of :: "client_entry \<Rightarrow> (bool \<times> u16) list list \<Rightarrow> bool" where
  "history_of e ps \<longleftrightarrow>
     c_active e \<and> c_hist_seq e = of_nat (length ps) \<and>
     c_rx_bytes_prev_fast e = c_rx_bytes e \<and> c_tx_bytes_prev_fast e = c_tx_bytes e \<and>
     c_rx_pkts_prev_fast e = c_rx_pkts e \<and> c_tx_pkts_prev_fast e = c_tx_pkts e \<and>
     ring_holds 32 (c_hist_rx e) (per_second bytes_of False ps) \<and>
     ring_holds 32 (c_hist_tx e) (per_second bytes_of True ps) \<and>
     ring_holds 32 (c_hist_rx_pps e) (per_second frames_of False ps) \<and>
     ring_holds 32 (c_hist_tx_pps e) (per_second frames_of True ps)"

lemma length_per_second [simp]: "length (per_second q up ps) = length ps"
  by (simp add: per_second_def)

lemma per_second_snoc: "per_second q up (ps @ [fs]) = per_second q up ps @ [q up fs * SAMPLES_PER_SECOND]"
  by (simp add: per_second_def)

lemma drop_per_second: "drop k (per_second q up ps) = per_second q up (drop k ps)"
  by (simp add: per_second_def drop_map)

lemma history_of_fresh: "history_of (fresh_client now m) []"
  by (simp add: history_of_def per_second_def ring_holds_Nil) (simp add: fresh_client_def zero_client_def ring_holds_Nil)

lemma history_of_period:
  assumes h: "history_of e ps" and l: "length ps < 2 ^ 32"
  shows "history_of (sample_period w fs e) (ps @ [fs])"
proof -
  have seq: "unat (of_nat (length ps) :: u32) = length ps"
    using l by (simp add: unat_of_nat_eq)
  have ring: "ring_holds 32 (slots[length ps mod 32 := q up fs * SAMPLES_PER_SECOND]) (per_second q up (ps @ [fs]))"
    if "ring_holds 32 slots (per_second q up ps)" for slots q up
    using ring_holds_snoc [OF that, of "q up fs * SAMPLES_PER_SECOND"] by (simp add: per_second_snoc)
  show ?thesis
    using h unfolding history_of_def sample_period_def fast_sample_client_def Let_def
    by (simp add: fold_count_traffic fold_count_traffic_frame seq ring)
qed

lemma history_of_run:
  "length ps < 2 ^ 32 \<Longrightarrow> history_of (fold (sample_period w) ps (fresh_client now m)) ps"
proof (induction ps rule: rev_induct)
  case (snoc fs ps)
  then show ?case using history_of_period by simp
qed (simp add: history_of_fresh)

lemma ring_pick:
  assumes r: "ring_holds 32 slots h" and l: "length h < 2 ^ 32" and a: "a \<le> 32" "a \<le> length h"
  shows "map (\<lambda>k. slots ! (unat (of_nat (length h) - of_nat a + of_nat k :: u32) mod 32)) [0..<a]
    = drop (length h - a) h"
proof (rule nth_equalityI)
  fix k assume k: "k < length (map (\<lambda>k. slots ! (unat (of_nat (length h) - of_nat a + of_nat k :: u32) mod 32)) [0..<a])"
  have e: "(of_nat (length h) - of_nat a + of_nat k :: u32) = of_nat (length h - a + k)"
    using a by (simp add: of_nat_diff)
  have "unat (of_nat (length h - a + k) :: u32) = length h - a + k"
    by (rule unat_of_nat_eq) (use k a l in simp)
  then have "unat (of_nat (length h) - of_nat a + of_nat k :: u32) = length h - a + k"
    by (simp only: e)
  then show "map (\<lambda>k. slots ! (unat (of_nat (length h) - of_nat a + of_nat k :: u32) mod 32)) [0..<a] ! k
    = drop (length h - a) h ! k"
    using k a ring_holds_nth [OF r, of "length h - a + k"] by simp
qed (use a in simp)

lemma entry_history_window:
  assumes h: "history_of e ps" and l: "length ps < 2 ^ 32" and n: "n < 2 ^ 32 - 32"
  shows "entry_history (of_nat n) e =
    (let k = (if n \<le> length ps then max n (length ps - 32) else length ps - 32) in
     \<lparr>h_seq = of_nat (length ps), h_reset = (n > length ps \<or> length ps - n > 32), h_count = length ps - k,
      h_rx_bps = per_second bytes_of False (drop k ps), h_tx_bps = per_second bytes_of True (drop k ps),
      h_rx_pps = per_second frames_of False (drop k ps), h_tx_pps = per_second frames_of True (drop k ps)\<rparr>)"
proof -
  let ?L = "length ps"
  let ?k = "if n \<le> ?L then max n (?L - 32) else ?L - 32"
  let ?a = "?L - ?k"
  have L: "unat (of_nat ?L :: u32) = ?L" and N: "unat (of_nat n :: u32) = n"
    using l n by (simp_all add: unat_of_nat_eq)
  have d: "unat (of_nat ?L - of_nat n :: u32) = (if n \<le> ?L then ?L - n else 2 ^ 32 + ?L - n)"
    using l n by (simp add: unat_sub_if' L N) arith
  have gt: "(of_nat ?L - of_nat n :: u32) > 32 \<longleftrightarrow> n > ?L \<or> ?L - n > 32"
    using l n by (simp add: word_less_nat_alt d) linarith
  have lt: "(of_nat ?L :: u32) < 32 \<longleftrightarrow> ?L < 32" by (simp add: word_less_nat_alt L)
  have avail: "(if (of_nat ?L - of_nat n :: u32) > 32 then (if (of_nat ?L :: u32) < 32 then of_nat ?L else 32)
      else of_nat ?L - of_nat n) = (of_nat ?a :: u32)"
  proof (cases "n > ?L \<or> ?L - n > 32")
    case True
    then show ?thesis by (auto simp: gt lt)
  next
    case False
    then have "of_nat ?L - of_nat n = (of_nat (?L - n) :: u32)" "?a = ?L - n" by (auto simp: of_nat_diff)
    then show ?thesis unfolding gt using False by simp
  qed
  have a: "?a \<le> 32" "?a \<le> ?L" and ka: "?L - ?a = ?k" by auto
  have ua: "unat (of_nat ?a :: u32) = ?a"
    by (rule unat_of_nat_eq) (use a(1) in simp)
  have pick: "map (\<lambda>j. ring ! (unat (of_nat ?L - of_nat ?a + of_nat j :: u32) mod 32)) [0..<?a]
      = per_second q up (drop ?k ps)"
    if "ring_holds 32 ring (per_second q up ps)" for ring q up
    using ring_pick [OF that, of ?a] a l unfolding length_per_second ka drop_per_second by simp
  have seq: "c_hist_seq e = of_nat ?L" using h by (simp add: history_of_def)
  have rings: "ring_holds 32 (c_hist_rx e) (per_second bytes_of False ps)"
     "ring_holds 32 (c_hist_tx e) (per_second bytes_of True ps)"
     "ring_holds 32 (c_hist_rx_pps e) (per_second frames_of False ps)"
     "ring_holds 32 (c_hist_tx_pps e) (per_second frames_of True ps)"
    using h by (simp_all add: history_of_def)
  show ?thesis
    unfolding entry_history_def Let_def seq of_nat_numeral gt avail [unfolded gt] ua
    by (simp only: rings [THEN pick])
qed

text \<open>C15: For a client sampled every 100 ms, \<open>client_track_get_history\<close> reports exactly ten times the
  bytes and frames of each period after the caller's last one, the newest 32 at most; the reset
  flag is set exactly when periods were missed or the caller's sequence number is of an earlier
  life of the client.\<close>

theorem history_exact:
  assumes "length ps < 2 ^ 32" "n < 2 ^ 32 - 32"
  shows "entry_history (of_nat n) (fold (sample_period w) ps (fresh_client now m)) =
    (let k = (if n \<le> length ps then max n (length ps - 32) else length ps - 32) in
     \<lparr>h_seq = of_nat (length ps), h_reset = (n > length ps \<or> length ps - n > 32), h_count = length ps - k,
      h_rx_bps = per_second bytes_of False (drop k ps), h_tx_bps = per_second bytes_of True (drop k ps),
      h_rx_pps = per_second frames_of False (drop k ps), h_tx_pps = per_second frames_of True (drop k ps)\<rparr>)"
  by (rule entry_history_window [OF history_of_run [OF assms(1)] assms])

lemma history_exact_witness:
  "entry_history 1 (fold (sample_period True) [[(True, 60)], [(False, 1500), (True, 40)], []] (fresh_client 5 (Mac 2 0 0 0 0 1)))
    = \<lparr>h_seq = 3, h_reset = False, h_count = 2, h_rx_bps = [15000, 0], h_tx_bps = [400, 0],
       h_rx_pps = [10, 0], h_tx_pps = [10, 0]\<rparr>"
  using history_exact [of "[[(True, 60)], [(False, 1500), (True, 40)], []]" 1 True 5 "Mac 2 0 0 0 0 1"]
  by (simp add: per_second_def bytes_of_def frames_of_def)

end
