(* ===== verification/QuarantineTable.thy ===== *)
theory QuarantineTable
  imports Prelude
begin

text \<open>
  The table of cut-off clients that the forwarding path of \<open>main/client_track.c\<close> consults per frame:
  four slots under a generation counter (a seqlock), written by one task at a time and read without
  a lock on both cores. A publication is the list of its stores in program order; a reader is the
  sequence of its loads, each from the memory at the moment it happens. Every word is volatile and
  aligned, so a load or a store of one word is one step.
\<close>

section \<open>The table\<close>

abbreviation QUARANTINE_MAX :: nat where "QUARANTINE_MAX \<equiv> 4"
abbreviation Q_SLOT_LIVE :: u32 where "Q_SLOT_LIVE \<equiv> 0x80000000"

record q_slot =
  qs_lo :: u32
  qs_hi :: u32

record qtable =
  s_q :: "q_slot list"
  s_q_gen :: u32
  s_q_any :: u32

definition static_qtable :: qtable where
  "static_qtable = \<lparr>s_q = replicate QUARANTINE_MAX \<lparr>qs_lo = 0, qs_hi = 0\<rparr>, s_q_gen = 0, s_q_any = 0\<rparr>"

fun mac_lo :: "mac \<Rightarrow> u32" where
  "mac_lo (Mac a b c d e f) = ucast a OR push_bit 8 (ucast b) OR push_bit 16 (ucast c) OR push_bit 24 (ucast d)"

fun mac_hi :: "mac \<Rightarrow> u32" where
  "mac_hi (Mac a b c d e f) = (ucast e OR push_bit 8 (ucast f)) OR Q_SLOT_LIVE"

section \<open>The writer\<close>

datatype q_store = St_any u32 | St_gen | St_lo nat u32 | St_hi nat u32

text \<open>\<open>s_q_gen++\<close> is a load and a store of the only writer, so nobody changes the word in between.\<close>

fun q_exec :: "q_store \<Rightarrow> qtable \<Rightarrow> qtable" where
  "q_exec (St_any v) q = q\<lparr>s_q_any := v\<rparr>"
| "q_exec St_gen q = q\<lparr>s_q_gen := s_q_gen q + 1\<rparr>"
| "q_exec (St_lo i v) q = q\<lparr>s_q := (s_q q)[i := (s_q q ! i)\<lparr>qs_lo := v\<rparr>]\<rparr>"
| "q_exec (St_hi i v) q = q\<lparr>s_q := (s_q q)[i := (s_q q ! i)\<lparr>qs_hi := v\<rparr>]\<rparr>"

definition publish_slot :: "mac list \<Rightarrow> nat \<Rightarrow> q_store list" where
  "publish_slot macs i =
     (if i < length macs then [St_lo i (mac_lo (macs ! i)), St_hi i (mac_hi (macs ! i))]
      else [St_lo i 0, St_hi i 0])"

definition publish_stores :: "mac list \<Rightarrow> q_store list" where
  "publish_stores macs =
     (let macs = take QUARANTINE_MAX macs in
      (if macs \<noteq> [] then [St_any 1] else []) @ [St_gen] @
      concat (map (publish_slot macs) [0..<QUARANTINE_MAX]) @ [St_gen] @
      (if macs = [] then [St_any 0] else []))"

definition quarantine_publish :: "mac list \<Rightarrow> qtable \<Rightarrow> qtable" where
  "quarantine_publish macs q = fold q_exec (publish_stores macs) q"

section \<open>The reader\<close>

text \<open>\<open>mem k\<close> is the memory at the reader's \<open>k\<close>-th load; loads behind an early exit have no effect.\<close>

definition mac_is_quarantined :: "(nat \<Rightarrow> qtable) \<Rightarrow> mac \<Rightarrow> bool" where
  "mac_is_quarantined mem m =
     (if s_q_any (mem 0) = 0 then False
      else let gen = s_q_gen (mem 1) in
        if gen AND 1 \<noteq> 0 then False
        else let lo = mac_lo m; hi = mac_hi m;
                 hit = list_ex (\<lambda>i. qs_lo (s_q (mem (2 + 2 * i)) ! i) = lo \<and> qs_hi (s_q (mem (3 + 2 * i)) ! i) = hi)
                         [0..<QUARANTINE_MAX]
             in hit \<and> s_q_gen (mem (2 + 2 * QUARANTINE_MAX)) = gen)"

section \<open>What the words say\<close>

lemma mac_lo_bytes:
  "mac_lo (Mac a b c d e f) = mac_lo (Mac a' b' c' d' e' f') \<longleftrightarrow> a = a' \<and> b = b' \<and> c = c' \<and> d = d'"
proof
  assume h: "mac_lo (Mac a b c d e f) = mac_lo (Mac a' b' c' d' e' f')"
  have bits: "bit (mac_lo (Mac a b c d e f)) n = bit (mac_lo (Mac a' b' c' d' e' f')) n" for n
    by (simp only: h)
  have "bit a n = bit a' n \<and> bit b n = bit b' n \<and> bit c n = bit c' n \<and> bit d n = bit d' n" if "n < 8" for n
    using bits [of n] bits [of "n + 8"] bits [of "n + 16"] bits [of "n + 24"] that
    by (simp add: bit_or_iff bit_push_bit_iff bit_ucast_iff impossible_bit)
  then show "a = a' \<and> b = b' \<and> c = c' \<and> d = d'"
    by (intro conjI bit_word_eqI) simp_all
qed simp

lemma mac_hi_bytes:
  "mac_hi (Mac a b c d e f) = mac_hi (Mac a' b' c' d' e' f') \<longleftrightarrow> e = e' \<and> f = f'"
proof
  assume h: "mac_hi (Mac a b c d e f) = mac_hi (Mac a' b' c' d' e' f')"
  have bits: "bit (mac_hi (Mac a b c d e f)) n = bit (mac_hi (Mac a' b' c' d' e' f')) n" for n
    by (simp only: h)
  have live: "\<not> bit Q_SLOT_LIVE n" if "n < 16" for n
  proof -
    have "Q_SLOT_LIVE = push_bit 31 1" by simp
    then show ?thesis using that by (simp only: bit_push_bit_iff) simp
  qed
  have "bit e n = bit e' n \<and> bit f n = bit f' n" if "n < 8" for n
    using bits [of n] bits [of "n + 8"] that live [of n] live [of "n + 8"]
    by (simp add: bit_or_iff bit_push_bit_iff bit_ucast_iff impossible_bit)
  then show "e = e' \<and> f = f'" by (intro conjI bit_word_eqI) simp_all
qed simp

lemma mac_words: "mac_lo m = mac_lo n \<and> mac_hi m = mac_hi n \<longleftrightarrow> m = n"
proof (cases m; cases n)
  fix a b c d e f a' b' c' d' e' f'
  assume "m = Mac a b c d e f" "n = Mac a' b' c' d' e' f'"
  then show ?thesis using mac_lo_bytes mac_hi_bytes by (metis mac.inject)
qed

lemma mac_hi_nonzero: "mac_hi m \<noteq> 0"
proof (cases m)
  case (Mac a b c d e f)
  have "Q_SLOT_LIVE = push_bit 31 1" by simp
  then have "bit Q_SLOT_LIVE 31" by (simp only: bit_push_bit_iff) simp
  then have "bit (mac_hi m) 31" by (simp add: Mac bit_or_iff)
  then show ?thesis by auto
qed

definition slots_of :: "mac list \<Rightarrow> q_slot list" where
  "slots_of macs =
     map (\<lambda>i. if i < length (take QUARANTINE_MAX macs) then \<lparr>qs_lo = mac_lo (macs ! i), qs_hi = mac_hi (macs ! i)\<rparr>
              else \<lparr>qs_lo = 0, qs_hi = 0\<rparr>) [0..<QUARANTINE_MAX]"

lemma slots_of_hit:
  assumes "i < QUARANTINE_MAX"
  shows "qs_lo (slots_of macs ! i) = mac_lo m \<and> qs_hi (slots_of macs ! i) = mac_hi m \<longleftrightarrow>
    i < length (take QUARANTINE_MAX macs) \<and> macs ! i = m"
  using assms mac_words [of "macs ! i" m] mac_hi_nonzero [of m] by (auto simp: slots_of_def)

section \<open>Publication store by store\<close>

definition gens :: "q_store list \<Rightarrow> nat" where
  "gens xs = length (filter (\<lambda>s. s = St_gen) xs)"

lemma gens_simps [simp]:
  "gens [] = 0" "gens (St_gen # xs) = Suc (gens xs)" "gens (St_any v # xs) = gens xs"
  "gens (St_lo i v # xs) = gens xs" "gens (St_hi i v # xs) = gens xs" "gens (xs @ ys) = gens xs + gens ys"
  by (simp_all add: gens_def)

lemma gens_take_mono: "i \<le> j \<Longrightarrow> gens (take i xs) \<le> gens (take j xs)"
  using take_add [of i "j - i" xs] by simp

lemma gen_counts: "s_q_gen (fold q_exec xs q) = s_q_gen q + of_nat (gens xs)"
proof (induction xs arbitrary: q)
  case (Cons s xs)
  then show ?case by (cases s) simp_all
qed simp

lemma upt_4: "[0..<4] = [0, 1, 2, 3 :: nat]"
  by (simp add: upt_rec)

lemma list_4_cases:
  assumes "length xs = 4"
  obtains a b c d where "xs = [a, b, c, d]"
  using assms by (auto simp: numeral_eq_Suc length_Suc_conv)

text \<open>A publication is eleven stores, whatever it publishes.\<close>

lemma publish_stores_shape:
  "\<exists>s0 s1 s2 s3 s4 s5 s6 s7. publish_stores p =
     (if take 4 p \<noteq> [] then [St_any 1, St_gen, s0, s1, s2, s3, s4, s5, s6, s7, St_gen]
      else [St_gen, s0, s1, s2, s3, s4, s5, s6, s7, St_gen, St_any 0]) \<and>
     (\<forall>s\<in>{s0, s1, s2, s3, s4, s5, s6, s7}. s \<noteq> St_gen)"
proof -
  have "\<exists>a b. publish_slot macs i = [a, b] \<and> a \<noteq> St_gen \<and> b \<noteq> St_gen" for macs i
    by (simp add: publish_slot_def)
  then obtain a b where ab: "\<And>macs i. publish_slot macs i = [a macs i, b macs i] \<and> a macs i \<noteq> St_gen \<and> b macs i \<noteq> St_gen"
    by metis
  show ?thesis
    by (simp add: publish_stores_def upt_4 ab Let_def)
qed

lemma length_publish_stores [simp]: "length (publish_stores p) = 11"
  using publish_stores_shape [of p] by (auto split: if_splits)

lemma gens_publish_stores [simp]: "gens (publish_stores p) = 2"
proof -
  have g: "gens (s # xs) = gens xs" if "s \<noteq> St_gen" for s xs using that by (cases s) simp_all
  show ?thesis using publish_stores_shape [of p] g by (auto split: if_splits)
qed

lemma publish_effect:
  assumes "length (s_q q) = QUARANTINE_MAX"
  shows "s_q (quarantine_publish p q) = slots_of p"
    and "s_q_any (quarantine_publish p q) = (if take QUARANTINE_MAX p = [] then 0 else 1)"
proof -
  obtain a b c d where q: "s_q q = [a, b, c, d]" using assms by (rule list_4_cases)
  show "s_q (quarantine_publish p q) = slots_of p"
    by (simp add: quarantine_publish_def publish_stores_def publish_slot_def slots_of_def upt_4 q Let_def)
  show "s_q_any (quarantine_publish p q) = (if take QUARANTINE_MAX p = [] then 0 else 1)"
    by (simp add: quarantine_publish_def publish_stores_def publish_slot_def upt_4 Let_def)
qed

lemma length_exec [simp]: "length (s_q (fold q_exec xs q)) = length (s_q q)"
proof (induction xs arbitrary: q)
  case (Cons s xs)
  then show ?case by (cases s) simp_all
qed simp

text \<open>
  Within one publication: before the first bump of the generation nothing has changed, between the
  bumps it is odd, and after the second one the slots are the new ones.
\<close>

lemma during_publish:
  assumes "length (s_q q) = 4" "r < 11"
  shows "let xs = take r (publish_stores p) in
    (gens xs = 0 \<and> r \<le> 1 \<and> s_q (fold q_exec xs q) = s_q q) \<or>
    (gens xs = 1) \<or>
    (gens xs = 2 \<and> r = 10 \<and> s_q (fold q_exec xs q) = slots_of p)"
proof -
  have g: "gens (s # xs) = gens xs" if "s \<noteq> St_gen" for s xs using that by (cases s) simp_all
  obtain s0 s1 s2 s3 s4 s5 s6 s7 where shape: "publish_stores p =
     (if take 4 p \<noteq> [] then [St_any 1, St_gen, s0, s1, s2, s3, s4, s5, s6, s7, St_gen]
      else [St_gen, s0, s1, s2, s3, s4, s5, s6, s7, St_gen, St_any 0])"
     "\<forall>s\<in>{s0, s1, s2, s3, s4, s5, s6, s7}. s \<noteq> St_gen"
    using publish_stores_shape [of p] by (elim exE conjE) (rule that)
  have r: "r = 0 \<or> r = 1 \<or> r = 2 \<or> r = 3 \<or> r = 4 \<or> r = 5 \<or> r = 6 \<or> r = 7 \<or> r = 8 \<or> r = 9 \<or> r = 10"
    using assms(2) by arith
  have ne: "s0 \<noteq> St_gen" "s1 \<noteq> St_gen" "s2 \<noteq> St_gen" "s3 \<noteq> St_gen" "s4 \<noteq> St_gen" "s5 \<noteq> St_gen"
    "s6 \<noteq> St_gen" "s7 \<noteq> St_gen" using shape(2) by simp_all
  note gs = ne [THEN g]
  show ?thesis
  proof (cases "take 4 p = []")
    case True
    then have s: "publish_stores p = [St_gen, s0, s1, s2, s3, s4, s5, s6, s7, St_gen, St_any 0]"
      using shape(1) by simp
    have "publish_stores p = take 10 (publish_stores p) @ [St_any 0]" unfolding s by simp
    from arg_cong [OF this, of "\<lambda>xs. fold q_exec xs q"]
    have "quarantine_publish p q = q_exec (St_any 0) (fold q_exec (take 10 (publish_stores p)) q)"
      unfolding quarantine_publish_def by (simp only: fold_append comp_apply fold_simps id_apply)
    then have l: "s_q (fold q_exec (take 10 (publish_stores p)) q) = slots_of p"
      using publish_effect(1) [OF assms(1), of p] by simp
    show ?thesis
    proof (cases "r = 10")
      case True
      then show ?thesis using l unfolding Let_def by (simp add: s gs)
    next
      case False
      with r show ?thesis unfolding Let_def s by (elim disjE) (simp_all add: gs del: fold_simps)
    qed
  next
    case False
    then have s: "publish_stores p = [St_any 1, St_gen, s0, s1, s2, s3, s4, s5, s6, s7, St_gen]"
      using shape(1) by simp
    from r show ?thesis unfolding Let_def s by (elim disjE) (simp_all add: gs)
  qed
qed

lemma prefix_state:
  assumes "s_q q = slots_of p0" "length (s_q q) = 4" "j \<le> 11 * length ps"
  shows "let xs = take j (concat (map publish_stores ps)) in
    gens xs \<le> 2 * length ps \<and>
    (even (gens xs) \<longrightarrow>
      s_q (fold q_exec xs q) = slots_of ((p0 # ps) ! (gens xs div 2)) \<and>
      11 * (gens xs div 2) \<le> j + 1 \<and> j \<le> 11 * (gens xs div 2) + 1)"
  using assms
proof (induction ps arbitrary: q p0 j)
  case (Cons p ps)
  show ?case
  proof (cases "j < 11")
    case True
    then have t: "take j (concat (map publish_stores (p # ps))) = take j (publish_stores p)" by simp
    show ?thesis
      unfolding t using during_publish [OF Cons.prems(2) True, of p] Cons.prems(1) by (auto simp: Let_def)
  next
    case False
    let ?q = "quarantine_publish p q"
    let ?xs = "take (j - 11) (concat (map publish_stores ps))"
    have t: "take j (concat (map publish_stores (p # ps))) = publish_stores p @ ?xs" using False by simp
    have "s_q ?q = slots_of p" "length (s_q ?q) = 4"
      using publish_effect(1) [OF Cons.prems(2)] by (simp_all add: slots_of_def)
    from Cons.IH [OF this, of "j - 11"] Cons.prems(3)
    have IH: "gens ?xs \<le> 2 * length ps"
      "even (gens ?xs) \<Longrightarrow> s_q (fold q_exec ?xs ?q) = slots_of ((p # ps) ! (gens ?xs div 2)) \<and>
        11 * (gens ?xs div 2) \<le> (j - 11) + 1 \<and> j - 11 \<le> 11 * (gens ?xs div 2) + 1"
      by (simp_all add: Let_def)
    show ?thesis
      unfolding t Let_def using IH False by (simp add: quarantine_publish_def) linarith
  qed
qed simp

text \<open>
  Linearisation of the lock-free reader, as a library fact: the memory it loads from is that of
  any interleaving with the writer's stores, \<open>ts k\<close> of which have happened by its \<open>k\<close>-th load.
\<close>

lemma reader_linearises:
  assumes mem: "mem = (\<lambda>k. fold q_exec (take (ts k) (concat (map publish_stores ps))) static_qtable)"
    and mono: "\<And>k. k < 10 \<Longrightarrow> ts k \<le> ts (Suc k)" and fin: "ts 10 \<le> 11 * length ps"
    and small: "length ps < 2 ^ 31" and hit: "mac_is_quarantined mem m"
  shows "\<exists>k<length ps. m \<in> set (take QUARANTINE_MAX (ps ! k)) \<and>
    11 * (k + 1) \<le> ts 1 + 1 \<and> ts 10 \<le> 11 * (k + 1) + 1"
proof -
  let ?H = "concat (map publish_stores ps)"
  let ?g = "\<lambda>k. gens (take (ts k) ?H)"
  have le: "ts a \<le> ts b" if "a \<le> b" "b \<le> 10" for a b
    using that by (induction b) (auto simp: le_Suc_eq intro: order_trans [OF _ mono])
  have start: "s_q static_qtable = slots_of []" "length (s_q static_qtable) = 4"
    by (simp_all add: static_qtable_def slots_of_def upt_4 numeral_eq_Suc)
  have state: "?g k \<le> 2 * length ps \<and> (even (?g k) \<longrightarrow>
      s_q (mem k) = slots_of (([] # ps) ! (?g k div 2)) \<and>
      11 * (?g k div 2) \<le> ts k + 1 \<and> ts k \<le> 11 * (?g k div 2) + 1)" if "k \<le> 10" for k
    using prefix_state [OF start, of "ts k" ps] le [of k 10] that fin by (simp add: mem Let_def)
  have gen: "s_q_gen (mem k) = of_nat (?g k)" for k
    by (simp add: mem gen_counts static_qtable_def)
  from hit obtain i where i: "i < 4" "qs_lo (s_q (mem (2 + 2 * i)) ! i) = mac_lo m"
      "qs_hi (s_q (mem (3 + 2 * i)) ! i) = mac_hi m"
    and even: "s_q_gen (mem 1) AND 1 = 0" and same: "s_q_gen (mem 10) = s_q_gen (mem 1)"
    unfolding mac_is_quarantined_def by (auto simp: Let_def list_ex_iff split: if_splits)
  have u: "unat (s_q_gen (mem k)) = ?g k" if "k \<le> 10" for k
    using state [OF that] small unfolding gen by (intro unat_of_nat_eq) simp
  then have g10: "?g 10 = ?g 1" using same by (metis le_refl one_le_numeral)
  have gk: "?g k = ?g 1" if "1 \<le> k" "k \<le> 10" for k
    using gens_take_mono [OF le [of 1 k], of ?H] gens_take_mono [OF le [of k 10], of ?H] that g10 by simp
  have ev: "even (?g 1)"
  proof -
    have "unat (s_q_gen (mem 1) AND 1) = 0" using even by simp
    then have "?g 1 AND 1 = 0" by (simp only: unsigned_and_eq u [OF one_le_numeral] unat_1)
    then show ?thesis by (simp add: and_one_eq even_iff_mod_2_eq_zero)
  qed
  let ?v = "?g 1 div 2"
  have slots: "s_q (mem k) = slots_of (([] # ps) ! ?v)" if "1 \<le> k" "k \<le> 10" for k
    using state [OF that(2)] gk [OF that] ev by simp
  have h: "i < length (take 4 (([] # ps) ! ?v)) \<and> (([] # ps) ! ?v) ! i = m"
    using slots_of_hit [OF i(1), of "([] # ps) ! ?v" m] i slots by simp
  have "?v \<noteq> 0"
  proof
    assume v: "?v = 0"
    show False using h unfolding v by simp
  qed
  then obtain k where k: "?v = Suc k" using not0_implies_Suc by blast
  have m: "m \<in> set (take 4 (ps ! k))"
    using h unfolding k by (metis nth_Cons_Suc nth_mem nth_take length_take min_less_iff_conj)
  have "?g 1 = 2 * Suc k" using k ev by (metis dvd_mult_div_cancel)
  moreover have "?g 1 \<le> 2 * length ps" using state [of 1] by simp
  ultimately have "k < length ps" by simp
  moreover have "11 * (k + 1) \<le> ts 1 + 1" using state [of 1] k ev by simp
  moreover have "ts 10 \<le> 11 * (k + 1) + 1" using state [of 10] k ev g10 by simp
  ultimately show ?thesis using m by blast
qed

text \<open>C6: A frame is dropped only for a client that one published set contains: whatever interleaving of
  the reader's loads with the writer's stores happens, a hit means that the address was, as a whole,
  in the set \<open>k\<close> whose publication had finished bumping the generation by the reader's first look
  and whose successor had not begun to rewrite by its last. No address is ever put together from
  two versions of the table.\<close>

theorem reader_sees_one_set:
  assumes "mem = (\<lambda>k. fold q_exec (take (ts k) (concat (map publish_stores ps))) static_qtable)"
    and "\<forall>k<10. ts k \<le> ts (Suc k)" "ts 10 \<le> 11 * length ps" "length ps < 2 ^ 31"
    and "mac_is_quarantined mem m"
  shows "\<exists>k<length ps. m \<in> set (take QUARANTINE_MAX (ps ! k)) \<and>
    11 * (k + 1) \<le> ts 1 + 1 \<and> ts 10 \<le> 11 * (k + 1) + 1"
  by (rule reader_linearises [OF assms(1) _ assms(3-5)]) (use assms(2) in simp)

text \<open>The reader starts between two publications and ends after the next has raised \<open>s_q_any\<close>.\<close>

lemma reader_sees_one_set_witness:
  "let ps = [[Mac 2 0 0 0 0 1, Mac 2 0 0 0 0 2], [Mac 2 0 0 0 0 3]];
       ts = (\<lambda>k. if k < 5 then 11 else 12);
       mem = (\<lambda>k. fold q_exec (take (ts k) (concat (map publish_stores ps))) static_qtable)
   in mac_is_quarantined mem (Mac 2 0 0 0 0 2) \<and>
      (\<exists>k<length ps. Mac 2 0 0 0 0 2 \<in> set (take QUARANTINE_MAX (ps ! k)) \<and>
         11 * (k + 1) \<le> ts 1 + 1 \<and> ts 10 \<le> 11 * (k + 1) + 1)"
proof -
  let ?ps = "[[Mac 2 0 0 0 0 1, Mac 2 0 0 0 0 2], [Mac 2 0 0 0 0 3]]"
  let ?ts = "\<lambda>k::nat. if k < 5 then 11 else 12 :: nat"
  let ?mem = "\<lambda>k. fold q_exec (take (?ts k) (concat (map publish_stores ?ps))) static_qtable"
  have hit: "mac_is_quarantined ?mem (Mac 2 0 0 0 0 2)" by code_simp
  show ?thesis
    unfolding Let_def using hit reader_sees_one_set [OF refl, of ?ts ?ps "Mac 2 0 0 0 0 2"] by simp
qed

lemma publish_enforced:
  assumes "length (s_q q) = QUARANTINE_MAX" "even (unat (s_q_gen q))"
  shows "(mac_is_quarantined (\<lambda>_. quarantine_publish macs q) m \<longleftrightarrow> m \<in> set (take QUARANTINE_MAX macs)) \<and>
    length (s_q (quarantine_publish macs q)) = QUARANTINE_MAX \<and> even (unat (s_q_gen (quarantine_publish macs q)))"
proof -
  let ?q = "quarantine_publish macs q"
  have "s_q_gen ?q = s_q_gen q + 2" unfolding quarantine_publish_def gen_counts by simp
  moreover have "even (unat (s_q_gen q + 2))"
    using assms(2) by (simp add: unat_word_ariths dvd_mod_iff)
  ultimately have ev: "even (unat (s_q_gen ?q))" by simp
  then have "unat (s_q_gen ?q AND 1) = 0"
    unfolding unsigned_and_eq by (simp add: and_one_eq even_iff_mod_2_eq_zero)
  then have even: "s_q_gen ?q AND 1 = 0" by (simp add: unat_eq_0)
  have "list_ex (\<lambda>i. qs_lo (s_q ?q ! i) = mac_lo m \<and> qs_hi (s_q ?q ! i) = mac_hi m) [0..<QUARANTINE_MAX]
      \<longleftrightarrow> (\<exists>i<QUARANTINE_MAX. i < length (take QUARANTINE_MAX macs) \<and> macs ! i = m)"
    unfolding publish_effect(1) [OF assms(1)] by (auto simp: list_ex_iff slots_of_hit)
  also have "\<dots> \<longleftrightarrow> m \<in> set (take QUARANTINE_MAX macs)"
    by (auto simp: in_set_conv_nth)
  finally show ?thesis
    using even publish_effect(2) [OF assms(1), of macs]
      ev assms(1)
    by (auto simp: mac_is_quarantined_def Let_def quarantine_publish_def)
qed

text \<open>With no publication in progress the lock-free scan is membership in the published set, of
  which the table holds the first four.\<close>

theorem published_set_is_enforced:
  assumes "length (s_q q) = QUARANTINE_MAX" "even (unat (s_q_gen q))"
  shows "mac_is_quarantined (\<lambda>_. quarantine_publish macs q) m \<longleftrightarrow> m \<in> set (take QUARANTINE_MAX macs)"
  using publish_enforced [OF assms] by blast

lemma published_set_is_enforced_witness:
  "length (s_q static_qtable) = QUARANTINE_MAX \<and> even (unat (s_q_gen static_qtable)) \<and>
   mac_is_quarantined (\<lambda>_. quarantine_publish [Mac 2 0 0 0 0 1] static_qtable) (Mac 2 0 0 0 0 1) \<and>
   \<not> mac_is_quarantined (\<lambda>_. quarantine_publish [Mac 2 0 0 0 0 1] static_qtable) (Mac 2 0 0 0 0 2)"
  using published_set_is_enforced [of static_qtable "[Mac 2 0 0 0 0 1]"]
  by (simp add: static_qtable_def)

end
