(* ===== verification/Quarantine.thy ===== *)
theory Quarantine
  imports ClientTable QuarantineTable
begin

text \<open>
  The decision half of the duplicate-address quarantine of \<open>main/client_track.c\<close>: once a second the
  lease table is searched for two clients on one address; a conflict confirmed three times in a
  row, between two clients that both were just seen on the address in their own traffic, cuts off
  the one that got there second, until the conflict has been gone for ten seconds.
\<close>

section \<open>State\<close>

abbreviation Q_ARM_TICKS :: nat where "Q_ARM_TICKS \<equiv> 3"
abbreviation Q_DISARM_TICKS :: nat where "Q_DISARM_TICKS \<equiv> 10"
abbreviation Q_FORGET_TICKS :: nat where "Q_FORGET_TICKS \<equiv> 30"
abbreviation Q_LIVENESS_US :: int where "Q_LIVENESS_US \<equiv> 30 * 1000000"
abbreviation Q_LOG_REPEAT_US :: int where "Q_LOG_REPEAT_US \<equiv> 5 * 60 * 1000000"

text \<open>The two counters are bytes in the code and stop counting at 3 and at 255, so they are numbers here.\<close>

record conflict =
  q_used :: bool
  q_mac :: mac
  q_peer :: mac
  q_ip :: u32
  q_confirm :: nat
  q_miss :: nat
  q_armed :: bool
  q_armed_us :: int
  q_logged_us :: int

definition zero_conflict :: conflict where
  "zero_conflict =
     \<lparr>q_used = False, q_mac = Mac 0 0 0 0 0 0, q_peer = Mac 0 0 0 0 0 0, q_ip = 0, q_confirm = 0,
      q_miss = 0, q_armed = False, q_armed_us = 0, q_logged_us = 0\<rparr>"

record quarantine =
  s_conflicts :: "conflict list"
  s_q_exempt :: "mac list"
  s_q_enforce :: bool
  q_table :: qtable

definition static_quarantine :: quarantine where
  "static_quarantine =
     \<lparr>s_conflicts = replicate QUARANTINE_MAX zero_conflict, s_q_exempt = [], s_q_enforce = True,
      q_table = static_qtable\<rparr>"

section \<open>Finding a conflict\<close>

definition lease_effective_ip :: "dhcp_lease_info \<Rightarrow> u32" where
  "lease_effective_ip l =
     (if i_observed_ip l \<noteq> 0 then i_observed_ip l else if i_expires_in_s l > 0 then i_ip l else 0)"

definition loser_is_b :: "client_entry option \<Rightarrow> client_entry option \<Rightarrow> mac \<Rightarrow> mac \<Rightarrow> bool" where
  "loser_is_b ea eb ma mb =
     (let ta = (case ea of Some e \<Rightarrow> c_ip_since_us e | None \<Rightarrow> 0);
          tb = (case eb of Some e \<Rightarrow> c_ip_since_us e | None \<Rightarrow> 0)
      in if ta \<noteq> tb then (if ta = 0 then False else if tb = 0 then True else tb > ta)
         else mb > ma)"

definition mac_is_exempt_locked :: "mac list \<Rightarrow> mac \<Rightarrow> bool" where
  "mac_is_exempt_locked ex m = list_ex (\<lambda>x. x = m) ex"

definition conflict_find_locked :: "conflict list \<Rightarrow> u32 \<Rightarrow> mac \<Rightarrow> mac \<Rightarrow> nat option" where
  "conflict_find_locked cs ip m1 m2 =
     first_slot (\<lambda>_ c. \<not> (\<not> q_used c \<or> q_ip c \<noteq> ip) \<and>
       ((q_mac c = m1 \<and> q_peer c = m2) \<or> (q_mac c = m2 \<and> q_peer c = m1))) cs"

definition conflict_alloc_locked :: "conflict list \<Rightarrow> nat option" where
  "conflict_alloc_locked cs = first_slot (\<lambda>_ c. \<not> q_used c) cs"

text \<open>The double loop over the lease entries, entry by entry with those behind it.\<close>

fun contested :: "dhcp_lease_info list \<Rightarrow> (u32 \<times> mac \<times> mac) list" where
  "contested [] = []"
| "contested (l # ls) =
     (let addr = lease_effective_ip l in
      if addr = 0 then []
      else map (\<lambda>l'. (addr, i_mac l, i_mac l')) (filter (\<lambda>l'. lease_effective_ip l' = addr) ls))
     @ contested ls"

definition claim_conflict :: "conflict list \<Rightarrow> u32 \<Rightarrow> mac \<Rightarrow> mac \<Rightarrow> (nat \<times> conflict) option" where
  "claim_conflict cs addr mi mj =
     (case conflict_find_locked cs addr mi mj of
        Some k \<Rightarrow> Some (k, cs ! k)
      | None \<Rightarrow> map_option (\<lambda>k. (k, zero_conflict\<lparr>q_used := True, q_ip := addr\<rparr>)) (conflict_alloc_locked cs))"

definition note_conflict :: "tracker \<Rightarrow> mac \<Rightarrow> mac \<Rightarrow> conflict \<Rightarrow> conflict" where
  "note_conflict t mi mj c =
     (let c = (if \<not> q_armed c
               then (if loser_is_b (entry t mi) (entry t mj) mi mj then c\<lparr>q_mac := mj, q_peer := mi\<rparr>
                     else c\<lparr>q_mac := mi, q_peer := mj\<rparr>)
               else c)
      in c\<lparr>q_miss := 0, q_confirm := (if q_confirm c < Q_ARM_TICKS then q_confirm c + 1 else q_confirm c)\<rparr>)"

definition note_pair :: "tracker \<Rightarrow> u32 \<times> mac \<times> mac \<Rightarrow> conflict list \<times> bool list \<Rightarrow> conflict list \<times> bool list" where
  "note_pair t = (\<lambda>(addr, mi, mj) (cs, seen).
     case claim_conflict cs addr mi mj of
       None \<Rightarrow> (cs, seen)
     | Some (k, c) \<Rightarrow> (cs[k := note_conflict t mi mj c], seen[k := True]))"

section \<open>Arming and disarming\<close>

definition both_confirmed :: "int \<Rightarrow> tracker \<Rightarrow> conflict \<Rightarrow> bool" where
  "both_confirmed now t c =
     (case (entry t (q_mac c), entry t (q_peer c)) of
        (Some loser, Some winner) \<Rightarrow>
          now - c_last_seen_us loser < Q_LIVENESS_US \<and> now - c_last_seen_us winner < Q_LIVENESS_US \<and>
          c_ip_since_us loser \<noteq> 0 \<and> c_ip_since_us winner \<noteq> 0 \<and>
          c_ip loser = q_ip c \<and> c_ip winner = q_ip c
      | _ \<Rightarrow> False)"

definition age_conflict :: "int \<Rightarrow> tracker \<Rightarrow> mac list \<Rightarrow> bool \<Rightarrow> conflict \<Rightarrow> conflict" where
  "age_conflict now t ex seen c =
     (if \<not> q_used c then c
      else if \<not> seen then
        let c = c\<lparr>q_confirm := 0, q_miss := (if q_miss c < 255 then q_miss c + 1 else q_miss c)\<rparr>;
            c = (if q_armed c \<and> q_miss c \<ge> Q_DISARM_TICKS then c\<lparr>q_armed := False\<rparr> else c)
        in if q_miss c \<ge> Q_FORGET_TICKS then c\<lparr>q_used := False\<rparr> else c
      else if \<not> q_armed c \<and> q_confirm c \<ge> Q_ARM_TICKS then
        if both_confirmed now t c \<and> \<not> mac_is_exempt_locked ex (q_mac c) then
          let c = c\<lparr>q_armed := True, q_armed_us := now\<rparr>
          in if q_logged_us c = 0 \<or> now - q_logged_us c > Q_LOG_REPEAT_US then c\<lparr>q_logged_us := now\<rparr> else c
        else c
      else c)"

definition armed_macs :: "conflict list \<Rightarrow> mac list" where
  "armed_macs cs = map q_mac (filter (\<lambda>c. q_used c \<and> q_armed c) cs)"

definition quarantine_rebuild ::
  "int \<Rightarrow> dhcp_lease_info list \<Rightarrow> tracker \<Rightarrow> quarantine \<Rightarrow> mac list \<times> quarantine"
where
  "quarantine_rebuild now leases t q =
     (let (cs, seen) = fold (note_pair t) (contested leases) (s_conflicts q, replicate QUARANTINE_MAX False);
          cs = map2 (age_conflict now t (s_q_exempt q)) seen cs;
          enforced = (if s_q_enforce q then armed_macs cs else [])
      in (enforced, q\<lparr>s_conflicts := cs, q_table := quarantine_publish enforced (q_table q)\<rparr>))"

text \<open>The whole pass: the lease snapshot, the decision under the lock, and the DHCP server told.\<close>

definition quarantine_pass :: "int \<Rightarrow> tracker \<Rightarrow> quarantine \<times> dhcp \<Rightarrow> quarantine \<times> dhcp" where
  "quarantine_pass now t = (\<lambda>(q, d).
     let leases = dhcp_server_get_leases now DHCP_SERVER_MAX_LEASES d;
         (macs, q) = quarantine_rebuild now leases t q
     in (q, dhcp_server_set_quarantined now macs d))"

section \<open>The console's operations\<close>

definition client_track_quarantine_clear :: "mac option \<Rightarrow> quarantine \<Rightarrow> bool \<times> quarantine" where
  "client_track_quarantine_clear arg q =
     (case arg of
        None \<Rightarrow> (True, q\<lparr>s_q_exempt := []\<rparr>)
      | Some m \<Rightarrow>
          if \<not> mac_is_exempt_locked (s_q_exempt q) m \<and> length (s_q_exempt q) < QUARANTINE_MAX then
            let cs = map (\<lambda>c. if q_used c \<and> q_armed c \<and> q_mac c = m then c\<lparr>q_armed := False\<rparr> else c) (s_conflicts q)
            in (True, q\<lparr>s_q_exempt := s_q_exempt q @ [m], s_conflicts := cs,
                  q_table := quarantine_publish (if s_q_enforce q then armed_macs cs else []) (q_table q)\<rparr>)
          else (False, q))"

definition client_track_quarantine_enforce :: "bool \<Rightarrow> quarantine \<Rightarrow> quarantine" where
  "client_track_quarantine_enforce on q =
     (let q = q\<lparr>s_q_enforce := on\<rparr> in
      if \<not> on then q\<lparr>q_table := quarantine_publish [] (q_table q)\<rparr>
      else q\<lparr>q_table := quarantine_publish (armed_macs (s_conflicts q)) (q_table q)\<rparr>)"

definition client_track_quarantine_enforcing :: "quarantine \<Rightarrow> bool" where
  "client_track_quarantine_enforcing q = s_q_enforce q"

record conflict_info =
  f_mac :: mac
  f_peer_mac :: mac
  f_ip :: u32
  f_armed :: bool
  f_dropping :: bool
  f_exempt :: bool
  f_armed_s :: u32

definition client_track_get_conflicts :: "int \<Rightarrow> nat \<Rightarrow> quarantine \<Rightarrow> conflict_info list" where
  "client_track_get_conflicts now limit q =
     map (\<lambda>c. \<lparr>f_mac = q_mac c, f_peer_mac = q_peer c, f_ip = q_ip c, f_armed = q_armed c,
              f_dropping = (q_armed c \<and> s_q_enforce q),
              f_exempt = mac_is_exempt_locked (s_q_exempt q) (q_mac c),
              f_armed_s = (if q_armed c then of_int ((now - q_armed_us c) div 1000000) else 0)\<rparr>)
       (take limit (filter q_used (s_conflicts q)))"

definition client_track_get_armed_conflicts :: "quarantine \<Rightarrow> nat" where
  "client_track_get_armed_conflicts q = length (filter (\<lambda>c. q_used c \<and> q_armed c) (s_conflicts q))"

section \<open>One pass over the lease table\<close>

definition pair_of :: "conflict \<Rightarrow> mac set" where
  "pair_of c = {q_mac c, q_peer c}"

definition pair_key :: "u32 \<times> mac \<times> mac \<Rightarrow> u32 \<times> mac set" where
  "pair_key = (\<lambda>(ip, a, b). (ip, {a, b}))"

lemma contested_macs: "(ip, a, b) \<in> set (contested ls) \<Longrightarrow> a \<in> i_mac ` set ls \<and> b \<in> i_mac ` set ls \<and> ip \<noteq> 0"
  by (induction ls) (auto simp: Let_def split: if_splits)

lemma distinct_contested: "distinct (map i_mac ls) \<Longrightarrow> distinct (map pair_key (contested ls))"
proof (induction ls)
  case (Cons l ls)
  let ?own = "map (\<lambda>l'. (lease_effective_ip l, i_mac l, i_mac l')) (filter (\<lambda>l'. lease_effective_ip l' = lease_effective_ip l) ls)"
  have d: "distinct (map i_mac ls)" and n: "i_mac l \<notin> i_mac ` set ls" using Cons.prems by simp_all
  have "distinct (map pair_key ?own)"
  proof -
    have "inj_on (\<lambda>l'. (lease_effective_ip l, {i_mac l, i_mac l'})) (set (filter (\<lambda>l'. lease_effective_ip l' = lease_effective_ip l) ls))"
    proof (rule inj_onI)
      fix u v
      assume "u \<in> set (filter (\<lambda>l'. lease_effective_ip l' = lease_effective_ip l) ls)"
        "v \<in> set (filter (\<lambda>l'. lease_effective_ip l' = lease_effective_ip l) ls)"
        "(lease_effective_ip l, {i_mac l, i_mac u}) = (lease_effective_ip l, {i_mac l, i_mac v})"
      then have "u \<in> set ls" "v \<in> set ls" "i_mac u = i_mac v" using n by (auto simp: doubleton_eq_iff)
      then show "u = v" using d by (metis distinct_map inj_on_def)
    qed
    then show ?thesis
      using d by (simp add: distinct_map pair_key_def comp_def)
  qed
  moreover have "set (map pair_key ?own) \<inter> set (map pair_key (contested ls)) = {}"
  proof -
    { fix k assume "k \<in> set (map pair_key ?own)" "k \<in> set (map pair_key (contested ls))"
      from this(1) obtain l' :: dhcp_lease_info where own: "k = (lease_effective_ip l, {i_mac l, i_mac l'})"
        by (auto simp: pair_key_def)
      from \<open>k \<in> set (map pair_key (contested ls))\<close>
      obtain p where p: "p \<in> set (contested ls)" "k = pair_key p" by (metis imageE set_map)
      obtain ip a b where "p = (ip, a, b)" by (cases p)
      with own p have "(ip, a, b) \<in> set (contested ls)" "i_mac l = a \<or> i_mac l = b"
        by (auto simp: pair_key_def doubleton_eq_iff)
      with \<open>(ip, a, b) \<in> set (contested ls)\<close> n contested_macs have False by blast }
    then show ?thesis by blast
  qed
  ultimately show ?case using Cons.IH [OF d] by (simp add: Let_def image_image)
qed simp

lemma note_conflict_simps [simp]:
  "q_used (note_conflict t mi mj c) = q_used c" "q_ip (note_conflict t mi mj c) = q_ip c"
  "q_armed (note_conflict t mi mj c) = q_armed c" "q_miss (note_conflict t mi mj c) = 0"
  "q_confirm (note_conflict t mi mj c) = (if q_confirm c < Q_ARM_TICKS then q_confirm c + 1 else q_confirm c)"
  by (simp_all add: note_conflict_def Let_def)

lemma note_conflict_armed [simp]:
  "q_armed c \<Longrightarrow> q_mac (note_conflict t mi mj c) = q_mac c \<and> q_peer (note_conflict t mi mj c) = q_peer c"
  by (simp add: note_conflict_def)

text \<open>A slot that the fold has noted holds one contested pair, carried over or begun in this pass.\<close>

definition noted :: "tracker \<Rightarrow> conflict list \<Rightarrow> (u32 \<times> mac \<times> mac) list \<Rightarrow> nat \<Rightarrow> conflict \<Rightarrow> bool" where
  "noted t cs ps k c' \<longleftrightarrow>
     (\<exists>ip mi mj c0. (ip, mi, mj) \<in> set ps \<and> c' = note_conflict t mi mj c0 \<and> q_used c0 \<and> q_ip c0 = ip \<and>
        ((c0 = cs ! k \<and> pair_of c0 = {mi, mj}) \<or>
         (\<not> q_used (cs ! k) \<and> c0 = zero_conflict\<lparr>q_used := True, q_ip := ip\<rparr>)))"

lemma noted_mono: "noted t cs ps k c \<Longrightarrow> noted t cs (ps @ qs) k c"
  unfolding noted_def by (metis Un_iff set_append)

lemma noted_key:
  assumes "noted t cs ps k c"
  shows "q_used c \<and> (q_ip c, pair_of c) \<in> pair_key ` set ps"
proof -
  from assms obtain ip mi mj c0 where c: "(ip, mi, mj) \<in> set ps" "c = note_conflict t mi mj c0" "q_used c0" "q_ip c0 = ip"
    "(c0 = cs ! k \<and> pair_of c0 = {mi, mj}) \<or> (\<not> q_used (cs ! k) \<and> c0 = zero_conflict\<lparr>q_used := True, q_ip := ip\<rparr>)"
    unfolding noted_def by (elim exE conjE) (rule that)
  have "pair_of c = {mi, mj}"
  proof (cases "q_armed c0")
    case True
    then show ?thesis using c(2,5) by (auto simp: pair_of_def zero_conflict_def)
  next
    case False
    then show ?thesis by (simp add: c(2) pair_of_def note_conflict_def Let_def insert_commute)
  qed
  moreover have "pair_key (ip, mi, mj) = (ip, {mi, mj})" by (simp add: pair_key_def)
  ultimately show ?thesis using c(1-4) by (metis note_conflict_simps(1,2) imageI)
qed

lemma note_pairs:
  assumes "distinct (map pair_key ps)" "length cs = 4"
    and "fold (note_pair t) ps (cs, replicate 4 False) = (cs', seen)"
  shows "length cs' = 4 \<and> length seen = 4 \<and>
    (\<forall>k<4. if seen ! k then noted t cs ps k (cs' ! k) else cs' ! k = cs ! k)"
  using assms(1,3)
proof (induction ps arbitrary: cs' seen rule: rev_induct)
  case Nil
  then have "cs' = cs" "seen = replicate 4 False" by simp_all
  then show ?case using assms(2) by simp
next
  case (snoc p ps)
  obtain ip mi mj where p: "p = (ip, mi, mj)" by (cases p)
  obtain cs1 seen1 where f: "fold (note_pair t) ps (cs, replicate 4 False) = (cs1, seen1)" by fastforce
  from snoc.IH [OF _ f] snoc.prems(1) have IH: "length cs1 = 4" "length seen1 = 4"
    "\<And>k. k < 4 \<Longrightarrow> if seen1 ! k then noted t cs ps k (cs1 ! k) else cs1 ! k = cs ! k"
    by simp_all
  have keep: "if seen1 ! k then noted t cs (ps @ [p]) k (cs1 ! k) else cs1 ! k = cs ! k" if "k < 4" for k
    using IH(3) [OF that] noted_mono by (simp split: if_splits)
  have step: "note_pair t p (cs1, seen1) = (cs', seen)" using snoc.prems(2) by (simp add: f)
  show ?case
  proof (cases "claim_conflict cs1 ip mi mj")
    case None
    then have "cs' = cs1" "seen = seen1" using step by (simp_all add: p note_pair_def)
    then show ?thesis using keep IH(1,2) by blast
  next
    case (Some kc)
    obtain k c0 where kc: "kc = (k, c0)" by (cases kc)
    have cs': "cs' = cs1[k := note_conflict t mi mj c0]" "seen = seen1[k := True]"
      using step Some kc by (simp_all add: p note_pair_def)
    have k: "k < 4 \<and> noted t cs (ps @ [p]) k (note_conflict t mi mj c0)"
    proof (cases "conflict_find_locked cs1 ip mi mj")
      case (Some i)
      with \<open>claim_conflict _ _ _ _ = _\<close> kc have i: "i = k" "c0 = cs1 ! k" by (auto simp: claim_conflict_def)
      from first_slot_SomeD [OF Some [unfolded conflict_find_locked_def]] i IH(1)
      have at: "k < 4" "q_used c0" "q_ip c0 = ip" "pair_of c0 = {mi, mj}"
        by (auto simp: pair_of_def)
      have "\<not> seen1 ! k"
      proof
        assume "seen1 ! k"
        then have "noted t cs ps k c0" using IH(3) [OF at(1)] i by simp
        from noted_key [OF this] at have "pair_key p \<in> pair_key ` set ps" by (simp add: p pair_key_def)
        then show False using snoc.prems(1) by simp
      qed
      then have "c0 = cs ! k" using IH(3) [OF at(1)] i by simp
      then show ?thesis using at unfolding noted_def p by (metis in_set_conv_decomp)
    next
      case None
      with \<open>claim_conflict _ _ _ _ = _\<close> kc obtain
        a: "conflict_alloc_locked cs1 = Some k" "c0 = zero_conflict\<lparr>q_used := True, q_ip := ip\<rparr>"
        by (auto simp: claim_conflict_def)
      from first_slot_SomeD [OF a(1) [unfolded conflict_alloc_locked_def]] IH(1)
      have at: "k < 4" "\<not> q_used (cs1 ! k)" by auto
      have "\<not> seen1 ! k" using IH(3) [OF at(1)] noted_key at(2) by metis
      then have "\<not> q_used (cs ! k)" using IH(3) [OF at(1)] at(2) by simp
      moreover have "q_used c0" "q_ip c0 = ip" by (simp_all add: a(2))
      ultimately show ?thesis using at a(2) unfolding noted_def p by (metis in_set_conv_decomp)
    qed
    then show ?thesis
      using keep IH(1,2) unfolding cs' by (auto simp: nth_list_update)
  qed
qed

section \<open>Why a client is cut off\<close>

text \<open>
  The events of the quarantine: the one-second pass, with the lease entries and the client table it
  found, and the console's commands.
\<close>

type_synonym q_pass = "int \<times> dhcp_lease_info list \<times> tracker"

datatype q_event = Rebuild q_pass | Clear "mac option" | Enforce bool

fun q_apply :: "q_event \<Rightarrow> quarantine \<Rightarrow> quarantine" where
  "q_apply (Rebuild (now, leases, t)) q = snd (quarantine_rebuild now leases t q)"
| "q_apply (Clear m) q = snd (client_track_quarantine_clear m q)"
| "q_apply (Enforce on) q = client_track_quarantine_enforce on q"

text \<open>The passes of a run, the newest first.\<close>

fun q_pass_of :: "q_event \<Rightarrow> q_pass list" where
  "q_pass_of (Rebuild p) = [p]"
| "q_pass_of _ = []"

definition passes :: "q_event list \<Rightarrow> q_pass list" where
  "passes evs = concat (map q_pass_of (rev evs))"

text \<open>\<open>shared p ip ms\<close>: in pass \<open>p\<close> the lease table had the two clients \<open>ms\<close> on address \<open>ip\<close>.\<close>

definition shared :: "q_pass \<Rightarrow> u32 \<Rightarrow> mac set \<Rightarrow> bool" where
  "shared = (\<lambda>(now, leases, t) ip ms. (ip, ms) \<in> pair_key ` set (contested leases))"

text \<open>
  \<open>later p ip m w\<close>: at pass \<open>p\<close> both clients had been heard from in the last 30 s, both had been seen
  on the address in their own traffic, and \<open>m\<close> got there after \<open>w\<close>.
\<close>

definition later :: "q_pass \<Rightarrow> u32 \<Rightarrow> mac \<Rightarrow> mac \<Rightarrow> bool" where
  "later = (\<lambda>(now, leases, t) ip m w.
     (case (entry t m, entry t w) of
        (Some el, Some ew) \<Rightarrow>
          now - c_last_seen_us el < Q_LIVENESS_US \<and> now - c_last_seen_us ew < Q_LIVENESS_US \<and>
          sighting t m = Some (ip, c_ip_since_us el) \<and> sighting t w = Some (ip, c_ip_since_us ew) \<and>
          (c_ip_since_us ew < c_ip_since_us el \<or> (c_ip_since_us ew = c_ip_since_us el \<and> w < m))
      | _ \<Rightarrow> False))"

definition justified :: "q_pass list \<Rightarrow> mac list \<Rightarrow> conflict \<Rightarrow> bool" where
  "justified P ex c \<longleftrightarrow>
     (q_used c \<longrightarrow>
       q_confirm c \<le> 3 \<and> q_confirm c \<le> length P \<and>
       (\<forall>k<q_confirm c. shared (P ! k) (q_ip c) (pair_of c)) \<and>
       (q_armed c \<longrightarrow>
         q_mac c \<notin> set ex \<and> q_miss c < 10 \<and> q_miss c < length P \<and>
         shared (P ! q_miss c) (q_ip c) (pair_of c) \<and>
         (\<exists>n. n + 2 < length P \<and> later (P ! n) (q_ip c) (q_mac c) (q_peer c) \<and>
            (\<forall>k\<le>2. shared (P ! (n + k)) (q_ip c) (pair_of c)))))"

lemma contested_neq: "distinct (map i_mac ls) \<Longrightarrow> (ip, a, b) \<in> set (contested ls) \<Longrightarrow> a \<noteq> b"
  by (induction ls) (auto simp: Let_def split: if_splits)

lemma note_conflict_order:
  assumes "\<not> q_armed c" "mi \<noteq> mj" "entry t (q_mac (note_conflict t mi mj c)) = Some el"
    and "entry t (q_peer (note_conflict t mi mj c)) = Some ew" "c_ip_since_us el \<noteq> 0" "c_ip_since_us ew \<noteq> 0"
  shows "c_ip_since_us ew < c_ip_since_us el \<or>
    (c_ip_since_us ew = c_ip_since_us el \<and> q_peer (note_conflict t mi mj c) < q_mac (note_conflict t mi mj c))"
  using assms by (auto simp: note_conflict_def loser_is_b_def Let_def split: if_splits)

lemma age_unseen:
  assumes j: "justified P ex c"
  shows "justified (p # P) ex (age_conflict now t ex False c)"
proof (cases "q_used c \<and> q_armed c \<and> q_miss c + 1 < 10")
  case True
  then have a: "age_conflict now t ex False c = c\<lparr>q_confirm := 0, q_miss := q_miss c + 1\<rparr>"
    by (simp add: age_conflict_def)
  from j True obtain n where "n + 2 < length P" "later (P ! n) (q_ip c) (q_mac c) (q_peer c)"
    "\<forall>k\<le>2. shared (P ! (n + k)) (q_ip c) (pair_of c)" unfolding justified_def by blast
  then show ?thesis
    using j True unfolding a justified_def pair_of_def by (auto intro!: exI [of _ "Suc n"])
next
  case False
  then have "\<not> q_used (age_conflict now t ex False c) \<or>
      (\<not> q_armed (age_conflict now t ex False c) \<and> q_confirm (age_conflict now t ex False c) = 0)"
    by (auto simp: age_conflict_def Let_def)
  then show ?thesis unfolding justified_def by auto
qed

lemma later_if_confirmed:
  assumes "both_confirmed now t c" "\<And>el ew. entry t (q_mac c) = Some el \<Longrightarrow> entry t (q_peer c) = Some ew \<Longrightarrow>
      c_ip_since_us el \<noteq> 0 \<Longrightarrow> c_ip_since_us ew \<noteq> 0 \<Longrightarrow>
      c_ip_since_us ew < c_ip_since_us el \<or> (c_ip_since_us ew = c_ip_since_us el \<and> q_peer c < q_mac c)"
  shows "later (now, leases, t) (q_ip c) (q_mac c) (q_peer c)"
  using assms by (auto simp: both_confirmed_def later_def sighting_def split: option.splits)

lemma age_seen:
  assumes c0: "justified P ex (cs ! k)" and n: "noted t cs (contested leases) k c"
    and d: "distinct (map i_mac leases)"
  shows "justified ((now, leases, t) # P) ex (age_conflict now t ex True c)"
proof -
  let ?p = "(now, leases, t)"
  obtain ip mi mj b where b: "(ip, mi, mj) \<in> set (contested leases)" "c = note_conflict t mi mj b" "q_used b" "q_ip b = ip"
    "(b = cs ! k \<and> pair_of b = {mi, mj}) \<or> (\<not> q_used (cs ! k) \<and> b = zero_conflict\<lparr>q_used := True, q_ip := ip\<rparr>)"
    using n unfolding noted_def by (elim exE conjE) (rule that)
  have now: "shared ?p (q_ip c) (pair_of c)"
    using noted_key [OF n] by (simp add: shared_def)
  have neq: "mi \<noteq> mj" using contested_neq [OF d b(1)] .
  have used: "q_used c" and miss: "q_miss c = 0" using b(2,3) by simp_all
  let ?a = "age_conflict now t ex True c"
  have frame: "q_used ?a = q_used c" "q_ip ?a = q_ip c" "q_mac ?a = q_mac c" "q_peer ?a = q_peer c"
    "q_confirm ?a = q_confirm c" "q_miss ?a = q_miss c"
    by (simp_all add: age_conflict_def Let_def)
  have pa: "pair_of ?a = pair_of c" by (simp add: pair_of_def frame)
  have recent: "q_confirm c \<le> 3 \<and> q_confirm c \<le> length (?p # P) \<and>
      (\<forall>k<q_confirm c. shared ((?p # P) ! k) (q_ip c) (pair_of c))"
    using b(5)
  proof
    assume l: "b = cs ! k \<and> pair_of b = {mi, mj}"
    have "pair_of c = pair_of b"
      using l by (cases "q_armed b") (auto simp: b(2) pair_of_def note_conflict_def Let_def)
    with l c0 b(2,3) have "q_confirm b \<le> 3" "q_confirm b \<le> length P" "q_ip c = q_ip b"
      "\<forall>k<q_confirm b. shared (P ! k) (q_ip c) (pair_of c)"
      by (simp_all add: justified_def)
    then show ?thesis using now b(2) by (auto simp: nth_Cons split: nat.splits)
  next
    assume "\<not> q_used (cs ! k) \<and> b = zero_conflict\<lparr>q_used := True, q_ip := ip\<rparr>"
    then have "q_confirm c = 1" by (simp add: b(2) zero_conflict_def)
    then show ?thesis using now by simp
  qed
  have "q_mac c \<notin> set ex \<and>
      (\<exists>n. n + 2 < length (?p # P) \<and> later ((?p # P) ! n) (q_ip c) (q_mac c) (q_peer c) \<and>
        (\<forall>k\<le>2. shared ((?p # P) ! (n + k)) (q_ip c) (pair_of c)))" if armed: "q_armed ?a"
  proof (cases "q_armed c")
    case True
    then have "q_armed b" using b(2) by simp
    then have "b = cs ! k" using b(5) by (auto simp: zero_conflict_def)
    moreover have "q_mac c = q_mac b" "q_peer c = q_peer b" "q_ip c = q_ip b" "pair_of c = pair_of b"
      using \<open>q_armed b\<close> by (simp_all add: b(2) pair_of_def)
    ultimately show ?thesis
      using c0 b(3) \<open>q_armed b\<close> unfolding justified_def by (metis add_Suc length_Cons not_less_eq nth_Cons_Suc)
  next
    case False
    then have arm: "q_confirm c \<ge> 3" "both_confirmed now t c" "q_mac c \<notin> set ex"
      using armed used by (auto simp: age_conflict_def mac_is_exempt_locked_def list_ex_iff Let_def split: if_splits)
    have "\<not> q_armed b" using False b(2) by simp
    from note_conflict_order [OF this neq] have "later ?p (q_ip c) (q_mac c) (q_peer c)"
      unfolding b(2) by (intro later_if_confirmed arm(2) [unfolded b(2)])
    moreover have "2 < length (?p # P)" "\<forall>k\<le>2. shared ((?p # P) ! (0 + k)) (q_ip c) (pair_of c)"
      using recent arm(1) by auto
    ultimately show ?thesis using arm(3) by (intro conjI exI [of _ 0]) simp_all
  qed
  then show ?thesis
    using recent now miss unfolding justified_def frame pa by simp
qed

definition enforced_macs :: "quarantine \<Rightarrow> mac list" where
  "enforced_macs q = (if s_q_enforce q then armed_macs (s_conflicts q) else [])"

definition table_ok :: "quarantine \<Rightarrow> bool" where
  "table_ok q \<longleftrightarrow>
     length (s_q (q_table q)) = QUARANTINE_MAX \<and> even (unat (s_q_gen (q_table q))) \<and>
     (\<forall>m. mac_is_quarantined (\<lambda>_. q_table q) m \<longleftrightarrow> m \<in> set (enforced_macs q))"

definition q_ok :: "q_pass list \<Rightarrow> quarantine \<Rightarrow> bool" where
  "q_ok P q \<longleftrightarrow>
     length (s_conflicts q) = QUARANTINE_MAX \<and> (\<forall>k<QUARANTINE_MAX. justified P (s_q_exempt q) (s_conflicts q ! k)) \<and>
     table_ok q"

lemma length_armed_macs: "length cs \<le> 4 \<Longrightarrow> take 4 (armed_macs cs) = armed_macs cs"
  by (simp add: armed_macs_def le_trans [OF length_filter_le])

lemma table_ok_publish:
  assumes "table_ok q" "q_table q' = quarantine_publish (enforced_macs q') (q_table q)" "length (s_conflicts q') = 4"
  shows "table_ok q'"
proof -
  have "take 4 (enforced_macs q') = enforced_macs q'"
    using assms(3) length_armed_macs by (simp add: enforced_macs_def)
  then show ?thesis
    using assms(1,2) publish_enforced [of "q_table q" "enforced_macs q'"] by (simp add: table_ok_def)
qed

lemma justified_unarmed:
  "justified P ex c \<Longrightarrow> justified P ex' (c\<lparr>q_armed := False\<rparr>)"
  by (simp add: justified_def pair_of_def)

lemma rebuild_conflicts:
  assumes ok: "q_ok P q" and d: "distinct (map i_mac leases)"
  shows "let q' = snd (quarantine_rebuild now leases t q) in
    length (s_conflicts q') = 4 \<and> (\<forall>k<4. justified ((now, leases, t) # P) (s_q_exempt q') (s_conflicts q' ! k))"
proof -
  obtain cs seen where f: "fold (note_pair t) (contested leases) (s_conflicts q, replicate 4 False) = (cs, seen)"
    by fastforce
  have l: "length (s_conflicts q) = 4" using ok by (simp add: q_ok_def)
  note np = note_pairs [OF distinct_contested [OF d] l f]
  have "justified ((now, leases, t) # P) (s_q_exempt q) (age_conflict now t (s_q_exempt q) (seen ! k) (cs ! k))"
    if k: "k < 4" for k
  proof -
    have j: "justified P (s_q_exempt q) (s_conflicts q ! k)" using ok k by (simp add: q_ok_def)
    show ?thesis
      using np k age_seen [OF j _ d, of t "cs ! k" now] age_unseen [OF j, of "(now, leases, t)" now t]
      by (cases "seen ! k") auto
  qed
  then show ?thesis using np by (simp add: quarantine_rebuild_def f Let_def)
qed

lemma q_apply_ok:
  assumes ok: "q_ok P q" and d: "\<And>now leases t. ev = Rebuild (now, leases, t) \<Longrightarrow> distinct (map i_mac leases)"
  shows "q_ok (q_pass_of ev @ P) (q_apply ev q)"
proof (cases ev)
  case (Rebuild p)
  obtain now leases t where p: "p = (now, leases, t)" by (cases p)
  let ?q = "snd (quarantine_rebuild now leases t q)"
  have c: "length (s_conflicts ?q) = 4"
    "\<forall>k<4. justified (p # P) (s_q_exempt ?q) (s_conflicts ?q ! k)"
    using rebuild_conflicts [OF ok d [OF Rebuild [unfolded p]], of now t] by (simp_all add: Let_def p)
  have "q_table ?q = quarantine_publish (enforced_macs ?q) (q_table q)"
    by (simp add: quarantine_rebuild_def enforced_macs_def Let_def split_beta)
  from table_ok_publish [OF _ this c(1)] ok have "table_ok ?q" by (simp add: q_ok_def)
  with c show ?thesis by (simp add: q_ok_def Rebuild p)
next
  case (Clear arg)
  show ?thesis
  proof (cases arg)
    case None
    have "justified P [] c" if "justified P ex c" for ex c using that by (simp add: justified_def)
    then show ?thesis using ok unfolding Clear None
      by (simp add: q_ok_def client_track_quarantine_clear_def table_ok_def enforced_macs_def) blast
  next
    case (Some m)
    let ?cs = "map (\<lambda>c. if q_used c \<and> q_armed c \<and> q_mac c = m then c\<lparr>q_armed := False\<rparr> else c) (s_conflicts q)"
    have j: "justified P (s_q_exempt q @ [m]) (if q_used c \<and> q_armed c \<and> q_mac c = m then c\<lparr>q_armed := False\<rparr> else c)"
      if "justified P (s_q_exempt q) c" for c
    proof (cases "q_used c \<and> q_armed c \<and> q_mac c = m")
      case True
      then show ?thesis using justified_unarmed [OF that, of "s_q_exempt q @ [m]"] by simp
    next
      case False
      then show ?thesis using that by (auto simp: justified_def)
    qed
    show ?thesis
    proof (cases "\<not> mac_is_exempt_locked (s_q_exempt q) m \<and> length (s_q_exempt q) < 4")
      case True
      let ?q = "q_apply ev q"
      have q: "?q = q\<lparr>s_q_exempt := s_q_exempt q @ [m], s_conflicts := ?cs,
          q_table := quarantine_publish (if s_q_enforce q then armed_macs ?cs else []) (q_table q)\<rparr>"
        using True by (simp add: Clear Some client_track_quarantine_clear_def Let_def)
      have "table_ok ?q"
        by (rule table_ok_publish [of q]) (use ok in \<open>simp_all add: q q_ok_def enforced_macs_def\<close>)
      then show ?thesis using ok j unfolding q_ok_def q by (simp add: Clear)
    next
      case False
      then have "q_apply ev q = q" by (auto simp: Clear Some client_track_quarantine_clear_def)
      then show ?thesis using ok by (simp add: Clear)
    qed
  qed
next
  case (Enforce on)
  let ?q = "q_apply ev q"
  have "table_ok ?q"
    by (rule table_ok_publish [of q])
      (use ok in \<open>simp_all add: Enforce q_ok_def enforced_macs_def client_track_quarantine_enforce_def Let_def\<close>)
  then show ?thesis
    using ok by (simp add: Enforce q_ok_def client_track_quarantine_enforce_def Let_def)
qed

lemma static_quarantine_ok: "q_ok [] static_quarantine"
proof -
  have "replicate 4 x ! k = x" if "k < 4" for x :: conflict and k using that by simp
  then show ?thesis
    by (simp add: q_ok_def static_quarantine_def justified_def zero_conflict_def table_ok_def enforced_macs_def
      armed_macs_def static_qtable_def mac_is_quarantined_def)
qed

lemma q_run_ok:
  assumes "\<forall>now leases t. Rebuild (now, leases, t) \<in> set evs \<longrightarrow> distinct (map i_mac leases)"
  shows "q_ok (passes evs) (fold q_apply evs static_quarantine)"
  using assms
proof (induction evs rule: rev_induct)
  case (snoc ev evs)
  have "\<forall>now leases t. Rebuild (now, leases, t) \<in> set evs \<longrightarrow> distinct (map i_mac leases)"
    using snoc.prems by (metis Un_iff set_append)
  note q_apply_ok [OF snoc.IH [OF this], of ev]
  then show ?case using snoc.prems by (simp add: passes_def)
qed (simp add: passes_def static_quarantine_ok)

text \<open>Who is dropped in a state that a run can reach, and why.\<close>

lemma cut_off_verdict:
  assumes ok: "q_ok P q" and hit: "mac_is_quarantined (\<lambda>_. q_table q) m"
  obtains c :: conflict and n where "s_q_enforce q" "m \<notin> set (s_q_exempt q)" "q_mac c = m" "n + 2 < length P" "n < length P"
    "later (P ! n) (q_ip c) m (q_peer c)" "\<forall>k\<le>2. shared (P ! (n + k)) (q_ip c) {m, q_peer c}"
    "q_miss c < 10" "q_miss c < length P" "shared (P ! q_miss c) (q_ip c) {m, q_peer c}"
proof -
  have m: "m \<in> set (enforced_macs q)" using ok hit by (simp add: q_ok_def table_ok_def)
  then have e: "s_q_enforce q" "m \<in> set (armed_macs (s_conflicts q))"
    by (simp_all add: enforced_macs_def split: if_splits)
  then obtain c where "c \<in> set (s_conflicts q)" and c: "q_used c" "q_armed c" "q_mac c = m"
    by (auto simp: armed_macs_def)
  then have j: "justified P (s_q_exempt q) c" using ok by (auto simp: q_ok_def in_set_conv_nth)
  have p: "pair_of c = {m, q_peer c}" using c(3) by (simp add: pair_of_def)
  from j c obtain n where "n + 2 < length P" "later (P ! n) (q_ip c) m (q_peer c)"
      "\<forall>k\<le>2. shared (P ! (n + k)) (q_ip c) {m, q_peer c}"
    and "m \<notin> set (s_q_exempt q)" "q_miss c < 10" "q_miss c < length P" "shared (P ! q_miss c) (q_ip c) {m, q_peer c}"
    unfolding justified_def p by blast
  then show thesis using that [OF e(1) _ c(3), of n] by simp
qed

text \<open>C9: After any run of one-second passes and console commands, the forwarding path drops exactly
  the clients of the armed conflicts, and only while enforcement is on. Each of them had three
  passes in a row in which the lease table had it and the same peer on one address, in the last
  of which both had been heard from and both had been seen on that address in their own traffic,
  the dropped one later; the conflict is one of the last ten passes' and the client is not
  pardoned.\<close>

theorem cut_off_justified:
  assumes "\<forall>now leases t. Rebuild (now, leases, t) \<in> set evs \<longrightarrow> distinct (map i_mac leases)"
    and "q = fold q_apply evs static_quarantine" "P = passes evs" "mac_is_quarantined (\<lambda>_. q_table q) m"
  shows "s_q_enforce q \<and> m \<notin> set (s_q_exempt q) \<and>
    (\<exists>ip w n k. n + 2 < length P \<and> later (P ! n) ip m w \<and> shared (P ! n) ip {m, w} \<and>
       shared (P ! (n + 1)) ip {m, w} \<and> shared (P ! (n + 2)) ip {m, w} \<and>
       k < 10 \<and> k < length P \<and> shared (P ! k) ip {m, w})"
proof -
  have "q_ok P q" using q_run_ok [OF assms(1)] by (simp add: assms(2,3))
  then obtain c :: conflict and n where c: "s_q_enforce q" "m \<notin> set (s_q_exempt q)" "q_mac c = m" "n + 2 < length P" "n < length P"
    "later (P ! n) (q_ip c) m (q_peer c)" "\<forall>k\<le>2. shared (P ! (n + k)) (q_ip c) {m, q_peer c}"
    "q_miss c < 10" "q_miss c < length P" "shared (P ! q_miss c) (q_ip c) {m, q_peer c}"
    by (rule cut_off_verdict [OF _ assms(4)])
  from c(7) have "shared (P ! (n + 0)) (q_ip c) {m, q_peer c}" "shared (P ! (n + 1)) (q_ip c) {m, q_peer c}"
    "shared (P ! (n + 2)) (q_ip c) {m, q_peer c}" by (simp_all only: le_numeral_extra(4) zero_le one_le_numeral order_refl)
  with c show ?thesis by (metis add.right_neutral)
qed

definition rivals_example :: "tracker" where
  "rivals_example =
     set_client (set_client static_tracker 0
       (zero_client\<lparr>c_active := True, c_mac := Mac 2 0 0 0 0 1, c_ip := ip4 192 168 5 9, c_last_seen_us := 900, c_ip_since_us := 100\<rparr>))
       1 (zero_client\<lparr>c_active := True, c_mac := Mac 2 0 0 0 0 2, c_ip := ip4 192 168 5 9, c_last_seen_us := 900, c_ip_since_us := 500\<rparr>)"

definition rivals_leases :: "dhcp_lease_info list" where
  "rivals_leases =
     map (\<lambda>m. \<lparr>i_mac = m, i_ip = 0, i_observed_ip = ip4 192 168 5 9, i_expires_in_s = 0, i_boots_since_seen = 0,
              i_stored = True, i_saved_ip = 0, i_saved_observed_ip = 0\<rparr>) [Mac 2 0 0 0 0 2, Mac 2 0 0 0 0 1]"

lemma cut_off_justified_witness:
  "let evs = replicate 3 (Rebuild (1000, rivals_leases, rivals_example)); P = passes evs;
       q = fold q_apply evs static_quarantine; m = Mac 2 0 0 0 0 2
   in mac_is_quarantined (\<lambda>_. q_table q) m \<and> s_q_enforce q \<and> m \<notin> set (s_q_exempt q) \<and>
      (\<exists>ip w n k. n + 2 < length P \<and> later (P ! n) ip m w \<and> shared (P ! n) ip {m, w} \<and>
         shared (P ! (n + 1)) ip {m, w} \<and> shared (P ! (n + 2)) ip {m, w} \<and>
         k < 10 \<and> k < length P \<and> shared (P ! k) ip {m, w})"
proof -
  let ?evs = "replicate 3 (Rebuild (1000, rivals_leases, rivals_example))"
  let ?q = "fold q_apply ?evs static_quarantine"
  have hit: "mac_is_quarantined (\<lambda>_. q_table ?q) (Mac 2 0 0 0 0 2)" by code_simp
  have d: "\<forall>now leases t. Rebuild (now, leases, t) \<in> set ?evs \<longrightarrow> distinct (map i_mac leases)"
    by (simp add: rivals_leases_def)
  show ?thesis
    unfolding Let_def using hit cut_off_justified [OF d refl refl hit] by blast
qed

lemma age_unseen_once:
  assumes "q_used c" "q_miss c < 30"
  shows "q_used (age_conflict now t ex False c) \<longleftrightarrow> q_miss c + 1 < 30"
    and "q_armed (age_conflict now t ex False c) \<longleftrightarrow> q_armed c \<and> q_miss c + 1 < 10"
    and "q_miss (age_conflict now t ex False c) = q_miss c + 1"
  using assms by (auto simp: age_conflict_def Let_def)

lemma age_conflict_frame [simp]:
  "q_mac (age_conflict now t ex seen c) = q_mac c" "q_peer (age_conflict now t ex seen c) = q_peer c"
  "\<not> q_used c \<Longrightarrow> age_conflict now t ex seen c = c"
  by (simp_all add: age_conflict_def Let_def)

lemma age_unseen_run:
  assumes "q_used c" "q_armed c" "q_miss c = 0"
  shows "let c' = fold (\<lambda>now. age_conflict now t ex False) nows c; n = length nows in
    q_used c' = (n < 30) \<and> q_mac c' = q_mac c \<and> q_peer c' = q_peer c \<and>
    (n < 30 \<longrightarrow> q_miss c' = n) \<and> (n \<le> 30 \<longrightarrow> q_armed c' = (n < 10))"
proof (induction nows rule: rev_induct)
  case (snoc now nows)
  let ?c = "fold (\<lambda>now. age_conflict now t ex False) nows c"
  have IH: "q_used ?c = (length nows < 30)" "q_mac ?c = q_mac c" "q_peer ?c = q_peer c"
    "length nows < 30 \<Longrightarrow> q_miss ?c = length nows" "length nows \<le> 30 \<Longrightarrow> q_armed ?c = (length nows < 10)"
    using snoc.IH by (simp_all add: Let_def)
  show ?case
  proof (cases "length nows < 30")
    case True
    then have "q_used ?c" "q_miss ?c < 30" using IH by simp_all
    from age_unseen_once [OF this, of now t ex] True show ?thesis using IH by (simp add: Let_def) arith
  next
    case False
    then have "\<not> q_used ?c" using IH(1) by simp
    then show ?thesis using IH False by (simp add: Let_def)
  qed
qed (use assms in simp)

text \<open>The verdict is made once: a pass that finds an armed conflict again keeps who is cut off and who
  keeps the address, whatever the two clients' times have become; and when passes stop finding it,
  it stays armed through nine of them, is disarmed by the tenth and forgotten by the thirtieth.\<close>

theorem verdict_stands_until_gone:
  assumes "q_used c" "q_armed c" "q_miss c = 0"
  shows "let c' = age_conflict now t ex True (note_conflict t mi mj c);
      gone = (\<lambda>n. fold (\<lambda>now. age_conflict now t ex False) (replicate n now) c)
    in q_armed c' \<and> q_mac c' = q_mac c \<and> q_peer c' = q_peer c \<and>
       q_armed (gone 9) \<and> q_mac (gone 9) = q_mac c \<and>
       \<not> q_armed (gone 10) \<and> q_used (gone 29) \<and> \<not> q_armed (gone 29) \<and> \<not> q_used (gone 30)"
proof -
  have "q_armed (age_conflict now t ex True (note_conflict t mi mj c)) \<and>
      q_mac (age_conflict now t ex True (note_conflict t mi mj c)) = q_mac c \<and>
      q_peer (age_conflict now t ex True (note_conflict t mi mj c)) = q_peer c"
    using assms by (simp add: age_conflict_def)
  then show ?thesis
    using age_unseen_run [OF assms, of t ex "replicate 9 now"] age_unseen_run [OF assms, of t ex "replicate 10 now"]
      age_unseen_run [OF assms, of t ex "replicate 29 now"] age_unseen_run [OF assms, of t ex "replicate 30 now"]
    by (simp add: Let_def)
qed

lemma verdict_stands_until_gone_witness:
  "let c = zero_conflict\<lparr>q_used := True, q_mac := Mac 2 0 0 0 0 2, q_armed := True\<rparr>;
       gone = (\<lambda>n. fold (\<lambda>now. age_conflict now rivals_example [] False) (replicate n 7) c)
   in q_armed (gone 9) \<and> \<not> q_armed (gone 10) \<and> \<not> q_used (gone 30)"
  using verdict_stands_until_gone [of "zero_conflict\<lparr>q_used := True, q_mac := Mac 2 0 0 0 0 2, q_armed := True\<rparr>"
      7 rivals_example "[]"]
  by (simp add: zero_conflict_def Let_def)

end
