(* ===== verification/Router.thy ===== *)
theory Router
  imports Quarantine
begin

text \<open>
  The client table, the DHCP server and the quarantine as they run together in \<open>client_track.c\<close> and
  \<open>dhcp_server.c\<close>: frames and messages arrive, once a second \<open>client_track_tick\<close> compares what the server
  knows, and the console commands come in, each at any time.
\<close>

section \<open>The composition\<close>

record router =
  ro_tracker :: tracker
  ro_dhcp :: dhcp
  ro_quarantine :: quarantine

datatype router_event =
  Track int track_event
| Pass int
| Pardon "mac option"
| SetEnforce bool

definition booted_router :: "dhcp \<Rightarrow> router" where
  "booted_router d = \<lparr>ro_tracker = static_tracker, ro_dhcp = d, ro_quarantine = static_quarantine\<rparr>"

text \<open>\<open>Track\<close> has what the client table is told and every step of the server; \<open>Pass\<close> is the one-second pass.\<close>

inductive router_step :: "router_event \<Rightarrow> router \<Rightarrow> router \<Rightarrow> bool" where
  track: "track_step (now, ev) (ro_tracker s, ro_dhcp s) (t, d) \<Longrightarrow>
     router_step (Track now ev) s (s\<lparr>ro_tracker := t, ro_dhcp := d\<rparr>)"
| pass: "quarantine_pass now (ro_tracker s) (ro_quarantine s, ro_dhcp s) = (q, d) \<Longrightarrow>
     router_step (Pass now) s (s\<lparr>ro_quarantine := q, ro_dhcp := d\<rparr>)"
| pardon: "router_step (Pardon m) s (s\<lparr>ro_quarantine := snd (client_track_quarantine_clear m (ro_quarantine s))\<rparr>)"
| enforce: "router_step (SetEnforce on) s (s\<lparr>ro_quarantine := client_track_quarantine_enforce on (ro_quarantine s)\<rparr>)"

inductive router_run :: "dhcp \<Rightarrow> router_event list \<Rightarrow> router \<Rightarrow> bool" for d0 where
  boot: "router_run d0 [] (booted_router d0)"
| step: "router_run d0 evs s \<Longrightarrow> router_step ev s s' \<Longrightarrow> router_run d0 (evs @ [ev]) s'"

section \<open>What every run keeps\<close>

text \<open>\<open>own_frame evs m ip time\<close>: at that time a frame of the client's own carried the address.\<close>

definition own_frame :: "router_event list \<Rightarrow> mac \<Rightarrow> u32 \<Rightarrow> int \<Rightarrow> bool" where
  "own_frame evs m ip time \<longleftrightarrow> (\<exists>w b up. Track time (Account m w b up (Some ip)) \<in> set evs)"

definition sightings_real :: "router_event list \<Rightarrow> tracker \<Rightarrow> bool" where
  "sightings_real evs t \<longleftrightarrow> (\<forall>m ip since. sighting t m = Some (ip, since) \<longrightarrow> own_frame evs m ip since)"

definition pass_real :: "router_event list \<Rightarrow> q_pass \<Rightarrow> bool" where
  "pass_real evs = (\<lambda>(now, leases, t). distinct (map i_mac leases) \<and> sightings_real evs t)"

definition router_ok :: "router_event list \<Rightarrow> router \<Rightarrow> bool" where
  "router_ok evs s \<longleftrightarrow>
     tracker_ok (ro_tracker s) \<and> wf_dhcp (ro_dhcp s) \<and> ranges_ok (ro_dhcp s) \<and> sightings_real evs (ro_tracker s) \<and>
     (\<exists>P. q_ok P (ro_quarantine s) \<and> (\<forall>p\<in>set P. pass_real evs p))"

lemma sightings_real_mono: "sightings_real evs t \<Longrightarrow> sightings_real (evs @ evs') t"
  unfolding sightings_real_def own_frame_def by (metis Un_iff set_append)

lemma pass_real_mono: "pass_real evs p \<Longrightarrow> pass_real (evs @ evs') p"
  using sightings_real_mono by (simp add: pass_real_def split: prod.splits)

lemma server_steps_of_track:
  assumes "track_step (now, ev) (t, d) (t', d')"
  shows "dhcp_step\<^sup>*\<^sup>* d d'"
  using assms
proof (cases rule: track_step.cases)
  case (account m w b up ip)
  obtain slot t1 where f: "find_or_create_locked now m t = (slot, t1)" by fastforce
  have "d' = d \<or> (\<exists>k a. d' = dhcp_server_note_observed_ip now k a d)"
    using account(2) f by (cases slot; cases ip) (auto simp: account_traffic_def Let_def)
  then show ?thesis using dhcp_step.observed by blast
qed auto

lemma distinct_lease_macs:
  assumes "wf_dhcp d"
  shows "distinct (map i_mac (dhcp_server_get_leases now limit d))"
proof -
  let ?P = "\<lambda>e. \<not> (\<not> l_in_use e \<or> (l_ip e = 0 \<and> l_observed_ip e = 0))"
  have "uniq_by l_in_use l_mac (s_leases d)" using assms by (simp add: wf_dhcp_def)
  then have "uniq_by (\<lambda>_. True) l_mac (filter ?P (s_leases d))"
    by (rule uniq_by_filter [rotated]) simp
  then have "distinct (map l_mac (filter ?P (s_leases d)))" by (simp add: uniq_by_code)
  then have "distinct (take limit (map l_mac (filter ?P (s_leases d))))" by (rule distinct_take)
  then have "distinct (map l_mac (take limit (filter ?P (s_leases d))))" by (simp only: take_map)
  moreover have "map i_mac (map (lease_info now d) es) = map l_mac es" for es
    by (induction es) (simp_all add: lease_info_def Let_def)
  ultimately show ?thesis by (simp add: dhcp_server_get_leases_def del: map_map)
qed

lemma router_step_ok:
  assumes ok: "router_ok evs s" and st: "router_step ev s s'"
  shows "router_ok (evs @ [ev]) s'"
proof -
  obtain P where P: "q_ok P (ro_quarantine s)" "\<forall>p\<in>set P. pass_real evs p" using ok by (auto simp: router_ok_def)
  have P': "\<forall>p\<in>set P. pass_real (evs @ [ev]) p" using P(2) pass_real_mono by blast
  have keep: "tracker_ok (ro_tracker s)" "wf_dhcp (ro_dhcp s)" "ranges_ok (ro_dhcp s)"
    "sightings_real (evs @ [ev]) (ro_tracker s)"
    using ok sightings_real_mono by (simp_all add: router_ok_def)
  have q_event: "\<exists>P. q_ok P (q_apply e (ro_quarantine s)) \<and> (\<forall>p\<in>set P. pass_real (evs @ [ev]) p)"
    if "\<And>p. e = Rebuild p \<Longrightarrow> pass_real (evs @ [ev]) p" for e
  proof -
    have d: "\<And>now leases t. e = Rebuild (now, leases, t) \<Longrightarrow> distinct (map i_mac leases)"
      using that by (simp add: pass_real_def)
    have "q_ok (q_pass_of e @ P) (q_apply e (ro_quarantine s))" by (rule q_apply_ok [OF P(1) d])
    moreover have "\<forall>p\<in>set (q_pass_of e @ P). pass_real (evs @ [ev]) p" using P' that by (cases e) auto
    ultimately show ?thesis by blast
  qed
  from st show ?thesis
  proof cases
    case (track now e t d)
    note step = track(3)
    have "sightings_real (evs @ [ev]) t"
      unfolding sightings_real_def
    proof (intro allI impI)
      fix m ip since assume "sighting t m = Some (ip, since)"
      with track_step_effect [OF step keep(1), of m ip since]
      consider "sighting (ro_tracker s) m = Some (ip, since)" | "since = now" "\<exists>w b up. e = Account m w b up (Some ip)"
        by blast
      then show "own_frame (evs @ [ev]) m ip since"
      proof cases
        case 1
        then show ?thesis using keep(4) by (simp add: sightings_real_def)
      next
        case 2
        then show ?thesis using track(1) by (auto simp: own_frame_def)
      qed
    qed
    moreover have "tracker_ok t" using track_step_effect [OF step keep(1)] by blast
    moreover have "wf_dhcp d \<and> ranges_ok d"
      using server.inv_run [OF server_steps_of_track [OF step]] keep(2,3) by blast
    ultimately show ?thesis using P(1) P' track(2) unfolding router_ok_def by auto
  next
    case (pass now q d)
    let ?leases = "dhcp_server_get_leases now DHCP_SERVER_MAX_LEASES (ro_dhcp s)"
    let ?p = "(now, ?leases, ro_tracker s)"
    have r: "q = q_apply (Rebuild ?p) (ro_quarantine s)" "\<exists>macs. d = dhcp_server_set_quarantined now macs (ro_dhcp s)"
      using pass(3) by (auto simp: quarantine_pass_def Let_def split: prod.splits)
    have "dhcp_step\<^sup>*\<^sup>* (ro_dhcp s) d" using r(2) dhcp_step.quarantined by (metis r_into_rtranclp)
    then have wf: "wf_dhcp d \<and> ranges_ok d" using server.inv_run keep(2,3) by blast
    have "pass_real (evs @ [ev]) ?p" using distinct_lease_macs [OF keep(2)] keep(4) by (simp add: pass_real_def)
    then have "\<exists>P. q_ok P q \<and> (\<forall>p\<in>set P. pass_real (evs @ [ev]) p)" unfolding r(1) by (intro q_event) simp
    then show ?thesis using wf keep(1,4) pass(2) unfolding router_ok_def by simp
  next
    case (pardon m)
    then show ?thesis using q_event [of "Clear m"] keep unfolding router_ok_def by simp
  next
    case (enforce on)
    then show ?thesis using q_event [of "Enforce on"] keep unfolding router_ok_def by simp
  qed
qed

lemma router_run_ok:
  assumes "router_run d0 evs s" "wf_dhcp d0" "ranges_ok d0"
  shows "router_ok evs s"
  using assms(1)
proof induction
  case boot
  have "entry static_tracker m = None" for m
    by (simp add: entry_None static_tracker_def zero_client_def)
  then have "sighting static_tracker m = None" for m by (simp add: sighting_entry)
  then show ?case
    using assms(2,3) tracker_ok_static static_quarantine_ok
    by (auto simp: router_ok_def booted_router_def sightings_real_def intro!: exI [of _ "[]"])
next
  case (step evs s ev s')
  then show ?case using router_step_ok by blast
qed

section \<open>Who is cut off\<close>

text \<open>C1: However frames, leases, DHCP traffic, passes and console commands follow each other, the
  forwarding path drops the frames of a client only if the client itself sent from an address that
  another client had sent from before it (or in the same microsecond, the higher hardware address
  losing), while enforcement is on and the client is not pardoned. What the DHCP server believes,
  and what anybody else sends in either's name at the ARP level, cuts nobody off.\<close>

theorem cut_off_only_for_own_frames:
  assumes "router_run d0 evs s" "wf_dhcp d0" "ranges_ok d0"
    and "mac_is_quarantined (\<lambda>_. q_table (ro_quarantine s)) m"
  shows "s_q_enforce (ro_quarantine s) \<and> m \<notin> set (s_q_exempt (ro_quarantine s)) \<and>
    (\<exists>ip w tm tw. w \<noteq> m \<and> own_frame evs m ip tm \<and> own_frame evs w ip tw \<and> (tw < tm \<or> tw = tm \<and> w < m))"
proof -
  obtain P where P: "q_ok P (ro_quarantine s)" "\<forall>p\<in>set P. pass_real evs p"
    using router_run_ok [OF assms(1-3)] by (auto simp: router_ok_def)
  obtain c :: conflict and n where c: "s_q_enforce (ro_quarantine s)" "m \<notin> set (s_q_exempt (ro_quarantine s))"
      "n < length P" "later (P ! n) (q_ip c) m (q_peer c)"
    by (rule cut_off_verdict [OF P(1) assms(4)])
  obtain now leases t where p: "P ! n = (now, leases, t)" by (cases "P ! n")
  have "\<exists>tm tw. sighting t m = Some (q_ip c, tm) \<and> sighting t (q_peer c) = Some (q_ip c, tw) \<and>
      (tw < tm \<or> tw = tm \<and> q_peer c < m)"
    using c(4) unfolding p later_def by (simp split: option.splits)
  then obtain tm tw where l: "sighting t m = Some (q_ip c, tm)" "sighting t (q_peer c) = Some (q_ip c, tw)"
      "tw < tm \<or> tw = tm \<and> q_peer c < m" by blast
  have "pass_real evs (P ! n)" using P(2) c(3) by simp
  then have "sightings_real evs t" by (simp add: p pass_real_def)
  then have "own_frame evs m (q_ip c) tm" "own_frame evs (q_peer c) (q_ip c) tw"
    using l(1,2) by (simp_all add: sightings_real_def)
  moreover have "q_peer c \<noteq> m" using l by auto
  ultimately show ?thesis using c(1,2) l(3) by blast
qed

text \<open>Two clients send from one address, then three passes go by.\<close>

definition heard :: "int \<Rightarrow> mac \<Rightarrow> u32 \<Rightarrow> router \<Rightarrow> router" where
  "heard now m ip s =
     (let (t, d) = account_traffic now m True 60 True (Some ip) (ro_tracker s, ro_dhcp s)
      in s\<lparr>ro_tracker := t, ro_dhcp := d\<rparr>)"

definition passed :: "int \<Rightarrow> router \<Rightarrow> router" where
  "passed now s =
     (let (q, d) = quarantine_pass now (ro_tracker s) (ro_quarantine s, ro_dhcp s)
      in s\<lparr>ro_quarantine := q, ro_dhcp := d\<rparr>)"

lemma heard_step: "router_step (Track now (Account m True 60 True (Some ip))) s (heard now m ip s)"
proof -
  obtain t d where td: "account_traffic now m True 60 True (Some ip) (ro_tracker s, ro_dhcp s) = (t, d)" by fastforce
  then have "track_step (now, Account m True 60 True (Some ip)) (ro_tracker s, ro_dhcp s) (t, d)"
    by (metis track_step.account)
  then show ?thesis using router_step.track td by (simp add: heard_def)
qed

lemma passed_step: "router_step (Pass now) s (passed now s)"
proof -
  obtain q d where qd: "quarantine_pass now (ro_tracker s) (ro_quarantine s, ro_dhcp s) = (q, d)" by fastforce
  then show ?thesis using router_step.pass by (simp add: passed_def)
qed

definition rivals_run :: "router_event list" where
  "rivals_run =
     [Track 100 (Account (Mac 2 0 0 0 0 1) True 60 True (Some (ip4 192 168 5 9))),
      Track 500 (Account (Mac 2 0 0 0 0 2) True 60 True (Some (ip4 192 168 5 9))), Pass 900, Pass 901, Pass 902]"

definition rivals_end :: router where
  "rivals_end =
     passed 902 (passed 901 (passed 900 (heard 500 (Mac 2 0 0 0 0 2) (ip4 192 168 5 9)
       (heard 100 (Mac 2 0 0 0 0 1) (ip4 192 168 5 9) (booted_router lan_dhcp)))))"

lemma rivals_router_run: "router_run lan_dhcp rivals_run rivals_end"
  unfolding rivals_run_def rivals_end_def
  using router_run.step [OF router_run.step [OF router_run.step [OF router_run.step [OF router_run.step [OF
    router_run.boot heard_step] heard_step] passed_step] passed_step] passed_step] by simp

lemma cut_off_only_for_own_frames_witness:
  "mac_is_quarantined (\<lambda>_. q_table (ro_quarantine rivals_end)) (Mac 2 0 0 0 0 2) \<and>
   (\<exists>ip w tm tw. w \<noteq> Mac 2 0 0 0 0 2 \<and> own_frame rivals_run (Mac 2 0 0 0 0 2) ip tm \<and>
      own_frame rivals_run w ip tw \<and> (tw < tm \<or> tw = tm \<and> w < Mac 2 0 0 0 0 2))"
proof -
  have hit: "mac_is_quarantined (\<lambda>_. q_table (ro_quarantine rivals_end)) (Mac 2 0 0 0 0 2)" by code_simp
  have "ranges_ok lan_dhcp" by code_simp
  then show ?thesis
    using hit cut_off_only_for_own_frames [OF rivals_router_run wf_lan_dhcp _ hit] by blast
qed

end
