(* ===== verification/CStrings.thy ===== *)
theory CStrings
  imports Prelude "HOL-Library.Char_ord"
begin

text \<open>
  C strings and the number conversions of the C library that the program uses. A string is the list
  of its characters before the NUL; \<open>unsigned long\<close> is 32 bits.
\<close>

section \<open>Numbers in text\<close>

definition digit :: "char \<Rightarrow> bool" where
  "digit c \<longleftrightarrow> 48 \<le> (of_char c :: nat) \<and> (of_char c :: nat) \<le> 57"

text \<open>The C library's \<open>strtoul\<close> in base 10 where it starts on a digit: 32 bits, saturating.\<close>

definition digits_value :: "string \<Rightarrow> nat" where
  "digits_value ds = foldl (\<lambda>v c. 10 * v + (of_char c - 48)) 0 ds"

definition strtoul10 :: "string \<Rightarrow> nat \<times> string" where
  "strtoul10 p = (min (digits_value (takeWhile digit p)) 0xFFFFFFFF, dropWhile digit p)"

text \<open>
  \<open>strtoul\<close> anywhere: white space and a sign are skipped, a minus negates the value unless it
  overflowed, and a text without a number is left where it was.
\<close>

definition space :: "char \<Rightarrow> bool" where
  "space c \<longleftrightarrow> c = CHR '' '' \<or> (9 \<le> (of_char c :: nat) \<and> (of_char c :: nat) \<le> 13)"

definition strtoul :: "string \<Rightarrow> u32 \<times> string" where
  "strtoul s =
     (let p = dropWhile space s;
          neg = (p \<noteq> [] \<and> hd p = CHR ''-'');
          p = (if p \<noteq> [] \<and> (hd p = CHR ''-'' \<or> hd p = CHR ''+'') then tl p else p)
      in if p = [] \<or> \<not> digit (hd p) then (0, s)
         else let (v, e) = strtoul10 p
           in (if neg \<and> digits_value (takeWhile digit p) \<le> 0xFFFFFFFF then - of_nat v else of_nat v, e))"

text \<open>\<open>snprintf\<close>'s \<open>%u\<close>.\<close>

fun decimal :: "nat \<Rightarrow> string" where
  "decimal n = (if n < 10 then [char_of (48 + n)] else decimal (n div 10) @ [char_of (48 + n mod 10)])"

declare decimal.simps [simp del]

text \<open>\<open>strcasecmp\<close>, and \<open>strncasecmp\<close> over the length of its second argument, as equalities.\<close>

definition tolower :: "char \<Rightarrow> char" where
  "tolower c = (if 65 \<le> (of_char c :: nat) \<and> (of_char c :: nat) \<le> 90 then char_of (of_char c + 32 :: nat) else c)"

definition strcaseeq :: "string \<Rightarrow> string \<Rightarrow> bool" where
  "strcaseeq s t \<longleftrightarrow> map tolower s = map tolower t"

definition strncaseprefix :: "string \<Rightarrow> string \<Rightarrow> bool" where
  "strncaseprefix s t \<longleftrightarrow> map tolower (take (length t) s) = map tolower t"

text \<open>The C string at the start of a buffer.\<close>

definition cstr :: "string \<Rightarrow> string" where
  "cstr buf = takeWhile (\<lambda>c. c \<noteq> CHR 0x00) buf"

text \<open>\<open>strchr\<close> and \<open>strstr\<close>: the rest of the string from the first match on.\<close>

fun strchr :: "string \<Rightarrow> char \<Rightarrow> string option" where
  "strchr [] c = None"
| "strchr (x # xs) c = (if x = c then Some (x # xs) else strchr xs c)"

fun strstr :: "string \<Rightarrow> string \<Rightarrow> string option" where
  "strstr s t =
     (if take (length t) s = t then Some s else (case s of [] \<Rightarrow> None | _ # s' \<Rightarrow> strstr s' t))"

declare strstr.simps [simp del]

text \<open>\<open>strtol\<close> in base 10, \<open>long\<close> being 32 bits: the value, clamped, and the rest of the text.\<close>

definition strtol10 :: "string \<Rightarrow> int \<times> string" where
  "strtol10 s =
     (let p = dropWhile space s;
          neg = (p \<noteq> [] \<and> hd p = CHR ''-'');
          p = (if p \<noteq> [] \<and> (hd p = CHR ''-'' \<or> hd p = CHR ''+'') then tl p else p)
      in if p = [] \<or> \<not> digit (hd p) then (0, s)
         else let v = int (digits_value (takeWhile digit p))
           in (if neg then max (- v) (- (2 ^ 31)) else min v (2 ^ 31 - 1), dropWhile digit p))"

text \<open>\<open>strlcpy\<close>.\<close>

definition strlcpy :: "string \<Rightarrow> nat \<Rightarrow> string" where
  "strlcpy s sz = take (sz - 1) s"

section \<open>Facts\<close>

lemma strcaseeq_refl [simp]: "strcaseeq s s"
  by (simp add: strcaseeq_def)

lemma length_strtoul10: "p \<noteq> [] \<Longrightarrow> digit (hd p) \<Longrightarrow> length (snd (strtoul10 p)) < length p"
  by (cases p) (simp_all add: strtoul10_def length_dropWhile_le less_Suc_eq_le)

lemma digit_char: "n < 10 \<Longrightarrow> digit (char_of (48 + n :: nat))"
  by (simp add: digit_def take_bit_nat_eq_self)

lemma decimal_digits: "list_all digit (decimal n) \<and> decimal n \<noteq> []"
proof (induction n rule: decimal.induct)
  case (1 n)
  then show ?case by (subst (1 2) decimal.simps) (simp add: digit_char)
qed

lemma digits_value_snoc: "digits_value (ds @ [c]) = 10 * digits_value ds + (of_char c - 48)"
  by (simp add: digits_value_def)

lemma digits_value_decimal: "digits_value (decimal n) = n"
proof (induction n rule: decimal.induct)
  case (1 n)
  show ?case
  proof (cases "n < 10")
    case True
    then show ?thesis by (simp add: decimal.simps [of n] digits_value_def)
  next
    case False
    have "digits_value (decimal n) = 10 * digits_value (decimal (n div 10)) + n mod 10"
      by (subst decimal.simps) (simp add: False digits_value_snoc)
    then show ?thesis using 1 [OF False] by simp
  qed
qed

lemma strtoul10_decimal:
  assumes "n < 2 ^ 32" "q = [] \<or> \<not> digit (hd q)"
  shows "strtoul10 (decimal n @ q) = (n, q)"
proof -
  have d: "\<forall>c\<in>set (decimal n). digit c" using decimal_digits [of n] by (simp add: list_all_iff)
  have "takeWhile digit (decimal n @ q) = decimal n" "dropWhile digit (decimal n @ q) = q"
    using d assms(2) by (cases q; simp add: takeWhile_append2 dropWhile_append2)+
  then show ?thesis using assms(1) by (simp add: strtoul10_def digits_value_decimal)
qed

lemma hd_decimal [simp]: "digit (hd (decimal n @ q))" "digit (hd (decimal n))" "decimal n \<noteq> []"
  using decimal_digits [of n] by (auto simp: list_all_iff hd_append)

lemma length_decimal: "n < 10 ^ k \<Longrightarrow> 0 < k \<Longrightarrow> length (decimal n) \<le> k"
proof (induction k arbitrary: n)
  case (Suc k)
  show ?case
  proof (cases "n < 10")
    case True
    then show ?thesis by (simp add: decimal.simps [of n])
  next
    case False
    then have k: "0 < k" using Suc.prems(1) by (cases k) auto
    moreover have "n div 10 < 10 ^ k" using Suc.prems(1) by (simp add: less_mult_imp_div_less mult.commute)
    ultimately have "length (decimal (n div 10)) \<le> k" by (rule Suc.IH [rotated])
    then show ?thesis using False by (simp add: decimal.simps [of n])
  qed
qed simp

lemma digit_plain: "digit c \<Longrightarrow> \<not> space c \<and> c \<noteq> CHR ''-'' \<and> c \<noteq> CHR ''+''"
  by (auto simp: digit_def space_def)

lemma strtoul_decimal:
  assumes "n < 2 ^ 32" "q = [] \<or> \<not> digit (hd q)"
  shows "strtoul (decimal n @ q) = (of_nat n, q)"
proof -
  have d: "digit (hd (decimal n @ q))" "decimal n @ q \<noteq> []" by simp_all
  then have "dropWhile space (decimal n @ q) = decimal n @ q"
    using digit_plain [OF d(1)] by (cases "decimal n @ q") simp_all
  then show ?thesis
    using d digit_plain [OF d(1)] strtoul10_decimal [OF assms] unfolding strtoul_def by (simp add: Let_def)
qed

lemma cstr_id [simp]: "CHR 0x00 \<notin> set s \<Longrightarrow> cstr s = s"
  by (auto simp: cstr_def takeWhile_eq_all_conv)

lemma nul_cstr [simp]: "CHR 0x00 \<notin> set (cstr s)"
  by (auto simp: cstr_def dest: set_takeWhileD)

lemma strchr_split: "strchr s c = Some t \<longleftrightarrow> (\<exists>a b. s = a @ c # b \<and> c \<notin> set a \<and> t = c # b)"
proof (induction s)
  case (Cons x s)
  show ?case
  proof (cases "x = c")
    case True
    then show ?thesis by (auto simp: Cons_eq_append_conv)
  next
    case False
    then show ?thesis using Cons by (auto simp: Cons_eq_append_conv)
  qed
qed simp

lemma strchr_none: "strchr s c = None \<longleftrightarrow> c \<notin> set s"
  by (induction s) simp_all

lemma strchr_append: "c \<notin> set a \<Longrightarrow> strchr (a @ b) c = strchr b c"
  by (induction a) auto

lemma strstr_at:
  assumes "\<forall>n < length a. take (length t) (drop n (a @ t @ b)) \<noteq> t"
  shows "strstr (a @ t @ b) t = Some (t @ b)"
  using assms
proof (induction a)
  case Nil
  then show ?case by (simp add: strstr.simps [of "t @ b"])
next
  case (Cons x a)
  have "take (length t) (x # a @ t @ b) \<noteq> t" using Cons.prems by (auto dest: spec [of _ 0])
  moreover have "\<forall>n < length a. take (length t) (drop n (a @ t @ b)) \<noteq> t"
    using Cons.prems by (auto dest: spec [of _ "Suc _"])
  ultimately show ?case using Cons.IH by (simp add: strstr.simps [of "x # a @ t @ b"])
qed

lemma strtol10_decimal:
  assumes "n < 2 ^ 31" "q = [] \<or> \<not> digit (hd q)"
  shows "strtol10 (decimal n @ q) = (int n, q)"
proof -
  have d: "digit (hd (decimal n @ q))" "decimal n @ q \<noteq> []" by simp_all
  have t: "takeWhile digit (decimal n @ q) = decimal n" "dropWhile digit (decimal n @ q) = q"
    using decimal_digits [of n] assms(2) by (cases q; simp add: list_all_iff takeWhile_append2 dropWhile_append2)+
  have "dropWhile space (decimal n @ q) = decimal n @ q"
    using digit_plain [OF d(1)] d(2) by (cases "decimal n @ q") simp_all
  then show ?thesis
    using d digit_plain [OF d(1)] t assms(1) unfolding strtol10_def by (simp add: Let_def digits_value_decimal)
qed

section \<open>Hexadecimal scanning\<close>

text \<open>\<open>scanf\<close>'s \<open>%x\<close> into an \<open>unsigned int\<close>: the value and the rest of the text.\<close>

definition xdigit :: "char \<Rightarrow> nat option" where
  "xdigit ch =
     (let c = of_char ch :: nat in
      if 48 \<le> c \<and> c \<le> 57 then Some (c - 48)
      else if 97 \<le> c \<and> c \<le> 102 then Some (c - 87)
      else if 65 \<le> c \<and> c \<le> 70 then Some (c - 55)
      else None)"

definition hex_number :: "string \<Rightarrow> nat" where
  "hex_number ds = foldl (\<lambda>v c. 16 * v + (case xdigit c of Some d \<Rightarrow> d | None \<Rightarrow> 0)) 0 ds"

definition scan_hex :: "string \<Rightarrow> (u32 \<times> string) option" where
  "scan_hex s =
     (let p = dropWhile space s;
          neg = (p \<noteq> [] \<and> hd p = CHR ''-'');
          p = (if p \<noteq> [] \<and> (hd p = CHR ''-'' \<or> hd p = CHR ''+'') then tl p else p);
          p = (if (take 2 p = ''0x'' \<or> take 2 p = ''0X'') \<and> length p > 2 \<and> xdigit (p ! 2) \<noteq> None
               then drop 2 p else p);
          ds = takeWhile (\<lambda>c. xdigit c \<noteq> None) p;
          v = of_nat (min (hex_number ds) 0xFFFFFFFF)
      in if ds = [] then None
         else Some (if neg \<and> hex_number ds \<le> 0xFFFFFFFF then - v else v, drop (length ds) p))"

text \<open>\<open>%x\<close> fields separated by colons.\<close>

fun scan_fields :: "nat \<Rightarrow> string \<Rightarrow> u32 list option" where
  "scan_fields 0 s = Some []"
| "scan_fields (Suc n) s =
     (case scan_hex s of
        None \<Rightarrow> None
      | Some (v, r) \<Rightarrow>
          if n = 0 then Some [v]
          else (case r of
                  c # q \<Rightarrow> if c = CHR '':'' then map_option ((#) v) (scan_fields n q) else None
                | [] \<Rightarrow> None))"

end
