(* ===== verification/Nvs.thy ===== *)
theory Nvs
  imports Prelude
begin

text \<open>
  What the stored settings use of ESP-IDF's NVS. Flash is, per namespace, the record of what its keys
  hold; an absent namespace is \<open>None\<close>, as is an absent key. What a call answers is an argument of the
  operation that makes it, 0 being \<open>ESP_OK\<close>.
\<close>

text \<open>\<open>nvs_get_str\<close> fails on a missing key and on a string that does not fit the buffer with its NUL.\<close>

definition nvs_str :: "nat \<Rightarrow> string option \<Rightarrow> string" where
  "nvs_str sz v = (case v of Some s \<Rightarrow> if length s < sz then s else '''' | None \<Rightarrow> '''')"

text \<open>
  A save makes its calls in order (open, the sets, commit) and stops at the first that fails:
  \<open>answers\<close> is what they would return.
\<close>

definition first_failure :: "int list \<Rightarrow> int" where
  "first_failure answers = (case filter (\<lambda>e. e \<noteq> 0) answers of [] \<Rightarrow> 0 | e # _ \<Rightarrow> e)"

lemma first_failure_none: "first_failure answers = 0 \<longleftrightarrow> list_all (\<lambda>e. e = 0) answers"
  by (induction answers) (simp_all add: first_failure_def)

end
