(* ===== verification/ResetLog.thy ===== *)
theory ResetLog
  imports CStrings Nvs
begin

text \<open>
  The reset history (\<open>main/reset_log.c\<close>): the ring of one record per boot, its form in flash in both
  versions, the counter block in RTC memory, and the uptime checkpoints in flash. A reset keeps flash; it
  keeps RTC memory only if the chip stayed powered; the static variables start over.
\<close>

section \<open>Data\<close>

datatype reset_intent =
  RESET_INTENT_UNKNOWN | RESET_INTENT_OTA | RESET_INTENT_WIFI_SAVE | RESET_INTENT_WAN_SAVE
| RESET_INTENT_CONSOLE | RESET_INTENT_FACTORY_RESET

primrec intent_code :: "reset_intent \<Rightarrow> nat" where
  "intent_code RESET_INTENT_UNKNOWN = 0"
| "intent_code RESET_INTENT_OTA = 1"
| "intent_code RESET_INTENT_WIFI_SAVE = 2"
| "intent_code RESET_INTENT_WAN_SAVE = 3"
| "intent_code RESET_INTENT_CONSOLE = 4"
| "intent_code RESET_INTENT_FACTORY_RESET = 5"

abbreviation RESET_LOG_MAX_RECORDS :: nat where "RESET_LOG_MAX_RECORDS \<equiv> 16"
abbreviation RESET_LOG_VERSION_MAX :: nat where "RESET_LOG_VERSION_MAX \<equiv> 24"
abbreviation RESET_LOG_PART_MAX :: nat where "RESET_LOG_PART_MAX \<equiv> 8"

definition RESET_LOG_F_PREV_STATE :: u8 where "RESET_LOG_F_PREV_STATE = 0x01"
definition RESET_LOG_F_REACHED_READY :: u8 where "RESET_LOG_F_REACHED_READY = 0x02"
definition RESET_LOG_F_OTA_PENDING :: u8 where "RESET_LOG_F_OTA_PENDING = 0x04"
definition RESET_LOG_F_ROLLBACK :: u8 where "RESET_LOG_F_ROLLBACK = 0x08"
definition RESET_LOG_F_PREV_UPTIME_MIN :: u8 where "RESET_LOG_F_PREV_UPTIME_MIN = 0x10"
definition RESET_LOG_F_RAIL_KNOWN :: u8 where "RESET_LOG_F_RAIL_KNOWN = 0x20"
definition RESET_LOG_F_RAIL_HELD :: u8 where "RESET_LOG_F_RAIL_HELD = 0x40"
definition RESET_LOG_F_BOOT_TIME :: u8 where "RESET_LOG_F_BOOT_TIME = 0x80"

lemmas flag_defs = RESET_LOG_F_PREV_STATE_def RESET_LOG_F_REACHED_READY_def RESET_LOG_F_OTA_PENDING_def
  RESET_LOG_F_ROLLBACK_def RESET_LOG_F_PREV_UPTIME_MIN_def RESET_LOG_F_RAIL_KNOWN_def
  RESET_LOG_F_RAIL_HELD_def RESET_LOG_F_BOOT_TIME_def

datatype reset_rail = RESET_RAIL_UNKNOWN | RESET_RAIL_HELD | RESET_RAIL_DROPPED

text \<open>\<open>version\<close> and \<open>part\<close> are the whole arrays; the time is a signed 64-bit number's bits.\<close>

record reset_entry =
  e_boot_seq :: u32
  e_prev_uptime_s :: u32
  e_boot_epoch :: u64
  e_reason :: u8
  e_intent :: u8
  e_flags :: u8
  e_version :: "u8 list"
  e_part :: "u8 list"

definition has_flag :: "reset_entry \<Rightarrow> u8 \<Rightarrow> bool" where
  "has_flag e f \<longleftrightarrow> e_flags e AND f \<noteq> 0"

definition set_flag :: "u8 \<Rightarrow> reset_entry \<Rightarrow> reset_entry" where
  "set_flag f e = e\<lparr>e_flags := e_flags e OR f\<rparr>"

record reset_rtc =
  r_magic :: u32
  r_uptime :: u32
  r_uptime_inv :: u32
  r_intent :: u32
  r_intent_inv :: u32
  r_ready :: u32
  r_ready_inv :: u32

record reset_nvs =
  n_ring :: "u8 list option"
  n_ckpt :: "u64 option"

text \<open>RTC memory, flash, then the static variables; \<open>g_ticking\<close> is the one-second timer.\<close>

record resets =
  g_rtc :: reset_rtc
  g_nvs :: "reset_nvs option"
  g_mutex :: bool
  g_ticking :: bool
  g_ring :: "reset_entry list"
  g_next_seq :: u32
  g_have_current :: bool
  g_ckpt_boot_seq :: u32
  g_ckpt_next :: nat

text \<open>A reset: \<open>rtc\<close> is what RTC memory holds after it.\<close>

definition reset_chip :: "reset_rtc \<Rightarrow> resets \<Rightarrow> resets" where
  "reset_chip rtc s =
     \<lparr>g_rtc = rtc, g_nvs = g_nvs s, g_mutex = False, g_ticking = False, g_ring = [], g_next_seq = 1,
      g_have_current = False, g_ckpt_boot_seq = 0, g_ckpt_next = 0\<rparr>"

section \<open>Names\<close>

datatype rst =
  ESP_RST_POWERON | ESP_RST_EXT | ESP_RST_SW | ESP_RST_PANIC | ESP_RST_INT_WDT | ESP_RST_TASK_WDT
| ESP_RST_WDT | ESP_RST_DEEPSLEEP | ESP_RST_BROWNOUT | ESP_RST_SDIO

text \<open>\<open>enum\<close> is the numbering of the library's enumeration.\<close>

definition reset_log_reason_name :: "(rst \<Rightarrow> u8) \<Rightarrow> u8 \<Rightarrow> string" where
  "reset_log_reason_name enum reason =
     (case filter (\<lambda>(r, _). enum r = reason)
        [(ESP_RST_POWERON, ''power-on''), (ESP_RST_EXT, ''external''), (ESP_RST_SW, ''software''),
         (ESP_RST_PANIC, ''panic''), (ESP_RST_INT_WDT, ''int-wdt''), (ESP_RST_TASK_WDT, ''task-wdt''),
         (ESP_RST_WDT, ''other-wdt''), (ESP_RST_DEEPSLEEP, ''deep-sleep''), (ESP_RST_BROWNOUT, ''brownout''),
         (ESP_RST_SDIO, ''sdio'')] of
        [] \<Rightarrow> ''unknown'' | (_, name) # _ \<Rightarrow> name)"

definition reset_log_intent_name :: "u8 \<Rightarrow> string" where
  "reset_log_intent_name intent =
     (if intent = 1 then ''ota'' else if intent = 2 then ''wifi-save'' else if intent = 3 then ''wan-save''
      else if intent = 4 then ''console'' else if intent = 5 then ''factory-reset'' else ''unknown'')"

section \<open>Flash\<close>

abbreviation RESET_STORE_MAGIC :: u32 where "RESET_STORE_MAGIC \<equiv> 0x474C5352"
abbreviation RESET_STORE_VERSION :: u16 where "RESET_STORE_VERSION \<equiv> 2"
abbreviation STORED_HDR_LEN :: nat where "STORED_HDR_LEN \<equiv> 12"

definition STORED_REC_LEN :: "u16 \<Rightarrow> nat" where
  "STORED_REC_LEN ver = (if ver \<ge> 2 then 52 else 44)"

definition STORED_BLOB_MAX :: nat where
  "STORED_BLOB_MAX = STORED_HDR_LEN + RESET_LOG_MAX_RECORDS * 52"

definition bytes_of_u64 :: "u64 \<Rightarrow> u8 list" where
  "bytes_of_u64 w = bytes_of_u32 (ucast w) @ bytes_of_u32 (ucast (drop_bit 32 w))"

definition u64_at :: "u8 list \<Rightarrow> nat \<Rightarrow> u64" where
  "u64_at bs i = ucast (u32_at bs i) OR push_bit 32 (ucast (u32_at bs (i + 4)))"

definition stored_hdr :: "u16 \<Rightarrow> nat \<Rightarrow> u32 \<Rightarrow> u8 list" where
  "stored_hdr ver count next_seq =
     bytes_of_u32 RESET_STORE_MAGIC @ bytes_of_u16 ver @ bytes_of_u16 (of_nat count) @ bytes_of_u32 next_seq"

definition stored_rec_v1 :: "reset_entry \<Rightarrow> u8 list" where
  "stored_rec_v1 e =
     bytes_of_u32 (e_boot_seq e) @ bytes_of_u32 (e_prev_uptime_s e) @ [e_reason e, e_intent e, e_flags e, 0] @
     e_version e @ e_part e"

definition stored_rec :: "reset_entry \<Rightarrow> u8 list" where
  "stored_rec e = stored_rec_v1 e @ bytes_of_u64 (e_boot_epoch e)"

text \<open>\<open>answers\<close> are those of open, the blob's set, the checkpoint's set and the commit.\<close>

definition set_checkpoint :: "u32 \<Rightarrow> u32 \<Rightarrow> u64" where
  "set_checkpoint boot_seq uptime_s = push_bit 32 (ucast boot_seq) OR ucast uptime_s"

definition save_to_nvs :: "int list \<Rightarrow> reset_nvs option \<Rightarrow> bool \<Rightarrow> resets \<Rightarrow> resets" where
  "save_to_nvs answers torn seed s =
     (let blob = stored_hdr RESET_STORE_VERSION (length (g_ring s)) (g_next_seq s) @ concat (map stored_rec (g_ring s));
          old = (case g_nvs s of None \<Rightarrow> None | Some n \<Rightarrow> n_ckpt n)
      in if first_failure answers \<noteq> 0 then s\<lparr>g_nvs := torn\<rparr>
         else s\<lparr>g_nvs := Some \<lparr>n_ring = Some blob,
                  n_ckpt = if seed then Some (set_checkpoint (g_ckpt_boot_seq s) 0) else old\<rparr>\<rparr>)"

text \<open>The byte at the end of each array is forced to NUL.\<close>

definition load_entry :: "u16 \<Rightarrow> u8 list \<Rightarrow> reset_entry" where
  "load_entry ver at =
     \<lparr>e_boot_seq = u32_at at 0, e_prev_uptime_s = u32_at at 4,
      e_boot_epoch = (if ver \<ge> 2 then u64_at at 44 else 0),
      e_reason = at ! 8, e_intent = at ! 9,
      e_flags = (if ver \<ge> 2 then at ! 10 else at ! 10 AND NOT RESET_LOG_F_BOOT_TIME),
      e_version = (take RESET_LOG_VERSION_MAX (drop 12 at))[RESET_LOG_VERSION_MAX - 1 := 0],
      e_part = (take RESET_LOG_PART_MAX (drop 36 at))[RESET_LOG_PART_MAX - 1 := 0]\<rparr>"

definition load_resets_from_nvs :: "resets \<Rightarrow> resets" where
  "load_resets_from_nvs s =
     (case g_nvs s of
        None \<Rightarrow> s
      | Some n \<Rightarrow> (case n_ring n of
          None \<Rightarrow> s
        | Some buf \<Rightarrow>
            if length buf > STORED_BLOB_MAX then s
            else if length buf < STORED_HDR_LEN then s
            else let ver = u16_at buf 4; count = unat (u16_at buf 6); next_seq = u32_at buf 8 in
              if u32_at buf 0 \<noteq> RESET_STORE_MAGIC \<or> ver < 1 \<or> ver > RESET_STORE_VERSION then s
              else if count > RESET_LOG_MAX_RECORDS \<or> length buf < STORED_HDR_LEN + count * STORED_REC_LEN ver then s
              else s\<lparr>g_ring := map (\<lambda>i. load_entry ver (drop (STORED_HDR_LEN + i * STORED_REC_LEN ver) buf)) [0..<count],
                     g_next_seq := if next_seq \<noteq> 0 then next_seq else 1\<rparr>))"

section \<open>Checkpoints\<close>

abbreviation CKPT_M :: nat where "CKPT_M \<equiv> 60"
abbreviation CKPT_H :: nat where "CKPT_H \<equiv> 60 * CKPT_M"
abbreviation CKPT_D :: nat where "CKPT_D \<equiv> 24 * CKPT_H"
abbreviation CKPT_Y :: nat where "CKPT_Y \<equiv> 365 * CKPT_D"

definition k_ckpt_times :: "nat list" where
  "k_ckpt_times =
     [10, 20, 30, 40, 50,
      1 * CKPT_M, 2 * CKPT_M, 3 * CKPT_M, 4 * CKPT_M, 5 * CKPT_M,
      10 * CKPT_M, 15 * CKPT_M, 30 * CKPT_M, 45 * CKPT_M,
      1 * CKPT_H, 2 * CKPT_H, 3 * CKPT_H, 4 * CKPT_H,
      8 * CKPT_H, 12 * CKPT_H, 18 * CKPT_H,
      1 * CKPT_D, 2 * CKPT_D, 3 * CKPT_D, 4 * CKPT_D,
      8 * CKPT_D, 16 * CKPT_D, 32 * CKPT_D, 64 * CKPT_D,
      128 * CKPT_D, 256 * CKPT_D,
      1 * CKPT_Y]"

abbreviation CKPT_COUNT :: nat where "CKPT_COUNT \<equiv> length k_ckpt_times"

definition ceiling_for :: "u32 \<Rightarrow> nat" where
  "ceiling_for floor_s = (case filter (\<lambda>t. t > unat floor_s) k_ckpt_times of [] \<Rightarrow> 0 | t # _ \<Rightarrow> t)"

definition reset_log_uptime_ceiling :: "u32 \<Rightarrow> nat" where
  "reset_log_uptime_ceiling floor_s = ceiling_for floor_s"

definition load_checkpoint :: "u32 \<Rightarrow> resets \<Rightarrow> u32 option" where
  "load_checkpoint want_seq s =
     (case g_nvs s of
        None \<Rightarrow> None
      | Some n \<Rightarrow> (case n_ckpt n of
          None \<Rightarrow> None
        | Some packed \<Rightarrow>
            if (ucast (drop_bit 32 packed) :: u32) \<noteq> want_seq then None else Some (ucast packed)))"

definition save_checkpoint :: "int list \<Rightarrow> reset_nvs option \<Rightarrow> u32 \<Rightarrow> resets \<Rightarrow> resets" where
  "save_checkpoint answers torn uptime_s s =
     (let ring = (case g_nvs s of None \<Rightarrow> None | Some n \<Rightarrow> n_ring n) in
      if first_failure answers \<noteq> 0 then s\<lparr>g_nvs := torn\<rparr>
      else s\<lparr>g_nvs := Some \<lparr>n_ring = ring, n_ckpt = Some (set_checkpoint (g_ckpt_boot_seq s) uptime_s)\<rparr>\<rparr>)"

section \<open>RTC memory\<close>

abbreviation RESET_LOG_RTC_MAGIC :: u32 where "RESET_LOG_RTC_MAGIC \<equiv> 0x52534C31"

text \<open>Uptimes are \<open>esp_timer_get_time\<close>'s microseconds.\<close>

definition seconds :: "nat \<Rightarrow> u32" where
  "seconds us = of_nat (us div 1000000)"

definition set_uptime :: "u32 \<Rightarrow> reset_rtc \<Rightarrow> reset_rtc" where
  "set_uptime up r = r\<lparr>r_uptime := up, r_uptime_inv := NOT up\<rparr>"

definition tick_cb :: "nat \<Rightarrow> resets \<Rightarrow> resets" where
  "tick_cb us s = s\<lparr>g_rtc := set_uptime (seconds us) (g_rtc s)\<rparr>"

definition rtc_seed :: "reset_rtc \<Rightarrow> reset_rtc" where
  "rtc_seed r =
     \<lparr>r_magic = RESET_LOG_RTC_MAGIC, r_uptime = 0, r_uptime_inv = NOT 0, r_intent = 0, r_intent_inv = NOT 0,
      r_ready = 0, r_ready_inv = NOT 0\<rparr>"

definition rtc_consistent :: "reset_rtc \<Rightarrow> bool" where
  "rtc_consistent r \<longleftrightarrow>
     r_magic r = RESET_LOG_RTC_MAGIC \<and> r_uptime r = NOT (r_uptime_inv r) \<and>
     r_intent r = NOT (r_intent_inv r) \<and> r_ready r = NOT (r_ready_inv r)"

definition reset_log_note_intent :: "nat \<Rightarrow> reset_intent \<Rightarrow> resets \<Rightarrow> resets" where
  "reset_log_note_intent us intent s =
     (if r_magic (g_rtc s) \<noteq> RESET_LOG_RTC_MAGIC then s
      else let i = of_nat (intent_code intent) in
        s\<lparr>g_ticking := False,
          g_rtc := (set_uptime (seconds us) (g_rtc s))\<lparr>r_intent := i, r_intent_inv := NOT i\<rparr>\<rparr>)"

definition reset_log_note_ready :: "resets \<Rightarrow> resets" where
  "reset_log_note_ready s =
     (if r_magic (g_rtc s) \<noteq> RESET_LOG_RTC_MAGIC then s
      else s\<lparr>g_rtc := (g_rtc s)\<lparr>r_ready := 1, r_ready_inv := NOT 1\<rparr>\<rparr>)"

section \<open>Start-up\<close>

datatype ota_state = ESP_OTA_IMG_PENDING_VERIFY | ESP_OTA_IMG_ABORTED | OtherImage

text \<open>
  What the boot finds: the rail, the reset reason, the clock (if it may be believed) and the uptime when
  it was read, the image's version and the running partition's label, the state of that partition and of
  the other one where the library gives it, and the answers of the libraries.
\<close>

record boot_env =
  b_mutex :: bool
  b_rail :: reset_rail
  b_reason :: u8
  b_now :: "u64 option"
  b_up_us :: nat
  b_version :: "u8 list"
  b_running :: "(u8 list \<times> ota_state option) option"
  b_other :: "ota_state option"
  b_answers :: "int list"
  b_torn :: "reset_nvs option"
  b_timer_create :: int
  b_timer_start :: int

definition field_str :: "nat \<Rightarrow> u8 list \<Rightarrow> u8 list" where
  "field_str n s = take (n - 1) s @ replicate (n - length (take (n - 1) s)) 0"

definition c_string :: "u8 list \<Rightarrow> u8 list" where
  "c_string a = takeWhile (\<lambda>b. b \<noteq> 0) a"

definition prev_boot :: "reset_rtc \<Rightarrow> resets \<Rightarrow> reset_entry \<Rightarrow> reset_entry" where
  "prev_boot r s rec =
     (if rtc_consistent r then
        let rec = set_flag RESET_LOG_F_PREV_STATE rec\<lparr>e_prev_uptime_s := r_uptime r, e_intent := ucast (r_intent r)\<rparr>
        in if r_ready r \<noteq> 0 then set_flag RESET_LOG_F_REACHED_READY rec else rec
      else (case load_checkpoint (g_next_seq s - 1) s of
              None \<Rightarrow> rec
            | Some ckpt \<Rightarrow> (set_flag RESET_LOG_F_PREV_UPTIME_MIN rec)\<lparr>e_prev_uptime_s := ckpt\<rparr>))"

definition rail_flags :: "reset_rail \<Rightarrow> reset_entry \<Rightarrow> reset_entry" where
  "rail_flags rail rec =
     (if rail = RESET_RAIL_UNKNOWN then rec
      else let rec = set_flag RESET_LOG_F_RAIL_KNOWN rec in
        if rail = RESET_RAIL_HELD then set_flag RESET_LOG_F_RAIL_HELD rec else rec)"

definition image_flags :: "boot_env \<Rightarrow> reset_entry list \<Rightarrow> reset_entry \<Rightarrow> reset_entry" where
  "image_flags b ring rec =
     (case b_running b of
        None \<Rightarrow> rec
      | Some (label, st) \<Rightarrow>
          let rec = rec\<lparr>e_part := field_str RESET_LOG_PART_MAX label\<rparr>;
              rec = (if st = Some ESP_OTA_IMG_PENDING_VERIFY then set_flag RESET_LOG_F_OTA_PENDING rec else rec)
          in if ring \<noteq> [] \<and> b_other b = Some ESP_OTA_IMG_ABORTED \<and>
                has_flag (last ring) RESET_LOG_F_OTA_PENDING \<and> c_string (e_part (last ring)) \<noteq> label
             then set_flag RESET_LOG_F_ROLLBACK rec else rec)"

definition zero_entry :: reset_entry where
  "zero_entry =
     \<lparr>e_boot_seq = 0, e_prev_uptime_s = 0, e_boot_epoch = 0, e_reason = 0, e_intent = 0, e_flags = 0,
      e_version = replicate RESET_LOG_VERSION_MAX 0, e_part = replicate RESET_LOG_PART_MAX 0\<rparr>"

definition new_record :: "boot_env \<Rightarrow> reset_rtc \<Rightarrow> resets \<Rightarrow> reset_entry" where
  "new_record b r s =
     (let rec = zero_entry\<lparr>e_reason := b_reason b\<rparr>;
          rec = (case b_now b of
              None \<Rightarrow> rec
            | Some now \<Rightarrow> set_flag RESET_LOG_F_BOOT_TIME rec\<lparr>e_boot_epoch := now - of_nat (b_up_us b div 1000000)\<rparr>);
          rec = prev_boot r s rec;
          rec = rail_flags (b_rail b) rec;
          rec = rec\<lparr>e_version := field_str RESET_LOG_VERSION_MAX (b_version b)\<rparr>
      in image_flags b (g_ring s) rec)"

definition append_record :: "reset_entry \<Rightarrow> resets \<Rightarrow> resets" where
  "append_record rec s =
     (let rec = rec\<lparr>e_boot_seq := g_next_seq s\<rparr>;
          ring = (if length (g_ring s) = RESET_LOG_MAX_RECORDS then tl (g_ring s) else g_ring s)
      in s\<lparr>g_next_seq := g_next_seq s + 1, g_ckpt_boot_seq := e_boot_seq rec, g_ring := ring @ [rec],
           g_have_current := True\<rparr>)"

text \<open>\<open>ESP_ERR_NO_MEM\<close>.\<close>

abbreviation NO_MEM :: int where "NO_MEM \<equiv> 0x101"

definition reset_log_init :: "boot_env \<Rightarrow> resets \<Rightarrow> int \<times> resets" where
  "reset_log_init b s =
     (if \<not> b_mutex b then (NO_MEM, s)
      else let r = g_rtc s;
               s = load_resets_from_nvs (s\<lparr>g_mutex := True, g_rtc := rtc_seed r\<rparr>);
               s = append_record (new_record b r s) s;
               s = save_to_nvs (b_answers b) (b_torn b) True s
        in if b_timer_create b \<noteq> 0 then (b_timer_create b, s)
           else if b_timer_start b \<noteq> 0 then (b_timer_start b, s)
           else (0, s\<lparr>g_ticking := True\<rparr>))"

definition describe_for_log :: "(rst \<Rightarrow> u8) \<Rightarrow> reset_entry \<Rightarrow> string" where
  "describe_for_log enum e =
     reset_log_reason_name enum (e_reason e) @
     (if has_flag e RESET_LOG_F_PREV_STATE then
        '' after '' @ decimal (unat (e_prev_uptime_s e)) @ ''s'' @
        (if e_intent e \<noteq> 0 then '' ('' @ reset_log_intent_name (e_intent e) @ '')'' else '''')
      else if has_flag e RESET_LOG_F_PREV_UPTIME_MIN then
        (if e_prev_uptime_s e = 0 then '' in under '' @ decimal (ceiling_for 0) @ ''s''
         else '' after more than '' @ decimal (unat (e_prev_uptime_s e)) @ ''s'')
      else '', previous uptime unknown'')"

section \<open>At runtime\<close>

definition reset_log_checkpoint_tick :: "int list \<Rightarrow> reset_nvs option \<Rightarrow> nat \<Rightarrow> resets \<Rightarrow> resets" where
  "reset_log_checkpoint_tick answers torn us s =
     (let up = seconds us in
      if g_ckpt_boot_seq s = 0 then s
      else if g_ckpt_next s \<ge> CKPT_COUNT then s
      else if unat up < k_ckpt_times ! g_ckpt_next s then s
      else let passed = length (takeWhile (\<lambda>t. t \<le> unat up) (drop (g_ckpt_next s) k_ckpt_times))
        in save_checkpoint answers torn up (s\<lparr>g_ckpt_next := g_ckpt_next s + passed\<rparr>))"

definition reset_log_note_time :: "int list \<Rightarrow> reset_nvs option \<Rightarrow> u64 \<Rightarrow> resets \<Rightarrow> resets" where
  "reset_log_note_time answers torn boot_started_at s =
     (if \<not> g_mutex s then s
      else if g_have_current s \<and> g_ring s \<noteq> [] \<and> \<not> has_flag (last (g_ring s)) RESET_LOG_F_BOOT_TIME
      then let rec = set_flag RESET_LOG_F_BOOT_TIME (last (g_ring s))\<lparr>e_boot_epoch := boot_started_at\<rparr>
        in save_to_nvs answers torn False (s\<lparr>g_ring := butlast (g_ring s) @ [rec]\<rparr>)
      else s)"

definition reset_log_get :: "nat \<Rightarrow> resets \<Rightarrow> reset_entry list" where
  "reset_log_get limit s = (if \<not> g_mutex s then [] else take limit (rev (g_ring s)))"

definition reset_log_get_current :: "resets \<Rightarrow> reset_entry option" where
  "reset_log_get_current s =
     (if \<not> g_mutex s then None
      else if g_have_current s \<and> g_ring s \<noteq> [] then Some (last (g_ring s)) else None)"

section \<open>The blob\<close>

definition entry_wf :: "reset_entry \<Rightarrow> bool" where
  "entry_wf e \<longleftrightarrow>
     length (e_version e) = RESET_LOG_VERSION_MAX \<and> e_version e ! (RESET_LOG_VERSION_MAX - 1) = 0 \<and>
     length (e_part e) = RESET_LOG_PART_MAX \<and> e_part e ! (RESET_LOG_PART_MAX - 1) = 0"

definition ring_wf :: "resets \<Rightarrow> bool" where
  "ring_wf s \<longleftrightarrow> length (g_ring s) \<le> RESET_LOG_MAX_RECORDS \<and> list_all entry_wf (g_ring s) \<and> g_next_seq s \<noteq> 0"

lemma length_stored_rec: "entry_wf e \<Longrightarrow> length (stored_rec_v1 e) = 44 \<and> length (stored_rec e) = 52"
  by (simp add: stored_rec_def stored_rec_v1_def entry_wf_def bytes_of_u64_def)

lemma u64_parts: "u64_at (bytes_of_u64 w @ bs) 0 = w"
proof -
  have "u32_at (bytes_of_u64 w @ bs) 4 = ucast (drop_bit 32 w)" "u32_at (bytes_of_u64 w @ bs) 0 = ucast w"
    by (simp_all add: bytes_of_u64_def u32_at_drop [of 4])
  moreover have "ucast (ucast w :: u32) OR push_bit 32 (ucast (ucast (drop_bit 32 w) :: u32)) = w"
    by (rule bit_word_eqI) (auto simp: bit_or_iff bit_push_bit_iff bit_unsigned_iff bit_drop_bit_eq)
  ultimately show ?thesis by (simp add: u64_at_def)
qed

lemma u64_at_after: "length xs = i \<Longrightarrow> u64_at (xs @ ys) i = u64_at ys 0"
  by (simp add: u64_at_def u32_at_def nth_append numeral_2_eq_2)

lemma u32_at_after: "length xs = i \<Longrightarrow> u32_at (xs @ ys) i = u32_at ys 0"
  by (simp add: u32_at_def nth_append numeral_2_eq_2)

lemma not_two_le [simp]: "\<not> (2 :: u16) \<le> 1"
  by (simp add: word_le_nat_alt)

lemma fixed_part:
  assumes "entry_wf e"
  shows "u32_at (stored_rec_v1 e @ bs) 0 = e_boot_seq e" "u32_at (stored_rec_v1 e @ bs) 4 = e_prev_uptime_s e"
    "(stored_rec_v1 e @ bs) ! 8 = e_reason e" "(stored_rec_v1 e @ bs) ! 9 = e_intent e"
    "(stored_rec_v1 e @ bs) ! 10 = e_flags e"
    "take RESET_LOG_VERSION_MAX (drop 12 (stored_rec_v1 e @ bs)) = e_version e"
    "take RESET_LOG_PART_MAX (drop 36 (stored_rec_v1 e @ bs)) = e_part e"
proof -
  have v: "length (e_version e) = 24" "length (e_part e) = 8" using assms by (simp_all add: entry_wf_def)
  show "u32_at (stored_rec_v1 e @ bs) 0 = e_boot_seq e" by (simp add: stored_rec_v1_def)
  show "u32_at (stored_rec_v1 e @ bs) 4 = e_prev_uptime_s e" by (simp add: stored_rec_v1_def u32_at_after)
  show "(stored_rec_v1 e @ bs) ! 8 = e_reason e" "(stored_rec_v1 e @ bs) ! 9 = e_intent e"
    "(stored_rec_v1 e @ bs) ! 10 = e_flags e"
    by (simp_all add: stored_rec_v1_def nth_append)
  show "take RESET_LOG_VERSION_MAX (drop 12 (stored_rec_v1 e @ bs)) = e_version e"
    "take RESET_LOG_PART_MAX (drop 36 (stored_rec_v1 e @ bs)) = e_part e"
    using v by (simp_all add: stored_rec_v1_def)
qed

lemma terminated [simp]:
  "entry_wf e \<Longrightarrow> (e_version e)[RESET_LOG_VERSION_MAX - 1 := 0] = e_version e"
  "entry_wf e \<Longrightarrow> (e_part e)[RESET_LOG_PART_MAX - 1 := 0] = e_part e"
  by (metis entry_wf_def list_update_id)+

lemma load_stored:
  assumes "entry_wf e"
  shows "load_entry 2 (stored_rec e @ bs) = e"
proof -
  let ?r = "stored_rec_v1 e @ bytes_of_u64 (e_boot_epoch e) @ bs"
  have "stored_rec e @ bs = ?r" by (simp add: stored_rec_def)
  moreover have "u64_at ?r 44 = e_boot_epoch e"
    using u64_parts u64_at_after [of "stored_rec_v1 e" 44] length_stored_rec [OF assms] by simp
  moreover note fixed_part [OF assms, of "bytes_of_u64 (e_boot_epoch e) @ bs"]
  ultimately show ?thesis unfolding load_entry_def by (simp only: terminated [OF assms]) simp
qed

lemma load_stored_v1:
  assumes "entry_wf e"
  shows "load_entry 1 (stored_rec_v1 e @ bs) =
    e\<lparr>e_boot_epoch := 0, e_flags := e_flags e AND NOT RESET_LOG_F_BOOT_TIME\<rparr>"
  unfolding load_entry_def fixed_part [OF assms] terminated [OF assms] by simp

lemma drop_concat_uniform:
  "\<forall>x\<in>set xs. length x = m \<Longrightarrow> i < length xs \<Longrightarrow> drop (i * m) (concat xs) = xs ! i @ concat (drop (Suc i) xs)"
proof (induction xs arbitrary: i)
  case (Cons x xs)
  then show ?case by (cases i) simp_all
qed simp

lemma length_concat_uniform: "\<forall>x\<in>set xs. length x = m \<Longrightarrow> length (concat xs) = length xs * m"
  by (induction xs) simp_all

lemma load_ok:
  assumes "g_nvs s = Some n" "n_ring n = Some buf" "length buf \<le> STORED_BLOB_MAX" "STORED_HDR_LEN \<le> length buf"
    and "u32_at buf 0 = RESET_STORE_MAGIC" "u16_at buf 4 = ver" "1 \<le> ver" "ver \<le> RESET_STORE_VERSION"
    and "unat (u16_at buf 6) = count" "count \<le> RESET_LOG_MAX_RECORDS"
    and "STORED_HDR_LEN + count * STORED_REC_LEN ver \<le> length buf" "u32_at buf 8 = next_seq" "next_seq \<noteq> 0"
    and "map (\<lambda>i. load_entry ver (drop (STORED_HDR_LEN + i * STORED_REC_LEN ver) buf)) [0..<count] = ring"
  shows "load_resets_from_nvs s = s\<lparr>g_ring := ring, g_next_seq := next_seq\<rparr>"
proof -
  have "ver \<noteq> 0" using assms(7) by auto
  then show ?thesis using assms unfolding load_resets_from_nvs_def by (simp add: Let_def not_less)
qed

text \<open>Both formats, with what a record of each comes back as.\<close>

lemma blob_reads:
  assumes "ver = 1 \<and> f = stored_rec_v1 \<and> g = (\<lambda>e. e\<lparr>e_boot_epoch := 0, e_flags := e_flags e AND NOT RESET_LOG_F_BOOT_TIME\<rparr>)
      \<or> ver = 2 \<and> f = stored_rec \<and> g = (\<lambda>e. e)"
    and "length es \<le> RESET_LOG_MAX_RECORDS" "list_all entry_wf es" "next_seq \<noteq> 0"
    and "g_nvs s = Some n" "n_ring n = Some (stored_hdr ver (length es) next_seq @ concat (map f es))"
  shows "load_resets_from_nvs s = s\<lparr>g_ring := map g es, g_next_seq := next_seq\<rparr>"
proof -
  let ?h = "stored_hdr ver (length es) next_seq" and ?m = "STORED_REC_LEN ver"
  let ?b = "?h @ concat (map f es)"
  have h: "length ?h = 12" "u32_at ?b 0 = RESET_STORE_MAGIC" "u16_at ?b 4 = ver" "u16_at ?b 6 = of_nat (length es)"
      "u32_at ?b 8 = next_seq"
    by (simp_all add: stored_hdr_def u32_at_after u32_at_drop [of 8] u16_at_drop)
  have m: "\<forall>x\<in>set (map f es). length x = ?m"
    using assms(1,3) length_stored_rec by (auto simp: STORED_REC_LEN_def list_all_iff)
  have l: "length ?b = 12 + length es * ?m" using h(1) length_concat_uniform [OF m] by simp
  have v: "ver \<ge> 1" "ver \<le> RESET_STORE_VERSION" "?m \<le> 52" using assms(1) by (auto simp: STORED_REC_LEN_def)
  have c: "unat (of_nat (length es) :: u16) = length es" using assms(2) by (simp add: unat_of_nat)
  have "load_entry ver (drop (STORED_HDR_LEN + i * ?m) ?b) = g (es ! i)" if "i < length es" for i
  proof -
    have "drop (STORED_HDR_LEN + i * ?m) ?b = f (es ! i) @ concat (drop (Suc i) (map f es))"
      using h(1) drop_concat_uniform [OF m, of i] that by (simp add: add.commute)
    moreover have "entry_wf (es ! i)" using assms(3) that by (simp add: list_all_length)
    ultimately show ?thesis using assms(1) load_stored load_stored_v1 by auto
  qed
  then have "map (\<lambda>i. load_entry ver (drop (STORED_HDR_LEN + i * ?m) ?b)) [0..<length es] = map g es"
    by (intro nth_equalityI) simp_all
  moreover have "length ?b \<le> STORED_BLOB_MAX"
    using l v(3) assms(2) mult_le_mono [OF assms(2) v(3)] by (simp add: STORED_BLOB_MAX_def)
  moreover have "STORED_HDR_LEN \<le> length ?b" "STORED_HDR_LEN + length es * ?m \<le> length ?b"
    "unat (u16_at ?b 6) = length es"
    unfolding l h(4) c by simp_all
  ultimately show ?thesis
    by (intro load_ok [OF assms(5,6) _ _ h(2,3) v(1,2) _ assms(2) _ h(5) assms(4)])
qed

section \<open>One boot\<close>

lemma has_set [simp]: "has_flag (set_flag f e) g \<longleftrightarrow> has_flag e g \<or> f AND g \<noteq> 0"
  by (auto simp: has_flag_def set_flag_def bit.conj_disj_distrib2 or_eq_0_iff)

lemma set_flag_simps [simp]:
  "e_boot_seq (set_flag f e) = e_boot_seq e" "e_prev_uptime_s (set_flag f e) = e_prev_uptime_s e"
  "e_boot_epoch (set_flag f e) = e_boot_epoch e" "e_intent (set_flag f e) = e_intent e"
  "e_version (set_flag f e) = e_version e" "e_part (set_flag f e) = e_part e" "e_reason (set_flag f e) = e_reason e"
  by (simp_all add: set_flag_def)

lemma has_flag_update [simp]:
  "has_flag (e\<lparr>e_boot_seq := x\<rparr>) f = has_flag e f" "has_flag (e\<lparr>e_prev_uptime_s := y\<rparr>) f = has_flag e f"
  "has_flag (e\<lparr>e_boot_epoch := z\<rparr>) f = has_flag e f" "has_flag (e\<lparr>e_intent := i\<rparr>) f = has_flag e f"
  "has_flag (e\<lparr>e_version := v\<rparr>) f = has_flag e f" "has_flag (e\<lparr>e_part := p\<rparr>) f = has_flag e f"
  "has_flag (e\<lparr>e_reason := q\<rparr>) f = has_flag e f"
  by (simp_all add: has_flag_def)

lemma field_str_shape:
  "0 < n \<Longrightarrow> length (field_str n s) = n \<and> field_str n s ! (n - 1) = 0"
  by (auto simp: field_str_def nth_append)

lemma new_record_wf: "entry_wf (new_record b r s)"
  using field_str_shape [of RESET_LOG_VERSION_MAX] field_str_shape [of RESET_LOG_PART_MAX]
  by (auto simp: entry_wf_def new_record_def image_flags_def rail_flags_def prev_boot_def zero_entry_def Let_def
      split: option.splits prod.splits)

lemma load_wf:
  assumes "g_ring s = []" "g_next_seq s = 1"
  shows "ring_wf (load_resets_from_nvs s)"
proof -
  have e: "entry_wf (load_entry ver at)" if "44 \<le> length at" for ver at
    using that by (simp add: entry_wf_def load_entry_def)
  have "entry_wf (load_entry ver (drop (STORED_HDR_LEN + i * STORED_REC_LEN ver) buf))"
    if "i < count" "STORED_HDR_LEN + count * STORED_REC_LEN ver \<le> length buf" for ver i count and buf :: "u8 list"
  proof (rule e)
    have "Suc i * STORED_REC_LEN ver \<le> count * STORED_REC_LEN ver" using that(1) by (intro mult_le_mono) simp_all
    moreover have "44 \<le> STORED_REC_LEN ver" by (simp add: STORED_REC_LEN_def)
    ultimately show "44 \<le> length (drop (STORED_HDR_LEN + i * STORED_REC_LEN ver) buf)" using that(2) by simp
  qed
  then show ?thesis
    using assms by (auto simp: ring_wf_def load_resets_from_nvs_def Let_def list_all_iff split: option.splits)
qed

lemma load_keeps [simp]:
  "g_rtc (load_resets_from_nvs s) = g_rtc s" "g_nvs (load_resets_from_nvs s) = g_nvs s" "g_mutex (load_resets_from_nvs s) = g_mutex s"
  "g_ckpt_next (load_resets_from_nvs s) = g_ckpt_next s" "g_ticking (load_resets_from_nvs s) = g_ticking s"
  by (simp_all add: load_resets_from_nvs_def Let_def split: option.splits)

lemma append_simps [simp]:
  "g_rtc (append_record e s) = g_rtc s" "g_nvs (append_record e s) = g_nvs s" "g_mutex (append_record e s) = g_mutex s"
  "g_ckpt_next (append_record e s) = g_ckpt_next s" "g_next_seq (append_record e s) = g_next_seq s + 1"
  "g_ckpt_boot_seq (append_record e s) = g_next_seq s" "g_have_current (append_record e s)"
  "last (g_ring (append_record e s)) = e\<lparr>e_boot_seq := g_next_seq s\<rparr>" "g_ring (append_record e s) \<noteq> []"
  by (simp_all add: append_record_def Let_def)

lemma append_wf:
  "ring_wf s \<Longrightarrow> entry_wf e \<Longrightarrow> g_next_seq s + 1 \<noteq> 0 \<Longrightarrow> ring_wf (append_record e s)"
  by (auto simp: ring_wf_def append_record_def Let_def list_all_iff entry_wf_def dest: list.set_sel(2) [rotated])

lemma save_simps [simp]:
  "g_rtc (save_to_nvs a t b s) = g_rtc s" "g_ring (save_to_nvs a t b s) = g_ring s"
  "g_mutex (save_to_nvs a t b s) = g_mutex s" "g_next_seq (save_to_nvs a t b s) = g_next_seq s"
  "g_ckpt_boot_seq (save_to_nvs a t b s) = g_ckpt_boot_seq s" "g_ckpt_next (save_to_nvs a t b s) = g_ckpt_next s"
  "g_have_current (save_to_nvs a t b s) = g_have_current s"
  by (simp_all add: save_to_nvs_def Let_def)

lemma save_checkpoint_simps [simp]:
  "g_rtc (save_checkpoint a t u s) = g_rtc s" "g_ring (save_checkpoint a t u s) = g_ring s"
  "g_mutex (save_checkpoint a t u s) = g_mutex s" "g_next_seq (save_checkpoint a t u s) = g_next_seq s"
  "g_ckpt_boot_seq (save_checkpoint a t u s) = g_ckpt_boot_seq s"
  "g_ckpt_next (save_checkpoint a t u s) = g_ckpt_next s"
  "g_have_current (save_checkpoint a t u s) = g_have_current s"
  by (simp_all add: save_checkpoint_def Let_def)

text \<open>What \<open>reset_log_init\<close> leaves, from the state right after a reset.\<close>

lemma init_state:
  assumes "reset_log_init b (reset_chip rtc s) = (err, s')" "b_mutex b"
  defines "l \<equiv> load_resets_from_nvs ((reset_chip rtc s)\<lparr>g_mutex := True, g_rtc := rtc_seed rtc\<rparr>)"
  shows "g_rtc s' = rtc_seed rtc" "g_mutex s'" "g_have_current s'" "g_ckpt_next s' = 0"
    "g_next_seq s' = g_next_seq l + 1" "g_ckpt_boot_seq s' = g_next_seq l"
    "g_ring s' = g_ring (append_record (new_record b rtc l) l)"
    "g_nvs s' = g_nvs (save_to_nvs (b_answers b) (b_torn b) True (append_record (new_record b rtc l) l))"
    "ring_wf l" "g_nvs l = g_nvs s"
  using assms load_wf [of "(reset_chip rtc s)\<lparr>g_mutex := True, g_rtc := rtc_seed rtc\<rparr>"]
  by (auto simp: reset_log_init_def Let_def reset_chip_def split: if_splits)

section \<open>A boot's life\<close>

text \<open>What the device calls while it runs, with the uptime, and for the writes what the flash answers.\<close>

datatype runtime =
  Tick nat | Ready | Intent nat reset_intent
| Checkpoint "int list" "reset_nvs option" nat | NoteTime "int list" "reset_nvs option" u64

fun act :: "resets \<Rightarrow> runtime \<Rightarrow> resets" where
  "act s (Tick us) = tick_cb us s"
| "act s Ready = reset_log_note_ready s"
| "act s (Intent us i) = reset_log_note_intent us i s"
| "act s (Checkpoint a t us) = reset_log_checkpoint_tick a t us s"
| "act s (NoteTime a t e) = reset_log_note_time a t e s"

definition lives :: "runtime list \<Rightarrow> resets \<Rightarrow> resets" where
  "lives ops s = foldl act s ops"

text \<open>What a life leaves to be known: the last uptime sampled, the last intent, and whether it got ready.\<close>

fun sampled :: "u32 \<Rightarrow> runtime \<Rightarrow> u32" where
  "sampled u (Tick us) = seconds us"
| "sampled u (Intent us i) = seconds us"
| "sampled u _ = u"

fun intended :: "reset_intent \<Rightarrow> runtime \<Rightarrow> reset_intent" where
  "intended j (Intent us i) = i"
| "intended j _ = j"

definition told :: "reset_rtc \<Rightarrow> u32 \<Rightarrow> reset_intent \<Rightarrow> bool \<Rightarrow> bool" where
  "told r u i ready \<longleftrightarrow>
     rtc_consistent r \<and> r_uptime r = u \<and> r_intent r = of_nat (intent_code i) \<and> (r_ready r \<noteq> 0 \<longleftrightarrow> ready)"

lemma note_time_rtc [simp]: "g_rtc (reset_log_note_time a t e s) = g_rtc s"
  by (simp add: reset_log_note_time_def Let_def)

lemma checkpoint_rtc [simp]: "g_rtc (reset_log_checkpoint_tick a t us s) = g_rtc s"
  by (simp add: reset_log_checkpoint_tick_def Let_def)

lemma act_told:
  "told (g_rtc s) u i ready \<Longrightarrow> told (g_rtc (act s op)) (sampled u op) (intended i op) (ready \<or> op = Ready)"
  by (cases op) (auto simp: told_def rtc_consistent_def tick_cb_def set_uptime_def reset_log_note_intent_def
      reset_log_note_ready_def Let_def)

lemma lives_told:
  "told (g_rtc s) u i ready \<Longrightarrow>
     told (g_rtc (lives ops s)) (foldl sampled u ops) (foldl intended i ops) (ready \<or> Ready \<in> set ops)"
proof (induction ops arbitrary: s u i ready)
  case (Cons op ops)
  have "(ready \<or> op = Ready) \<or> Ready \<in> set ops \<longleftrightarrow> ready \<or> Ready \<in> set (op # ops)" by auto
  with Cons.IH [OF act_told [OF Cons.prems, of op]] show ?case by (simp add: lives_def)
qed (simp add: lives_def)

lemma seed_told: "told (rtc_seed r) 0 RESET_INTENT_UNKNOWN False"
  by (simp add: told_def rtc_consistent_def rtc_seed_def)

text \<open>The record's later steps leave what \<open>prev_boot\<close> set.\<close>

definition prev_flag :: "u8 \<Rightarrow> bool" where
  "prev_flag f \<longleftrightarrow> f \<in> {RESET_LOG_F_PREV_STATE, RESET_LOG_F_REACHED_READY, RESET_LOG_F_PREV_UPTIME_MIN}"

lemma prev_flags [simp]:
  "prev_flag RESET_LOG_F_PREV_STATE" "prev_flag RESET_LOG_F_REACHED_READY" "prev_flag RESET_LOG_F_PREV_UPTIME_MIN"
  by (simp_all add: prev_flag_def)

lemma other_flags:
  "prev_flag f \<Longrightarrow> g \<in> {RESET_LOG_F_OTA_PENDING, RESET_LOG_F_ROLLBACK, RESET_LOG_F_RAIL_KNOWN, RESET_LOG_F_RAIL_HELD,
     RESET_LOG_F_BOOT_TIME} \<Longrightarrow> g AND f = 0"
  by (auto simp: prev_flag_def flag_defs)

lemma image_prev:
  "e_prev_uptime_s (image_flags b ring e) = e_prev_uptime_s e" "e_intent (image_flags b ring e) = e_intent e"
  "prev_flag f \<Longrightarrow> has_flag (image_flags b ring e) f = has_flag e f"
  by (simp_all add: image_flags_def Let_def other_flags split: option.split prod.split)

lemma rail_prev:
  "e_prev_uptime_s (rail_flags rail e) = e_prev_uptime_s e" "e_intent (rail_flags rail e) = e_intent e"
  "prev_flag f \<Longrightarrow> has_flag (rail_flags rail e) f = has_flag e f"
  by (simp_all add: rail_flags_def Let_def other_flags)

lemma prev_boot_base:
  assumes "e_prev_uptime_s e = 0" "e_intent e = 0" "prev_flag f \<Longrightarrow> \<not> has_flag e f"
  shows "e_prev_uptime_s (prev_boot r s e) = e_prev_uptime_s (prev_boot r s zero_entry)"
    "e_intent (prev_boot r s e) = e_intent (prev_boot r s zero_entry)"
    "prev_flag f \<Longrightarrow> has_flag (prev_boot r s e) f = has_flag (prev_boot r s zero_entry) f"
proof -
  have z: "\<not> has_flag zero_entry f" "e_prev_uptime_s zero_entry = 0" "e_intent zero_entry = 0"
    by (simp_all add: zero_entry_def has_flag_def)
  show "e_prev_uptime_s (prev_boot r s e) = e_prev_uptime_s (prev_boot r s zero_entry)"
    "e_intent (prev_boot r s e) = e_intent (prev_boot r s zero_entry)"
    "prev_flag f \<Longrightarrow> has_flag (prev_boot r s e) f = has_flag (prev_boot r s zero_entry) f"
    using assms z by (simp_all add: prev_boot_def Let_def split: option.split)
qed

lemma new_record_prev:
  "e_prev_uptime_s (new_record b r s) = e_prev_uptime_s (prev_boot r s zero_entry)"
  "e_intent (new_record b r s) = e_intent (prev_boot r s zero_entry)"
  "prev_flag f \<Longrightarrow> has_flag (new_record b r s) f = has_flag (prev_boot r s zero_entry) f"
proof -
  obtain e where e: "new_record b r s = image_flags b (g_ring s) ((rail_flags (b_rail b) (prev_boot r s e))
        \<lparr>e_version := field_str RESET_LOG_VERSION_MAX (b_version b)\<rparr>)"
      "e_prev_uptime_s e = 0" "e_intent e = 0" "\<And>f. prev_flag f \<Longrightarrow> \<not> has_flag e f"
  proof (rule that)
    let ?z = "zero_entry\<lparr>e_reason := b_reason b\<rparr>"
    let ?e = "case b_now b of None \<Rightarrow> ?z
        | Some now \<Rightarrow> set_flag RESET_LOG_F_BOOT_TIME ?z\<lparr>e_boot_epoch := now - of_nat (b_up_us b div 1000000)\<rparr>"
    show "new_record b r s = image_flags b (g_ring s) ((rail_flags (b_rail b) (prev_boot r s ?e))
        \<lparr>e_version := field_str RESET_LOG_VERSION_MAX (b_version b)\<rparr>)"
      by (simp only: new_record_def Let_def)
    show "e_prev_uptime_s ?e = 0" "e_intent ?e = 0" by (simp_all add: zero_entry_def split: option.split)
    show "\<not> has_flag ?e f" if "prev_flag f" for f
      using that by (simp add: other_flags split: option.split) (simp add: zero_entry_def has_flag_def)
  qed
  show "e_prev_uptime_s (new_record b r s) = e_prev_uptime_s (prev_boot r s zero_entry)"
    "e_intent (new_record b r s) = e_intent (prev_boot r s zero_entry)"
    "prev_flag f \<Longrightarrow> has_flag (new_record b r s) f = has_flag (prev_boot r s zero_entry) f"
    using prev_boot_base [OF e(2,3,4)] unfolding e(1) by (simp_all add: image_prev rail_prev)
qed

lemma prev_boot_told:
  fixes s :: resets
  assumes "told r u i ready"
  defines "e \<equiv> prev_boot r s zero_entry"
  shows "e_prev_uptime_s e = u" "unat (e_intent e) = intent_code i" "has_flag e RESET_LOG_F_PREV_STATE"
    "has_flag e RESET_LOG_F_REACHED_READY \<longleftrightarrow> ready" "\<not> has_flag e RESET_LOG_F_PREV_UPTIME_MIN"
proof -
  have i: "unat (ucast (of_nat (intent_code i) :: u32) :: u8) = intent_code i" by (cases i) simp_all
  show "e_prev_uptime_s e = u" "unat (e_intent e) = intent_code i" "has_flag e RESET_LOG_F_PREV_STATE"
    "has_flag e RESET_LOG_F_REACHED_READY \<longleftrightarrow> ready" "\<not> has_flag e RESET_LOG_F_PREV_UPTIME_MIN"
    using assms(1) i
    by (auto simp: e_def prev_boot_def told_def zero_entry_def flag_defs has_flag_def set_flag_def
        bit.conj_disj_distrib2 Let_def)
qed

section \<open>The checkpoint\<close>

fun flawless :: "runtime \<Rightarrow> bool" where
  "flawless (Checkpoint a t us) \<longleftrightarrow> list_all (\<lambda>e. e = 0) a \<and> us div 1000000 < 2 ^ 32"
| "flawless (NoteTime a t e) \<longleftrightarrow> list_all (\<lambda>e. e = 0) a"
| "flawless _ \<longleftrightarrow> True"

fun checked :: "runtime \<Rightarrow> nat list" where
  "checked (Checkpoint a t us) = [us div 1000000]"
| "checked _ = []"

definition checkpoint_times :: "runtime list \<Rightarrow> nat list" where
  "checkpoint_times ops = concat (map checked ops)"

definition saved :: "resets \<Rightarrow> bool" where
  "saved s \<longleftrightarrow> ring_wf s \<and> (\<exists>n. g_nvs s = Some n \<and>
     n_ring n = Some (stored_hdr RESET_STORE_VERSION (length (g_ring s)) (g_next_seq s) @ concat (map stored_rec (g_ring s))))"

definition ckpt_ok :: "nat \<Rightarrow> resets \<Rightarrow> bool" where
  "ckpt_ok u s \<longleftrightarrow>
     g_ckpt_boot_seq s \<noteq> 0 \<and> g_next_seq s = g_ckpt_boot_seq s + 1 \<and>
     (\<exists>n c. g_nvs s = Some n \<and> n_ckpt n = Some (set_checkpoint (g_ckpt_boot_seq s) c) \<and> unat c \<le> u \<and>
        (\<forall>t\<in>set (take (g_ckpt_next s) k_ckpt_times). t \<le> unat c)) \<and>
     (\<forall>t\<in>set (drop (g_ckpt_next s) k_ckpt_times). u < t)"

lemma times_sorted: "sorted k_ckpt_times"
  by (simp add: k_ckpt_times_def)

lemma checkpoint_read:
  "(ucast (drop_bit 32 (set_checkpoint seq c)) :: u32) = seq" "(ucast (set_checkpoint seq c) :: u32) = c"
  by (rule bit_word_eqI; simp add: set_checkpoint_def bit_simps; auto dest: bit_imp_le_length)+

lemma save_saved:
  assumes "list_all (\<lambda>e. e = 0) a" "ring_wf s"
  shows "saved (save_to_nvs a t b s)"
  using assms first_failure_none [of a] by (auto simp: saved_def save_to_nvs_def Let_def ring_wf_def)

lemma note_time_saved:
  assumes "list_all (\<lambda>e. e = 0) a" "saved s"
  shows "saved (reset_log_note_time a t e s)"
proof (cases "reset_log_note_time a t e s = s")
  case False
  let ?rec = "set_flag RESET_LOG_F_BOOT_TIME (last (g_ring s))\<lparr>e_boot_epoch := e\<rparr>"
  have r: "reset_log_note_time a t e s = save_to_nvs a t False (s\<lparr>g_ring := butlast (g_ring s) @ [?rec]\<rparr>)"
      "g_ring s \<noteq> []"
    using False by (auto simp: reset_log_note_time_def Let_def split: if_splits)
  have "entry_wf (last (g_ring s))" using assms(2) r(2) by (simp add: saved_def ring_wf_def list_all_iff)
  then have "ring_wf (s\<lparr>g_ring := butlast (g_ring s) @ [?rec]\<rparr>)"
    using assms(2) r(2) by (auto simp: saved_def ring_wf_def list_all_iff entry_wf_def dest: in_set_butlastD)
  then show ?thesis unfolding r(1) by (rule save_saved [OF assms(1)])
qed (use assms(2) in simp)

lemma note_time_ckpt:
  assumes "list_all (\<lambda>e. e = 0) a" "ckpt_ok u s"
  shows "ckpt_ok u (reset_log_note_time a t e s)"
  using assms first_failure_none [of a]
  by (auto simp: ckpt_ok_def reset_log_note_time_def save_to_nvs_def Let_def)

lemma checkpoint_saved:
  assumes "list_all (\<lambda>e. e = 0) a" "saved s"
  shows "saved (reset_log_checkpoint_tick a t us s)"
  using assms first_failure_none [of a]
  by (auto simp: saved_def ring_wf_def reset_log_checkpoint_tick_def save_checkpoint_def Let_def)

lemma sorted_dropWhile:
  "sorted xs \<Longrightarrow> t \<in> set (dropWhile (\<lambda>t. t \<le> (u :: nat)) xs) \<Longrightarrow> u < t"
  by (induction xs) (auto split: if_splits)

lemma ckpt_okI:
  assumes "g_ckpt_boot_seq s \<noteq> 0" "g_next_seq s = g_ckpt_boot_seq s + 1" "unat c = v"
    and "\<forall>t\<in>set (take k k_ckpt_times). t \<le> v" "\<forall>t\<in>set (drop k k_ckpt_times). v < t"
  shows "ckpt_ok v (s\<lparr>g_ckpt_next := k, g_nvs := Some \<lparr>n_ring = x, n_ckpt = Some (set_checkpoint (g_ckpt_boot_seq s) c)\<rparr>\<rparr>)"
  using assms by (auto simp: ckpt_ok_def intro!: exI [of _ c])

lemma checkpoint_ckpt:
  assumes "list_all (\<lambda>e. e = 0) a" "ckpt_ok u s" "u \<le> us div 1000000" "us div 1000000 < 2 ^ 32"
  shows "ckpt_ok (us div 1000000) (reset_log_checkpoint_tick a t us s)"
proof -
  let ?v = "us div 1000000" and ?d = "drop (g_ckpt_next s) k_ckpt_times"
  have v: "unat (seconds us) = ?v" using assms(4) by (simp add: seconds_def unat_of_nat)
  obtain n c where n: "g_nvs s = Some n" "n_ckpt n = Some (set_checkpoint (g_ckpt_boot_seq s) c)" "unat c \<le> u"
      "\<forall>t\<in>set (take (g_ckpt_next s) k_ckpt_times). t \<le> unat c" "g_ckpt_boot_seq s \<noteq> 0"
      "g_next_seq s = g_ckpt_boot_seq s + 1"
    using assms(2) by (auto simp: ckpt_ok_def)
  have d: "sorted ?d" by (intro sorted_wrt_drop times_sorted)
  show ?thesis
  proof (cases "?d = [] \<or> ?v < hd ?d")
    case True
    then have "\<forall>t\<in>set ?d. ?v < t" using d by (cases ?d) auto
    moreover have "reset_log_checkpoint_tick a t us s = s"
      using True v by (auto simp: reset_log_checkpoint_tick_def Let_def hd_drop_conv_nth)
    ultimately show ?thesis using n assms(3) by (auto simp: ckpt_ok_def)
  next
    case False
    let ?k = "g_ckpt_next s + length (takeWhile (\<lambda>t. t \<le> ?v) ?d)"
    have r: "reset_log_checkpoint_tick a t us s = save_checkpoint a t (seconds us) (s\<lparr>g_ckpt_next := ?k\<rparr>)"
      using False v n(5) by (auto simp: reset_log_checkpoint_tick_def Let_def hd_drop_conv_nth)
    have "take ?k k_ckpt_times = take (g_ckpt_next s) k_ckpt_times @ takeWhile (\<lambda>t. t \<le> ?v) ?d"
      by (simp add: take_add takeWhile_eq_take [symmetric])
    moreover have "t \<le> ?v" if "t \<in> set (takeWhile (\<lambda>t. t \<le> ?v) ?d)" for t using set_takeWhileD [OF that] by simp
    ultimately have "\<forall>t\<in>set (take ?k k_ckpt_times). t \<le> ?v" using n(3,4) assms(3) by fastforce
    moreover have "drop ?k k_ckpt_times = dropWhile (\<lambda>t. t \<le> ?v) ?d" by (simp add: dropWhile_eq_drop add.commute)
    then have "\<forall>t\<in>set (drop ?k k_ckpt_times). ?v < t" using sorted_dropWhile [OF d] by simp
    moreover have "save_checkpoint a t (seconds us) (s\<lparr>g_ckpt_next := k\<rparr>) = s\<lparr>g_ckpt_next := k,
        g_nvs := Some \<lparr>n_ring = n_ring n, n_ckpt = Some (set_checkpoint (g_ckpt_boot_seq s) (seconds us))\<rparr>\<rparr>" for k
      using n(1) assms(1) first_failure_none [of a] by (simp add: save_checkpoint_def Let_def)
    ultimately show ?thesis unfolding r by (simp only:) (rule ckpt_okI [OF n(5,6) v])
  qed
qed

lemma rtc_only:
  assumes "s' = s\<lparr>g_rtc := r, g_ticking := b\<rparr>"
  shows "saved s' = saved s" "ckpt_ok u s' = ckpt_ok u s"
  unfolding assms by (simp_all add: saved_def ckpt_ok_def ring_wf_def)

lemma act_rtc_only: "checked op = [] \<Longrightarrow> (\<forall>a t e. op \<noteq> NoteTime a t e) \<Longrightarrow> \<exists>r b. act s op = s\<lparr>g_rtc := r, g_ticking := b\<rparr>"
  by (cases op; cases s)
    (auto simp: tick_cb_def reset_log_note_ready_def reset_log_note_intent_def Let_def)

lemma act_ckpt:
  assumes "saved s" "ckpt_ok u s" "flawless op" "sorted (u # checked op)"
  shows "saved (act s op) \<and> ckpt_ok (last (u # checked op)) (act s op)"
proof (cases "checked op = [] \<and> (\<forall>a t e. op \<noteq> NoteTime a t e)")
  case True
  then obtain r b where "act s op = s\<lparr>g_rtc := r, g_ticking := b\<rparr>" using act_rtc_only by blast
  then show ?thesis using rtc_only assms(1,2) True by simp
next
  case False
  then consider (time) a t e where "op = NoteTime a t e" | (check) a t us where "op = Checkpoint a t us"
    by (cases op) auto
  then show ?thesis
    by cases (use assms note_time_saved note_time_ckpt checkpoint_saved checkpoint_ckpt in simp_all)
qed

lemma lives_ckpt:
  "saved s \<Longrightarrow> ckpt_ok u s \<Longrightarrow> list_all flawless ops \<Longrightarrow> sorted (u # checkpoint_times ops) \<Longrightarrow>
     saved (lives ops s) \<and> ckpt_ok (last (u # checkpoint_times ops)) (lives ops s)"
proof (induction ops arbitrary: s u)
  case (Cons op ops)
  let ?v = "last (u # checked op)"
  have c: "checkpoint_times (op # ops) = checked op @ checkpoint_times ops" by (simp add: checkpoint_times_def)
  have "sorted (u # checked op)" "sorted (?v # checkpoint_times ops)" "last (u # checkpoint_times (op # ops)) =
      last (?v # checkpoint_times ops)"
    using Cons.prems(4) unfolding c by (cases op; auto)+
  with Cons.IH [of "act s op" ?v] act_ckpt [of s u op] Cons.prems show ?case by (simp add: lives_def)
qed (simp add: lives_def checkpoint_times_def)

lemma init_ckpt:
  assumes "reset_log_init b (reset_chip rtc s) = (err, s')" "b_mutex b" "list_all (\<lambda>e. e = 0) (b_answers b)"
    and "g_next_seq s' \<noteq> 0"
  shows "saved s'" "ckpt_ok 0 s'"
proof -
  note i = init_state [OF assms(1,2)]
  let ?l = "load_resets_from_nvs ((reset_chip rtc s)\<lparr>g_mutex := True, g_rtc := rtc_seed rtc\<rparr>)"
  let ?a = "append_record (new_record b rtc ?l) ?l"
  have "ring_wf ?a" using append_wf [OF i(9) new_record_wf] assms(4) i(5) by simp
  then have "saved (save_to_nvs (b_answers b) (b_torn b) True ?a)" by (rule save_saved [OF assms(3)])
  then show "saved s'" using i(5,7,8) by (simp add: saved_def ring_wf_def)
  have "g_next_seq ?l \<noteq> 0" using i(9) by (simp add: ring_wf_def)
  moreover have "\<forall>t\<in>set k_ckpt_times. 0 < t" by (simp add: k_ckpt_times_def)
  moreover have "\<exists>n. g_nvs s' = Some n \<and> n_ckpt n = Some (set_checkpoint (g_ckpt_boot_seq s') 0)"
    using assms(3) first_failure_none [of "b_answers b"] i(6,8) by (simp add: save_to_nvs_def Let_def)
  ultimately show "ckpt_ok 0 s'" using i(4,5,6) by (auto simp: ckpt_ok_def intro!: exI [of _ 0])
qed

lemma saved_loads:
  assumes "saved s"
  shows "load_resets_from_nvs ((reset_chip rtc s)\<lparr>g_mutex := True, g_rtc := r\<rparr>) =
    (reset_chip rtc s)\<lparr>g_mutex := True, g_rtc := r, g_ring := g_ring s, g_next_seq := g_next_seq s\<rparr>"
proof -
  obtain n where n: "g_nvs s = Some n"
      "n_ring n = Some (stored_hdr RESET_STORE_VERSION (length (g_ring s)) (g_next_seq s) @ concat (map stored_rec (g_ring s)))"
    using assms by (auto simp: saved_def)
  have "load_resets_from_nvs ((reset_chip rtc s)\<lparr>g_mutex := True, g_rtc := r\<rparr>) =
      ((reset_chip rtc s)\<lparr>g_mutex := True, g_rtc := r\<rparr>)\<lparr>g_ring := map (\<lambda>e. e) (g_ring s), g_next_seq := g_next_seq s\<rparr>"
    by (rule blob_reads [where n = n and f = stored_rec and ver = 2])
      (use assms n in \<open>simp_all add: saved_def ring_wf_def reset_chip_def\<close>)
  then show ?thesis by simp
qed

lemma ceiling_after:
  assumes "ckpt_ok u s"
  shows "\<exists>c. load_checkpoint (g_next_seq s - 1) s = Some c \<and> unat c \<le> u \<and>
    (u < ceiling_for c \<or> ceiling_for c = 0 \<and> 365 * 86400 \<le> u)"
proof -
  let ?k = "g_ckpt_next s"
  obtain n c where n: "g_nvs s = Some n" "n_ckpt n = Some (set_checkpoint (g_ckpt_boot_seq s) c)" "unat c \<le> u"
      "\<forall>t\<in>set (take ?k k_ckpt_times). t \<le> unat c" "g_next_seq s = g_ckpt_boot_seq s + 1"
      "\<forall>t\<in>set (drop ?k k_ckpt_times). u < t"
    using assms by (auto simp: ckpt_ok_def)
  have "filter (\<lambda>t. t > unat c) (take ?k k_ckpt_times) = []" using n(4) by (auto simp: filter_empty_conv not_less)
  moreover have "filter (\<lambda>t. t > unat c) (drop ?k k_ckpt_times) = drop ?k k_ckpt_times"
    using n(3,6) by (auto intro!: filter_True)
  ultimately have f: "filter (\<lambda>t. t > unat c) k_ckpt_times = drop ?k k_ckpt_times"
    by (metis append_Nil append_take_drop_id filter_append)
  have "u < ceiling_for c \<or> ceiling_for c = 0 \<and> 365 * 86400 \<le> u"
  proof (cases "drop ?k k_ckpt_times")
    case Nil
    then have "365 * 86400 \<in> set (take ?k k_ckpt_times)" by (simp add: k_ckpt_times_def)
    then show ?thesis using Nil f n(3,4) by (fastforce simp: ceiling_for_def)
  next
    case (Cons t ts)
    then show ?thesis using f n(6) by (simp add: ceiling_for_def)
  qed
  moreover have "load_checkpoint (g_next_seq s - 1) s = Some c"
    using n(1,2,5) checkpoint_read [of "g_ckpt_boot_seq s" c] by (simp add: load_checkpoint_def)
  ultimately show ?thesis using n(3) by blast
qed

section \<open>Properties\<close>

lemma init_current:
  assumes "reset_log_init b (reset_chip rtc s) = (err, s')" "b_mutex b"
  defines "l \<equiv> load_resets_from_nvs ((reset_chip rtc s)\<lparr>g_mutex := True, g_rtc := rtc_seed rtc\<rparr>)"
  shows "reset_log_get_current s' = Some ((new_record b rtc l)\<lparr>e_boot_seq := g_next_seq l\<rparr>)"
  using init_state [OF assms(1,2)] unfolding l_def by (simp add: reset_log_get_current_def)

lemma recorded_uptime:
  assumes "reset_log_init b (reset_chip rtc s0) = (err, s1)" "b_mutex b" "s2 = lives ops s1"
    and "reset_log_init b' (reset_chip (g_rtc s2) s2) = (err', s3)" "b_mutex b'"
  shows "\<exists>e. reset_log_get_current s3 = Some e \<and> has_flag e RESET_LOG_F_PREV_STATE \<and>
    \<not> has_flag e RESET_LOG_F_PREV_UPTIME_MIN \<and> e_prev_uptime_s e = foldl sampled 0 ops \<and>
    unat (e_intent e) = intent_code (foldl intended RESET_INTENT_UNKNOWN ops) \<and>
    (has_flag e RESET_LOG_F_REACHED_READY \<longleftrightarrow> Ready \<in> set ops)"
proof -
  have "told (g_rtc s1) 0 RESET_INTENT_UNKNOWN False" using init_state(1) [OF assms(1,2)] seed_told by simp
  then have t: "told (g_rtc s2) (foldl sampled 0 ops) (foldl intended RESET_INTENT_UNKNOWN ops) (Ready \<in> set ops)"
    using lives_told [of s1 0 RESET_INTENT_UNKNOWN False ops] assms(3) by simp
  show ?thesis
    using prev_boot_told [OF t] unfolding init_current [OF assms(4,5)] by (simp add: new_record_prev)
qed

text \<open>C21: After any reset that kept RTC memory powered, the new boot's record tells how the previous one ended,
  exactly: its last sampled uptime, the intent it was restarted with (or none), and whether its start-up
  finished; whatever the flash did meanwhile.
\<close>

theorem uptime_exact:
  assumes "reset_log_init b (reset_chip rtc s0) = (err, s1)" "b_mutex b" "s2 = lives ops s1"
    and "reset_log_init b' (reset_chip (g_rtc s2) s2) = (err', s3)" "b_mutex b'"
  shows "\<exists>e. reset_log_get_current s3 = Some e \<and> has_flag e RESET_LOG_F_PREV_STATE \<and>
    \<not> has_flag e RESET_LOG_F_PREV_UPTIME_MIN \<and> e_prev_uptime_s e = foldl sampled 0 ops \<and>
    unat (e_intent e) = intent_code (foldl intended RESET_INTENT_UNKNOWN ops) \<and>
    (has_flag e RESET_LOG_F_REACHED_READY \<longleftrightarrow> Ready \<in> set ops)"
  using assms by (rule recorded_uptime)

definition example_boot :: boot_env where
  "example_boot =
     \<lparr>b_mutex = True, b_rail = RESET_RAIL_UNKNOWN, b_reason = 1, b_now = None, b_up_us = 0, b_version = [49],
      b_running = None, b_other = None, b_answers = [], b_torn = None, b_timer_create = 0, b_timer_start = 0\<rparr>"

definition blank_rtc :: reset_rtc where
  "blank_rtc =
     \<lparr>r_magic = 0, r_uptime = 0, r_uptime_inv = 0, r_intent = 0, r_intent_inv = 0, r_ready = 0, r_ready_inv = 0\<rparr>"

text \<open>A board on its first boot.\<close>

definition first_boot :: resets where
  "first_boot = snd (reset_log_init example_boot (reset_chip blank_rtc
     \<lparr>g_rtc = blank_rtc, g_nvs = None, g_mutex = False, g_ticking = False, g_ring = [], g_next_seq = 1,
      g_have_current = False, g_ckpt_boot_seq = 0, g_ckpt_next = 0\<rparr>))"

lemma first_boot_init:
  "reset_log_init example_boot (reset_chip blank_rtc
     \<lparr>g_rtc = blank_rtc, g_nvs = None, g_mutex = False, g_ticking = False, g_ring = [], g_next_seq = 1,
      g_have_current = False, g_ckpt_boot_seq = 0, g_ckpt_next = 0\<rparr>) = (0, first_boot)"
  by (simp add: first_boot_def reset_log_init_def Let_def example_boot_def)

lemma first_boot_seq: "g_next_seq first_boot = 2"
  by (simp add: first_boot_def reset_log_init_def Let_def example_boot_def reset_chip_def load_resets_from_nvs_def)

theorem uptime_exact_witness:
  "let s = lives [Tick 1000000, Ready, Tick 2000000, Intent 7300000 RESET_INTENT_OTA] first_boot in
   \<exists>e. reset_log_get_current (snd (reset_log_init example_boot (reset_chip (g_rtc s) s))) = Some e \<and>
     e_prev_uptime_s e = 7 \<and> unat (e_intent e) = 1 \<and> has_flag e RESET_LOG_F_REACHED_READY"
proof -
  have "b_mutex example_boot" by (simp add: example_boot_def)
  from uptime_exact [OF first_boot_init this refl prod.collapse [symmetric] this,
      of "[Tick 1000000, Ready, Tick 2000000, Intent 7300000 RESET_INTENT_OTA]"]
  show ?thesis by (auto simp: seconds_def Let_def)
qed

lemma recorded_floor:
  assumes "reset_log_init b (reset_chip rtc s0) = (err, s1)" "b_mutex b" "list_all (\<lambda>e. e = 0) (b_answers b)"
    and "g_next_seq s1 \<noteq> 0" "s2 = lives ops s1" "list_all flawless ops" "sorted (checkpoint_times ops)"
    and "reset_log_init b' (reset_chip rtc' s2) = (err', s3)" "b_mutex b'" "\<not> rtc_consistent rtc'"
  shows "\<exists>e. reset_log_get_current s3 = Some e \<and> \<not> has_flag e RESET_LOG_F_PREV_STATE \<and>
    has_flag e RESET_LOG_F_PREV_UPTIME_MIN \<and>
    (let up = last (0 # checkpoint_times ops); floor_s = e_prev_uptime_s e in
     unat floor_s \<le> up \<and> (up < reset_log_uptime_ceiling floor_s \<or>
       reset_log_uptime_ceiling floor_s = 0 \<and> 365 * 86400 \<le> up))"
proof -
  have "saved s2 \<and> ckpt_ok (last (0 # checkpoint_times ops)) s2"
    using lives_ckpt [OF init_ckpt [OF assms(1-4)] assms(6)] assms(5,7) by simp
  then have s: "saved s2" and c: "ckpt_ok (last (0 # checkpoint_times ops)) s2" by simp_all
  let ?l = "load_resets_from_nvs ((reset_chip rtc' s2)\<lparr>g_mutex := True, g_rtc := rtc_seed rtc'\<rparr>)"
  obtain f where f: "load_checkpoint (g_next_seq s2 - 1) s2 = Some f" "unat f \<le> last (0 # checkpoint_times ops)"
      "last (0 # checkpoint_times ops) < ceiling_for f \<or> ceiling_for f = 0 \<and> 365 * 86400 \<le> last (0 # checkpoint_times ops)"
    using ceiling_after [OF c] by blast
  have "load_checkpoint (g_next_seq ?l - 1) ?l = Some f"
    using f(1) saved_loads [OF s, where rtc = rtc' and r = "rtc_seed rtc'"] by (simp add: load_checkpoint_def reset_chip_def)
  then have p: "prev_boot rtc' ?l zero_entry = (set_flag RESET_LOG_F_PREV_UPTIME_MIN zero_entry)\<lparr>e_prev_uptime_s := f\<rparr>"
    using assms(10) by (simp add: prev_boot_def)
  show ?thesis
    using f(2,3) unfolding init_current [OF assms(8,9)]
    by (simp add: new_record_prev p Let_def reset_log_uptime_ceiling_def)
      (simp add: flag_defs has_flag_def zero_entry_def)
qed



lemma act_frame:
  "g_mutex (act s op) = g_mutex s" "g_next_seq (act s op) = g_next_seq s"
  "map e_boot_seq (g_ring (act s op)) = map e_boot_seq (g_ring s)"
proof -
  have "map e_boot_seq (butlast (g_ring s) @ [set_flag f (last (g_ring s))\<lparr>e_boot_epoch := e\<rparr>]) = map e_boot_seq (g_ring s)"
    if "g_ring s \<noteq> []" for f e
    using that by (cases "g_ring s" rule: rev_cases) simp_all
  then show "g_mutex (act s op) = g_mutex s" "g_next_seq (act s op) = g_next_seq s"
    "map e_boot_seq (g_ring (act s op)) = map e_boot_seq (g_ring s)"
    by (cases op; simp add: tick_cb_def reset_log_note_ready_def reset_log_note_intent_def Let_def
        reset_log_checkpoint_tick_def reset_log_note_time_def)+
qed

lemma lives_frame:
  "g_mutex (lives ops s) = g_mutex s" "g_next_seq (lives ops s) = g_next_seq s"
  "map e_boot_seq (g_ring (lives ops s)) = map e_boot_seq (g_ring s)"
  by (induction ops arbitrary: s) (simp_all add: lives_def act_frame)

lemma newest_first:
  "length r \<le> 16 \<Longrightarrow> take 16 (rev ((if length r = 16 then tl r else r) @ [e])) = e # take 15 (rev r)"
  by (cases r) auto

lemma recorded_history:
  assumes "reset_log_init b (reset_chip rtc s0) = (err, s1)" "b_mutex b" "list_all (\<lambda>e. e = 0) (b_answers b)"
    and "g_next_seq s1 \<noteq> 0" "s2 = lives ops s1" "list_all flawless ops" "sorted (checkpoint_times ops)"
    and "reset_log_init b' (reset_chip rtc' s2) = (err', s3)" "b_mutex b'"
  shows "\<exists>e. reset_log_get RESET_LOG_MAX_RECORDS s3 = e # reset_log_get (RESET_LOG_MAX_RECORDS - 1) s2 \<and>
    map e_boot_seq (reset_log_get 2 s3) = [g_next_seq s1, g_next_seq s1 - 1]"
proof -
  have s: "saved s2" using lives_ckpt [OF init_ckpt [OF assms(1-4)] assms(6)] assms(5,7) by simp
  then have l: "length (g_ring s2) \<le> 16" by (simp add: saved_def ring_wf_def)
  obtain e where r: "g_ring s3 = (if length (g_ring s2) = 16 then tl (g_ring s2) else g_ring s2) @ [e]"
      "e_boot_seq e = g_next_seq s2" "g_mutex s3"
    using init_state(2,7) [OF assms(8,9)] saved_loads [OF s, where rtc = rtc' and r = "rtc_seed rtc'"]
    by (simp add: append_record_def Let_def reset_chip_def)
  have m: "g_mutex s2" "g_next_seq s2 = g_next_seq s1" "map e_boot_seq (g_ring s2) = map e_boot_seq (g_ring s1)"
    using init_state(2) [OF assms(1,2)] lives_frame assms(5) by simp_all
  have "reset_log_get 16 s3 = e # reset_log_get 15 s2"
    using newest_first [OF l, of e] r m(1) by (simp add: reset_log_get_def)
  moreover obtain xs x where x: "g_ring s1 = xs @ [x]" "e_boot_seq x = g_next_seq s1 - 1"
    using init_state(5,7) [OF assms(1,2)] by (simp add: append_record_def Let_def)
  then have "map e_boot_seq (rev (g_ring s2)) = (g_next_seq s1 - 1) # rev (map e_boot_seq xs)"
    using m(3) rev_map [of e_boot_seq "g_ring s2"] by simp
  then obtain a rest where a: "rev (g_ring s2) = a # rest" "e_boot_seq a = g_next_seq s1 - 1"
    by (cases "rev (g_ring s2)") simp_all
  have "reset_log_get 2 s3 = take 2 (reset_log_get 16 s3)" using r(3) by (simp add: reset_log_get_def)
  then have "reset_log_get 2 s3 = [e, a]"
    using \<open>reset_log_get 16 s3 = e # reset_log_get 15 s2\<close> a(1) m(1) by (simp add: reset_log_get_def)
  ultimately show ?thesis using r(2) m(2) a(2) by simp
qed



text \<open>
  What a version-1 build wrote is read in full by this one, record for record, with no boot time on
  any; and what this build writes is read back as it was.
\<close>

theorem both_formats_read:
  assumes "length es \<le> RESET_LOG_MAX_RECORDS" "list_all entry_wf es" "next_seq \<noteq> 0" "g_nvs s = Some n"
  shows "(n_ring n = Some (stored_hdr 2 (length es) next_seq @ concat (map stored_rec es)) \<longrightarrow>
      load_resets_from_nvs s = s\<lparr>g_ring := es, g_next_seq := next_seq\<rparr>) \<and>
    (n_ring n = Some (stored_hdr 1 (length es) next_seq @ concat (map stored_rec_v1 es)) \<longrightarrow>
      load_resets_from_nvs s = s\<lparr>g_next_seq := next_seq, g_ring :=
        map (\<lambda>e. e\<lparr>e_boot_epoch := 0, e_flags := e_flags e AND NOT RESET_LOG_F_BOOT_TIME\<rparr>) es\<rparr>)"
proof (intro conjI impI)
  let ?g = "\<lambda>e. e\<lparr>e_boot_epoch := 0, e_flags := e_flags e AND NOT RESET_LOG_F_BOOT_TIME\<rparr>"
  show "load_resets_from_nvs s = s\<lparr>g_ring := es, g_next_seq := next_seq\<rparr>"
    if "n_ring n = Some (stored_hdr 2 (length es) next_seq @ concat (map stored_rec es))"
  proof -
    have "load_resets_from_nvs s = s\<lparr>g_ring := map (\<lambda>e. e) es, g_next_seq := next_seq\<rparr>"
      by (rule blob_reads [OF _ assms that]) (intro disjI2 conjI refl)
    then show ?thesis by simp
  qed
  show "load_resets_from_nvs s = s\<lparr>g_next_seq := next_seq, g_ring := map ?g es\<rparr>"
    if "n_ring n = Some (stored_hdr 1 (length es) next_seq @ concat (map stored_rec_v1 es))"
  proof -
    have "load_resets_from_nvs s = s\<lparr>g_ring := map ?g es, g_next_seq := next_seq\<rparr>"
      by (rule blob_reads [OF _ assms that]) (intro disjI1 conjI refl)
    then show ?thesis by simp
  qed
qed

theorem both_formats_read_witness:
  "g_ring (load_resets_from_nvs (first_boot\<lparr>g_nvs := Some
     \<lparr>n_ring = Some (stored_hdr 1 1 7 @ stored_rec_v1 zero_entry), n_ckpt = None\<rparr>\<rparr>)) = [zero_entry]"
  using both_formats_read [of "[zero_entry]" 7 "first_boot\<lparr>g_nvs := Some
     \<lparr>n_ring = Some (stored_hdr 1 1 7 @ stored_rec_v1 zero_entry), n_ckpt = None\<rparr>\<rparr>"]
  by (simp add: entry_wf_def zero_entry_def)



end
