(* ===== verification/ResetText.thy ===== *)
theory ResetText
  imports ResetLog
begin

text \<open>
  The reset history in words: the console's \<open>resets\<close> command and the sentence it shares with \<open>sysinfo\<close>
  (\<open>main/serial_console.c\<close>). A buffer of \<open>n\<close> bytes cuts what is printed into it to \<open>n - 1\<close> characters.
\<close>

section \<open>Buffers and columns\<close>

definition strlcat :: "string \<Rightarrow> string \<Rightarrow> nat \<Rightarrow> string" where
  "strlcat dst src n = dst @ take (n - 1 - length dst) src"

text \<open>\<open>printf\<close>'s \<open>%-ws\<close> and \<open>%ws\<close>.\<close>

definition pad_right :: "nat \<Rightarrow> string \<Rightarrow> string" where
  "pad_right w s = s @ replicate (w - length s) CHR '' ''"

definition pad_left :: "nat \<Rightarrow> string \<Rightarrow> string" where
  "pad_left w s = replicate (w - length s) CHR '' '' @ s"

definition c_text :: "u8 list \<Rightarrow> string" where
  "c_text bs = map (\<lambda>b. char_of (unat b)) (c_string bs)"

abbreviation CLOCK_TIME_STR_MAX :: nat where "CLOCK_TIME_STR_MAX \<equiv> 20"

section \<open>Durations\<close>

definition reset_uptime_is_floor :: "reset_entry \<Rightarrow> bool" where
  "reset_uptime_is_floor e \<longleftrightarrow> \<not> has_flag e RESET_LOG_F_PREV_STATE \<and> has_flag e RESET_LOG_F_PREV_UPTIME_MIN"

definition fmt_short :: "nat \<Rightarrow> nat \<times> string" where
  "fmt_short s =
     (if s \<ge> 365 * 86400 then (s div (365 * 86400), ''y'')
      else if s \<ge> 86400 then (s div 86400, ''d'')
      else if s \<ge> 3600 then (s div 3600, ''h'')
      else if s \<ge> 60 then (s div 60, ''m'')
      else (s, ''s''))"

definition fmt_bound :: "u32 \<Rightarrow> nat \<Rightarrow> string" where
  "fmt_bound floor_s n =
     (if floor_s = 0 then case fmt_short (reset_log_uptime_ceiling 0) of (v, u) \<Rightarrow> strlcpy (''<'' @ decimal v @ u) n
      else case fmt_short (unat floor_s) of (v, u) \<Rightarrow> strlcpy (''>'' @ decimal v @ u) n)"

definition exact_words :: "nat \<Rightarrow> string" where
  "exact_words s =
     (if s \<ge> 86400 then decimal (s div 86400) @ ''d '' @ decimal (s mod 86400 div 3600) @ ''h''
      else if s \<ge> 3600 then decimal (s div 3600) @ ''h '' @ decimal (s mod 3600 div 60) @ ''m''
      else if s \<ge> 60 then decimal (s div 60) @ ''m '' @ decimal (s mod 60) @ ''s''
      else decimal s @ ''s'')"

definition fmt_exact :: "nat \<Rightarrow> nat \<Rightarrow> string" where
  "fmt_exact s n = strlcpy (exact_words s) n"

definition reset_ran_for :: "reset_entry \<Rightarrow> nat \<Rightarrow> string" where
  "reset_ran_for e n =
     (if \<not> has_flag e RESET_LOG_F_PREV_STATE \<and> \<not> has_flag e RESET_LOG_F_PREV_UPTIME_MIN then strlcpy ''unknown'' n
      else if reset_uptime_is_floor e then fmt_bound (e_prev_uptime_s e) n
      else fmt_exact (unat (e_prev_uptime_s e)) n)"

section \<open>What happened\<close>

definition intended_as :: "reset_entry \<Rightarrow> reset_intent \<Rightarrow> bool" where
  "intended_as e i \<longleftrightarrow> e_intent e = of_nat (intent_code i)"

definition ending_words :: "(rst \<Rightarrow> u8) \<Rightarrow> reset_entry \<Rightarrow> string" where
  "ending_words enum e =
     (let reason = reset_log_reason_name enum (e_reason e) in
      if has_flag e RESET_LOG_F_ROLLBACK then ''rolled back from a failed update''
      else if intended_as e RESET_INTENT_OTA then ''restart for firmware update''
      else if intended_as e RESET_INTENT_WIFI_SAVE then ''restart to apply WiFi settings''
      else if intended_as e RESET_INTENT_WAN_SAVE then ''restart to apply WAN settings''
      else if intended_as e RESET_INTENT_CONSOLE then ''console requested restart''
      else if intended_as e RESET_INTENT_FACTORY_RESET then ''factory reset''
      else if \<not> intended_as e RESET_INTENT_UNKNOWN then
        ''restart on request ('' @ reset_log_intent_name (e_intent e) @ '')''
      else if reason = ''panic'' then ''crashed (panic)''
      else if reason = ''int-wdt'' \<or> reason = ''task-wdt'' \<or> reason = ''other-wdt'' then
        ''watchdog reset - something stopped responding''
      else if reason = ''brownout'' then ''brownout - the supply voltage dipped''
      else if reason = ''power-on'' then
        (if \<not> has_flag e RESET_LOG_F_RAIL_KNOWN then ''power-on or power loss''
         else if has_flag e RESET_LOG_F_RAIL_HELD then ''reset without power cycle''
         else ''cold boot after power loss'')
      else if reason = ''software'' then ''restarted by software, untagged''
      else ''unknown reason (code '' @ decimal (unat (e_reason e)) @ '')'')"

definition reset_what_happened :: "(rst \<Rightarrow> u8) \<Rightarrow> reset_entry \<Rightarrow> nat \<Rightarrow> string" where
  "reset_what_happened enum e n =
     (let out = strlcpy (ending_words enum e) n in
      if has_flag e RESET_LOG_F_PREV_STATE \<and> \<not> has_flag e RESET_LOG_F_REACHED_READY
      then strlcat out '', during startup'' n else out)"

text \<open>\<open>fmt\<close> is \<open>clock_time_format\<close>, which the C library's zone and calendar decide.\<close>

definition boot_tail :: "(u64 \<Rightarrow> string) \<Rightarrow> reset_entry \<Rightarrow> nat \<Rightarrow> string" where
  "boot_tail fmt e n =
     (let boot = decimal (unat (e_boot_seq e)) in
      strlcpy
        (if has_flag e RESET_LOG_F_BOOT_TIME
         then ''now on #'' @ boot @ '' since '' @ strlcpy (fmt (e_boot_epoch e)) CLOCK_TIME_STR_MAX
         else ''now on #'' @ boot) n)"

definition restart_sentence :: "(rst \<Rightarrow> u8) \<Rightarrow> (u64 \<Rightarrow> string) \<Rightarrow> reset_entry \<Rightarrow> string" where
  "restart_sentence enum fmt e =
     (let what = reset_what_happened enum e 64;
          ran = reset_ran_for e 24;
          tail = boot_tail fmt e (CLOCK_TIME_STR_MAX + 40);
          ended = decimal (unat (e_boot_seq e - 1))
      in if e_boot_seq e \<le> 1 then what @ '' - '' @ tail
         else if has_flag e RESET_LOG_F_PREV_STATE then
           what @ '' after '' @ ran @ '' (boot #'' @ ended @ '') - '' @ tail
         else if reset_uptime_is_floor e \<and> e_prev_uptime_s e = 0 then
           what @ '' in under '' @ decimal (reset_log_uptime_ceiling 0) @ '' seconds (boot #'' @ ended @ '') - '' @ tail
         else if reset_uptime_is_floor e then
           what @ '' after more than '' @ drop 1 ran @ '' (boot #'' @ ended @ '') - '' @ tail
         else what @ '' (boot #'' @ ended @ '') - '' @ tail)"

definition describe_reset :: "(rst \<Rightarrow> u8) \<Rightarrow> (u64 \<Rightarrow> string) \<Rightarrow> reset_entry \<Rightarrow> nat \<Rightarrow> string" where
  "describe_reset enum fmt e n = strlcpy (restart_sentence enum fmt e) n"

section \<open>The table\<close>

record reset_row =
  row_boot :: string
  row_what :: string
  row_when :: string
  row_ran :: string
  row_fw :: string

text \<open>The record that says how the boot of row \<open>i\<close> ended: the one above it, if it is the next boot's.\<close>

definition ender :: "reset_entry list \<Rightarrow> nat \<Rightarrow> reset_entry option" where
  "ender recs i =
     (if i > 0 \<and> e_boot_seq (recs ! (i - 1)) = e_boot_seq (recs ! i) + 1 then Some (recs ! (i - 1)) else None)"

definition when_cell :: "bool \<Rightarrow> (u64 \<Rightarrow> string) \<Rightarrow> reset_entry \<Rightarrow> string" where
  "when_cell any_when fmt e =
     (if any_when then
        let t = (if has_flag e RESET_LOG_F_BOOT_TIME then strlcpy (fmt (e_boot_epoch e)) CLOCK_TIME_STR_MAX else ''-'')
        in strlcpy (pad_right (CLOCK_TIME_STR_MAX - 1) t @ '' '') (CLOCK_TIME_STR_MAX + 1)
      else '''')"

text \<open>\<open>us\<close> is the time since boot.\<close>

definition reset_row_of ::
  "(rst \<Rightarrow> u8) \<Rightarrow> (u64 \<Rightarrow> string) \<Rightarrow> nat \<Rightarrow> bool \<Rightarrow> reset_entry list \<Rightarrow> nat \<Rightarrow> reset_row"
where
  "reset_row_of enum fmt us any_when recs i =
     (let e = recs ! i;
          (what, ran) =
            (if i = 0 then (strlcpy ''still running'' 64, fmt_exact (unat (seconds us)) 24)
             else (case ender recs i of
               Some r \<Rightarrow> (reset_what_happened enum r 64, reset_ran_for r 24)
             | None \<Rightarrow> (strlcpy ''unknown'' 64, strlcpy ''unknown'' 24)))
      in \<lparr>row_boot = strlcpy (''#'' @ decimal (unat (e_boot_seq e))) 12, row_what = what,
          row_when = when_cell any_when fmt e, row_ran = ran,
          row_fw = strlcpy (c_text (e_version e) @ '' '' @ c_text (e_part e) @
            (if has_flag e RESET_LOG_F_OTA_PENDING then '' (on trial)'' else '''')) 64\<rparr>)"

definition dated :: "reset_entry \<Rightarrow> bool" where
  "dated e \<longleftrightarrow> has_flag e RESET_LOG_F_BOOT_TIME"

definition row_line :: "reset_row \<Rightarrow> string" where
  "row_line r = pad_right 6 (row_boot r) @ '' '' @ pad_right 46 (row_what r) @ '' '' @ row_when r @
     pad_left 9 (row_ran r) @ ''  '' @ row_fw r"

definition reset_rows :: "(rst \<Rightarrow> u8) \<Rightarrow> (u64 \<Rightarrow> string) \<Rightarrow> nat \<Rightarrow> resets \<Rightarrow> reset_row list" where
  "reset_rows enum fmt us s =
     (let recs = reset_log_get RESET_LOG_MAX_RECORDS s
      in map (reset_row_of enum fmt us (list_ex dated recs) recs) [0..<length recs])"

text \<open>The lines the command prints.\<close>

definition cmd_resets :: "(rst \<Rightarrow> u8) \<Rightarrow> (u64 \<Rightarrow> string) \<Rightarrow> nat \<Rightarrow> resets \<Rightarrow> string list" where
  "cmd_resets enum fmt us s =
     (let recs = reset_log_get RESET_LOG_MAX_RECORDS s; count = length recs;
          any_when = list_ex dated recs;
          any_blank = list_ex (\<lambda>e. \<not> dated e) recs;
          any_floor = list_ex (\<lambda>i. case ender recs i of None \<Rightarrow> False | Some r \<Rightarrow> reset_uptime_is_floor r) [0..<count]
      in if count = 0 then [''No reset history yet.'']
         else
           [row_line \<lparr>row_boot = ''BOOT'', row_what = ''WHAT HAPPENED'',
              row_when = (if any_when then strlcpy (pad_right (CLOCK_TIME_STR_MAX - 1) ''WHEN'' @ '' '') (CLOCK_TIME_STR_MAX + 1) else ''''),
              row_ran = ''RAN FOR'', row_fw = ''FIRMWARE''\<rparr>] @
           map row_line (reset_rows enum fmt us s) @
           (if any_floor then
              ['''', ''A marked figure (\">5m\", \"<10s\") is recovered from the uptime checkpoint'',
               ''in flash after a power event, and is a bound rather than a reading. An'',
               ''unmarked one came exactly from the counter in RTC memory.''] else []) @
           (if any_when \<and> any_blank then
              ['''', ''A \"-\" under WHEN is a boot that never had a clock: no WAN, or a WAN'',
               ''that never reached an NTP server, or a record written before this'',
               ''firmware. The order and the durations are unaffected.''] else []) @
           ['''', decimal count @ '' of '' @ decimal RESET_LOG_MAX_RECORDS @ '' records kept. Ordered first and dated only where the WAN could'',
            ''reach a time server - see \"time\". Kept across factory-reset on purpose.''])"

section \<open>Nothing is cut\<close>

lemma strlcpy_fits: "length s < n \<Longrightarrow> strlcpy s n = s"
  by (simp add: strlcpy_def)

lemma length_strlcpy: "length (strlcpy s n) \<le> n - 1"
  by (simp add: strlcpy_def)

lemma strlcat_fits: "length dst + length src < n \<Longrightarrow> strlcat dst src n = dst @ src"
  by (simp add: strlcat_def)

lemma length_decimal_u32: "length (decimal (unat (w :: u32))) \<le> 10"
proof (rule length_decimal)
  have "unat w < 2 ^ 32" using unsigned_less [of w, where ?'a = nat] by simp
  then show "unat w < 10 ^ 10" by simp
qed simp

lemma length_decimal_u8: "length (decimal (unat (w :: u8))) \<le> 3"
proof (rule length_decimal)
  have "unat w < 2 ^ 8" using unsigned_less [of w, where ?'a = nat] by simp
  then show "unat w < 10 ^ 3" by simp
qed simp

lemma length_intent_name: "length (reset_log_intent_name i) \<le> 13"
  by (simp add: reset_log_intent_name_def)

lemma length_ending_words: "length (ending_words enum e) \<le> 45"
  using length_intent_name [of "e_intent e"] length_decimal_u8 [of "e_reason e"]
  by (simp add: ending_words_def Let_def split: if_split)

lemma what_fits:
  assumes "64 \<le> n"
  shows "reset_what_happened enum e n = reset_what_happened enum e 64 \<and> length (reset_what_happened enum e 64) \<le> 61"
proof -
  have "strlcpy (ending_words enum e) m = ending_words enum e"
    "strlcat (ending_words enum e) '', during startup'' m = ending_words enum e @ '', during startup''" if "64 \<le> m" for m
    using length_ending_words [of enum e] that by (simp_all add: strlcpy_fits strlcat_fits)
  then show ?thesis using length_ending_words [of enum e] assms by (simp add: reset_what_happened_def Let_def)
qed

text \<open>A figure and its unit.\<close>

lemma length_short: "s < 2 ^ 32 \<Longrightarrow> length (decimal (fst (fmt_short s))) \<le> 5 \<and> length (snd (fmt_short s)) = 1"
  unfolding fmt_short_def by (auto intro!: length_decimal simp: div_less_iff_less_mult)

lemma ceiling_0: "reset_log_uptime_ceiling 0 = 10"
  by (simp add: reset_log_uptime_ceiling_def ceiling_for_def k_ckpt_times_def)

lemma bound_fits: "length (fmt_bound f 24) \<le> 7 \<and> (24 \<le> n \<longrightarrow> fmt_bound f n = fmt_bound f 24)"
proof -
  have "unat f < 2 ^ 32" using unsigned_less [of f, where ?'a = nat] by simp
  from length_short [OF this] length_short [of 10] show ?thesis
    by (auto simp: fmt_bound_def ceiling_0 strlcpy_fits split: prod.splits)
qed

lemma length_exact_words: "s < 2 ^ 32 \<Longrightarrow> length (exact_words s) \<le> 12"
proof -
  assume s: "s < 2 ^ 32"
  have "length (decimal (s div 86400)) \<le> 5" "length (decimal (s mod 86400 div 3600)) \<le> 2"
    "length (decimal (s mod 3600 div 60)) \<le> 2" "length (decimal (s mod 60)) \<le> 2"
    using s by (auto intro!: length_decimal simp: div_less_iff_less_mult)
  moreover have "length (decimal (s div 3600)) \<le> 2" if "s < 86400"
    using that by (auto intro!: length_decimal simp: div_less_iff_less_mult)
  moreover have "length (decimal (s div 60)) \<le> 2" if "s < 3600"
    using that by (auto intro!: length_decimal simp: div_less_iff_less_mult)
  moreover have "length (decimal s) \<le> 2" if "s < 60" using that by (auto intro!: length_decimal)
  ultimately show ?thesis
    by (cases "86400 \<le> s"; cases "3600 \<le> s"; cases "60 \<le> s"; simp add: exact_words_def)
qed

lemma exact_fits: "s < 2 ^ 32 \<Longrightarrow> 24 \<le> n \<Longrightarrow> fmt_exact s n = exact_words s"
  using length_exact_words [of s] by (simp add: fmt_exact_def strlcpy_fits)

lemma ran_fits: "length (reset_ran_for e 24) \<le> 12 \<and> (24 \<le> n \<longrightarrow> reset_ran_for e n = reset_ran_for e 24)"
proof -
  have "unat (e_prev_uptime_s e) < 2 ^ 32" using unsigned_less [of "e_prev_uptime_s e", where ?'a = nat] by simp
  then show ?thesis
    using exact_fits [of "unat (e_prev_uptime_s e)"] length_exact_words [of "unat (e_prev_uptime_s e)"]
      bound_fits [of "e_prev_uptime_s e" n]
    by (auto simp: reset_ran_for_def strlcpy_fits)
qed

lemma tail_fits:
  "length (boot_tail fmt e 60) \<le> 44 \<and> (60 \<le> n \<longrightarrow> boot_tail fmt e n = boot_tail fmt e 60)"
  using length_decimal_u32 [of "e_boot_seq e"] length_strlcpy [of "fmt (e_boot_epoch e)" CLOCK_TIME_STR_MAX]
  by (simp add: boot_tail_def Let_def strlcpy_fits)

lemma length_sentence: "length (restart_sentence enum fmt e) \<le> 158"
proof -
  have "length (decimal (reset_log_uptime_ceiling 0)) \<le> 2" unfolding ceiling_0 by (rule length_decimal) simp_all
  moreover note conjunct2 [OF what_fits [of 64 enum e, OF order_refl]] conjunct1 [OF ran_fits [of e 24]]
    conjunct1 [OF tail_fits [of fmt e 60]] length_decimal_u32 [of "e_boot_seq e - 1"]
  ultimately show ?thesis
    unfolding restart_sentence_def Let_def by (simp split: if_split) linarith
qed

section \<open>What a duration says\<close>

text \<open>A printed duration read back: figures with their units.\<close>

definition unit_s :: "char \<Rightarrow> nat" where
  "unit_s c = (if c = CHR ''y'' then 365 * 86400 else if c = CHR ''d'' then 86400 else if c = CHR ''h'' then 3600
     else if c = CHR ''m'' then 60 else 1)"

definition read_figure :: "string \<Rightarrow> nat \<times> string" where
  "read_figure s = (case strtoul10 s of (v, u) \<Rightarrow> (v * unit_s (hd u), drop 2 u))"

definition read_duration :: "string \<Rightarrow> nat" where
  "read_duration s = (case read_figure s of (v, r) \<Rightarrow> v + (if r = '''' then 0 else fst (read_figure r)))"

lemma read_figure: "v < 2 ^ 32 \<Longrightarrow> \<not> digit u \<Longrightarrow> read_figure (decimal v @ u # r) = (v * unit_s u, drop 1 r)"
  by (simp add: read_figure_def strtoul10_decimal)

lemma units: "\<not> digit (CHR ''y'')" "\<not> digit (CHR ''d'')" "\<not> digit (CHR ''h'')" "\<not> digit (CHR ''m'')" "\<not> digit (CHR ''s'')"
  "unit_s (CHR ''y'') = 365 * 86400" "unit_s (CHR ''d'') = 86400" "unit_s (CHR ''h'') = 3600" "unit_s (CHR ''m'') = 60"
  "unit_s (CHR ''s'') = 1"
  by (simp_all add: digit_def unit_s_def)

text \<open>The second unit of an exact figure: what it is rounded down to.\<close>

definition grain :: "nat \<Rightarrow> nat" where
  "grain s = (if s \<ge> 86400 then 3600 else if s \<ge> 3600 then 60 else 1)"

lemma read_exact:
  assumes "s < 2 ^ 32"
  shows "read_duration (exact_words s) = s - s mod grain s"
proof -
  have b: "s div 86400 < 2 ^ 32" "s mod 86400 div 3600 < 2 ^ 32" "s div 3600 < 2 ^ 32" "s mod 3600 div 60 < 2 ^ 32"
    "s div 60 < 2 ^ 32" "s mod 60 < 2 ^ 32" "s mod 86400 < 86400" "s mod 3600 < 3600"
    using assms by auto
  have m: "s mod 86400 mod 3600 = s mod 3600" "s mod 3600 mod 60 = s mod 60"
    by (simp_all add: mod_mod_cancel)
  have r: "x div k * k = x - x mod k" for x k :: nat by (simp add: minus_mod_eq_div_mult)
  have "read_duration (exact_words s) =
      (if s \<ge> 86400 then s div 86400 * 86400 + s mod 86400 div 3600 * 3600
       else if s \<ge> 3600 then s div 3600 * 3600 + s mod 3600 div 60 * 60
       else s)"
    using b assms unfolding exact_words_def read_duration_def
    by (auto simp: read_figure units read_figure [where r = "[]"])
  moreover have "s mod 3600 \<le> s mod 86400" "s mod 60 \<le> s mod 3600" "s mod 86400 \<le> s" "s mod 3600 \<le> s"
    using mod_less_eq_dividend [of "s mod 86400" 3600] mod_less_eq_dividend [of "s mod 3600" 60] m by simp_all
  ultimately show ?thesis unfolding r grain_def m by auto
qed

lemma read_short:
  assumes "s < 2 ^ 32" "fmt_short s = (v, u)"
  shows "read_duration (decimal v @ u) \<le> s"
proof -
  have v: "v < 2 ^ 32" using assms by (auto simp: fmt_short_def split: if_splits)
  then show ?thesis
    using assms(2) by (auto simp: fmt_short_def read_duration_def read_figure units split: if_splits)
qed

text \<open>What a bound claims of an uptime it was recorded for.\<close>

lemma bound_says:
  assumes "unat f \<le> up" "up < reset_log_uptime_ceiling f \<or> reset_log_uptime_ceiling f = 0 \<and> 365 * 86400 \<le> up"
  shows "fmt_bound f 24 = ''<10s'' \<and> up < 10 \<or> (\<exists>t. fmt_bound f 24 = CHR ''>'' # t \<and> read_duration t \<le> up)"
proof (cases "f = 0")
  case True
  moreover have "char_of (49 :: nat) = CHR ''1''" "char_of (48 :: nat) = CHR ''0''"
    by (simp_all add: char_of_eq_iff)
  ultimately have "fmt_bound f 24 = ''<10s''"
    by (simp add: fmt_bound_def ceiling_0 fmt_short_def decimal.simps [of 10] decimal.simps [of "Suc 0"] strlcpy_def)
  then show ?thesis using assms(2) True by (simp add: ceiling_0)
next
  case False
  have f: "unat f < 2 ^ 32" using unsigned_less [of f, where ?'a = nat] by simp
  obtain v u where v: "fmt_short (unat f) = (v, u)" by fastforce
  have "fmt_bound f 24 = CHR ''>'' # decimal v @ u"
    using length_short [OF f] v False by (simp add: fmt_bound_def strlcpy_fits)
  then show ?thesis using read_short [OF f v] assms(1) by fastforce
qed

section \<open>Properties\<close>

text \<open>
  No line of the reset history is cut: with larger buffers for the sentence, the ending, the duration and
  the clause about the new boot, the commands would print the same, for any record whatsoever.
\<close>

theorem restart_line_whole:
  "reset_what_happened enum e (64 + n) = reset_what_happened enum e 64 \<and>
   reset_ran_for e (24 + n) = reset_ran_for e 24 \<and>
   boot_tail fmt e (CLOCK_TIME_STR_MAX + 40 + n) = boot_tail fmt e (CLOCK_TIME_STR_MAX + 40) \<and>
   describe_reset enum fmt e (192 + n) = describe_reset enum fmt e 192"
  using what_fits [of "64 + n" enum e] ran_fits [of e "24 + n"] tail_fits [of fmt e "60 + n"]
    length_sentence [of enum fmt e]
  by (simp add: describe_reset_def strlcpy_fits)


text \<open>The row of a boot whose record is second from the top.\<close>

lemma second_row:
  assumes "reset_log_get RESET_LOG_MAX_RECORDS s = e # f # es" "e_boot_seq e = e_boot_seq f + 1"
  shows "\<exists>r. reset_rows enum fmt us s ! 1 = r \<and> row_boot r = ''#'' @ decimal (unat (e_boot_seq f)) \<and>
    row_what r = reset_what_happened enum e 64 \<and> row_ran r = reset_ran_for e 24"
proof -
  have "reset_rows enum fmt us s ! 1 = reset_row_of enum fmt us (list_ex dated (e # f # es)) (e # f # es) 1"
    unfolding reset_rows_def Let_def assms(1) by (subst nth_map) (simp_all del: upt_Suc)
  then show ?thesis
    using assms(2) length_decimal_u32 [of "e_boot_seq f"]
    by (simp add: reset_row_of_def ender_def Let_def strlcpy_fits)
qed




end
