(* ===== verification/WanPorts.thy ===== *)
theory WanPorts
  imports CStrings Nvs
begin

text \<open>
  The WAN configuration of \<open>main/wan_cfg.c\<close>: its text form (parser and formatter of the port list),
  its validation, and its form in flash. A C string is the list of its characters before the NUL.
  Flash (ESP-IDF's NVS) is the record of what its keys hold; what each NVS call answers is an
  argument.
\<close>

section \<open>Data\<close>

abbreviation WAN_CFG_MAX_PORTS :: nat where "WAN_CFG_MAX_PORTS \<equiv> 12"
abbreviation WAN_CFG_SSID_MAX_LEN :: nat where "WAN_CFG_SSID_MAX_LEN \<equiv> 33"
abbreviation WAN_CFG_PASSWORD_MAX_LEN :: nat where "WAN_CFG_PASSWORD_MAX_LEN \<equiv> 64"
abbreviation WAN_CFG_PORTS_STR_MAX :: nat where "WAN_CFG_PORTS_STR_MAX \<equiv> 10 * WAN_CFG_MAX_PORTS + 1"
abbreviation WAN_PROTO_TCP :: u8 where "WAN_PROTO_TCP \<equiv> 0"
abbreviation WAN_PROTO_UDP :: u8 where "WAN_PROTO_UDP \<equiv> 1"

record wan_port_rule =
  r_port :: u16
  r_proto :: u8

text \<open>\<open>ports\<close> and \<open>nports\<close> together are the list of the rules.\<close>

record wan_cfg =
  w_enabled :: bool
  w_ssid :: string
  w_password :: string
  w_ports :: "wan_port_rule list"

definition k_default_ports :: "wan_port_rule list" where
  "k_default_ports =
     [\<lparr>r_port = 2101, r_proto = WAN_PROTO_TCP\<rparr>, \<lparr>r_port = 2102, r_proto = WAN_PROTO_TCP\<rparr>,
      \<lparr>r_port = 21115, r_proto = WAN_PROTO_TCP\<rparr>, \<lparr>r_port = 21116, r_proto = WAN_PROTO_TCP\<rparr>,
      \<lparr>r_port = 21116, r_proto = WAN_PROTO_UDP\<rparr>, \<lparr>r_port = 21117, r_proto = WAN_PROTO_TCP\<rparr>]"

definition wan_cfg_default_ports :: "wan_port_rule list" where
  "wan_cfg_default_ports = k_default_ports"

section \<open>The text form\<close>

text \<open>The messages of the parser and of the validation, in the order the code has them.\<close>

datatype wan_error =
  NumbersExpected | PortOutOfRange | BadProtocol | TooManyRules | ListedTwice
| BadSsid | BadPassword | NoPorts

definition blank :: "char \<Rightarrow> bool" where
  "blank c \<longleftrightarrow> c = CHR '' '' \<or> c = CHR 0x09"

definition skip_blanks :: "string \<Rightarrow> string" where
  "skip_blanks p = dropWhile blank p"

definition parse_proto :: "string \<Rightarrow> wan_error + u8 \<times> string" where
  "parse_proto p =
     (case p of
        CHR ''/'' # q \<Rightarrow>
          if take 3 q = ''tcp'' then Inr (WAN_PROTO_TCP, drop 3 q)
          else if take 3 q = ''udp'' then Inr (WAN_PROTO_UDP, drop 3 q)
          else Inl BadProtocol
      | _ \<Rightarrow> Inr (WAN_PROTO_TCP, p))"

text \<open>One entry, from the head of the loop to the increment of \<open>n\<close>.\<close>

definition parse_entry :: "string \<Rightarrow> wan_port_rule list \<Rightarrow> wan_error + wan_port_rule list \<times> string" where
  "parse_entry p out =
     (let p = skip_blanks p in
      if p = [] \<or> \<not> digit (hd p) then Inl NumbersExpected
      else let (v, e) = strtoul10 p in
        if v = 0 \<or> v > 65535 then Inl PortOutOfRange
        else case parse_proto e of
               Inl err \<Rightarrow> Inl err
             | Inr (proto, p) \<Rightarrow>
                 if length out \<ge> WAN_CFG_MAX_PORTS then Inl TooManyRules
                 else if list_ex (\<lambda>r. r_port r = of_nat v \<and> r_proto r = proto) out then Inl ListedTwice
                 else Inr (out @ [\<lparr>r_port = of_nat v, r_proto = proto\<rparr>], p))"

lemma length_parse_proto: "parse_proto p = Inr (proto, q) \<Longrightarrow> length q \<le> length p"
  by (auto simp: parse_proto_def split: list.splits char.splits bool.splits if_splits)

lemma length_parse_entry:
  assumes "parse_entry p out = Inr (out', q)"
  shows "length q < length p"
proof -
  let ?p = "skip_blanks p"
  have ok: "?p \<noteq> []" "digit (hd ?p)" using assms by (auto simp: parse_entry_def Let_def split: if_splits)
  obtain v e where ve: "strtoul10 ?p = (v, e)" by (cases "strtoul10 ?p")
  with assms ok obtain proto where "parse_proto e = Inr (proto, q)"
    by (auto simp: parse_entry_def Let_def split: if_splits sum.splits prod.splits)
  from length_parse_proto [OF this] length_strtoul10 [OF ok] ve have "length q < length ?p" by simp
  then show ?thesis by (simp add: skip_blanks_def) (meson length_dropWhile_le less_le_trans)
qed

function parse_from :: "string \<Rightarrow> wan_port_rule list \<Rightarrow> wan_error + wan_port_rule list" where
  "parse_from p out =
     (case parse_entry p out of
        Inl err \<Rightarrow> Inl err
      | Inr (out, q) \<Rightarrow>
          (case skip_blanks q of
             [] \<Rightarrow> Inr out
           | c # q' \<Rightarrow> if c \<noteq> CHR '','' then Inl NumbersExpected else parse_from q' out))"
  by pat_completeness auto

termination
proof (relation "measure (length \<circ> fst)")
  fix p :: string and out b x out' q c q'
  assume "parse_entry p out = Inr b" "(out', q) = b" "skip_blanks q = c # q'"
  then have "length q < length p" "length (c # q') \<le> length q"
    using length_parse_entry [of p out out' q] length_dropWhile_le [of blank q] by (simp_all add: skip_blanks_def)
  then show "((q', out'), (p, out)) \<in> measure (length \<circ> fst)" by simp
qed simp

declare parse_from.simps [simp del]

definition wan_cfg_parse_ports :: "string \<Rightarrow> wan_error + wan_port_rule list" where
  "wan_cfg_parse_ports csv = (if skip_blanks csv = [] then Inr [] else parse_from (skip_blanks csv) [])"

definition format_rule :: "wan_port_rule \<Rightarrow> string" where
  "format_rule r = decimal (unat (r_port r)) @ (if r_proto r = WAN_PROTO_UDP then ''/udp'' else '''')"

fun ports_text :: "wan_port_rule list \<Rightarrow> string" where
  "ports_text [] = ''''"
| "ports_text [r] = format_rule r"
| "ports_text (r # rs) = format_rule r @ '','' @ ports_text rs"

text \<open>Each \<open>snprintf\<close> writes what still fits in front of a NUL; the result is the text and its length.\<close>

definition wan_cfg_format_ports :: "wan_cfg \<Rightarrow> nat \<Rightarrow> string \<times> nat" where
  "wan_cfg_format_ports cfg outsz =
     (let t = ports_text (w_ports cfg) in
      (take (outsz - 1) t, if outsz > 0 \<and> length t \<ge> outsz then outsz - 1 else length t))"

section \<open>Validation\<close>

fun ports_error :: "wan_port_rule list \<Rightarrow> wan_port_rule list \<Rightarrow> wan_error option" where
  "ports_error before [] = None"
| "ports_error before (r # rs) =
     (if r_port r = 0 then Some PortOutOfRange
      else if r_proto r \<noteq> WAN_PROTO_TCP \<and> r_proto r \<noteq> WAN_PROTO_UDP then Some BadProtocol
      else if list_ex (\<lambda>b. r_port r = r_port b \<and> r_proto r = r_proto b) before then Some ListedTwice
      else ports_error (before @ [r]) rs)"

definition wan_cfg_validate :: "wan_cfg \<Rightarrow> wan_error option" where
  "wan_cfg_validate cfg =
     (if \<not> w_enabled cfg then None
      else if length (w_ssid cfg) = 0 \<or> length (w_ssid cfg) > WAN_CFG_SSID_MAX_LEN - 1 then Some BadSsid
      else if length (w_password cfg) \<noteq> 0 \<and>
              (length (w_password cfg) < 8 \<or> length (w_password cfg) > WAN_CFG_PASSWORD_MAX_LEN - 1)
      then Some BadPassword
      else if length (w_ports cfg) = 0 then Some NoPorts
      else if length (w_ports cfg) > WAN_CFG_MAX_PORTS then Some TooManyRules
      else ports_error [] (w_ports cfg))"

section \<open>Flash\<close>

record wan_nvs =
  n_enabled :: "u8 option"
  n_ssid :: "string option"
  n_password :: "string option"
  n_ports :: "u8 list option"

text \<open>\<open>sizeof(wan_port_rule_t)\<close> is 4: the port, the protocol and a byte of padding, written as zero.\<close>

definition rule_bytes :: "wan_port_rule \<Rightarrow> u8 list" where
  "rule_bytes r = bytes_of_u16 (r_port r) @ [r_proto r, 0]"

definition rule_of_bytes :: "u8 list \<Rightarrow> wan_port_rule" where
  "rule_of_bytes bs = \<lparr>r_port = u16_at bs 0, r_proto = bs ! 2\<rparr>"

fun rules_of_blob :: "u8 list \<Rightarrow> wan_port_rule list" where
  "rules_of_blob (a # b # c # d # bs) = rule_of_bytes [a, b, c, d] # rules_of_blob bs"
| "rules_of_blob _ = []"

definition load_wan_from_nvs :: "wan_nvs option \<Rightarrow> wan_cfg" where
  "load_wan_from_nvs nvs =
     (case nvs of
        None \<Rightarrow> \<lparr>w_enabled = False, w_ssid = '''', w_password = '''', w_ports = wan_cfg_default_ports\<rparr>
      | Some n \<Rightarrow>
          \<lparr>w_enabled = (case n_enabled n of Some v \<Rightarrow> v \<noteq> 0 | None \<Rightarrow> False),
           w_ssid = nvs_str WAN_CFG_SSID_MAX_LEN (n_ssid n),
           w_password = nvs_str WAN_CFG_PASSWORD_MAX_LEN (n_password n),
           w_ports =
             (case n_ports n of
                Some blob \<Rightarrow>
                  if length blob > 0 \<and> length blob \<le> 4 * WAN_CFG_MAX_PORTS \<and> length blob mod 4 = 0
                  then rules_of_blob blob else wan_cfg_default_ports
              | None \<Rightarrow> wan_cfg_default_ports)\<rparr>)"

record wan_store =
  ws_nvs :: "wan_nvs option"
  ws_cache :: "wan_cfg option"

definition wan_cfg_get :: "wan_store \<Rightarrow> wan_cfg \<times> wan_store" where
  "wan_cfg_get s =
     (case ws_cache s of
        Some c \<Rightarrow> (c, s)
      | None \<Rightarrow> let c = load_wan_from_nvs (ws_nvs s) in (c, s\<lparr>ws_cache := Some c\<rparr>))"

definition nvs_of :: "wan_cfg \<Rightarrow> wan_nvs" where
  "nvs_of cfg =
     \<lparr>n_enabled = Some (if w_enabled cfg then 1 else 0), n_ssid = Some (w_ssid cfg),
      n_password = Some (w_password cfg), n_ports = Some (concat (map rule_bytes (w_ports cfg)))\<rparr>"

text \<open>\<open>answers\<close> is what open, the four sets and the commit return, \<open>torn\<close> what a failed save leaves in flash.\<close>

definition wan_cfg_save :: "int list \<Rightarrow> wan_nvs option \<Rightarrow> wan_cfg \<Rightarrow> wan_store \<Rightarrow> int \<times> wan_store" where
  "wan_cfg_save answers torn cfg s =
     (let err = first_failure answers in
      if err \<noteq> 0 then (err, s\<lparr>ws_nvs := torn\<rparr>)
      else (0, s\<lparr>ws_nvs := Some (nvs_of cfg), ws_cache := Some cfg\<rparr>))"

section \<open>Reading back what was printed\<close>

lemma not_digit [simp]: "\<not> digit (CHR ''/'')" "\<not> digit (CHR '','')" "\<not> blank (CHR ''/'')" "\<not> blank (CHR '','')"
  by (simp_all add: digit_def blank_def)

lemma digit_not_blank: "digit c \<Longrightarrow> \<not> blank c"
  by (auto simp: digit_def blank_def)

definition rule_ok :: "wan_port_rule \<Rightarrow> bool" where
  "rule_ok r \<longleftrightarrow> r_port r \<noteq> 0 \<and> (r_proto r = WAN_PROTO_TCP \<or> r_proto r = WAN_PROTO_UDP)"

definition rules_ok :: "wan_port_rule list \<Rightarrow> bool" where
  "rules_ok rs \<longleftrightarrow> length rs \<le> WAN_CFG_MAX_PORTS \<and> list_all rule_ok rs \<and> distinct rs"

lemma skip_blanks_digit: "p \<noteq> [] \<Longrightarrow> digit (hd p) \<Longrightarrow> skip_blanks p = p"
  by (cases p) (auto simp: skip_blanks_def digit_not_blank)

lemma skip_format_rule [simp]: "skip_blanks (format_rule r @ q) = format_rule r @ q"
  by (intro skip_blanks_digit) (simp_all add: format_rule_def)

lemma parse_proto_format:
  assumes "r_proto r = WAN_PROTO_TCP \<or> r_proto r = WAN_PROTO_UDP" "q = [] \<or> hd q = CHR '',''"
  shows "parse_proto ((if r_proto r = WAN_PROTO_UDP then ''/udp'' else '''') @ q) = Inr (r_proto r, q)"
  using assms by (cases q) (auto simp: parse_proto_def)

lemma rule_eq_iff: "r = s \<longleftrightarrow> r_port r = r_port s \<and> r_proto r = r_proto (s :: wan_port_rule)"
  by (cases r; cases s) simp

lemma parse_entry_format:
  assumes r: "rule_ok r" and q: "q = [] \<or> hd q = CHR '',''" and l: "length out < 12" and d: "r \<notin> set out"
  shows "parse_entry (format_rule r @ q) out = Inr (out @ [r], q)"
proof -
  let ?s = "(if r_proto r = WAN_PROTO_UDP then ''/udp'' else '''') @ q"
  have f: "format_rule r @ q = decimal (unat (r_port r)) @ ?s" by (simp add: format_rule_def)
  have s: "?s = [] \<or> \<not> digit (hd ?s)" using q by (cases q) auto
  have u: "unat (r_port r) < 65536" using unsigned_less [of "r_port r"] by simp
  have "unat (r_port r) < 2 ^ 32" using u by simp
  note st = strtoul10_decimal [OF this s]
  have hd: "format_rule r @ q \<noteq> []" "digit (hd (format_rule r @ q))" unfolding f by simp_all
  have v: "unat (r_port r) \<noteq> 0" using r by (simp add: rule_ok_def unat_eq_0)
  have p: "parse_proto ?s = Inr (r_proto r, q)"
    using parse_proto_format [of r, OF _ q] r by (simp add: rule_ok_def)
  have "x = r" if "r_port x = r_port r" "r_proto x = r_proto r" for x :: wan_port_rule
    using that by (simp only: rule_eq_iff [of x r])
  then have "\<not> list_ex (\<lambda>x. r_port x = r_port r \<and> r_proto x = r_proto r) out"
    using d unfolding list_ex_iff by blast
  moreover have "\<lparr>r_port = r_port r, r_proto = r_proto r\<rparr> = r" by simp
  ultimately show ?thesis
    using hd v u l st p unfolding parse_entry_def skip_format_rule Let_def by (simp add: f)
qed

lemma ports_text_Cons: "ports_text (r # rs) = format_rule r @ (if rs = [] then [] else '','' @ ports_text rs)"
  by (cases rs) simp_all

lemma parse_from_text:
  assumes "rs \<noteq> []" "list_all rule_ok rs" "distinct (out @ rs)" "length (out @ rs) \<le> 12"
  shows "parse_from (ports_text rs) out = Inr (out @ rs)"
  using assms
proof (induction rs arbitrary: out)
  case (Cons r rs)
  let ?q = "if rs = [] then [] else '','' @ ports_text rs"
  have e: "parse_entry (ports_text (r # rs)) out = Inr (out @ [r], ?q)"
    unfolding ports_text_Cons using Cons.prems by (intro parse_entry_format) auto
  show ?case
  proof (cases "rs = []")
    case True
    then show ?thesis by (subst parse_from.simps) (use e in \<open>simp add: skip_blanks_def\<close>)
  next
    case False
    then have "parse_from (ports_text rs) (out @ [r]) = Inr ((out @ [r]) @ rs)"
      using Cons.prems by (intro Cons.IH) auto
    then show ?thesis using False by (subst parse_from.simps) (use e in \<open>simp add: skip_blanks_def\<close>)
  qed
qed simp

lemma parse_format: "rules_ok rs \<Longrightarrow> wan_cfg_parse_ports (ports_text rs) = Inr rs"
proof (cases rs)
  case Nil
  then show ?thesis by (simp add: wan_cfg_parse_ports_def skip_blanks_def)
next
  case (Cons r rs')
  assume ok: "rules_ok rs"
  have "skip_blanks (ports_text rs) = ports_text rs" unfolding Cons ports_text_Cons by simp
  moreover have "ports_text rs \<noteq> []" unfolding Cons ports_text_Cons by (simp add: format_rule_def)
  ultimately show ?thesis
    using parse_from_text [of rs "[]"] ok Cons by (simp add: wan_cfg_parse_ports_def rules_ok_def)
qed

section \<open>What the parser accepts\<close>

lemma parse_entry_ok:
  assumes "parse_entry p out = Inr (out', q)" "rules_ok out"
  shows "rules_ok out'"
proof -
  let ?p = "skip_blanks p"
  obtain v e where ve: "strtoul10 ?p = (v, e)" by (cases "strtoul10 ?p")
  with assms(1) obtain proto where p: "parse_proto e = Inr (proto, q)" "v \<noteq> 0" "v \<le> 65535" "length out < 12"
    "\<not> list_ex (\<lambda>r. r_port r = of_nat v \<and> r_proto r = proto) out" "out' = out @ [\<lparr>r_port = of_nat v, r_proto = proto\<rparr>]"
    by (auto simp: parse_entry_def Let_def not_le split: if_splits sum.splits prod.splits)
  have "unat (of_nat v :: u16) = v" using p(3) by (intro unat_of_nat_eq) simp
  then have "(of_nat v :: u16) \<noteq> 0" using p(2) by (metis unat_0)
  moreover have "proto = WAN_PROTO_TCP \<or> proto = WAN_PROTO_UDP"
    using p(1) by (auto simp: parse_proto_def split: list.splits char.splits bool.splits if_splits)
  moreover have "\<lparr>r_port = of_nat v, r_proto = proto\<rparr> \<notin> set out"
    using p(5) by (auto simp: list_ex_iff)
  ultimately show ?thesis using assms(2) p(4,6) by (simp add: rules_ok_def rule_ok_def)
qed

lemma parse_from_ok: "parse_from p out = Inr rs \<Longrightarrow> rules_ok out \<Longrightarrow> rules_ok rs"
proof (induction p out rule: parse_from.induct)
  case (1 p out)
  obtain out' q where e: "parse_entry p out = Inr (out', q)"
    using "1.prems"(1) by (subst (asm) parse_from.simps) (auto split: sum.splits)
  have ok: "rules_ok out'" by (rule parse_entry_ok [OF e "1.prems"(2)])
  show ?case
  proof (cases "skip_blanks q")
    case Nil
    then show ?thesis using "1.prems"(1) e ok by (subst (asm) parse_from.simps) simp
  next
    case (Cons c q')
    have "c = CHR '','' \<and> parse_from q' out' = Inr rs"
      using "1.prems"(1) e Cons by (subst (asm) parse_from.simps) (simp split: if_splits)
    then show ?thesis using "1.IH" [OF e refl Cons] ok by simp
  qed
qed

lemma parse_ok: "wan_cfg_parse_ports csv = Inr rs \<Longrightarrow> rules_ok rs"
  using parse_from_ok [of "skip_blanks csv" "[]" rs]
  by (auto simp: wan_cfg_parse_ports_def rules_ok_def split: if_splits)

lemma ports_error_ok:
  "list_all rule_ok rs \<Longrightarrow> distinct (before @ rs) \<Longrightarrow> ports_error before rs = None"
proof (induction before rs rule: ports_error.induct)
  case (2 before r rs)
  have "\<not> list_ex (\<lambda>b. r_port r = r_port b \<and> r_proto r = r_proto b) before"
  proof
    assume "list_ex (\<lambda>b. r_port r = r_port b \<and> r_proto r = r_proto b) before"
    then obtain b where "b \<in> set before" "r_port r = r_port b" "r_proto r = r_proto b" by (auto simp: list_ex_iff)
    moreover from this(2,3) have "r = b" by (simp only: rule_eq_iff [of r b])
    ultimately have "r \<in> set before" by simp
    then show False using "2.prems"(2) by simp
  qed
  then show ?case using 2 by (auto simp: rule_ok_def)
qed simp

section \<open>How long the text is\<close>

lemma length_format_rule: "length (format_rule r) \<le> 9"
proof -
  have "unat (r_port r) < 65536" using unsigned_less [of "r_port r"] by simp
  then have "length (decimal (unat (r_port r))) \<le> 5" by (intro length_decimal) simp_all
  then show ?thesis by (simp add: format_rule_def)
qed

lemma length_ports_text: "length (ports_text rs) \<le> 10 * length rs"
proof (induction rs rule: ports_text.induct)
  case (2 r)
  then show ?case using length_format_rule [of r] by simp
next
  case (3 r s rs)
  then show ?case using length_format_rule [of r] by simp
qed simp

text \<open>C27: The port list survives its text form: a list of at most twelve distinct rules with real ports and
  protocols is printed, within the buffer size the header promises is always enough, as a text from
  which the parser reads exactly the list back.\<close>

theorem ports_roundtrip:
  assumes "rules_ok (w_ports cfg)"
  shows "let (text, n) = wan_cfg_format_ports cfg WAN_CFG_PORTS_STR_MAX in
    wan_cfg_parse_ports text = Inr (w_ports cfg) \<and> n = length text \<and> n < WAN_CFG_PORTS_STR_MAX"
proof -
  have "length (ports_text (w_ports cfg)) < 121"
    using length_ports_text [of "w_ports cfg"] assms by (simp add: rules_ok_def)
  then show ?thesis
    using parse_format [OF assms] by (simp add: wan_cfg_format_ports_def Let_def)
qed

lemma ports_roundtrip_witness:
  "let cfg = \<lparr>w_enabled = True, w_ssid = ''x'', w_password = '''', w_ports = k_default_ports\<rparr>;
       (text, n) = wan_cfg_format_ports cfg WAN_CFG_PORTS_STR_MAX
   in n < WAN_CFG_PORTS_STR_MAX \<and> wan_cfg_parse_ports text = Inr k_default_ports"
proof -
  let ?cfg = "\<lparr>w_enabled = True, w_ssid = ''x'', w_password = '''', w_ports = k_default_ports\<rparr>"
  have "rules_ok (w_ports ?cfg)" by (simp add: k_default_ports_def rules_ok_def rule_ok_def)
  from ports_roundtrip [OF this] show ?thesis by (simp add: split_beta Let_def)
qed

section \<open>Across a restart\<close>

lemma rules_of_rule_bytes: "rules_of_blob (concat (map rule_bytes rs)) = rs"
proof (induction rs)
  case (Cons r rs)
  obtain a b where ab: "bytes_of_u16 (r_port r) = [a, b]" by (simp add: bytes_of_u16_def)
  have "u16_at (bytes_of_u16 (r_port r) @ [r_proto r, 0]) 0 = r_port r" by simp
  then show ?case using Cons by (simp add: rule_bytes_def rule_of_bytes_def ab)
qed simp

lemma length_rule_bytes: "length (concat (map rule_bytes rs)) = 4 * length rs"
  by (induction rs) (simp_all add: rule_bytes_def bytes_of_u16_def)

text \<open>A configuration that can be stored: the strings fit their buffers.\<close>

definition storable :: "wan_cfg \<Rightarrow> bool" where
  "storable cfg \<longleftrightarrow>
     length (w_ssid cfg) < WAN_CFG_SSID_MAX_LEN \<and> length (w_password cfg) < WAN_CFG_PASSWORD_MAX_LEN \<and>
     length (w_ports cfg) \<le> WAN_CFG_MAX_PORTS"

definition reboot_wan :: "wan_store \<Rightarrow> wan_store" where
  "reboot_wan s = s\<lparr>ws_cache := None\<rparr>"

lemma length_rules_of_blob: "length (rules_of_blob bs) = length bs div 4"
  by (induction bs rule: rules_of_blob.induct) simp_all

lemma load_bounded: "length (w_ports (load_wan_from_nvs nvs)) \<le> WAN_CFG_MAX_PORTS \<and>
    length (w_ssid (load_wan_from_nvs nvs)) < WAN_CFG_SSID_MAX_LEN \<and>
    length (w_password (load_wan_from_nvs nvs)) < WAN_CFG_PASSWORD_MAX_LEN"
  by (auto simp: load_wan_from_nvs_def nvs_str_def wan_cfg_default_ports_def k_default_ports_def length_rules_of_blob
      split: option.split)

text \<open>What is saved is what runs after a restart: when every NVS call succeeds the next boot reads back
  exactly the configuration, with one exception, an empty port list, which comes back as the
  compiled-in default list; when one fails the running configuration is the one before. Whatever
  flash holds (nothing, another firmware's blob, a torn one), a boot gets at most twelve rules.\<close>

theorem wan_cfg_survives_restart:
  assumes "storable cfg"
  shows "let (err, s') = wan_cfg_save answers torn cfg s; booted = fst (wan_cfg_get (reboot_wan s')) in
    (err = 0 \<longleftrightarrow> list_all (\<lambda>e. e = 0) answers) \<and>
    (if err = 0 then fst (wan_cfg_get s') = cfg \<and>
        booted = (if w_ports cfg = [] then cfg\<lparr>w_ports := k_default_ports\<rparr> else cfg)
     else ws_cache s' = ws_cache s) \<and>
    length (w_ports booted) \<le> WAN_CFG_MAX_PORTS"
proof -
  have f: "first_failure answers = 0 \<longleftrightarrow> list_all (\<lambda>e. e = 0) answers"
    by (rule first_failure_none)
  have "load_wan_from_nvs (Some (nvs_of cfg)) = (if w_ports cfg = [] then cfg\<lparr>w_ports := k_default_ports\<rparr> else cfg)"
    using assms by (simp add: load_wan_from_nvs_def nvs_of_def nvs_str_def storable_def length_rule_bytes
      rules_of_rule_bytes wan_cfg_default_ports_def)
  then show ?thesis
    using f load_bounded by (simp add: wan_cfg_save_def wan_cfg_get_def reboot_wan_def Let_def)
qed

lemma wan_cfg_survives_restart_witness:
  "let cfg = \<lparr>w_enabled = True, w_ssid = ''hotspot'', w_password = '''', w_ports = k_default_ports\<rparr>;
       (err, s') = wan_cfg_save [0, 0, 0, 0, 0, 0] None cfg \<lparr>ws_nvs = None, ws_cache = None\<rparr>
   in storable cfg \<and> err = 0 \<and> fst (wan_cfg_get (reboot_wan s')) = cfg"
proof -
  let ?cfg = "\<lparr>w_enabled = True, w_ssid = ''hotspot'', w_password = '''', w_ports = k_default_ports\<rparr>"
  have s: "storable ?cfg" by (simp add: storable_def k_default_ports_def)
  from wan_cfg_survives_restart [OF s, of "[0, 0, 0, 0, 0, 0]" None "\<lparr>ws_nvs = None, ws_cache = None\<rparr>"] s
  show ?thesis by (simp add: split_beta Let_def k_default_ports_def)
qed

end
