(* ===== verification/SyslogCfg.thy ===== *)
theory SyslogCfg
  imports CStrings Nvs
begin

text \<open>
  The settings of the log sender (\<open>main/syslog_cfg.c\<close>): the cache, its form in flash, the generation
  counter that tells the sender of a change, and the validation.
\<close>

section \<open>State\<close>

abbreviation SYSLOG_CFG_HOSTNAME_MAX_LEN :: nat where "SYSLOG_CFG_HOSTNAME_MAX_LEN \<equiv> 33"
abbreviation SYSLOG_CFG_DEFAULT_PORT :: u16 where "SYSLOG_CFG_DEFAULT_PORT \<equiv> 514"
abbreviation SYSLOG_CFG_DEFAULT_FACILITY :: u8 where "SYSLOG_CFG_DEFAULT_FACILITY \<equiv> 23"
abbreviation SYSLOG_CFG_DEFAULT_SEVERITY :: u8 where "SYSLOG_CFG_DEFAULT_SEVERITY \<equiv> 7"

record syslog_cfg =
  y_enabled :: bool
  y_server_ip :: u32
  y_port :: u16
  y_facility :: u8
  y_min_severity :: u8
  y_hostname :: string

record syslog_nvs =
  yn_enabled :: "u8 option"
  yn_ip :: "u32 option"
  yn_port :: "u16 option"
  yn_fac :: "u8 option"
  yn_sev :: "u8 option"
  yn_host :: "string option"

record syslog_store =
  y_nvs :: "syslog_nvs option"
  y_cache :: "syslog_cfg option"
  y_generation :: u32

section \<open>Operations\<close>

definition hex_digit :: "nat \<Rightarrow> char" where
  "hex_digit n = char_of (if n < 10 then 48 + n else 87 + n)"

definition hex2 :: "u8 \<Rightarrow> string" where
  "hex2 b = [hex_digit (unat b div 16), hex_digit (unat b mod 16)]"

text \<open>The hardware address is what \<open>esp_read_mac\<close> gave, if it did.\<close>

definition syslog_cfg_default_hostname :: "mac option \<Rightarrow> string" where
  "syslog_cfg_default_hostname m =
     (case m of
        None \<Rightarrow> ''wt32-bridge''
      | Some m \<Rightarrow> ''wt32-bridge-'' @ concat (map hex2 (drop 3 (mac_bytes m))))"

definition resolve_hostname :: "mac option \<Rightarrow> syslog_cfg \<Rightarrow> syslog_cfg" where
  "resolve_hostname m cfg =
     (if y_hostname cfg = '''' then cfg\<lparr>y_hostname := syslog_cfg_default_hostname m\<rparr> else cfg)"

definition load_syslog_from_nvs :: "mac option \<Rightarrow> syslog_nvs option \<Rightarrow> syslog_cfg" where
  "load_syslog_from_nvs m nvs =
     (let cfg = \<lparr>y_enabled = False, y_server_ip = 0, y_port = SYSLOG_CFG_DEFAULT_PORT,
                 y_facility = SYSLOG_CFG_DEFAULT_FACILITY, y_min_severity = SYSLOG_CFG_DEFAULT_SEVERITY,
                 y_hostname = ''''\<rparr>;
          cfg = (case nvs of
              None \<Rightarrow> cfg
            | Some n \<Rightarrow>
                \<lparr>y_enabled = (case yn_enabled n of Some v \<Rightarrow> v \<noteq> 0 | None \<Rightarrow> y_enabled cfg),
                 y_server_ip = (case yn_ip n of Some v \<Rightarrow> v | None \<Rightarrow> y_server_ip cfg),
                 y_port = (case yn_port n of Some v \<Rightarrow> v | None \<Rightarrow> y_port cfg),
                 y_facility = (case yn_fac n of Some v \<Rightarrow> v | None \<Rightarrow> y_facility cfg),
                 y_min_severity = (case yn_sev n of Some v \<Rightarrow> v | None \<Rightarrow> y_min_severity cfg),
                 y_hostname = nvs_str SYSLOG_CFG_HOSTNAME_MAX_LEN (yn_host n)\<rparr>)
      in resolve_hostname m cfg)"

definition syslog_cfg_get :: "mac option \<Rightarrow> syslog_store \<Rightarrow> syslog_cfg \<times> syslog_store" where
  "syslog_cfg_get m s =
     (case y_cache s of
        Some cfg \<Rightarrow> (cfg, s)
      | None \<Rightarrow> let cfg = load_syslog_from_nvs m (y_nvs s) in (cfg, s\<lparr>y_cache := Some cfg\<rparr>))"

definition syslog_cfg_generation :: "syslog_store \<Rightarrow> u32" where
  "syslog_cfg_generation s = y_generation s"

definition syslog_nvs_of :: "syslog_cfg \<Rightarrow> syslog_nvs" where
  "syslog_nvs_of cfg =
     \<lparr>yn_enabled = Some (if y_enabled cfg then 1 else 0), yn_ip = Some (y_server_ip cfg),
      yn_port = Some (y_port cfg), yn_fac = Some (y_facility cfg), yn_sev = Some (y_min_severity cfg),
      yn_host = Some (y_hostname cfg)\<rparr>"

definition syslog_cfg_save ::
  "int list \<Rightarrow> syslog_nvs option \<Rightarrow> mac option \<Rightarrow> syslog_cfg \<Rightarrow> syslog_store \<Rightarrow> int \<times> syslog_store"
where
  "syslog_cfg_save answers torn m cfg s =
     (let err = first_failure answers in
      if err \<noteq> 0 then (err, s\<lparr>y_nvs := torn\<rparr>)
      else (0, s\<lparr>y_nvs := Some (syslog_nvs_of cfg), y_cache := Some (resolve_hostname m cfg),
                 y_generation := y_generation s + 1\<rparr>))"

datatype syslog_cfg_error =
  EnterAddress | NoSubnet | OffSubnet | OwnAddress | BroadcastAddress | BadPort | BadFacility | BadSeverity
| BadHostnameLength | BadHostnameChars

definition print_usascii :: "char \<Rightarrow> bool" where
  "print_usascii c \<longleftrightarrow> 33 \<le> (of_char c :: nat) \<and> (of_char c :: nat) \<le> 126"

text \<open>\<open>None\<close> is a configuration that may be saved.\<close>

definition syslog_cfg_validate :: "syslog_cfg \<Rightarrow> u32 \<Rightarrow> u32 \<Rightarrow> syslog_cfg_error option" where
  "syslog_cfg_validate cfg subnet_ip subnet_mask =
     (if \<not> y_enabled cfg then None
      else if y_server_ip cfg = 0 then Some EnterAddress
      else if subnet_mask = 0 then Some NoSubnet
      else if y_server_ip cfg AND subnet_mask \<noteq> subnet_ip AND subnet_mask then Some OffSubnet
      else if y_server_ip cfg = subnet_ip then Some OwnAddress
      else if y_server_ip cfg OR NOT subnet_mask = y_server_ip cfg then Some BroadcastAddress
      else if y_port cfg = 0 then Some BadPort
      else if y_facility cfg > 23 then Some BadFacility
      else if y_min_severity cfg > 7 then Some BadSeverity
      else if y_hostname cfg = [] \<or> length (y_hostname cfg) > SYSLOG_CFG_HOSTNAME_MAX_LEN - 1
           then Some BadHostnameLength
      else if list_ex (\<lambda>c. \<not> print_usascii c) (y_hostname cfg) then Some BadHostnameChars
      else None)"

definition k_facility_names :: "string list" where
  "k_facility_names =
     [''kernel'', ''user'', ''mail'', ''daemon'', ''auth'', ''syslog'', ''lpr'', ''news'',
      ''uucp'', ''cron'', ''authpriv'', ''ftp'', ''ntp'', ''audit'', ''alert'', ''clock'',
      ''local0'', ''local1'', ''local2'', ''local3'', ''local4'', ''local5'', ''local6'', ''local7'']"

definition syslog_cfg_facility_name :: "u8 \<Rightarrow> string" where
  "syslog_cfg_facility_name f =
     (if unat f < length k_facility_names then k_facility_names ! unat f else ''unknown'')"

definition k_severity_names :: "string list" where
  "k_severity_names =
     [''emergency'', ''alert'', ''critical'', ''error'', ''warning'', ''notice'', ''info'', ''debug'']"

definition syslog_cfg_severity_name :: "u8 \<Rightarrow> string option" where
  "syslog_cfg_severity_name v =
     (if unat v < length k_severity_names then Some (k_severity_names ! unat v) else None)"

definition syslog_cfg_severity_from_name :: "string \<Rightarrow> u8 option" where
  "syslog_cfg_severity_from_name name =
     map_option of_nat (first_slot (\<lambda>_ x. name = x) k_severity_names)"

section \<open>Facts\<close>

lemma first_slot_distinct:
  "distinct xs \<Longrightarrow> first_slot (\<lambda>_ y. x = y) xs = Some i \<longleftrightarrow> i < length xs \<and> xs ! i = x"
  unfolding first_slot_eq_Some by (metis less_trans nat_neq_iff nth_eq_iff_index_eq)

lemma distinct_severity_names: "distinct k_severity_names" "length k_severity_names = 8"
  by (simp_all add: k_severity_names_def)

lemma severity_names_roundtrip:
  "syslog_cfg_severity_name v = Some name \<longleftrightarrow> syslog_cfg_severity_from_name name = Some v"
proof -
  have "syslog_cfg_severity_from_name name = Some v \<longleftrightarrow> (\<exists>i<8. k_severity_names ! i = name \<and> of_nat i = v)"
    using distinct_severity_names
    by (simp add: syslog_cfg_severity_from_name_def map_option_eq_Some first_slot_distinct conj_assoc)
  also have "\<dots> \<longleftrightarrow> unat v < 8 \<and> k_severity_names ! unat v = name"
  proof
    assume "\<exists>i<8. k_severity_names ! i = name \<and> of_nat i = v"
    then obtain i where i: "i < 8" "k_severity_names ! i = name" "of_nat i = v" by blast
    then have "unat v = i" using unat_of_nat_eq [where 'a = 8, of i] by auto
    then show "unat v < 8 \<and> k_severity_names ! unat v = name" using i by simp
  qed (auto intro!: exI [of _ "unat v"])
  finally show ?thesis by (simp add: syslog_cfg_severity_name_def distinct_severity_names)
qed

text \<open>What \<open>syslog_cfg.h\<close> promises for the facilities without a name is a decimal string.\<close>

lemma facility_24_unknown: "syslog_cfg_facility_name 24 = ''unknown''"
  by (simp add: syslog_cfg_facility_name_def k_facility_names_def)

lemma length_default_hostname: "length (syslog_cfg_default_hostname m) < 19"
  by (cases m; cases "the m") (auto simp: syslog_cfg_default_hostname_def hex2_def)

lemma load_hostname:
  "length (y_hostname (load_syslog_from_nvs m nvs)) < SYSLOG_CFG_HOSTNAME_MAX_LEN"
  "y_hostname (load_syslog_from_nvs m nvs) \<noteq> ''''"
  using length_default_hostname [of m]
  by (auto simp: load_syslog_from_nvs_def resolve_hostname_def nvs_str_def syslog_cfg_default_hostname_def Let_def
      split: option.splits)

section \<open>A restart\<close>

definition reboot_syslog :: "syslog_store \<Rightarrow> syslog_store" where
  "reboot_syslog s = \<lparr>y_nvs = y_nvs s, y_cache = None, y_generation = 0\<rparr>"

text \<open>A saved configuration is what the sender is told to reload and what the next boot loads, an empty
  hostname standing for the device's own in both; a save that fails changes neither the running
  configuration nor the generation. Whatever flash holds, a boot gets a hostname that fits its
  field.\<close>

theorem syslog_cfg_survives_restart:
  assumes "length (y_hostname cfg) < SYSLOG_CFG_HOSTNAME_MAX_LEN"
    and "syslog_cfg_save answers torn m cfg s = (err, s')" "syslog_cfg_get m (reboot_syslog s') = (booted, s'')"
  shows "(if list_all (\<lambda>e. e = 0) answers
      then err = 0 \<and> fst (syslog_cfg_get m s') = resolve_hostname m cfg \<and> booted = resolve_hostname m cfg \<and>
        syslog_cfg_generation s' = syslog_cfg_generation s + 1
      else err \<noteq> 0 \<and> y_cache s' = y_cache s \<and> syslog_cfg_generation s' = syslog_cfg_generation s) \<and>
    y_hostname booted \<noteq> '''' \<and> length (y_hostname booted) < SYSLOG_CFG_HOSTNAME_MAX_LEN"
proof -
  have "load_syslog_from_nvs m (Some (syslog_nvs_of cfg)) = resolve_hostname m cfg"
    using assms(1) by (cases cfg) (simp add: load_syslog_from_nvs_def syslog_nvs_of_def nvs_str_def Let_def)
  moreover have "booted = load_syslog_from_nvs m (y_nvs s')"
    using assms(3) by (auto simp: syslog_cfg_get_def reboot_syslog_def Let_def)
  ultimately show ?thesis
    using assms(2) load_hostname [of m "y_nvs s'"] first_failure_none [of answers]
    by (auto simp: syslog_cfg_save_def syslog_cfg_get_def syslog_cfg_generation_def Let_def split: if_splits)
qed

lemma syslog_cfg_survives_restart_witness:
  "let cfg = \<lparr>y_enabled = True, y_server_ip = ip4 192 168 5 9, y_port = 514, y_facility = 23, y_min_severity = 6,
              y_hostname = ''''\<rparr>;
       s = \<lparr>y_nvs = None, y_cache = None, y_generation = 0\<rparr>;
       s' = snd (syslog_cfg_save [0, 0, 0] None None cfg s)
   in y_hostname (fst (syslog_cfg_get None (reboot_syslog s'))) = ''wt32-bridge''"
proof -
  let ?cfg = "\<lparr>y_enabled = True, y_server_ip = ip4 192 168 5 9, y_port = 514, y_facility = 23, y_min_severity = 6,
              y_hostname = ''''\<rparr>"
  let ?s = "\<lparr>y_nvs = None, y_cache = None, y_generation = 0\<rparr>"
  have "length (y_hostname ?cfg) < SYSLOG_CFG_HOSTNAME_MAX_LEN" by simp
  from syslog_cfg_survives_restart [OF this surjective_pairing surjective_pairing, of "[0, 0, 0]" None None ?s]
  show ?thesis by (simp add: Let_def resolve_hostname_def syslog_cfg_default_hostname_def)
qed

end
