(* ===== verification/HttpText.thy ===== *)
theory HttpText
  imports WanPorts SyslogCfg
begin

text \<open>
  The text handling of the web server (\<open>main/web_server.c\<close>): the fields of a flat JSON body, base64, the
  bounded assembly of a response and the escaping of strings in it. Text is characters of 8 bits.
\<close>

section \<open>Fields of a request body\<close>

text \<open>Both readers start alike: the quoted key, found anywhere, then the first colon after it.\<close>

definition json_value :: "string \<Rightarrow> string \<Rightarrow> string option" where
  "json_value json key =
     (let pattern = take 31 (''\"'' @ key @ ''\"'') in
      case strstr json pattern of
        None \<Rightarrow> None
      | Some p \<Rightarrow> map_option tl (strchr (drop (length pattern) p) CHR '':''))"

fun copy_string :: "string \<Rightarrow> nat \<Rightarrow> string" where
  "copy_string [] n = []"
| "copy_string (c # p) n =
     (if c = CHR ''\"'' \<or> n = 0 then []
      else case p of
        d # q \<Rightarrow> if c = CHR 0x5C then d # copy_string q (n - 1) else c # copy_string p (n - 1)
      | [] \<Rightarrow> [c])"

definition json_get_string :: "string \<Rightarrow> string \<Rightarrow> nat \<Rightarrow> string option" where
  "json_get_string json key out_len =
     (case json_value json key of
        None \<Rightarrow> None
      | Some p \<Rightarrow>
          (case skip_blanks p of
             c # q \<Rightarrow> if c = CHR ''\"'' then Some (copy_string q (out_len - 1)) else None
           | [] \<Rightarrow> None))"

definition json_get_int :: "string \<Rightarrow> string \<Rightarrow> int option" where
  "json_get_int json key =
     (case json_value json key of
        None \<Rightarrow> None
      | Some p \<Rightarrow> let (val, end) = strtol10 p in if end = p then None else Some val)"

section \<open>Base64\<close>

definition base64_decode_char :: "char \<Rightarrow> int" where
  "base64_decode_char ch =
     (let c = of_char ch :: int in
      if 65 \<le> c \<and> c \<le> 90 then c - 65
      else if 97 \<le> c \<and> c \<le> 122 then c - 97 + 26
      else if 48 \<le> c \<and> c \<le> 57 then c - 48 + 52
      else if ch = CHR ''+'' then 62
      else if ch = CHR ''/'' then 63
      else -1)"

text \<open>The four values of a group and the number of its padding characters.\<close>

fun group_vals :: "string \<Rightarrow> bool \<Rightarrow> (int list \<times> nat) option" where
  "group_vals [] seen_pad = Some ([], 0)"
| "group_vals (c # cs) seen_pad =
     (if c = CHR ''='' then map_option (\<lambda>(vs, pad). (0 # vs, Suc pad)) (group_vals cs True)
      else if seen_pad then None
      else let v = base64_decode_char c in
        if v < 0 then None
        else map_option (\<lambda>(vs, pad). (v # vs, pad)) (group_vals cs seen_pad))"

text \<open>A conversion to \<open>unsigned char\<close> keeps the low eight bits, as \<open>char_of\<close> does.\<close>

definition group_bytes :: "int list \<Rightarrow> string" where
  "group_bytes vals =
     [char_of (push_bit 2 (vals ! 0) OR drop_bit 4 (vals ! 1)),
      char_of (push_bit 4 (vals ! 1) OR drop_bit 2 (vals ! 2)),
      char_of (push_bit 6 (vals ! 2) OR vals ! 3)]"

fun decode_groups :: "string \<Rightarrow> nat \<Rightarrow> string \<Rightarrow> string option" where
  "decode_groups (c0 # c1 # c2 # c3 # rest) out_cap out =
     (case group_vals [c0, c1, c2, c3] False of
        None \<Rightarrow> None
      | Some (vals, pad) \<Rightarrow>
          if pad > 2 \<or> pad > 0 \<and> rest \<noteq> [] then None
          else if length out + (3 - pad) > out_cap then None
          else decode_groups rest out_cap (out @ take (3 - pad) (group_bytes vals)))"
| "decode_groups _ out_cap out = Some out"

definition base64_decode :: "string \<Rightarrow> nat \<Rightarrow> string option" where
  "base64_decode input out_cap =
     (if length input = 0 \<or> length input mod 4 \<noteq> 0 then None else decode_groups input out_cap '''')"

section \<open>Responses\<close>

text \<open>
  A response in progress: the text in its buffer and the offset the appends return, which is the
  buffer's size once something did not fit.
\<close>

type_synonym resp = "string \<times> nat"

definition resp_append :: "nat \<Rightarrow> resp \<Rightarrow> string \<Rightarrow> resp" where
  "resp_append bufsz = (\<lambda>(buf, off) str.
     if off > bufsz then (buf, bufsz)
     else (if off < bufsz then take (bufsz - 1) (take off buf @ str) else buf, min (off + length str) bufsz))"

definition json_escape :: "char \<Rightarrow> string" where
  "json_escape c =
     (if c = CHR ''\"'' then [CHR 0x5C, CHR ''\"'']
      else if c = CHR 0x5C then [CHR 0x5C, CHR 0x5C]
      else if c = CHR 0x0A then [CHR 0x5C, CHR ''n'']
      else if c = CHR 0x0D then [CHR 0x5C, CHR ''r'']
      else if c = CHR 0x09 then [CHR 0x5C, CHR ''t'']
      else if (of_char c :: nat) < 0x20
        then [CHR 0x5C, CHR ''u'', CHR ''0'', CHR ''0'', hex_digit (of_char c div 16), hex_digit (of_char c mod 16)]
      else [c])"

fun escape_loop :: "nat \<Rightarrow> string \<Rightarrow> resp \<Rightarrow> resp" where
  "escape_loop bufsz [] (buf, off) = (buf, off)"
| "escape_loop bufsz (c # src) (buf, off) =
     (if off + 7 > bufsz then (buf, bufsz)
      else escape_loop bufsz src (buf @ json_escape c, off + length (json_escape c)))"

definition json_append_escaped :: "nat \<Rightarrow> resp \<Rightarrow> string \<Rightarrow> resp" where
  "json_append_escaped bufsz = (\<lambda>(buf, off) src.
     if off \<ge> bufsz then (buf, bufsz) else escape_loop bufsz src (take off buf, off))"

text \<open>What is sent, if the response fitted; the caller's client gets a 500 otherwise.\<close>

definition resp_send_json :: "nat \<Rightarrow> resp \<Rightarrow> string option" where
  "resp_send_json bufsz = (\<lambda>(buf, off). if off \<ge> bufsz then None else Some (take off buf))"

section \<open>Authorities\<close>

definition strip_default_port :: "string \<Rightarrow> string" where
  "strip_default_port authority =
     (let len = length authority in
      if len > 3 \<and> drop (len - 3) authority = '':80'' then take (len - 3) authority else authority)"

section \<open>Base64: the reference encoder\<close>

text \<open>RFC 4648's encoding, and that decoding undoes it.\<close>

definition base64_char :: "int \<Rightarrow> char" where
  "base64_char v =
     (if v < 26 then char_of (v + 65)
      else if v < 52 then char_of (v - 26 + 97)
      else if v < 62 then char_of (v - 52 + 48)
      else if v = 62 then CHR ''+'' else CHR ''/'')"

definition sextets :: "char \<Rightarrow> char \<Rightarrow> char \<Rightarrow> int list" where
  "sextets a b c =
     [drop_bit 2 (of_char a), push_bit 4 (take_bit 2 (of_char a)) OR drop_bit 4 (of_char b),
      push_bit 2 (take_bit 4 (of_char b)) OR drop_bit 6 (of_char c), take_bit 6 (of_char c)]"

fun base64_encode :: "string \<Rightarrow> string" where
  "base64_encode (a # b # c # s) = map base64_char (sextets a b c) @ base64_encode s"
| "base64_encode [a, b] = map base64_char (take 3 (sextets a b CHR 0x00)) @ ''=''"
| "base64_encode [a] = map base64_char (take 2 (sextets a CHR 0x00 CHR 0x00)) @ ''==''"
| "base64_encode [] = ''''"

lemma base64_char_all:
  "list_all (\<lambda>n. base64_decode_char (base64_char (int n)) = int n \<and> base64_char (int n) \<noteq> CHR ''='') [0..<64]"
  by code_simp

lemma base64_char_back:
  assumes "0 \<le> v" "v < 64"
  shows "base64_decode_char (base64_char v) = v" "base64_char v \<noteq> CHR ''=''"
proof -
  have "nat v \<in> set [0..<64]" using assms by auto
  then have "base64_decode_char (base64_char (int (nat v))) = int (nat v) \<and> base64_char (int (nat v)) \<noteq> CHR ''=''"
    using base64_char_all unfolding list_all_iff by blast
  then show "base64_decode_char (base64_char v) = v" "base64_char v \<noteq> CHR ''=''" using assms(1) by simp_all
qed

lemma char_byte: "take_bit 8 (of_char c :: int) = of_char c"
  by (simp add: take_bit_eq_mod)

lemma bit_char: "bit (of_char c :: int) n \<Longrightarrow> n < 8"
  by (subst (asm) char_byte [symmetric]) (simp add: bit_take_bit_iff)

lemma six_bits: "(\<And>n. bit (v :: int) n \<Longrightarrow> n < 6) \<Longrightarrow> 0 \<le> v \<and> v < 64"
proof -
  assume b: "\<And>n. bit v n \<Longrightarrow> n < 6"
  have "take_bit 6 v = v" by (rule bit_eqI) (auto simp: bit_take_bit_iff dest: b)
  then show ?thesis using take_bit_nonnegative [of 6 v] take_bit_int_less_exp [of 6 v] by simp
qed

lemma sextets_range: "v \<in> set (sextets a b c) \<Longrightarrow> 0 \<le> v \<and> v < 64"
  by (rule six_bits)
    (auto simp: sextets_def bit_take_bit_iff bit_push_bit_iff bit_drop_bit_eq bit_or_iff dest!: bit_char)

lemma bit_char_high [simp]: "8 \<le> n \<Longrightarrow> \<not> bit (of_char c :: int) n"
  by (auto dest: bit_char)

lemma char_ofI: "(\<And>n. n < 8 \<Longrightarrow> bit (v :: int) n = bit (of_char c :: int) n) \<Longrightarrow> char_of v = c"
  unfolding char_of_eq_iff by (rule bit_eqI) (metis bit_take_bit_iff bit_char)

lemma split_at: "k \<le> n \<Longrightarrow> bit (x :: int) (k + (n - k)) = bit x n"
  by simp

lemma group_bytes_sextets: "group_bytes (sextets a b c) = [a, b, c]"
proof -
  note bits = bit_take_bit_iff bit_push_bit_iff bit_drop_bit_eq bit_or_iff
  have "char_of (push_bit 2 (sextets a b c ! 0) OR drop_bit 4 (sextets a b c ! 1)) = a"
  proof (rule char_ofI)
    fix n :: nat
    assume "n < 8"
    then show "bit (push_bit 2 (sextets a b c ! 0) OR drop_bit 4 (sextets a b c ! 1)) n = bit (of_char a :: int) n"
      using split_at [of 2 n] by (cases "n < 2") (auto simp: sextets_def bits)
  qed
  moreover have "char_of (push_bit 4 (sextets a b c ! 1) OR drop_bit 2 (sextets a b c ! 2)) = b"
  proof (rule char_ofI)
    fix n :: nat
    assume "n < 8"
    then show "bit (push_bit 4 (sextets a b c ! 1) OR drop_bit 2 (sextets a b c ! 2)) n = bit (of_char b :: int) n"
      using split_at [of 4 n] by (cases "n < 4") (auto simp: sextets_def bits)
  qed
  moreover have "char_of (push_bit 6 (sextets a b c ! 2) OR sextets a b c ! 3) = c"
  proof (rule char_ofI)
    fix n :: nat
    assume "n < 8"
    then show "bit (push_bit 6 (sextets a b c ! 2) OR sextets a b c ! 3) n = bit (of_char c :: int) n"
      using split_at [of 6 n] by (cases "n < 6") (auto simp: sextets_def bits)
  qed
  ultimately show ?thesis by (simp add: group_bytes_def)
qed

lemma group_vals_sextets:
  "\<forall>v\<in>set vs. 0 \<le> v \<and> v < 64 \<Longrightarrow>
     group_vals (map base64_char vs @ replicate pad CHR ''='') False = Some (vs @ replicate pad 0, pad)"
proof (induction vs)
  case Nil
  show ?case
  proof (cases pad)
    case (Suc n)
    have "group_vals (replicate n CHR ''='') True = Some (replicate n 0, n)" for n by (induction n) simp_all
    then show ?thesis using Suc by simp
  qed simp
next
  case (Cons v vs)
  then show ?case using base64_char_back [of v] by (simp add: Let_def)
qed

lemma decode_encode:
  "length out + length s \<le> cap \<Longrightarrow> decode_groups (base64_encode s) cap out = Some (out @ s)"
proof (induction s arbitrary: out rule: base64_encode.induct)
  case (1 a b c s)
  have v: "group_vals (map base64_char (sextets a b c)) False = Some (sextets a b c, 0)"
    using group_vals_sextets [of "sextets a b c" 0] sextets_range by simp
  obtain x y z w where q: "sextets a b c = [x, y, z, w]" by (simp add: sextets_def)
  have "decode_groups (base64_encode (a # b # c # s)) cap out = decode_groups (base64_encode s) cap (out @ [a, b, c])"
    using v 1 (2) group_bytes_sextets [of a b c] unfolding base64_encode.simps q by simp
  then show ?case using 1 by simp
next
  case (2 a b)
  obtain x y z where q: "sextets a b CHR 0x00 = [x, y, z, 0]" by (simp add: sextets_def)
  have "group_vals (map base64_char [x, y, z] @ ''='') False = Some ([x, y, z, 0], 1)"
    using group_vals_sextets [of "[x, y, z]" 1] sextets_range [of _ a b "CHR 0x00"] by (simp add: q)
  then show ?case
    using 2 group_bytes_sextets [of a b "CHR 0x00"] unfolding base64_encode.simps q by simp
next
  case (3 a)
  obtain x y where q: "sextets a CHR 0x00 CHR 0x00 = [x, y, 0, 0]" by (simp add: sextets_def)
  have "group_vals (map base64_char [x, y] @ ''=='') False = Some ([x, y, 0, 0], 2)"
    using group_vals_sextets [of "[x, y]" 2] sextets_range [of _ a "CHR 0x00" "CHR 0x00"]
    by (simp add: q numeral_2_eq_2)
  then show ?case
    using 3 group_bytes_sextets [of a "CHR 0x00" "CHR 0x00"] unfolding base64_encode.simps q by simp
qed simp

lemma length_encode: "length (base64_encode s) = 4 * ((length s + 2) div 3)"
proof (induction s rule: base64_encode.induct)
  case (1 a b c s)
  have "(n + 3 + 2) div 3 = Suc ((n + 2) div 3)" for n :: nat by presburger
  from this [of "length s"] have "(length (a # b # c # s) + 2) div 3 = Suc ((length s + 2) div 3)" by simp
  then show ?case using 1 by (simp only: base64_encode.simps length_append) (simp add: sextets_def)
qed (simp_all add: sextets_def)

lemma base64_roundtrip: "s \<noteq> [] \<Longrightarrow> length s \<le> cap \<Longrightarrow> base64_decode (base64_encode s) cap = Some s"
  by (cases s) (simp_all add: base64_decode_def length_encode decode_encode)

section \<open>Escaping: the reference reader\<close>

text \<open>
  A JSON string's characters up to its closing quote (RFC 8259), over bytes: raw characters from \<open>0x20\<close>
  on, the two-character escapes, and \<open>\u00xx\<close> below \<open>0x80\<close>.
\<close>

definition simple_escape :: "char \<Rightarrow> char option" where
  "simple_escape e =
     map_of [(CHR ''\"'', CHR ''\"''), (CHR 0x5C, CHR 0x5C), (CHR ''/'', CHR ''/''), (CHR ''b'', CHR 0x08),
             (CHR ''f'', CHR 0x0C), (CHR ''n'', CHR 0x0A), (CHR ''r'', CHR 0x0D), (CHR ''t'', CHR 0x09)] e"

definition unicode_escape :: "string \<Rightarrow> char option" where
  "unicode_escape q =
     (if length q < 4 \<or> take 2 q \<noteq> ''00'' then None
      else (case xdigit (q ! 2) of
              None \<Rightarrow> None
            | Some h \<Rightarrow>
                if h < 8 then map_option (\<lambda>l. char_of (16 * h + l)) (xdigit (q ! 3)) else None))"

definition json_char :: "string \<Rightarrow> (char \<times> string) option" where
  "json_char s =
     (case s of
        [] \<Rightarrow> None
      | c # r \<Rightarrow>
          if (of_char c :: nat) < 0x20 \<or> c = CHR ''\"'' then None
          else if c \<noteq> CHR 0x5C then Some (c, r)
          else (case r of
              [] \<Rightarrow> None
            | e # q \<Rightarrow>
                if e = CHR ''u'' then map_option (\<lambda>d. (d, drop 4 q)) (unicode_escape q)
                else map_option (\<lambda>d. (d, q)) (simple_escape e)))"

lemma json_char_shorter: "json_char s = Some (c, r) \<Longrightarrow> length r < length s"
  by (cases s; cases "tl s") (simp_all add: json_char_def map_option_case split: if_split_asm option.split_asm, auto)

function json_body :: "string \<Rightarrow> (string \<times> string) option" where
  "json_body s =
     (if s \<noteq> [] \<and> hd s = CHR ''\"'' then Some ([], tl s)
      else (case json_char s of
              None \<Rightarrow> None
            | Some (c, r) \<Rightarrow> map_option (\<lambda>(cs, q). (c # cs, q)) (json_body r)))"
  by pat_completeness auto
termination by (relation "measure length") (auto dest: json_char_shorter)

declare json_body.simps [simp del]

definition json_escaped :: "string \<Rightarrow> string" where
  "json_escaped s = concat (map json_escape s)"

lemma hex_back: "n < 16 \<Longrightarrow> xdigit (hex_digit n) = Some n"
  by (simp add: xdigit_def hex_digit_def Let_def)

lemma json_char_escape: "c \<noteq> CHR 0x00 \<Longrightarrow> json_char (json_escape c @ r) = Some (c, r)"
proof (cases "(of_char c :: nat) < 32 \<and> c \<notin> {CHR 0x0A, CHR 0x0D, CHR 0x09, CHR ''\"'', CHR 0x5C}")
  case True
  let ?n = "of_char c :: nat"
  have n: "?n div 16 < 8" "?n mod 16 < 16" "16 * (?n div 16) + ?n mod 16 = ?n"
    using True by (simp_all add: div_less_iff_less_mult)
  have "unicode_escape (''00'' @ [hex_digit (?n div 16), hex_digit (?n mod 16)] @ r) = Some c"
    using n hex_back [of "?n div 16"] hex_back [of "?n mod 16"] by (simp add: unicode_escape_def numeral_2_eq_2 numeral_3_eq_3)
  then show ?thesis using True by (simp add: json_char_def json_escape_def)
next
  case False
  then show ?thesis by (auto simp: json_char_def json_escape_def simple_escape_def)
qed

lemma json_body_escaped: "CHR 0x00 \<notin> set s \<Longrightarrow> json_body (json_escaped s @ CHR ''\"'' # rest) = Some (s, rest)"
proof (induction s)
  case Nil
  then show ?case by (simp add: json_escaped_def json_body.simps)
next
  case (Cons c s)
  let ?r = "json_escaped s @ CHR ''\"'' # rest"
  have h: "hd (json_escape c @ ?r) \<noteq> CHR ''\"''" "json_escape c @ ?r \<noteq> []" by (simp_all add: json_escape_def)
  have j: "json_char (json_escape c @ ?r) = Some (c, ?r)" using Cons.prems by (intro json_char_escape) auto
  have "json_body ?r = Some (s, rest)" using Cons by simp
  then have "json_body (json_escape c @ ?r) = Some (c # s, rest)"
    using h j by (subst json_body.simps) (simp del: append_is_Nil_conv)
  then show ?case by (simp add: json_escaped_def)
qed

section \<open>Whole responses\<close>

text \<open>A handler's chain of appends, as the list of its pieces.\<close>

datatype piece = Plain string | Escaped string

fun append_piece :: "nat \<Rightarrow> resp \<Rightarrow> piece \<Rightarrow> resp" where
  "append_piece bufsz r (Plain s) = resp_append bufsz r s"
| "append_piece bufsz r (Escaped s) = json_append_escaped bufsz r s"

fun render :: "piece \<Rightarrow> string" where
  "render (Plain s) = s"
| "render (Escaped s) = json_escaped s"

definition assemble :: "nat \<Rightarrow> piece list \<Rightarrow> resp" where
  "assemble bufsz ps = foldl (append_piece bufsz) ('''', 0) ps"

text \<open>The buffer either holds what was appended, in full, or is marked as overrun.\<close>

definition faithful :: "nat \<Rightarrow> string \<Rightarrow> resp \<Rightarrow> bool" where
  "faithful bufsz body r \<longleftrightarrow>
     snd r \<le> bufsz \<and> (snd r < bufsz \<longrightarrow> r = (body, length body)) \<and> (length body + 7 \<le> bufsz \<longrightarrow> snd r < bufsz)"

lemma escape_loop_faithful:
  "length buf < bufsz \<Longrightarrow> faithful bufsz (buf @ json_escaped src) (escape_loop bufsz src (buf, length buf))"
proof (induction src arbitrary: buf)
  case Nil
  then show ?case by (simp add: faithful_def json_escaped_def)
next
  case (Cons c src)
  have l: "0 < length (json_escape c)" "length (json_escape c) \<le> 6" by (auto simp: json_escape_def)
  show ?case
  proof (cases "length buf + 7 > bufsz")
    case True
    then show ?thesis using l by (simp add: faithful_def json_escaped_def)
  next
    case False
    then have "length (buf @ json_escape c) < bufsz" using l by simp
    from Cons.IH [OF this] show ?thesis using False by (simp add: json_escaped_def)
  qed
qed

lemma append_faithful: "faithful bufsz body r \<Longrightarrow> faithful bufsz (body @ render p) (append_piece bufsz r p)"
proof (cases p)
  case (Plain s)
  assume "faithful bufsz body r"
  then show ?thesis using Plain by (cases r) (auto simp: faithful_def resp_append_def)
next
  case (Escaped s)
  assume r: "faithful bufsz body r"
  show ?thesis
  proof (cases "snd r < bufsz")
    case True
    then have "r = (body, length body)" "length body < bufsz" using r by (auto simp: faithful_def)
    then show ?thesis using Escaped escape_loop_faithful [of body bufsz s] by (simp add: json_append_escaped_def)
  next
    case False
    then show ?thesis using r Escaped by (cases r) (auto simp: faithful_def json_append_escaped_def)
  qed
qed

lemma fold_faithful:
  "faithful bufsz body r \<Longrightarrow> faithful bufsz (body @ concat (map render ps)) (foldl (append_piece bufsz) r ps)"
proof (induction ps arbitrary: body r)
  case (Cons p ps)
  from Cons.IH [OF append_faithful [OF Cons.prems, of p]] show ?case by simp
qed simp

lemma assemble_faithful: "0 < bufsz \<Longrightarrow> faithful bufsz (concat (map render ps)) (assemble bufsz ps)"
  using fold_faithful [of bufsz "''''" "('''', 0)" ps] by (simp add: assemble_def faithful_def)

lemma sent_faithful:
  "faithful bufsz body r \<Longrightarrow> resp_send_json bufsz r \<in> {None, Some body}"
  "faithful bufsz body r \<Longrightarrow> length body + 7 \<le> bufsz \<Longrightarrow> resp_send_json bufsz r = Some body"
  by (auto simp: faithful_def resp_send_json_def split: prod.splits)

section \<open>A field as the pages send it\<close>

text \<open>
  Of an escaped text without control characters the reader returns the characters the buffer has room
  for; a control character comes back as the letter that stands for it.
\<close>

definition uncontrolled :: "string \<Rightarrow> bool" where
  "uncontrolled s \<longleftrightarrow> list_all (\<lambda>c. 0x20 \<le> (of_char c :: nat)) s"

lemma copy_escaped:
  "uncontrolled s \<Longrightarrow> copy_string (json_escaped s @ CHR ''\"'' # rest) n = take n s"
proof (induction s arbitrary: n)
  case Nil
  then show ?case by (simp add: json_escaped_def)
next
  case (Cons c s)
  let ?r = "json_escaped s @ CHR ''\"'' # rest"
  have ih: "copy_string ?r (n - 1) = take (n - 1) s" using Cons by (simp add: uncontrolled_def)
  have c: "json_escape c = (if c = CHR ''\"'' \<or> c = CHR 0x5C then [CHR 0x5C, c] else [c])"
    using Cons.prems by (auto simp: uncontrolled_def json_escape_def)
  have "?r \<noteq> []" by simp
  then obtain d q where r: "?r = d # q" by (cases ?r) auto
  have "copy_string (json_escape c @ ?r) n = take n (c # s)"
    using ih unfolding c r by (cases n) auto
  then show ?case by (simp add: json_escaped_def)
qed

definition quoted :: "string \<Rightarrow> string" where
  "quoted key = ''\"'' @ key @ ''\"''"

text \<open>\<open>pre\<close> is the body before the key, and has no other occurrence of the quoted key.\<close>

definition first_occurrence :: "string \<Rightarrow> string \<Rightarrow> string \<Rightarrow> bool" where
  "first_occurrence pre key json \<longleftrightarrow>
     list_all (\<lambda>n. take (length (quoted key)) (drop n json) \<noteq> quoted key) [0..<length pre]"

lemma json_value_at:
  assumes "json = pre @ quoted key @ '':'' @ v" "length key < 30" "first_occurrence pre key json"
  shows "json_value json key = Some v"
proof -
  have "take 31 (quoted key) = quoted key" using assms(2) by (simp add: quoted_def)
  moreover have "strstr json (quoted key) = Some (quoted key @ '':'' @ v)"
    unfolding assms(1) using assms(1,3)
    by (intro strstr_at) (auto simp: first_occurrence_def list_all_iff)
  ultimately show ?thesis unfolding json_value_def by (simp add: quoted_def Let_def)
qed

lemma json_get_string_sent:
  assumes "json = pre @ quoted key @ '':\"'' @ json_escaped s @ ''\"'' @ rest" "length key < 30"
    "first_occurrence pre key json" "uncontrolled s"
  shows "json_get_string json key n = Some (take (n - 1) s)"
proof -
  have "json_value json key = Some (''\"'' @ json_escaped s @ ''\"'' @ rest)"
    by (rule json_value_at) (use assms in simp_all)
  then show ?thesis
    using copy_escaped [OF assms(4), of rest "n - 1"] by (simp add: json_get_string_def skip_blanks_def blank_def)
qed

lemma json_get_int_sent:
  assumes "json = pre @ quoted key @ '':'' @ decimal i @ q" "length key < 30" "first_occurrence pre key json"
    "i < 2 ^ 31" "q = [] \<or> \<not> digit (hd q)"
  shows "json_get_int json key = Some (int i)"
  using json_value_at [of json pre key "decimal i @ q"] strtol10_decimal [OF assms(4,5)] assms(1-3)
  by (simp add: json_get_int_def)

section \<open>Properties\<close>

text \<open>C25: Whatever characters a string of the device holds (a client's name, a log message, a network's
  name), a response that carries it, when it is sent at all, is read back by a JSON reader as that string
  and the rest of the document: none can break the document or reach out of its field.
\<close>

theorem escaped_string_readable:
  assumes "CHR 0x00 \<notin> set s" "0 < bufsz"
    and "resp_send_json bufsz (assemble bufsz [Plain pre, Escaped s, Plain (CHR ''\"'' # rest)]) = Some body"
  shows "take (length pre) body = pre \<and> json_body (drop (length pre) body) = Some (s, rest)"
proof -
  have "body = pre @ json_escaped s @ CHR ''\"'' # rest"
    using sent_faithful(1) [OF assemble_faithful [OF assms(2), of "[Plain pre, Escaped s, Plain (CHR ''\"'' # rest)]"]]
      assms(3) by simp
  then show ?thesis using json_body_escaped [OF assms(1), of rest] by simp
qed

theorem escaped_string_readable_witness:
  "json_body (drop 9 (''{\"ssid\":\"a'' @ [CHR 0x5C, CHR 0x22] @ ''b\",\"channel\":1}'')) = Some (''a\"b'', '',\"channel\":1}'')"
proof -
  let ?ps = "[Plain ''{\"ssid\":\"'', Escaped ''a\"b'', Plain (CHR ''\"'' # '',\"channel\":1}'')]"
  have "resp_send_json 240 (assemble 240 ?ps) =
      Some (''{\"ssid\":\"a'' @ [CHR 0x5C, CHR 0x22] @ ''b\",\"channel\":1}'')"
    by (simp add: assemble_def resp_append_def json_append_escaped_def json_escape_def resp_send_json_def)
  from escaped_string_readable [OF _ _ this] show ?thesis by simp
qed

text \<open>
  A setting the pages send as JSON is read as it was typed, quotes and backslashes included, wherever
  its field stands in the body, cut only to what the handler's buffer has room for.
\<close>

theorem field_roundtrip:
  assumes "json = pre @ quoted key @ '':\"'' @ json_escaped s @ ''\"'' @ rest" "length key < 30"
    and "first_occurrence pre key json" "uncontrolled s"
  shows "json_get_string json key n = Some (take (n - 1) s)"
  by (rule json_get_string_sent [OF assms])

theorem field_roundtrip_witness:
  "json_get_string (''{\"channel\":6,\"ssid\":\"my '' @ [CHR 0x5C, CHR 0x22] @ ''hub\"}'') ''ssid'' 32 = Some ''my \"hub''"
  using field_roundtrip [of "(''{\"channel\":6,\"ssid\":\"my '' @ [CHR 0x5C, CHR 0x22] @ ''hub\"}'')" "''{\"channel\":6,''" "''ssid''"
      "''my \"hub''" "''}''" 32]
  by (simp add: quoted_def json_escaped_def json_escape_def first_occurrence_def uncontrolled_def upt_rec)

end
