(* ===== verification/Settings.thy ===== *)
theory Settings
  imports CStrings Nvs
begin

text \<open>
  The small stored settings: the access point's (\<open>main/wifi_cfg.c\<close>), the administrator's credentials
  (\<open>main/auth_cfg.c\<close>) and the time zone (\<open>main/clock_cfg.c\<close>), with their validation, their form in flash and
  their caches.
\<close>

section \<open>The access point\<close>

abbreviation WIFI_CFG_SSID_MAX_LEN :: nat where "WIFI_CFG_SSID_MAX_LEN \<equiv> 32"
abbreviation WIFI_CFG_PASSWORD_MAX_LEN :: nat where "WIFI_CFG_PASSWORD_MAX_LEN \<equiv> 64"
abbreviation WIFI_CFG_DEFAULT_CHANNEL :: u8 where "WIFI_CFG_DEFAULT_CHANNEL \<equiv> 1"

record wifi_nvs =
  an_ssid :: "string option"
  an_password :: "string option"
  an_channel :: "u8 option"

text \<open>\<open>nvs_get_str\<close> with a default for a string that is missing or does not fit.\<close>

definition nvs_str_or :: "nat \<Rightarrow> string \<Rightarrow> string option \<Rightarrow> string" where
  "nvs_str_or sz dflt v = (case v of Some s \<Rightarrow> if length s < sz then s else dflt | None \<Rightarrow> dflt)"

text \<open>Name, password and channel.\<close>

type_synonym wifi_cfg = "string \<times> string \<times> u8"

definition wifi_cfg_load :: "wifi_nvs option \<Rightarrow> wifi_cfg" where
  "wifi_cfg_load nvs =
     (case nvs of
        None \<Rightarrow> (''AOG hub'', ''password'', WIFI_CFG_DEFAULT_CHANNEL)
      | Some n \<Rightarrow>
          (nvs_str_or WIFI_CFG_SSID_MAX_LEN ''AOG hub'' (an_ssid n),
           nvs_str_or WIFI_CFG_PASSWORD_MAX_LEN ''password'' (an_password n),
           (case an_channel n of Some c \<Rightarrow> c | None \<Rightarrow> WIFI_CFG_DEFAULT_CHANNEL)))"

text \<open>\<open>answers\<close> are those of open, the three sets and the commit; \<open>torn\<close> is what a failed save leaves.\<close>

definition wifi_cfg_save :: "int list \<Rightarrow> wifi_nvs option \<Rightarrow> wifi_cfg \<Rightarrow> wifi_nvs option \<Rightarrow> int \<times> wifi_nvs option" where
  "wifi_cfg_save answers torn cfg nvs =
     (case cfg of (ssid, password, channel) \<Rightarrow>
        let err = first_failure answers in
        if err \<noteq> 0 then (err, torn)
        else (0, Some \<lparr>an_ssid = Some ssid, an_password = Some password, an_channel = Some channel\<rparr>))"

text \<open>
  What the driver is configured with: the name and its length, the password, the channel, the stations
  it admits. The answers are those of the two calls of the driver, the second one turning the management
  frames' protection off.
\<close>

abbreviation WIFI_CFG_MAX_STA_CONN :: nat where "WIFI_CFG_MAX_STA_CONN \<equiv> 6"

record wifi_ap =
  ap_ssid :: string
  ap_ssid_len :: nat
  ap_password :: string
  ap_channel :: u8
  ap_max_connection :: nat

definition wifi_cfg_apply :: "int \<Rightarrow> int \<Rightarrow> wifi_cfg \<Rightarrow> int \<times> wifi_ap \<times> bool" where
  "wifi_cfg_apply set_config disable_pmf cfg =
     (case cfg of (ssid, password, channel) \<Rightarrow>
        let ap = \<lparr>ap_ssid = strlcpy ssid 32, ap_ssid_len = length ssid, ap_password = strlcpy password 64,
                  ap_channel = channel, ap_max_connection = WIFI_CFG_MAX_STA_CONN\<rparr>
        in if set_config \<noteq> 0 then (set_config, ap, False)
           else if disable_pmf \<noteq> 0 then (disable_pmf, ap, True)
           else (0, ap, True))"

datatype wifi_cfg_error = SsidLength | WifiPasswordLength | BadChannel

definition wifi_cfg_validate :: "wifi_cfg \<Rightarrow> wifi_cfg_error option" where
  "wifi_cfg_validate cfg =
     (case cfg of (ssid, password, channel) \<Rightarrow>
        if length ssid = 0 \<or> length ssid > WIFI_CFG_SSID_MAX_LEN - 1 then Some SsidLength
        else if length password < 8 \<or> length password > WIFI_CFG_PASSWORD_MAX_LEN - 1 then Some WifiPasswordLength
        else if channel \<noteq> 1 \<and> channel \<noteq> 6 \<and> channel \<noteq> 11 then Some BadChannel
        else None)"

section \<open>The administrator\<close>

abbreviation AUTH_CFG_USERNAME_MAX_LEN :: nat where "AUTH_CFG_USERNAME_MAX_LEN \<equiv> 32"
abbreviation AUTH_CFG_PASSWORD_MAX_LEN :: nat where "AUTH_CFG_PASSWORD_MAX_LEN \<equiv> 64"
abbreviation AUTH_CFG_DEFAULT_PASSWORD :: string where "AUTH_CFG_DEFAULT_PASSWORD \<equiv> ''admin''"

record auth_nvs =
  un_user :: "string option"
  un_password :: "string option"

record auth_store =
  u_nvs :: "auth_nvs option"
  u_cache :: "(string \<times> string) option"

definition auth_cfg_load_from_nvs :: "auth_nvs option \<Rightarrow> string \<times> string" where
  "auth_cfg_load_from_nvs nvs =
     (case nvs of
        None \<Rightarrow> (''admin'', AUTH_CFG_DEFAULT_PASSWORD)
      | Some n \<Rightarrow>
          (nvs_str_or AUTH_CFG_USERNAME_MAX_LEN ''admin'' (un_user n),
           nvs_str_or AUTH_CFG_PASSWORD_MAX_LEN AUTH_CFG_DEFAULT_PASSWORD (un_password n)))"

definition auth_cfg_load :: "auth_store \<Rightarrow> (string \<times> string) \<times> auth_store" where
  "auth_cfg_load s =
     (case u_cache s of
        Some c \<Rightarrow> (c, s)
      | None \<Rightarrow> let c = auth_cfg_load_from_nvs (u_nvs s) in (c, s\<lparr>u_cache := Some c\<rparr>))"

text \<open>The credentials in force: what \<open>auth_cfg_load\<close> gives.\<close>

definition credentials :: "auth_store \<Rightarrow> string \<times> string" where
  "credentials s = fst (auth_cfg_load s)"

definition auth_cfg_password_is_default :: "auth_store \<Rightarrow> bool \<times> auth_store" where
  "auth_cfg_password_is_default s =
     (let ((_, password), s) = auth_cfg_load s in (password = AUTH_CFG_DEFAULT_PASSWORD, s))"

definition auth_cfg_save ::
  "int list \<Rightarrow> auth_nvs option \<Rightarrow> string \<Rightarrow> string \<Rightarrow> auth_store \<Rightarrow> int \<times> auth_store"
where
  "auth_cfg_save answers torn user password s =
     (let err = first_failure answers in
      if err \<noteq> 0 then (err, s\<lparr>u_nvs := torn\<rparr>)
      else (0, s\<lparr>u_nvs := Some \<lparr>un_user = Some user, un_password = Some password\<rparr>,
                 u_cache := Some (user, password)\<rparr>))"

datatype auth_cfg_error = UsernameLength | AdminPasswordLength | DefaultPassword

definition auth_cfg_validate :: "string \<Rightarrow> string \<Rightarrow> auth_cfg_error option" where
  "auth_cfg_validate user password =
     (if length user = 0 \<or> length user > AUTH_CFG_USERNAME_MAX_LEN - 1 then Some UsernameLength
      else if length password < 4 \<or> length password > AUTH_CFG_PASSWORD_MAX_LEN - 1 then Some AdminPasswordLength
      else if password = AUTH_CFG_DEFAULT_PASSWORD then Some DefaultPassword
      else None)"

section \<open>The time zone\<close>

abbreviation CLOCK_CFG_TZ_MAX_LEN :: nat where "CLOCK_CFG_TZ_MAX_LEN \<equiv> 40"
abbreviation CLOCK_CFG_TZ_DEFAULT :: string where "CLOCK_CFG_TZ_DEFAULT \<equiv> ''UTC0''"

text \<open>Flash (the key's string, in its namespace), the cache, and the C library's zone.\<close>

record clock_store =
  k_nvs :: "string option option"
  k_cache :: "string option"
  k_env :: string

definition resolve_tz :: "string \<Rightarrow> string" where
  "resolve_tz tz = (if tz = '''' then CLOCK_CFG_TZ_DEFAULT else tz)"

definition load_tz_from_nvs :: "string option option \<Rightarrow> string" where
  "load_tz_from_nvs nvs =
     resolve_tz (case nvs of Some v \<Rightarrow> nvs_str CLOCK_CFG_TZ_MAX_LEN v | None \<Rightarrow> '''')"

text \<open>\<open>mutex\<close> is whether its mutex could be created; the failure is \<open>ESP_ERR_NO_MEM\<close>.\<close>

definition clock_cfg_init :: "bool \<Rightarrow> clock_store \<Rightarrow> int \<times> clock_store" where
  "clock_cfg_init mutex s =
     (if \<not> mutex then (0x101, s)
      else let tz = load_tz_from_nvs (k_nvs s) in (0, s\<lparr>k_cache := Some tz, k_env := tz\<rparr>))"

definition clock_cfg_get :: "clock_store \<Rightarrow> string \<times> clock_store" where
  "clock_cfg_get s =
     (case k_cache s of
        Some tz \<Rightarrow> (tz, s)
      | None \<Rightarrow> let tz = load_tz_from_nvs (k_nvs s) in (tz, s\<lparr>k_cache := Some tz\<rparr>))"

definition clock_cfg_save :: "int list \<Rightarrow> string option option \<Rightarrow> string \<Rightarrow> clock_store \<Rightarrow> int \<times> clock_store" where
  "clock_cfg_save answers torn tz s =
     (let err = first_failure answers in
      if err \<noteq> 0 then (err, s\<lparr>k_nvs := torn\<rparr>)
      else (0, s\<lparr>k_nvs := Some (Some tz), k_cache := Some (resolve_tz tz), k_env := resolve_tz tz\<rparr>))"

datatype clock_cfg_error = TzTooLong | TzNotAscii

text \<open>\<open>buf\<close> is the whole array of the structure.\<close>

definition clock_cfg_validate :: "string \<Rightarrow> clock_cfg_error option" where
  "clock_cfg_validate buf =
     (let tz = takeWhile (\<lambda>c. c \<noteq> CHR 0x00) buf in
      if length tz = CLOCK_CFG_TZ_MAX_LEN then Some TzTooLong
      else if list_ex (\<lambda>c. (of_char c :: nat) < 0x20 \<or> (of_char c :: nat) > 0x7E) tz then Some TzNotAscii
      else None)"

definition k_zones :: "(string \<times> string) list" where
  "k_zones =
     [(''UTC'', ''UTC0''),
      (''America/St_Johns'', ''NST3:30NDT,M3.2.0,M11.1.0''),
      (''America/Halifax'', ''AST4ADT,M3.2.0,M11.1.0''),
      (''America/New_York'', ''EST5EDT,M3.2.0,M11.1.0''),
      (''America/Chicago'', ''CST6CDT,M3.2.0,M11.1.0''),
      (''America/Denver'', ''MST7MDT,M3.2.0,M11.1.0''),
      (''America/Phoenix'', ''MST7''),
      (''America/Los_Angeles'', ''PST8PDT,M3.2.0,M11.1.0''),
      (''America/Anchorage'', ''AKST9AKDT,M3.2.0,M11.1.0''),
      (''Pacific/Honolulu'', ''HST10''),
      (''America/Regina'', ''CST6''),
      (''America/Mexico_City'', ''CST6''),
      (''America/Sao_Paulo'', ''<-03>3''),
      (''Europe/London'', ''GMT0BST,M3.5.0/1,M10.5.0''),
      (''Europe/Dublin'', ''IST-1GMT0,M10.5.0,M3.5.0/1''),
      (''Europe/Paris'', ''CET-1CEST,M3.5.0,M10.5.0/3''),
      (''Europe/Berlin'', ''CET-1CEST,M3.5.0,M10.5.0/3''),
      (''Europe/Kyiv'', ''EET-2EEST,M3.5.0/3,M10.5.0/4''),
      (''Europe/Moscow'', ''MSK-3''),
      (''Africa/Johannesburg'', ''SAST-2''),
      (''Asia/Jerusalem'', ''IST-2IDT,M3.4.4/26,M10.5.0''),
      (''Asia/Kolkata'', ''IST-5:30''),
      (''Asia/Shanghai'', ''CST-8''),
      (''Asia/Tokyo'', ''JST-9''),
      (''Australia/Perth'', ''AWST-8''),
      (''Australia/Adelaide'', ''ACST-9:30ACDT,M10.1.0,M4.1.0/3''),
      (''Australia/Sydney'', ''AEST-10AEDT,M10.1.0,M4.1.0/3''),
      (''Pacific/Auckland'', ''NZST-12NZDT,M9.5.0,M4.1.0/3'')]"

definition clock_cfg_zone :: "int \<Rightarrow> (string \<times> string) option" where
  "clock_cfg_zone i = (if i < 0 \<or> nat i \<ge> length k_zones then None else Some (k_zones ! nat i))"

definition clock_cfg_zone_from_label :: "string option \<Rightarrow> string option" where
  "clock_cfg_zone_from_label label =
     (case label of
        None \<Rightarrow> None
      | Some l \<Rightarrow> map_option (\<lambda>i. snd (k_zones ! i)) (first_slot (\<lambda>_ z. strcaseeq l (fst z)) k_zones))"

section \<open>Facts\<close>

lemma nvs_str_or_fits: "length s < sz \<Longrightarrow> nvs_str_or sz d (Some s) = s"
  by (simp add: nvs_str_or_def)

lemma wifi_cfg_survives:
  assumes "wifi_cfg_validate cfg = None" "list_all (\<lambda>e. e = 0) answers"
  shows "wifi_cfg_load (snd (wifi_cfg_save answers torn cfg nvs)) = cfg \<and> fst (wifi_cfg_save answers torn cfg nvs) = 0"
  using assms first_failure_none [of answers]
  by (cases cfg) (auto simp: wifi_cfg_save_def wifi_cfg_load_def wifi_cfg_validate_def nvs_str_or_fits split: if_splits)

lemma apply_whole:
  "wifi_cfg_validate cfg = None \<Longrightarrow> ap_ssid (fst (snd (wifi_cfg_apply 0 0 cfg))) = fst cfg \<and>
     ap_ssid_len (fst (snd (wifi_cfg_apply 0 0 cfg))) = length (fst cfg) \<and>
     ap_password (fst (snd (wifi_cfg_apply 0 0 cfg))) = fst (snd cfg)"
  by (cases cfg) (auto simp: wifi_cfg_apply_def wifi_cfg_validate_def strlcpy_def split: if_splits)

lemma auth_cfg_survives:
  assumes "auth_cfg_validate user password = None" "auth_cfg_save answers torn user password s = (0, s')"
  shows "credentials s' = (user, password)" "auth_cfg_load_from_nvs (u_nvs s') = (user, password)"
    "password \<noteq> AUTH_CFG_DEFAULT_PASSWORD"
  using assms
  by (auto simp: auth_cfg_save_def credentials_def auth_cfg_load_def auth_cfg_load_from_nvs_def auth_cfg_validate_def
      nvs_str_or_fits Let_def split: if_splits)

lemma auth_save_failed:
  "auth_cfg_save answers torn user password s = (err, s') \<Longrightarrow> err \<noteq> 0 \<Longrightarrow> u_cache s' = u_cache s"
  by (auto simp: auth_cfg_save_def Let_def split: if_splits)

lemma credentials_bounded:
  "u_cache s = None \<Longrightarrow> length (fst (credentials s)) < AUTH_CFG_USERNAME_MAX_LEN \<and>
     length (snd (credentials s)) < AUTH_CFG_PASSWORD_MAX_LEN"
  by (auto simp: credentials_def auth_cfg_load_def auth_cfg_load_from_nvs_def nvs_str_or_def Let_def split: option.split)

lemma tz_survives:
  assumes "clock_cfg_validate tz = None" "length tz < CLOCK_CFG_TZ_MAX_LEN" "clock_cfg_save answers torn tz s = (0, s')"
  shows "load_tz_from_nvs (k_nvs s') = resolve_tz tz" "k_env s' = resolve_tz tz" "fst (clock_cfg_get s') = resolve_tz tz"
  using assms
  by (auto simp: clock_cfg_save_def load_tz_from_nvs_def nvs_str_def clock_cfg_get_def Let_def split: if_splits)

end
