(* ===== verification/WebAuth.thy ===== *)
theory WebAuth
  imports HttpText Settings
begin

text \<open>
  What every route of the web server runs before it acts (\<open>main/web_server.c\<close>): the login, the metered
  log of refusals, the defence against requests other sites forge, and the reading of a body. The HTTP
  library is outside the program: what it answers is part of the request.
\<close>

section \<open>Requests and responses\<close>

datatype hdr_answer = HdrOk string | HdrTrunc string | HdrNotFound | HdrFail

datatype recv_answer = Chunk string | RecvTimeout | RecvError

text \<open>A name and a buffer size give what \<open>httpd_req_get_hdr_value_str\<close> answers; the reads of the socket are in order.\<close>

record request =
  rq_uri :: string
  rq_hdr_len :: "string \<Rightarrow> nat"
  rq_hdr :: "string \<Rightarrow> nat \<Rightarrow> hdr_answer"
  rq_content_len :: nat
  rq_recv :: "recv_answer list"

text \<open>The library's documented behaviour over the header fields of the request.\<close>

definition headers_are :: "request \<Rightarrow> (string \<times> string) list \<Rightarrow> bool" where
  "headers_are rq hs \<longleftrightarrow>
     (rq_hdr_len rq = (\<lambda>name. case map_of hs name of None \<Rightarrow> 0 | Some v \<Rightarrow> length v)) \<and>
     (rq_hdr rq = (\<lambda>name sz. case map_of hs name of
        None \<Rightarrow> HdrNotFound
      | Some v \<Rightarrow> if length v < sz then HdrOk v else HdrTrunc (take (sz - 1) v)))"

text \<open>A delay, a line of the log, a response (status, header fields, body), the library's error response.\<close>

datatype web_effect =
  Delay nat | Warn string | Respond nat "(string \<times> string) list" string | RespondErr nat string

abbreviation json_type :: "(string \<times> string) list" where
  "json_type \<equiv> [(''Content-Type'', ''application/json'')]"

definition send_json :: "nat \<Rightarrow> nat \<Rightarrow> resp \<Rightarrow> bool \<times> web_effect list" where
  "send_json status bufsz r =
     (case resp_send_json bufsz r of
        None \<Rightarrow> (False, [RespondErr 500 ''Response buffer overflow''])
      | Some body \<Rightarrow> (True, [Respond status json_type body]))"

section \<open>The login\<close>

definition check_admin_auth :: "request \<Rightarrow> auth_store \<Rightarrow> bool \<times> auth_store" where
  "check_admin_auth rq s =
     (let hdr_len = rq_hdr_len rq ''Authorization'' in
      if hdr_len = 0 \<or> hdr_len \<ge> 160 then (False, s)
      else (case rq_hdr rq ''Authorization'' 160 of
        HdrOk hdr \<Rightarrow>
          if take 6 hdr \<noteq> ''Basic '' then (False, s)
          else (case base64_decode (take (hdr_len - 6) (drop 6 hdr))
                       (AUTH_CFG_USERNAME_MAX_LEN + AUTH_CFG_PASSWORD_MAX_LEN - 1) of
            None \<Rightarrow> (False, s)
          | Some decoded \<Rightarrow>
              (case strchr (cstr decoded) CHR '':'' of
                 None \<Rightarrow> (False, s)
               | Some colon \<Rightarrow>
                   let user = take (length (cstr decoded) - length colon) (cstr decoded);
                       password = tl colon;
                       ((expected_user, expected_password), s) = auth_cfg_load s
                   in (if user \<noteq> expected_user then False else password = expected_password, s)))
      | _ \<Rightarrow> (False, s)))"

section \<open>Refusals\<close>

abbreviation AUTH_FAIL_DELAY_MS :: nat where "AUTH_FAIL_DELAY_MS \<equiv> 1000"
abbreviation AUTH_FAIL_LOG_URI_MAX :: nat where "AUTH_FAIL_LOG_URI_MAX \<equiv> 48"
abbreviation CSRF_LOG_URI_MAX :: nat where "CSRF_LOG_URI_MAX \<equiv> 48"

definition client_wants_html :: "request \<Rightarrow> bool" where
  "client_wants_html rq =
     (case rq_hdr rq ''Accept'' 48 of
        HdrOk accept \<Rightarrow> strstr accept ''text/html'' \<noteq> None
      | HdrTrunc accept \<Rightarrow> strstr accept ''text/html'' \<noteq> None
      | _ \<Rightarrow> False)"

definition auth_error_html :: string where
  "auth_error_html =
     ''<!doctype html><meta charset=\"utf-8\"><title>Sign in &ndash; AgOpen router</title>'' @
     ''<body style=\"font-family:sans-serif;max-width:420px;margin:2em auto;padding:0 1em;color:#222\">'' @
     ''<h1 style=\"font-size:1.3em\">Sign in required</h1>'' @
     ''<p>The bridge didn'' @ [CHR 0x27] @ ''t accept those credentials. This usually means the admin '' @
     ''password was changed or reset since this page was opened.</p>'' @
     ''<p><a href=\"/\">Try again</a></p>''"

text \<open>The three static variables of the refusal log.\<close>

record auth_log =
  f_unreported :: u32
  f_last_log :: u32
  f_logged :: bool

text \<open>
  \<open>window\<close> is \<open>AUTH_FAIL_LOG_INTERVAL_MS\<close> in ticks and \<open>now\<close> the tick count. The result is the count a
  line reports beside its own, if one is written.
\<close>

definition log_auth_failure :: "u32 \<Rightarrow> u32 \<Rightarrow> auth_log \<Rightarrow> u32 option \<times> auth_log" where
  "log_auth_failure window now f =
     (let f = f\<lparr>f_unreported := f_unreported f + 1\<rparr> in
      if f_logged f \<and> now - f_last_log f < window then (None, f)
      else (Some (f_unreported f - 1), f\<lparr>f_unreported := 0, f_last_log := now, f_logged := True\<rparr>))"

definition auth_failure_line :: "request \<Rightarrow> bool \<Rightarrow> u32 \<Rightarrow> string" where
  "auth_failure_line rq had_credentials also =
     ''Rejected request for '' @ take AUTH_FAIL_LOG_URI_MAX (rq_uri rq) @ '': '' @
     (if had_credentials then ''bad credentials'' else ''no credentials sent'') @
     (if also = 0 then '''' else '' ('' @ decimal (unat also) @ '' more since the last of these)'')"

definition send_auth_error :: "u32 \<Rightarrow> u32 \<Rightarrow> request \<Rightarrow> auth_log \<Rightarrow> web_effect list \<times> auth_log" where
  "send_auth_error window now rq f =
     (let had_credentials = rq_hdr_len rq ''Authorization'' > 0;
          (also, f) = log_auth_failure window now f;
          challenge = (''WWW-Authenticate'', ''Basic realm=\"AgOpen router\"'')
      in ((if had_credentials then [Delay AUTH_FAIL_DELAY_MS] else []) @
          (case also of None \<Rightarrow> [] | Some n \<Rightarrow> [Warn (auth_failure_line rq had_credentials n)]) @
          [if client_wants_html rq
             then Respond 401 [challenge, (''Content-Type'', ''text/html'')] auth_error_html
             else Respond 401 (challenge # json_type) ''{\"ok\":false,\"error\":\"Authentication required\"}''], f))"

definition send_default_creds_redirect :: "web_effect list" where
  "send_default_creds_redirect = [Respond 302 [(''Location'', ''/admin?forced=1'')] '''']"

definition send_setup_required :: "web_effect list" where
  "send_setup_required =
     [Respond 403 json_type ''{\"ok\":false,\"error\":\"Default admin password in use - set a new one at /admin\"}'']"

section \<open>Requests other sites forge\<close>

definition trim_blanks :: "string \<Rightarrow> string" where
  "trim_blanks s = rev (dropWhile blank (rev (dropWhile blank s)))"

definition media_type :: "string \<Rightarrow> string" where
  "media_type type = trim_blanks (takeWhile (\<lambda>c. c \<noteq> CHR '';'') type)"

definition csrf_check :: "request \<Rightarrow> string \<Rightarrow> bool \<times> web_effect list" where
  "csrf_check rq expected_type =
     (let type_ok = (case rq_hdr rq ''Content-Type'' 64 of
            HdrOk type \<Rightarrow> strcaseeq (media_type type) expected_type
          | _ \<Rightarrow> False)
      in if \<not> type_ok then
           (False,
            Warn (''Rejected '' @ take CSRF_LOG_URI_MAX (rq_uri rq) @ '': Content-Type is not '' @ expected_type) #
            snd (send_json 415 128 (resp_append 128 ('''', 0)
              (''{\"ok\":false,\"error\":\"Send this as Content-Type: '' @ expected_type @ ''\"}''))))
         else (case rq_hdr rq ''Origin'' 64 of
           HdrNotFound \<Rightarrow> (True, [])
         | err \<Rightarrow>
             let same_origin = (case err of
                   HdrOk origin \<Rightarrow>
                     if strncaseprefix origin ''http://'' then
                       (case rq_hdr rq ''Host'' 64 of
                          HdrOk host \<Rightarrow> strcaseeq (strip_default_port (drop 7 origin)) (strip_default_port host)
                        | _ \<Rightarrow> False)
                     else False
                 | _ \<Rightarrow> False)
             in if \<not> same_origin then
                  (False,
                   [Warn (''Rejected '' @ take CSRF_LOG_URI_MAX (rq_uri rq) @ '': cross-origin request''),
                    Respond 403 json_type ''{\"ok\":false,\"error\":\"Cross-origin request refused\"}''])
                else (True, [])))"

section \<open>The body\<close>

abbreviation RECV_BODY_MAX_TIMEOUTS :: nat where "RECV_BODY_MAX_TIMEOUTS \<equiv> 3"

text \<open>An answer without bytes is a closed connection, as is the end of the list.\<close>

fun recv_loop :: "nat \<Rightarrow> recv_answer list \<Rightarrow> string \<Rightarrow> nat \<Rightarrow> string option" where
  "recv_loop len rs buf timeouts =
     (if length buf \<ge> len then Some buf
      else (case rs of
        Chunk s # rs \<Rightarrow> if s \<noteq> [] then recv_loop len rs (buf @ s) timeouts else None
      | RecvTimeout # rs \<Rightarrow>
          if timeouts + 1 \<le> RECV_BODY_MAX_TIMEOUTS then recv_loop len rs buf (timeouts + 1) else None
      | _ \<Rightarrow> None))"

declare recv_loop.simps [simp del]

definition recv_body :: "request \<Rightarrow> nat \<Rightarrow> string option \<times> web_effect list" where
  "recv_body rq bufsz =
     (if rq_content_len rq = 0 \<or> rq_content_len rq \<ge> bufsz then
        (None, [RespondErr 400 ''Body missing or too large''])
      else (case recv_loop (rq_content_len rq) (rq_recv rq) '''' 0 of
              None \<Rightarrow> (None, [RespondErr 400 ''Failed to read body''])
            | Some buf \<Rightarrow> (Some (cstr buf), [])))"

section \<open>The login: facts\<close>

lemma take_before: "take (length (a @ b) - length b) (a @ b) = a"
  by simp

lemma login_shape:
  assumes "headers_are rq hs"
  shows "fst (check_admin_auth rq s) \<longleftrightarrow>
    (\<exists>b d. map_of hs ''Authorization'' = Some (''Basic '' @ b) \<and> length b < 154 \<and> base64_decode b 95 = Some d \<and>
       cstr d = fst (credentials s) @ '':'' @ snd (credentials s) \<and> CHR '':'' \<notin> set (fst (credentials s)))"
    (is "?l \<longleftrightarrow> ?r")
proof
  assume ?l
  then obtain h d colon where h: "map_of hs ''Authorization'' = Some h" "length h < 160" "take 6 h = ''Basic ''"
      "base64_decode (drop 6 h) 95 = Some d" "strchr (cstr d) CHR '':'' = Some colon"
      "take (length (cstr d) - length colon) (cstr d) = fst (credentials s)" "tl colon = snd (credentials s)"
    using assms
    by (auto simp: check_admin_auth_def headers_are_def Let_def credentials_def
        split: if_splits option.splits hdr_answer.splits prod.splits)
  from h(5) obtain u p where c: "cstr d = u @ CHR '':'' # p" "CHR '':'' \<notin> set u" "colon = CHR '':'' # p"
    unfolding strchr_split by auto
  have b: "h = ''Basic '' @ drop 6 h" using append_take_drop_id [of 6 h] h(3) by simp
  have l: "length (drop 6 h) < 154" using h(2) by simp
  have "u = fst (credentials s)" "p = snd (credentials s)" using h(6,7) unfolding c by simp_all
  then have "cstr d = fst (credentials s) @ '':'' @ snd (credentials s)" "CHR '':'' \<notin> set (fst (credentials s))"
    using c by simp_all
  then show ?r using h(1,4) l b by (intro exI [of _ "drop 6 h"] exI [of _ d]) simp
next
  assume ?r
  then obtain b d where h: "map_of hs ''Authorization'' = Some (''Basic '' @ b)" "length b < 154"
      "base64_decode b 95 = Some d" "cstr d = fst (credentials s) @ '':'' @ snd (credentials s)"
      "CHR '':'' \<notin> set (fst (credentials s))" by blast
  have "strchr (cstr d) CHR '':'' = Some (CHR '':'' # snd (credentials s))"
    unfolding strchr_split using h(4,5) by auto
  then show ?l
    using h assms by (auto simp: check_admin_auth_def headers_are_def Let_def credentials_def split: prod.splits)
qed

lemma check_keeps: "credentials (snd (check_admin_auth rq s)) = credentials s" "u_nvs (snd (check_admin_auth rq s)) = u_nvs s"
  by (auto simp: check_admin_auth_def credentials_def auth_cfg_load_def Let_def
      split: option.splits hdr_answer.splits prod.splits if_splits)

lemma check_loads: "fst (check_admin_auth rq s) \<Longrightarrow> u_cache (snd (check_admin_auth rq s)) = Some (credentials s)"
  by (auto simp: check_admin_auth_def credentials_def auth_cfg_load_def Let_def
      split: option.splits hdr_answer.splits prod.splits if_splits)

section \<open>The refusal log: facts\<close>

text \<open>Refusals one after the other, at the given tick counts: the lines written, each with its time.\<close>

fun refusals :: "u32 \<Rightarrow> nat list \<Rightarrow> auth_log \<Rightarrow> (nat \<times> u32) list \<times> auth_log" where
  "refusals window [] f = ([], f)"
| "refusals window (t # ts) f =
     (let (extra, f) = log_auth_failure window (of_nat t) f; (lines, f) = refusals window ts f
      in ((case extra of None \<Rightarrow> lines | Some n \<Rightarrow> (t, n) # lines), f))"

lemma refusals_account:
  "(\<Sum>(t, n)\<leftarrow>fst (refusals window ts f). n + 1) + f_unreported (snd (refusals window ts f)) =
     f_unreported f + of_nat (length ts)"
proof (induction ts arbitrary: f)
  case (Cons t ts)
  obtain extra f' where l: "log_auth_failure window (of_nat t) f = (extra, f')" by fastforce
  have "(case extra of None \<Rightarrow> 0 | Some n \<Rightarrow> n + 1) + f_unreported f' = f_unreported f + 1"
    using l by (auto simp: log_auth_failure_def Let_def split: if_splits)
  then show ?case using Cons [of f'] l by (cases extra) (auto simp: algebra_simps split: prod.splits)
qed simp

lemma window_apart:
  fixes window :: u32
  assumes "a \<le> b" "\<not> of_nat b - of_nat a < window"
  shows "a + unat window \<le> b"
proof -
  have "of_nat b - of_nat a = (of_nat (b - a) :: u32)" using assms(1) by (simp add: of_nat_diff)
  then have "\<not> unat (of_nat (b - a) :: u32) < unat window" using assms(2) by (simp add: word_less_nat_alt)
  then have "unat window \<le> (b - a) mod 2 ^ 32" by (simp add: unat_of_nat)
  then show ?thesis using mod_less_eq_dividend [of "b - a" "2 ^ 32"] assms(1) by linarith
qed

lemma refusals_apart:
  "sorted ts \<Longrightarrow> (f_logged f \<Longrightarrow> f_last_log f = of_nat t0 \<and> (\<forall>t\<in>set ts. t0 \<le> t)) \<Longrightarrow>
     successively (\<lambda>a b. a + unat window \<le> b)
       ((if f_logged f then [t0] else []) @ map fst (fst (refusals window ts f)))"
proof (induction ts arbitrary: f t0)
  case (Cons t ts)
  obtain extra f' where l: "log_auth_failure window (of_nat t) f = (extra, f')" by fastforce
  show ?case
  proof (cases extra)
    case None
    then have f': "f_logged f'" "f_last_log f' = f_last_log f" "f_logged f"
      using l by (auto simp: log_auth_failure_def Let_def split: if_splits)
    from Cons.IH [of f' t0] show ?thesis using Cons.prems l None f' by (auto split: prod.splits)
  next
    case (Some n)
    then have f': "f_logged f'" "f_last_log f' = of_nat t"
        "f_logged f \<Longrightarrow> \<not> of_nat t - f_last_log f < window"
      using l by (auto simp: log_auth_failure_def Let_def split: if_splits)
    from Cons.IH [of f' t] have "successively (\<lambda>a b. a + unat window \<le> b) (t # map fst (fst (refusals window ts f')))"
      using Cons.prems f' by simp
    then show ?thesis
      using Cons.prems l Some f'(3) window_apart [of t0 t window] by (auto split: prod.splits)
  qed
qed simp

section \<open>Forged requests and bodies: facts\<close>

text \<open>What \<open>csrf_check\<close> asks of the header fields.\<close>

definition same_origin :: "(string \<times> string) list \<Rightarrow> bool" where
  "same_origin hs \<longleftrightarrow>
     (case (map_of hs ''Origin'', map_of hs ''Host'') of
        (None, _) \<Rightarrow> True
      | (Some orig, Some host) \<Rightarrow>
          length orig < 64 \<and> length host < 64 \<and> strncaseprefix orig ''http://'' \<and>
          strcaseeq (strip_default_port (drop 7 orig)) (strip_default_port host)
      | _ \<Rightarrow> False)"

definition typed :: "(string \<times> string) list \<Rightarrow> string \<Rightarrow> bool" where
  "typed hs expected \<longleftrightarrow>
     (case map_of hs ''Content-Type'' of
        None \<Rightarrow> False | Some v \<Rightarrow> length v < 64 \<and> strcaseeq (media_type v) expected)"

lemma csrf_accepts:
  "headers_are rq hs \<Longrightarrow> fst (csrf_check rq expected) \<longleftrightarrow> typed hs expected \<and> same_origin hs"
  unfolding csrf_check_def headers_are_def typed_def same_origin_def Let_def
  by (cases "map_of hs ''Content-Type''"; cases "map_of hs ''Origin''"; cases "map_of hs ''Host''") simp_all

lemma csrf_effects: "fst (csrf_check rq expected) \<Longrightarrow> snd (csrf_check rq expected) = []"
  by (auto simp: csrf_check_def Let_def split: if_splits hdr_answer.splits)

definition chunks :: "recv_answer list \<Rightarrow> string" where
  "chunks rs = concat (map (\<lambda>r. case r of Chunk s \<Rightarrow> s | _ \<Rightarrow> '''') rs)"

definition timeouts :: "recv_answer list \<Rightarrow> nat" where
  "timeouts rs = length (filter (\<lambda>r. r = RecvTimeout) rs)"

lemma chunks_simps [simp]:
  "chunks [] = ''''" "chunks (Chunk s # rs) = s @ chunks rs" "chunks (RecvTimeout # rs) = chunks rs"
  "timeouts [] = 0" "timeouts (Chunk s # rs) = timeouts rs" "timeouts (RecvTimeout # rs) = Suc (timeouts rs)"
  by (simp_all add: chunks_def timeouts_def)

lemma recv_loop_delivers:
  "\<forall>r\<in>set rs. r = RecvTimeout \<or> (\<exists>s. r = Chunk s \<and> s \<noteq> []) \<Longrightarrow> t + timeouts rs \<le> RECV_BODY_MAX_TIMEOUTS \<Longrightarrow>
     length (buf @ chunks rs) = len \<Longrightarrow> recv_loop len rs buf t = Some (buf @ chunks rs)"
proof (induction rs arbitrary: buf t)
  case Nil
  then show ?case by (simp add: recv_loop.simps)
next
  case (Cons r rs)
  then consider (timeout) "r = RecvTimeout" | (chunk) s where "r = Chunk s" "s \<noteq> []" by auto
  then show ?case
  proof cases
    case timeout
    then show ?thesis using Cons.prems Cons.IH [of "t + 1" buf] by (subst recv_loop.simps) auto
  next
    case chunk
    then show ?thesis using Cons.prems Cons.IH [of t "buf @ s"] by (subst recv_loop.simps) auto
  qed
qed

lemma recv_loop_whole:
  "recv_loop len rs buf t = Some b \<Longrightarrow> \<exists>k. b = buf @ chunks (take k rs) \<and> len \<le> length b"
proof (induction rs arbitrary: buf t)
  case Nil
  then show ?case by (simp add: recv_loop.simps split: if_splits)
next
  case (Cons r rs)
  show ?case
  proof (cases "len \<le> length buf")
    case True
    then show ?thesis using Cons.prems by (intro exI [of _ 0]) (simp add: recv_loop.simps)
  next
    case False
    then obtain buf' t' where r: "recv_loop len rs buf' t' = Some b" "buf' = buf @ chunks [r]"
      using Cons.prems by (subst (asm) recv_loop.simps) (auto split: recv_answer.splits if_splits)
    from Cons.IH [OF r(1)] obtain k where "b = buf' @ chunks (take k rs)" "len \<le> length b" by blast
    then show ?thesis using r(2) by (intro exI [of _ "Suc k"]) (simp add: chunks_def)
  qed
qed

section \<open>Properties\<close>

lemma split_unique:
  "a @ c # b = a' @ c # b' \<Longrightarrow> c \<notin> set a \<Longrightarrow> c \<notin> set a' \<Longrightarrow> a = a' \<and> b = b'"
proof (induction a arbitrary: a')
  case Nil
  then show ?case by (cases a') auto
next
  case (Cons x a)
  then show ?case by (cases a') auto
qed

lemma login_by_credentials:
  assumes "headers_are rq hs"
    and "map_of hs ''Authorization'' = Some (''Basic '' @ base64_encode (user @ '':'' @ password))"
    and "CHR 0x00 \<notin> set (user @ password)" "CHR '':'' \<notin> set user" "length (user @ password) \<le> 94"
  shows "fst (check_admin_auth rq s) \<longleftrightarrow> credentials s = (user, password)"
proof -
  let ?t = "user @ '':'' @ password"
  have d: "base64_decode (base64_encode ?t) 95 = Some ?t" using assms(5) by (intro base64_roundtrip) simp_all
  have c: "cstr ?t = ?t" using assms(3) by (intro cstr_id) simp
  have l: "length (base64_encode ?t) < 154" using assms(5) by (simp add: length_encode)
  have "fst (check_admin_auth rq s) \<longleftrightarrow>
      ?t = fst (credentials s) @ '':'' @ snd (credentials s) \<and> CHR '':'' \<notin> set (fst (credentials s))"
    unfolding login_shape [OF assms(1)] using assms(2) d c l by auto
  also have "\<dots> \<longleftrightarrow> credentials s = (user, password)"
    using split_unique [of user "CHR '':''" password "fst (credentials s)" "snd (credentials s)"] assms(4)
    by (cases "credentials s") auto
  finally show ?thesis .
qed

text \<open>C11: A request that sends a user name and a password the standard way (\<open>Basic\<close> and the base64 of
  \<open>user:password\<close>) is let in exactly if they are the administrator's: no other pair is, and this one
  is whatever bytes it is made of, up to the longest that can be stored. The name is one without a colon.
\<close>

theorem login_exact:
  assumes "headers_are rq hs"
    and "map_of hs ''Authorization'' = Some (''Basic '' @ base64_encode (user @ '':'' @ password))"
    and "CHR 0x00 \<notin> set (user @ password)" "CHR '':'' \<notin> set user" "length (user @ password) \<le> 94"
  shows "fst (check_admin_auth rq s) \<longleftrightarrow> credentials s = (user, password)"
  using assms by (rule login_by_credentials)

definition example_request :: "(string \<times> string) list \<Rightarrow> string \<Rightarrow> request" where
  "example_request hs body =
     \<lparr>rq_uri = ''/api/admin'',
      rq_hdr_len = (\<lambda>name. case map_of hs name of None \<Rightarrow> 0 | Some v \<Rightarrow> length v),
      rq_hdr = (\<lambda>name sz. case map_of hs name of
        None \<Rightarrow> HdrNotFound
      | Some v \<Rightarrow> if length v < sz then HdrOk v else HdrTrunc (take (sz - 1) v)),
      rq_content_len = length body, rq_recv = [Chunk body]\<rparr>"

lemma example_headers: "headers_are (example_request hs body) hs"
  by (simp add: headers_are_def example_request_def)

definition factory :: auth_store where
  "factory = \<lparr>u_nvs = None, u_cache = None\<rparr>"

lemma factory_credentials: "credentials factory = (''admin'', ''admin'')"
  by (simp add: factory_def credentials_def auth_cfg_load_def auth_cfg_load_from_nvs_def Let_def)

theorem login_exact_witness:
  "fst (check_admin_auth
     (example_request [(''Authorization'', ''Basic '' @ base64_encode ''admin:admin'')] '''') factory) \<and>
   \<not> fst (check_admin_auth
     (example_request [(''Authorization'', ''Basic '' @ base64_encode ''admin:Admin'')] '''') factory)"
  using login_exact [OF example_headers, of "[(''Authorization'', ''Basic '' @ base64_encode ''admin:admin'')]"
      "''admin''" "''admin''" "''''" factory]
    login_exact [OF example_headers, of "[(''Authorization'', ''Basic '' @ base64_encode ''admin:Admin'')]"
      "''admin''" "''Admin''" "''''" factory]
  by (simp add: factory_credentials)

text \<open>
  A user name with a colon passes the validation, is saved, and from then on locks everyone out: the
  login splits what it is sent at the first colon, so no request at all is let in.
\<close>

theorem colon_user_locked_out:
  assumes "CHR '':'' \<in> set user" "auth_cfg_validate user password = None"
    and "auth_cfg_save answers torn user password s = (0, s')"
  shows "\<not> fst (check_admin_auth rq s')"
proof
  assume "fst (check_admin_auth rq s')"
  then obtain d colon where h: "strchr (cstr d) CHR '':'' = Some colon"
      "take (length (cstr d) - length colon) (cstr d) = fst (credentials s')"
    by (auto simp: check_admin_auth_def Let_def credentials_def
        split: if_splits option.splits hdr_answer.splits prod.splits)
  from h(1) obtain a b where "cstr d = a @ CHR '':'' # b" "CHR '':'' \<notin> set a" "colon = CHR '':'' # b"
    unfolding strchr_split by auto
  then show False using h(2) auth_cfg_survives(1) [OF assms(2,3)] assms(1) by simp
qed

theorem colon_user_locked_out_witness:
  "\<not> fst (check_admin_auth
     (example_request [(''Authorization'', ''Basic '' @ base64_encode ''a:b:secret'')] '''')
     (snd (auth_cfg_save [] None ''a:b'' ''secret'' factory)))"
  by (rule colon_user_locked_out [where user = "''a:b''" and password = "''secret''" and answers = "[]" and
        torn = None and s = factory])
    (simp_all add: auth_cfg_validate_def auth_cfg_save_def first_failure_def factory_def)

text \<open>
  However fast a stranger is refused, the log gets at most one line per window, and no refusal goes
  uncounted: the lines, with the number each adds, and the count still to be reported make up all of them.
\<close>

theorem refusals_metered:
  assumes "sorted ts" "\<not> f_logged f" "refusals window ts f = (lines, f')"
  shows "successively (\<lambda>a b. a + unat window \<le> b) (map fst lines) \<and>
    (\<Sum>(t, n)\<leftarrow>lines. n + 1) + f_unreported f' = f_unreported f + of_nat (length ts)"
  using refusals_apart [of ts f 0 window] refusals_account [of window ts f] assms by simp

theorem refusals_metered_witness:
  "successively (\<lambda>a b. a + unat (6000 :: u32) \<le> b) (map fst [(10, 0 :: u32), (6010, 2)]) \<and>
   (\<Sum>(t, n)\<leftarrow>[(10 :: nat, 0 :: u32), (6010, 2)]. n + 1) + 1 = 0 + of_nat (length [10 :: nat, 20, 30, 6010, 6020])"
  using refusals_metered [of "[10, 20, 30, 6010, 6020]" "\<lparr>f_unreported = 0, f_last_log = 0, f_logged = False\<rparr>" 6000
      "[(10, 0), (6010, 2)]" "\<lparr>f_unreported = 1, f_last_log = 6010, f_logged = True\<rparr>"]
  by (simp add: log_auth_failure_def)

text \<open>A state-changing request passes the defence exactly if its declared type is the expected one, but
  for letter case, padding and parameters, and it names no origin or, over plain HTTP, the host it is
  addressed to, port 80 being the default on both sides.
\<close>

theorem csrf_exact:
  assumes "headers_are rq hs"
  shows "fst (csrf_check rq expected) \<longleftrightarrow> typed hs expected \<and> same_origin hs"
  by (rule csrf_accepts [OF assms])

theorem csrf_exact_witness:
  "fst (csrf_check (example_request [(''Content-Type'', ''Application/JSON ; charset=utf-8''),
       (''Origin'', ''http://192.168.5.1''), (''Host'', ''192.168.5.1:80'')] '''') ''application/json'') \<and>
   \<not> fst (csrf_check (example_request [(''Content-Type'', ''text/plain'')] '''') ''application/json'')"
  unfolding csrf_exact [OF example_headers]
  by (simp add: typed_def same_origin_def media_type_def trim_blanks_def blank_def strcaseeq_def strncaseprefix_def
      tolower_def strip_default_port_def char_of_eq_iff)

definition delivered :: "request \<Rightarrow> bool" where
  "delivered rq \<longleftrightarrow>
     (\<forall>r\<in>set (rq_recv rq). r = RecvTimeout \<or> (\<exists>s. r = Chunk s \<and> s \<noteq> [])) \<and>
     timeouts (rq_recv rq) \<le> RECV_BODY_MAX_TIMEOUTS \<and> length (chunks (rq_recv rq)) = rq_content_len rq"

text \<open>
  A body split over any number of reads, with up to three timeouts in between, arrives whole; and
  what a handler is given is never short of the announced length.
\<close>

theorem body_whole:
  assumes "0 < rq_content_len rq" "rq_content_len rq < bufsz"
  shows "(delivered rq \<longrightarrow> recv_body rq bufsz = (Some (cstr (chunks (rq_recv rq))), [])) \<and>
    (\<forall>b e. recv_body rq bufsz = (Some b, e) \<longrightarrow>
       (\<exists>k. let got = chunks (take k (rq_recv rq)) in b = cstr got \<and> rq_content_len rq \<le> length got))"
  using recv_loop_delivers [of "rq_recv rq" 0 "[]" "rq_content_len rq"]
    recv_loop_whole [of "rq_content_len rq" "rq_recv rq" "[]" 0] assms
  by (fastforce simp: recv_body_def delivered_def Let_def split: option.splits)

theorem body_whole_witness:
  "recv_body ((example_request [] ''{}'')\<lparr>rq_recv := [Chunk ''{'', RecvTimeout, Chunk ''}'']\<rparr>) 64 = (Some ''{}'', [])"
  using body_whole [of "(example_request [] ''{}'')\<lparr>rq_recv := [Chunk ''{'', RecvTimeout, Chunk ''}'']\<rparr>" 64]
  by (simp add: example_request_def delivered_def)

end
