(* ===== verification/ClockTime.thy ===== *)
theory ClockTime
  imports ResetLog
begin

text \<open>
  The clock (\<open>main/clock_time.c\<close>): the block in RTC memory that says whether the system clock may be
  believed, the synchronisation callback, the NTP client's start and stop with the uplink, and the tick
  that dates the boot's record. Times are seconds since 1970, uptimes microseconds.
\<close>

section \<open>State\<close>

abbreviation CLOCK_STALE_AFTER_S :: int where "CLOCK_STALE_AFTER_S \<equiv> 24 * 60 * 60"
abbreviation CLOCK_TIME_RTC_MAGIC :: u32 where "CLOCK_TIME_RTC_MAGIC \<equiv> 0x434C4B31"
abbreviation SYNC_WARN_AFTER_S :: int where "SYNC_WARN_AFTER_S \<equiv> 90"

record clock_rtc =
  o_magic :: u32
  o_synced :: u32
  o_synced_inv :: u32
  o_lo :: u32
  o_lo_inv :: u32
  o_hi :: u32
  o_hi_inv :: u32

record clock =
  c_rtc :: clock_rtc
  c_synced_this_boot :: bool
  c_backfilled :: bool
  c_started :: bool
  c_last_sync_up_s :: int
  c_started_at_us :: int
  c_warned_unsynced :: bool
  c_resolved :: bool

text \<open>The static variables of a boot, over what RTC memory holds.\<close>

definition clock_at_boot :: "clock_rtc \<Rightarrow> clock" where
  "clock_at_boot r =
     \<lparr>c_rtc = r, c_synced_this_boot = False, c_backfilled = False, c_started = False, c_last_sync_up_s = 0,
      c_started_at_us = 0, c_warned_unsynced = False, c_resolved = False\<rparr>"

section \<open>The block in RTC memory\<close>

definition rtc_valid :: "clock_rtc \<Rightarrow> bool" where
  "rtc_valid r \<longleftrightarrow>
     o_magic r = CLOCK_TIME_RTC_MAGIC \<and> o_synced r = NOT (o_synced_inv r) \<and> o_lo r = NOT (o_lo_inv r) \<and>
     o_hi r = NOT (o_hi_inv r)"

text \<open>\<open>rtc_note_sync\<close> as its stores, in order: a reset can fall between any two.\<close>

definition sync_stores :: "int \<Rightarrow> (clock_rtc \<Rightarrow> clock_rtc) list" where
  "sync_stores when =
     (let w = word_of_int when :: u64 in
      [\<lambda>r. r\<lparr>o_lo := ucast w\<rparr>, \<lambda>r. r\<lparr>o_lo_inv := NOT (o_lo r)\<rparr>,
       \<lambda>r. r\<lparr>o_hi := ucast (drop_bit 32 w)\<rparr>, \<lambda>r. r\<lparr>o_hi_inv := NOT (o_hi r)\<rparr>,
       \<lambda>r. r\<lparr>o_synced := 1\<rparr>, \<lambda>r. r\<lparr>o_synced_inv := NOT (o_synced r)\<rparr>,
       \<lambda>r. r\<lparr>o_magic := CLOCK_TIME_RTC_MAGIC\<rparr>])"

definition rtc_note_sync :: "int \<Rightarrow> clock_rtc \<Rightarrow> clock_rtc" where
  "rtc_note_sync when r = foldl (\<lambda>r store. store r) r (sync_stores when)"

definition rtc_last_sync :: "clock_rtc \<Rightarrow> int" where
  "rtc_last_sync r =
     (if \<not> rtc_valid r \<or> o_synced r = 0 then 0
      else sint (push_bit 32 (ucast (o_hi r)) OR ucast (o_lo r) :: u64))"

section \<open>The clock\<close>

definition clock_time_synced :: "clock_rtc \<Rightarrow> bool" where
  "clock_time_synced r \<longleftrightarrow> rtc_valid r \<and> o_synced r \<noteq> 0"

text \<open>\<open>now\<close> is what \<open>time\<close> reads.\<close>

definition clock_time_now :: "int \<Rightarrow> clock_rtc \<Rightarrow> int option" where
  "clock_time_now now r =
     (if \<not> clock_time_synced r then None
      else let last = rtc_last_sync r in if last \<noteq> 0 \<and> now < last then None else Some now)"

definition clock_time_stale :: "int \<Rightarrow> clock_rtc \<Rightarrow> bool" where
  "clock_time_stale now r =
     (let last = rtc_last_sync r in
      case clock_time_now now r of
        None \<Rightarrow> False
      | Some now \<Rightarrow> if last = 0 then False else now - last > CLOCK_STALE_AFTER_S)"

definition clock_time_last_sync :: "clock_rtc \<Rightarrow> int" where
  "clock_time_last_sync r = rtc_last_sync r"

definition clock_time_source :: "clock \<Rightarrow> string" where
  "clock_time_source c =
     (if \<not> clock_time_synced (c_rtc c) then ''none''
      else if c_synced_this_boot c then ''ntp'' else ''carried'')"

section \<open>Synchronisation\<close>

text \<open>The result is the drift the log line reports: the correction and the interval, from the second sync on.\<close>

definition on_sync :: "int option \<Rightarrow> int \<Rightarrow> int \<Rightarrow> clock \<Rightarrow> (int \<times> int) option \<times> clock" where
  "on_sync tv now us c =
     (let when = (case tv of Some t \<Rightarrow> t | None \<Rightarrow> now);
          up_s = us div 1000000;
          drift = (if c_synced_this_boot c
            then let predicted = rtc_last_sync (c_rtc c) + (up_s - c_last_sync_up_s c)
              in Some (when - predicted, up_s - c_last_sync_up_s c)
            else None)
      in (drift, c\<lparr>c_rtc := rtc_note_sync when (c_rtc c), c_last_sync_up_s := up_s, c_synced_this_boot := True\<rparr>))"

text \<open>The answer is \<open>esp_netif_sntp_init\<close>'s, which comes after the block is made valid.\<close>

definition clock_time_init :: "int \<Rightarrow> clock \<Rightarrow> int \<times> clock" where
  "clock_time_init sntp c =
     (let c = (if rtc_valid (c_rtc c) then c
               else c\<lparr>c_rtc := \<lparr>o_magic = CLOCK_TIME_RTC_MAGIC, o_synced = 0, o_synced_inv = NOT 0, o_lo = 0,
                      o_lo_inv = NOT 0, o_hi = 0, o_hi_inv = NOT 0\<rparr>\<rparr>)
      in if sntp \<noteq> 0 then (sntp, c) else (0, c))"

datatype clock_effect = StartSntp | StopSntp | ResolveTask | WarnUnsynced

definition clock_time_wan_up :: "int \<Rightarrow> int \<Rightarrow> clock \<Rightarrow> clock_effect list \<times> clock" where
  "clock_time_wan_up answer us c =
     (if c_started c then ([], c)
      else if answer \<noteq> 0 then ([], c)
      else let c = c\<lparr>c_started := True, c_started_at_us := us, c_warned_unsynced := False\<rparr>
        in if \<not> c_resolved c then ([StartSntp, ResolveTask], c\<lparr>c_resolved := True\<rparr>) else ([StartSntp], c))"

definition clock_time_wan_down :: "clock \<Rightarrow> clock_effect list \<times> clock" where
  "clock_time_wan_down c = (if \<not> c_started c then ([], c) else ([StopSntp], c\<lparr>c_started := False\<rparr>))"

definition warn_unsynced :: "int \<Rightarrow> clock \<Rightarrow> clock_effect list \<times> clock" where
  "warn_unsynced us c =
     (if c_started c \<and> \<not> c_synced_this_boot c \<and> \<not> c_warned_unsynced c \<and>
         us - c_started_at_us c > SYNC_WARN_AFTER_S * 1000000
      then ([WarnUnsynced], c\<lparr>c_warned_unsynced := True\<rparr>) else ([], c))"

text \<open>The tick dates the record of the boot in the reset history; the flash answers as given.\<close>

definition clock_time_tick ::
  "int list \<Rightarrow> reset_nvs option \<Rightarrow> int \<Rightarrow> int \<Rightarrow> clock \<times> resets \<Rightarrow> clock_effect list \<times> clock \<times> resets"
where
  "clock_time_tick answers torn now us = (\<lambda>(c, g).
     let (es, c) = warn_unsynced us c in
     if c_backfilled c \<or> \<not> c_synced_this_boot c then (es, c, g)
     else (case clock_time_now now (c_rtc c) of
             None \<Rightarrow> (es, c, g)
           | Some now \<Rightarrow>
               let up_s = us div 1000000;
                   g = reset_log_note_time answers torn (word_of_int (now - up_s)) g
               in (es, c\<lparr>c_backfilled := True\<rparr>, g)))"

section \<open>Facts\<close>

lemma time_parts:
  "(push_bit 32 (ucast (ucast (drop_bit 32 w) :: u32)) OR ucast (ucast w :: u32)) = (w :: u64)"
  by (rule bit_word_eqI) (auto simp: bit_or_iff bit_push_bit_iff bit_unsigned_iff bit_drop_bit_eq)

lemma note_sync_result:
  "rtc_note_sync when r =
     (let w = word_of_int when :: u64; lo = ucast w; hi = ucast (drop_bit 32 w) in
      \<lparr>o_magic = CLOCK_TIME_RTC_MAGIC, o_synced = 1, o_synced_inv = NOT 1, o_lo = lo, o_lo_inv = NOT lo,
       o_hi = hi, o_hi_inv = NOT hi\<rparr>)"
  by (cases r) (simp add: rtc_note_sync_def sync_stores_def Let_def)

lemma note_sync_believed:
  assumes "- (2 ^ 63) \<le> when" "when < 2 ^ 63"
  shows "clock_time_synced (rtc_note_sync when r) \<and> rtc_last_sync (rtc_note_sync when r) = when"
proof -
  have "sint (word_of_int when :: u64) = when" 
    using assms signed_take_bit_int_eq_self [of 63 "when"] by (simp add: sint_sbintrunc')
  then show ?thesis
    by (simp add: note_sync_result Let_def clock_time_synced_def rtc_valid_def rtc_last_sync_def time_parts)
qed

section \<open>The boot's clock as a sequence of events\<close>

datatype clock_event =
  Synced "int option" int int
| WanUp int int
| WanDown
| TickAt "int list" "reset_nvs option" int int

fun clock_step :: "clock \<times> resets \<Rightarrow> clock_event \<Rightarrow> clock \<times> resets" where
  "clock_step (c, g) (Synced tv now us) = (snd (on_sync tv now us c), g)"
| "clock_step (c, g) (WanUp answer us) = (snd (clock_time_wan_up answer us c), g)"
| "clock_step (c, g) WanDown = (snd (clock_time_wan_down c), g)"
| "clock_step (c, g) (TickAt a t now us) = snd (clock_time_tick a t now us (c, g))"

text \<open>The tick that dates the record, and what it writes.\<close>

fun dates :: "clock_event \<Rightarrow> resets \<Rightarrow> resets \<Rightarrow> bool" where
  "dates (TickAt a t now us) g g' \<longleftrightarrow> g' = reset_log_note_time a t (word_of_int (now - us div 1000000)) g"
| "dates _ g g' \<longleftrightarrow> False"

fun is_sync :: "clock_event \<Rightarrow> bool" where
  "is_sync (Synced tv now us) \<longleftrightarrow> True"
| "is_sync _ \<longleftrightarrow> False"

lemma warn_simps [simp]:
  "c_rtc (snd (warn_unsynced us c)) = c_rtc c" "c_backfilled (snd (warn_unsynced us c)) = c_backfilled c"
  "c_synced_this_boot (snd (warn_unsynced us c)) = c_synced_this_boot c"
  by (simp_all add: warn_unsynced_def)

lemma clock_step_cases:
  assumes "clock_step (c, g) ev = (c', g')"
  shows "(c_synced_this_boot c' \<longleftrightarrow> c_synced_this_boot c \<or> is_sync ev) \<and>
    (g' = g \<and> c_backfilled c' = c_backfilled c \<or>
     \<not> c_backfilled c \<and> c_backfilled c' \<and> c_synced_this_boot c \<and> dates ev g g')"
proof (cases ev)
  case (TickAt a t now us)
  obtain es d where w: "warn_unsynced us c = (es, d)" by fastforce
  have d: "c_rtc d = c_rtc c" "c_backfilled d = c_backfilled c" "c_synced_this_boot d = c_synced_this_boot c"
    using warn_simps [of us c] w by simp_all
  show ?thesis
  proof (cases "c_backfilled c \<or> \<not> c_synced_this_boot c \<or> clock_time_now now (c_rtc c) = None")
    case True
    then show ?thesis using assms w d TickAt by (auto simp: clock_time_tick_def)
  next
    case False
    then obtain n where n: "clock_time_now now (c_rtc c) = Some n" by auto
    then have "n = now" by (simp add: clock_time_now_def Let_def split: if_splits)
    then show ?thesis using False n assms w d TickAt by (auto simp: clock_time_tick_def Let_def)
  qed
qed (use assms in \<open>auto simp: on_sync_def clock_time_wan_up_def clock_time_wan_down_def Let_def split: if_splits\<close>)

lemma dated_at_most_once:
  "foldl clock_step (c, g) es = (c', g') \<Longrightarrow>
     g' = g \<or> \<not> c_backfilled c \<and>
       (\<exists>i. i < length es \<and> dates (es ! i) g g' \<and> (c_synced_this_boot c \<or> list_ex is_sync (take i es)))"
proof (induction es arbitrary: c g)
  case (Cons ev es)
  obtain c1 g1 where s: "clock_step (c, g) ev = (c1, g1)" by fastforce
  note k = clock_step_cases [OF s]
  from Cons s have ih: "g' = g1 \<or> \<not> c_backfilled c1 \<and>
      (\<exists>i. i < length es \<and> dates (es ! i) g1 g' \<and> (c_synced_this_boot c1 \<or> list_ex is_sync (take i es)))"
    by simp
  show ?case
  proof (cases "g1 = g \<and> c_backfilled c1 = c_backfilled c")
    case True
    show ?thesis
    proof (cases "g' = g")
      case False
      then obtain i where i: "\<not> c_backfilled c" "i < length es" "dates (es ! i) g g'"
          "c_synced_this_boot c1 \<or> list_ex is_sync (take i es)"
        using ih True by auto
      have "c_synced_this_boot c \<or> list_ex is_sync (take (Suc i) (ev # es))" using i(4) k by auto
      then have "Suc i < length (ev # es) \<and> dates ((ev # es) ! Suc i) g g' \<and>
          (c_synced_this_boot c \<or> list_ex is_sync (take (Suc i) (ev # es)))"
        using i by simp
      then show ?thesis using i(1) by blast
    qed simp
  next
    case False
    then have "\<not> c_backfilled c" "c_backfilled c1" "c_synced_this_boot c" "dates ev g g1" using k by auto
    then have "0 < length (ev # es) \<and> dates ((ev # es) ! 0) g g' \<and>
        (c_synced_this_boot c \<or> list_ex is_sync (take 0 (ev # es)))"
      using ih by simp
    then show ?thesis using \<open>\<not> c_backfilled c\<close> by blast
  qed
qed simp

text \<open>The stores over any halves of a time.\<close>

lemma torn_stores:
  fixes lo hi :: u32
  assumes "rtc_valid r" "o_synced r = 0 \<or> o_hi r = hi"
  defines "r' \<equiv> \<lambda>k. foldl (\<lambda>r store. store r) r (take k
      [\<lambda>r. r\<lparr>o_lo := lo\<rparr>, \<lambda>r. r\<lparr>o_lo_inv := NOT (o_lo r)\<rparr>, \<lambda>r. r\<lparr>o_hi := hi\<rparr>,
       \<lambda>r. r\<lparr>o_hi_inv := NOT (o_hi r)\<rparr>, \<lambda>r. r\<lparr>o_synced := 1\<rparr>, \<lambda>r. r\<lparr>o_synced_inv := NOT (o_synced r)\<rparr>,
       \<lambda>r. r\<lparr>o_magic := CLOCK_TIME_RTC_MAGIC\<rparr>])"
  shows "\<not> clock_time_synced (r' k) \<or> o_lo (r' k) = lo \<and> o_hi (r' k) = hi \<or>
    clock_time_synced r \<and> o_lo (r' k) = o_lo r \<and> o_hi (r' k) = o_hi r"
proof -
  have "k = 0 \<or> k = 1 \<or> k = 2 \<or> k = 3 \<or> k = 4 \<or> k = 5 \<or> k = 6 \<or> 7 \<le> k" by linarith
  then consider "k = 0" | "k = 1" | "k = 2" | "k = 3" | "k = 4" | "k = 5" | "k = 6" | "7 \<le> k" by blast
  then show ?thesis
    using assms(1,2) by cases (auto simp: r'_def clock_time_synced_def rtc_valid_def)
qed

section \<open>Properties\<close>

text \<open>C33: A reset in the middle of recording a synchronisation cannot make up a time: wherever it falls, the
  clock is afterwards believed only with this synchronisation or with the one before it. The upper halves
  of the two times are the same, as they are until the year 2106.
\<close>

theorem torn_sync_harmless:
  assumes "rtc_valid r" "- (2 ^ 63) \<le> when" "when < 2 ^ 63"
    and "o_synced r = 0 \<or> o_hi r = ucast (drop_bit 32 (word_of_int when :: u64))"
    and "r' = foldl (\<lambda>r store. store r) r (take k (sync_stores when))"
  shows "\<not> clock_time_synced r' \<or> rtc_last_sync r' = when \<or>
    clock_time_synced r \<and> rtc_last_sync r' = rtc_last_sync r"
proof -
  have "sint (word_of_int when :: u64) = when"
    using assms(2,3) signed_take_bit_int_eq_self [of 63 "when"] by (simp add: sint_sbintrunc')
  moreover have "\<not> clock_time_synced r' \<or>
      o_lo r' = ucast (word_of_int when :: u64) \<and> o_hi r' = ucast (drop_bit 32 (word_of_int when :: u64)) \<or>
      clock_time_synced r \<and> o_lo r' = o_lo r \<and> o_hi r' = o_hi r"
    using torn_stores [OF assms(1,4)] assms(5) by (simp add: sync_stores_def Let_def)
  ultimately show ?thesis by (auto simp: clock_time_synced_def rtc_last_sync_def time_parts)
qed

definition example_clock_rtc :: clock_rtc where
  "example_clock_rtc = rtc_note_sync 1700000000 \<lparr>o_magic = 0, o_synced = 0, o_synced_inv = 0, o_lo = 0, o_lo_inv = 0,
     o_hi = 0, o_hi_inv = 0\<rparr>"

theorem torn_sync_harmless_witness:
  "rtc_last_sync (foldl (\<lambda>r store. store r) example_clock_rtc (take 1 (sync_stores 1700003600))) \<in>
     {0, 1700003600, rtc_last_sync example_clock_rtc}"
proof -
  have "rtc_valid example_clock_rtc" "o_hi example_clock_rtc = ucast (drop_bit 32 (word_of_int 1700003600 :: u64))"
    by (simp_all add: example_clock_rtc_def note_sync_result Let_def rtc_valid_def)
  from torn_sync_harmless [OF this(1) _ _ disjI2 [OF this(2)] refl, of 1]
  show ?thesis by (auto simp: rtc_last_sync_def clock_time_synced_def)
qed

text \<open>
  In a boot's life the clock dates its record at most once, only after a synchronisation in that boot,
  and with the moment the boot started: the time of the dating tick less the uptime at it. Nothing else
  the clock does touches the history.
\<close>

theorem dated_once:
  assumes "foldl clock_step (clock_at_boot r, g) es = (c, g')"
  shows "g' = g \<or> (\<exists>i. i < length es \<and> dates (es ! i) g g' \<and> list_ex is_sync (take i es))"
  using dated_at_most_once [OF assms] by (auto simp: clock_at_boot_def)

theorem dated_once_witness:
  "let (c, g') = foldl clock_step (clock_at_boot example_clock_rtc, first_boot)
     [TickAt [] None 1700000100 1000000, WanDown] in g' = first_boot"
proof -
  obtain c g' where r: "foldl clock_step (clock_at_boot example_clock_rtc, first_boot)
      [TickAt [] None 1700000100 1000000, WanDown] = (c, g')" by fastforce
  from dated_once [OF r] show ?thesis unfolding r by (auto simp: less_Suc_eq)
qed

text \<open>
  Once the clock is set in a boot whose record has no date, the next tick dates it: the record then
  says when the boot started, and is otherwise as it was.
\<close>

theorem boot_dated:
  assumes "on_sync (Some when) n us0 c = (d, c1)" "\<not> c_backfilled c" "- (2 ^ 63) \<le> when" "when < 2 ^ 63" "when \<le> now"
    and "reset_log_get_current g = Some e" "\<not> has_flag e RESET_LOG_F_BOOT_TIME"
    and "clock_time_tick a t now us (c1, g) = (es, c2, g2)"
  shows "c_backfilled c2 \<and> reset_log_get_current g2 =
    Some ((set_flag RESET_LOG_F_BOOT_TIME e)\<lparr>e_boot_epoch := word_of_int (now - us div 1000000)\<rparr>)"
proof -
  have c1: "c_synced_this_boot c1" "\<not> c_backfilled c1" "c_rtc c1 = rtc_note_sync when (c_rtc c)"
    using assms(1,2) by (auto simp: on_sync_def Let_def)
  have n: "clock_time_now now (c_rtc c1) = Some now"
    using note_sync_believed [OF assms(3,4)] assms(5) c1(3) by (simp add: clock_time_now_def)
  obtain ef c' where w: "warn_unsynced us c1 = (ef, c')" by fastforce
  then have "c_rtc c' = c_rtc c1" "c_backfilled c' = c_backfilled c1" "c_synced_this_boot c' = c_synced_this_boot c1"
    using warn_simps [of us c1] by simp_all
  then have "c_backfilled c2" "g2 = reset_log_note_time a t (word_of_int (now - us div 1000000)) g"
    using assms(8) w n c1 by (auto simp: clock_time_tick_def Let_def)
  moreover have "g_mutex g" "g_have_current g" "g_ring g \<noteq> []" "last (g_ring g) = e"
    using assms(6) by (auto simp: reset_log_get_current_def split: if_splits)
  ultimately show ?thesis
    using assms(7) by (simp add: reset_log_note_time_def Let_def reset_log_get_current_def)
qed

lemma first_boot_current:
  "\<exists>e. reset_log_get_current first_boot = Some e \<and> \<not> has_flag e RESET_LOG_F_BOOT_TIME"
  by (simp add: first_boot_def reset_log_init_def Let_def example_boot_def reset_chip_def load_resets_from_nvs_def
      reset_log_get_current_def new_record_def image_flags_def rail_flags_def prev_boot_def rtc_consistent_def
      blank_rtc_def load_checkpoint_def zero_entry_def has_flag_def flag_defs)

theorem boot_dated_witness:
  "let (d, c1) = on_sync (Some 1700000000) 0 30000000 (clock_at_boot example_clock_rtc);
       (es, c2, g2) = clock_time_tick [] None 1700000010 40000000 (c1, first_boot)
   in \<exists>e. reset_log_get_current g2 = Some e \<and> e_boot_epoch e = 1699999970"
proof -
  obtain d c1 where s: "on_sync (Some 1700000000) 0 30000000 (clock_at_boot example_clock_rtc) = (d, c1)" by fastforce
  obtain e where e: "reset_log_get_current first_boot = Some e" "\<not> has_flag e RESET_LOG_F_BOOT_TIME"
    using first_boot_current by blast
  obtain es c2 g2 where t: "clock_time_tick [] None 1700000010 40000000 (c1, first_boot) = (es, c2, g2)"
    by (rule prod_cases3)
  from boot_dated [OF s _ _ _ _ e t] show ?thesis unfolding s t by (simp add: t clock_at_boot_def)
qed

end
