(* ===== verification/LogBuf.thy ===== *)
theory LogBuf
  imports CStrings
begin

text \<open>
  The log capture of \<open>main/log_buf.c\<close>: the \<open>esp_log\<close> hook assembles the fragments that tasks print into
  lines, parses them, and keeps the newest 128 in a ring that readers address by sequence number.
  One call of the hook under \<open>s_mutex\<close> is one step. What \<open>vsnprintf\<close> formatted and which task is
  running are arguments; so is whether the mutex was had in time.
\<close>

section \<open>State\<close>

abbreviation LOG_BUF_LINES :: nat where "LOG_BUF_LINES \<equiv> 128"
abbreviation LOG_BUF_TAG_MAX :: nat where "LOG_BUF_TAG_MAX \<equiv> 32"
abbreviation LOG_BUF_MSG_MAX :: nat where "LOG_BUF_MSG_MAX \<equiv> 144"
abbreviation STAGING_SIZE :: nat where "STAGING_SIZE \<equiv> 256"
abbreviation PENDING_SIZE :: nat where "PENDING_SIZE \<equiv> 256"
abbreviation ESC :: char where "ESC \<equiv> CHR 0x1B"
abbreviation NL :: char where "NL \<equiv> CHR 0x0A"
abbreviation CR :: char where "CR \<equiv> CHR 0x0D"

record log_line =
  g_ts_ms :: u32
  g_level :: char
  g_tag :: string
  g_msg :: string

text \<open>\<open>esp_log_level_t\<close>, in its order of verbosity.\<close>

datatype esp_log_level =
  ESP_LOG_NONE | ESP_LOG_ERROR | ESP_LOG_WARN | ESP_LOG_INFO | ESP_LOG_DEBUG | ESP_LOG_VERBOSE

fun level_rank :: "esp_log_level \<Rightarrow> nat" where
  "level_rank ESP_LOG_NONE = 0" | "level_rank ESP_LOG_ERROR = 1" | "level_rank ESP_LOG_WARN = 2"
| "level_rank ESP_LOG_INFO = 3" | "level_rank ESP_LOG_DEBUG = 4" | "level_rank ESP_LOG_VERBOSE = 5"

record log_buf =
  s_lines :: "log_line list"
  s_total :: u32
  s_missed :: u32
  s_pending :: string
  s_pending_task :: nat
  s_pending_level :: esp_log_level
  s_serial_level :: esp_log_level

definition static_log_buf :: log_buf where
  "static_log_buf =
     \<lparr>s_lines = replicate LOG_BUF_LINES \<lparr>g_ts_ms = 0, g_level = CHR 0x00, g_tag = '''', g_msg = ''''\<rparr>,
      s_total = 0, s_missed = 0, s_pending = '''', s_pending_task = 0, s_pending_level = ESP_LOG_ERROR,
      s_serial_level = ESP_LOG_INFO\<rparr>"

section \<open>One line\<close>

definition csi_final :: "char \<Rightarrow> bool" where
  "csi_final c \<longleftrightarrow> \<not> ((of_char c :: nat) < 0x40 \<or> (of_char c :: nat) > 0x7E)"

function strip_ansi :: "string \<Rightarrow> string" where
  "strip_ansi [] = []"
| "strip_ansi (c # cs) =
     (if c = ESC \<and> cs \<noteq> [] \<and> hd cs = CHR ''[''
      then (case dropWhile (\<lambda>c. \<not> csi_final c) (tl cs) of
              [] \<Rightarrow> []
            | _ # r \<Rightarrow> strip_ansi r)
      else c # strip_ansi cs)"
  by pat_completeness auto

termination
proof (relation "measure length")
  fix c :: char and cs r x
  assume "dropWhile (\<lambda>c. \<not> csi_final c) (tl cs) = x # r"
  then have "length (x # r) \<le> length (tl cs)" by (metis length_dropWhile_le)
  then show "(r, c # cs) \<in> measure length" by simp
qed simp_all

definition trim_trailing :: "string \<Rightarrow> string" where
  "trim_trailing s = rev (dropWhile (\<lambda>c. c = CHR '' '') (rev s))"

text \<open>The level, the time and what follows the prefix.\<close>

definition match_prefix :: "string \<Rightarrow> (char \<times> u32 \<times> string) option" where
  "match_prefix line =
     (case line of
        c0 # c1 # c2 # p \<Rightarrow>
          if c0 \<notin> set ''EWIDV'' \<or> c1 \<noteq> CHR '' '' \<or> c2 \<noteq> CHR ''('' then None
          else (case strtoul p of
                  (ts, CHR '')'' # CHR '' '' # rest) \<Rightarrow> Some (c0, ts, rest)
                | _ \<Rightarrow> None)
      | _ \<Rightarrow> None)"

definition level_from_letter :: "char \<Rightarrow> esp_log_level" where
  "level_from_letter letter =
     (if letter = CHR ''E'' then ESP_LOG_ERROR
      else if letter = CHR ''W'' then ESP_LOG_WARN
      else if letter = CHR ''I'' then ESP_LOG_INFO
      else if letter = CHR ''D'' then ESP_LOG_DEBUG
      else if letter = CHR ''V'' then ESP_LOG_VERBOSE
      else ESP_LOG_ERROR)"

definition parse_line :: "string \<Rightarrow> log_line" where
  "parse_line line =
     (case match_prefix line of
        None \<Rightarrow> \<lparr>g_ts_ms = 0, g_level = CHR ''?'', g_tag = '''', g_msg = take (LOG_BUF_MSG_MAX - 1) line\<rparr>
      | Some (level, ts, rest) \<Rightarrow>
          let tag = takeWhile (\<lambda>c. c \<noteq> CHR '':'') rest; tail = dropWhile (\<lambda>c. c \<noteq> CHR '':'') rest in
          if tail \<noteq> [] \<and> length tag < LOG_BUF_TAG_MAX then
            let rest = tl tail; rest = (if rest \<noteq> [] \<and> hd rest = CHR '' '' then tl rest else rest)
            in \<lparr>g_ts_ms = ts, g_level = level, g_tag = tag, g_msg = take (LOG_BUF_MSG_MAX - 1) rest\<rparr>
          else \<lparr>g_ts_ms = ts, g_level = level, g_tag = '''', g_msg = take (LOG_BUF_MSG_MAX - 1) rest\<rparr>)"

section \<open>Assembling lines\<close>

definition commit_pending :: "log_buf \<Rightarrow> log_buf" where
  "commit_pending s =
     (let line = trim_trailing (s_pending s);
          s = (if line \<noteq> []
               then s\<lparr>s_lines := (s_lines s)[unat (s_total s) mod LOG_BUF_LINES := parse_line line],
                      s_total := s_total s + 1\<rparr>
               else s)
      in s\<lparr>s_pending := ''''\<rparr>)"

definition pending_putc :: "char \<Rightarrow> log_buf \<Rightarrow> log_buf" where
  "pending_putc c s =
     (let s = (if length (s_pending s) + 1 \<ge> PENDING_SIZE then commit_pending s else s)
      in s\<lparr>s_pending := s_pending s @ [c]\<rparr>)"

text \<open>The walk over the fragment: \<open>rest\<close> tells whether another newline is to come.\<close>

fun walk :: "string \<Rightarrow> log_buf \<Rightarrow> log_buf" where
  "walk [] s = s"
| "walk (c # rest) s =
     walk rest (if c = NL \<and> NL \<notin> set rest then commit_pending s
                else pending_putc (if c = NL \<or> c = CR then CHR '' '' else c) s)"

text \<open>The result is the level of the line the fragment belongs to, and whether the ring grew.\<close>

definition capture :: "bool \<Rightarrow> nat \<Rightarrow> string \<Rightarrow> log_buf \<Rightarrow> (esp_log_level \<times> bool) \<times> log_buf" where
  "capture locked self text s =
     (if \<not> locked then ((ESP_LOG_ERROR, False), s\<lparr>s_missed := s_missed s + 1\<rparr>)
      else
        let total_before = s_total s;
            staging = strip_ansi (take (STAGING_SIZE - 1) text);
            opens = match_prefix staging;
            s = (if s_pending s \<noteq> [] \<and> (self \<noteq> s_pending_task s \<or> opens \<noteq> None) then commit_pending s else s);
            s = (if s_pending s = []
                 then s\<lparr>s_pending_task := self,
                        s_pending_level := (case opens of Some (letter, _) \<Rightarrow> level_from_letter letter
                                            | None \<Rightarrow> ESP_LOG_ERROR)\<rparr>
                 else s);
            level = s_pending_level s;
            s = walk staging s
        in ((level, s_total s \<noteq> total_before), s))"

text \<open>The hook: what the serial port is given of the call is all or nothing.\<close>

definition log_vprintf :: "bool \<Rightarrow> nat \<Rightarrow> string \<Rightarrow> log_buf \<Rightarrow> bool \<times> log_buf" where
  "log_vprintf locked self text s =
     (let ((level, _), s) = capture locked self text s
      in (level_rank level \<le> level_rank (s_serial_level s), s))"

definition log_buf_set_serial_level :: "esp_log_level \<Rightarrow> log_buf \<Rightarrow> log_buf" where
  "log_buf_set_serial_level l s = s\<lparr>s_serial_level := l\<rparr>"

definition log_buf_get_serial_level :: "log_buf \<Rightarrow> esp_log_level" where
  "log_buf_get_serial_level s = s_serial_level s"

section \<open>Reading\<close>

text \<open>Oldest, newest, missed.\<close>

definition log_buf_get_range :: "log_buf \<Rightarrow> u32 \<times> u32 \<times> u32" where
  "log_buf_get_range s =
     (if s_total s > of_nat LOG_BUF_LINES then s_total s - of_nat LOG_BUF_LINES + 1 else 1, s_total s, s_missed s)"

definition log_buf_get_line :: "u32 \<Rightarrow> nat \<Rightarrow> nat \<Rightarrow> log_buf \<Rightarrow> log_line option" where
  "log_buf_get_line seq tagsz msgsz s =
     (if seq = 0 then None
      else if seq \<le> s_total s \<and> s_total s - seq < of_nat LOG_BUF_LINES then
        let slot = s_lines s ! (unat (seq - 1) mod LOG_BUF_LINES)
        in Some \<lparr>g_ts_ms = g_ts_ms slot, g_level = g_level slot, g_tag = take (tagsz - 1) (g_tag slot),
                 g_msg = take (msgsz - 1) (g_msg slot)\<rparr>
      else None)"

section \<open>What the log is to hold\<close>

text \<open>
  The reference: an unbounded list of lines, and the unfinished line with the task that began it.
  A text longer than the buffer comes out in blocks of 255 characters.
\<close>

abbreviation BLOCK :: nat where "BLOCK \<equiv> PENDING_SIZE - 1"

function overflow :: "string \<Rightarrow> string list \<times> string" where
  "overflow w =
     (if BLOCK < length w then let (ls, r) = overflow (drop BLOCK w) in (take BLOCK w # ls, r) else ([], w))"
  by pat_completeness auto

termination by (relation "measure length") auto

declare overflow.simps [simp del]

definition fold_newline :: "char \<Rightarrow> char" where
  "fold_newline c = (if c = NL \<or> c = CR then CHR '' '' else c)"

definition before_last_newline :: "string \<Rightarrow> string" where
  "before_last_newline t = rev (tl (dropWhile (\<lambda>c. c \<noteq> NL) (rev t)))"

definition after_last_newline :: "string \<Rightarrow> string" where
  "after_last_newline t = rev (takeWhile (\<lambda>c. c \<noteq> NL) (rev t))"

definition stored_lines :: "string list \<Rightarrow> log_line list" where
  "stored_lines ws = map parse_line (filter (\<lambda>w. w \<noteq> []) (map trim_trailing ws))"

text \<open>What a text \<open>t\<close> that continues the unfinished line \<open>w\<close> completes, and what it leaves.\<close>

definition completes :: "string \<Rightarrow> string \<Rightarrow> string list \<times> string" where
  "completes w t =
     (if NL \<in> set t
      then let (ls, r) = overflow (w @ map fold_newline (before_last_newline t));
               (ls', r') = overflow (map fold_newline (after_last_newline t))
           in (ls @ [r] @ ls', r')
      else overflow (w @ map fold_newline t))"

type_synonym log_spec = "log_line list \<times> string \<times> nat"

definition spec_capture :: "bool \<times> nat \<times> string \<Rightarrow> log_spec \<Rightarrow> log_spec" where
  "spec_capture call spec =
     (case (call, spec) of ((locked, self, text), (hist, w, task)) \<Rightarrow>
        if \<not> locked then spec
        else let t = strip_ansi (take (STAGING_SIZE - 1) text);
                 cut = (w \<noteq> [] \<and> (self \<noteq> task \<or> match_prefix t \<noteq> None));
                 (ls, r) = completes (if cut then '''' else w) t
             in (hist @ stored_lines ((if cut then [w] else []) @ ls), r,
                 if cut \<or> w = [] then self else task))"

definition capture_call :: "bool \<times> nat \<times> string \<Rightarrow> log_buf \<Rightarrow> log_buf" where
  "capture_call call s = (case call of (locked, self, text) \<Rightarrow> snd (capture locked self text s))"

definition log_refines :: "log_buf \<Rightarrow> log_spec \<Rightarrow> bool" where
  "log_refines s spec \<longleftrightarrow>
     (case spec of (hist, w, task) \<Rightarrow>
        ring_holds LOG_BUF_LINES (s_lines s) hist \<and> s_total s = of_nat (length hist) \<and>
        s_pending s = w \<and> length w < PENDING_SIZE \<and> s_pending_task s = task)"

lemma log_slot: "unat (of_nat n :: u32) mod LOG_BUF_LINES = n mod LOG_BUF_LINES"
proof -
  have "n mod 4294967296 mod 128 = n mod 128" by (rule mod_mod_cancel) simp
  then show ?thesis by (simp add: unat_of_nat)
qed

lemma overflow_short: "length w \<le> BLOCK \<Longrightarrow> overflow w = ([], w)"
  by (simp add: overflow.simps [of w])

lemma overflow_long: "BLOCK < length w \<Longrightarrow> overflow w = (take BLOCK w # fst (overflow (drop BLOCK w)), snd (overflow (drop BLOCK w)))"
  by (subst overflow.simps) (simp add: case_prod_beta)

lemma overflow_append:
  "overflow (w @ q) =
     (fst (overflow w) @ fst (overflow (snd (overflow w) @ q)), snd (overflow (snd (overflow w) @ q)))"
proof (induction w rule: overflow.induct)
  case (1 w)
  show ?case
  proof (cases "BLOCK < length w")
    case True
    then show ?thesis using 1 [OF True] by (simp add: overflow_long)
  qed (simp add: overflow_short)
qed

lemma stored_lines_Nil [simp]: "stored_lines [] = []"
  by (simp add: stored_lines_def)

lemma stored_lines_append: "stored_lines (a @ b) = stored_lines a @ stored_lines b"
  by (simp add: stored_lines_def)

lemma commit_refines:
  assumes "log_refines s (hist, w, task)"
  shows "log_refines (commit_pending s) (hist @ stored_lines [w], '''', task)"
  using assms ring_holds_snoc [of LOG_BUF_LINES "s_lines s" hist "parse_line (trim_trailing w)"]
  by (simp add: log_refines_def commit_pending_def stored_lines_def log_slot)

lemma putc_refines:
  assumes "log_refines s (hist, w, task)"
  shows "log_refines (pending_putc c s)
           (hist @ stored_lines (fst (overflow (w @ [c]))), snd (overflow (w @ [c])), task)"
proof (cases "length w = BLOCK")
  case True
  then have "overflow (w @ [c]) = ([w], [c])" by (simp add: overflow_long overflow_short)
  then show ?thesis
    using True assms commit_refines [OF assms] by (simp add: pending_putc_def log_refines_def)
next
  case False
  then have "length w < BLOCK" using assms by (simp add: log_refines_def)
  then have "overflow (w @ [c]) = ([], w @ [c])" by (simp add: overflow_short)
  then show ?thesis using assms \<open>length w < BLOCK\<close> by (simp add: pending_putc_def log_refines_def stored_lines_def)
qed

lemma puts_refines:
  assumes "log_refines s (hist, w, task)"
  shows "log_refines (fold pending_putc q s)
           (hist @ stored_lines (fst (overflow (w @ q))), snd (overflow (w @ q)), task)"
  using assms
proof (induction q arbitrary: s hist w)
  case Nil
  then show ?case by (simp add: overflow_short stored_lines_def log_refines_def)
next
  case (Cons c q)
  show ?case
    using Cons.IH [OF putc_refines [OF Cons.prems, of c]] overflow_append [of "w @ [c]" q]
    by (simp add: stored_lines_append)
qed

lemma walk_plain: "NL \<notin> set t \<Longrightarrow> walk t s = fold pending_putc (map fold_newline t) s"
  by (induction t arbitrary: s) (auto simp: fold_newline_def)

lemma walk_line:
  "NL \<notin> set b \<Longrightarrow>
   walk (a @ NL # b) s = walk b (commit_pending (fold pending_putc (map fold_newline a) s))"
  by (induction a arbitrary: s) (auto simp: fold_newline_def)

lemma split_last_newline:
  assumes "NL \<in> set t"
  shows "t = before_last_newline t @ NL # after_last_newline t" "NL \<notin> set (after_last_newline t)"
proof -
  let ?P = "\<lambda>c. c \<noteq> NL"
  have ne: "dropWhile ?P (rev t) \<noteq> []" using assms by auto
  then have "hd (dropWhile ?P (rev t)) = NL" using hd_dropWhile [OF ne] by simp
  then have "rev t = takeWhile ?P (rev t) @ NL # tl (dropWhile ?P (rev t))"
    using ne takeWhile_dropWhile_id [of ?P "rev t"] by (metis list.collapse)
  then show "t = before_last_newline t @ NL # after_last_newline t"
    unfolding before_last_newline_def after_last_newline_def
    by (metis append.assoc append_Cons append_Nil rev.simps(2) rev_append rev_rev_ident)
  show "NL \<notin> set (after_last_newline t)"
    by (auto simp: after_last_newline_def dest: set_takeWhileD)
qed

lemma walk_refines:
  assumes r: "log_refines s (hist, w, task)"
  shows "log_refines (walk t s) (hist @ stored_lines (fst (completes w t)), snd (completes w t), task)"
proof (cases "NL \<in> set t")
  case False
  then show ?thesis using puts_refines [OF r, of "map fold_newline t"] by (simp add: walk_plain completes_def)
next
  case True
  let ?a = "map fold_newline (before_last_newline t)" and ?b = "map fold_newline (after_last_newline t)"
  have w: "walk t s = fold pending_putc ?b (commit_pending (fold pending_putc ?a s))"
    by (subst split_last_newline (1) [OF True])
      (simp add: walk_line walk_plain split_last_newline (2) [OF True])
  show ?thesis
    using puts_refines [OF commit_refines [OF puts_refines [OF r, of ?a]], of ?b] True
    by (simp add: w completes_def case_prod_beta stored_lines_append [symmetric])
qed

lemma capture_refines:
  assumes "log_refines s spec"
  shows "log_refines (capture_call call s) (spec_capture call spec)"
proof -
  obtain locked self str where c: "call = (locked, self, str)" by (cases call)
  obtain hist w task where sp: "spec = (hist, w, task)" by (cases spec)
  show ?thesis
  proof (cases locked)
    case False
    then show ?thesis using assms by (simp add: c sp capture_call_def capture_def spec_capture_def log_refines_def)
  next
    case True
    define t where "t = strip_ansi (take (STAGING_SIZE - 1) str)"
    define cut where "cut = (w \<noteq> [] \<and> (self \<noteq> task \<or> match_prefix t \<noteq> None))"
    define s1 where "s1 = (if cut then commit_pending s else s)"
    define v where "v = (if cut then '''' else w)"
    define task' where "task' = (if cut \<or> w = [] then self else task)"
    define level where "level = (case match_prefix t of Some (letter, _) \<Rightarrow> level_from_letter letter | None \<Rightarrow> ESP_LOG_ERROR)"
    define s2 where "s2 = (if s_pending s1 = [] then s1\<lparr>s_pending_task := self, s_pending_level := level\<rparr> else s1)"
    have p: "s_pending s = w" "s_pending_task s = task" using assms by (simp_all add: sp log_refines_def)
    have "log_refines s1 (hist @ stored_lines (if cut then [w] else []), v, task)"
      using assms commit_refines [of s hist w task] by (simp add: s1_def v_def sp stored_lines_def)
    moreover have "v = [] \<longleftrightarrow> cut \<or> w = []" by (simp add: v_def)
    ultimately have "log_refines s2 (hist @ stored_lines (if cut then [w] else []), v, task')"
      by (cases cut; cases "w = []") (simp_all add: s2_def task'_def log_refines_def)
    then have "log_refines (walk t s2)
        (hist @ stored_lines ((if cut then [w] else []) @ fst (completes v t)), snd (completes v t), task')"
      using walk_refines by (simp only: stored_lines_append append_assoc [symmetric])
    moreover have "capture_call call s = walk t s2"
      using True unfolding c capture_call_def capture_def Let_def s2_def s1_def level_def cut_def t_def p prod.case
      by simp
    moreover have "spec_capture call spec =
        (hist @ stored_lines ((if cut then [w] else []) @ fst (completes v t)), snd (completes v t), task')"
      using True unfolding c sp spec_capture_def Let_def prod.case task'_def v_def cut_def t_def
      by (simp add: case_prod_beta)
    ultimately show ?thesis by simp
  qed
qed

lemma captures_refine:
  "log_refines s spec \<Longrightarrow> log_refines (fold capture_call calls s) (fold spec_capture calls spec)"
  by (induction calls arbitrary: s spec) (simp_all add: capture_refines)

lemma log_refines_static: "log_refines static_log_buf ([], '''', 0)"
  by (simp add: log_refines_def static_log_buf_def ring_holds_Nil)

text \<open>Every stored line fits a reader's buffers of the full sizes.\<close>

definition fits :: "log_line \<Rightarrow> bool" where
  "fits l \<longleftrightarrow> length (g_tag l) < LOG_BUF_TAG_MAX \<and> length (g_msg l) < LOG_BUF_MSG_MAX"

lemma parse_line_fits: "fits (parse_line w)"
proof (cases "match_prefix w")
  case (Some a)
  obtain level ts rest where "a = (level, ts, rest)" by (cases a)
  then show ?thesis using Some by (simp add: fits_def parse_line_def Let_def min_less_iff_disj)
qed (simp add: fits_def parse_line_def min_less_iff_disj)

lemma captures_fit:
  "\<forall>l\<in>set (fst spec). fits l \<Longrightarrow> \<forall>l\<in>set (fst (fold spec_capture calls spec)). fits l"
proof (induction calls arbitrary: spec)
  case (Cons call calls)
  have "\<forall>l\<in>set (fst (spec_capture call spec)). fits l"
    using Cons.prems
    by (cases call; cases spec)
      (auto simp: spec_capture_def stored_lines_def parse_line_fits Let_def case_prod_beta)
  then show ?case by (simp add: Cons.IH)
qed simp

section \<open>Readers\<close>

lemma missed_captures:
  "s_missed (fold capture_call calls s) = s_missed s + of_nat (length (filter (\<lambda>call. \<not> fst call) calls))"
proof -
  have c: "s_missed (commit_pending s) = s_missed s" for s by (simp add: commit_pending_def Let_def)
  have "s_missed (pending_putc c s) = s_missed s" for c s by (simp add: pending_putc_def Let_def c)
  then have w: "s_missed (walk t s) = s_missed s" for t s by (induction t arbitrary: s) (simp_all add: c)
  show ?thesis
    by (induction calls arbitrary: s) (auto simp: capture_call_def capture_def Let_def w c split: prod.splits)
qed

lemma range_of_log:
  assumes "log_refines s (hist, w, task)" "length hist < 2 ^ 32"
  shows "log_buf_get_range s = (of_nat (max 1 (length hist - 127)), of_nat (length hist), s_missed s)"
proof -
  have u: "unat (of_nat (length hist) :: u32) = length hist" using assms(2) by (simp add: unat_of_nat_eq)
  have "of_nat LOG_BUF_LINES < (of_nat (length hist) :: u32) \<longleftrightarrow> LOG_BUF_LINES < length hist"
    by (simp add: word_less_nat_alt u)
  moreover have "of_nat (length hist) - of_nat LOG_BUF_LINES + (1 :: u32) = of_nat (length hist - 127)"
    if "LOG_BUF_LINES < length hist" using that by (simp add: of_nat_diff)
  moreover have "max 1 (length hist - 127) = (if LOG_BUF_LINES < length hist then length hist - 127 else 1)" by simp
  ultimately show ?thesis
    using assms(1) by (cases "LOG_BUF_LINES < length hist") (simp_all add: log_buf_get_range_def log_refines_def)
qed

lemma line_of_log:
  assumes r: "log_refines s (hist, w, task)" and l: "length hist < 2 ^ 32"
  shows "log_buf_get_line q tagsz msgsz s =
    (if 1 \<le> unat q \<and> unat q \<le> length hist \<and> length hist < unat q + LOG_BUF_LINES
     then let e = hist ! (unat q - 1) in
       Some \<lparr>g_ts_ms = g_ts_ms e, g_level = g_level e, g_tag = take (tagsz - 1) (g_tag e),
             g_msg = take (msgsz - 1) (g_msg e)\<rparr>
     else None)"
proof -
  let ?n = "of_nat (length hist) :: u32"
  have u: "unat ?n = length hist" using l by (simp add: unat_of_nat_eq)
  have q0: "q = 0 \<longleftrightarrow> unat q = 0" by (simp add: unat_eq_0)
  have le: "q \<le> ?n \<longleftrightarrow> unat q \<le> length hist" by (simp add: word_le_nat_alt u)
  have age: "?n - q < of_nat LOG_BUF_LINES \<longleftrightarrow> length hist < unat q + LOG_BUF_LINES" if "q \<le> ?n"
    using that by (simp add: word_less_nat_alt unat_sub u le [symmetric]) (use le in auto)
  have ring: "s_lines s ! (unat (q - 1) mod LOG_BUF_LINES) = hist ! (unat q - 1)"
    if "1 \<le> unat q" "unat q \<le> length hist" "length hist < unat q + LOG_BUF_LINES"
  proof -
    have "unat (q - 1) = unat q - 1" using that(1) by (simp add: unat_minus_one q0)
    then show ?thesis
      using ring_holds_nth [of LOG_BUF_LINES "s_lines s" hist "unat q - 1"] r that by (simp add: log_refines_def)
  qed
  have n: "s_total s = ?n" using r by (simp add: log_refines_def)
  show ?thesis
  proof (cases "1 \<le> unat q \<and> unat q \<le> length hist \<and> length hist < unat q + LOG_BUF_LINES")
    case True
    then show ?thesis using ring age le q0 by (simp add: log_buf_get_line_def n Let_def)
  next
    case False
    then show ?thesis using age le q0 by (auto simp: log_buf_get_line_def n)
  qed
qed

text \<open>C4: After any sequence of calls of the hook, by any tasks and with any of them failing to get the
  mutex in time, the readers see exactly the log the reference holds: the range is the newest 128
  lines, and a sequence number in it gives the line that was stored under it, whole but for the
  caller's buffer sizes; any other number gives nothing, and the calls missed are counted.\<close>

theorem log_readers_exact:
  assumes "fold spec_capture calls ([], '''', 0) = (hist, w, task)" "length hist < 2 ^ 32"
  shows "log_buf_get_range (fold capture_call calls static_log_buf) =
      (of_nat (max 1 (length hist - 127)), of_nat (length hist), of_nat (length (filter (\<lambda>call. \<not> fst call) calls))) \<and>
    log_buf_get_line q tagsz msgsz (fold capture_call calls static_log_buf) =
      (if 1 \<le> unat q \<and> unat q \<le> length hist \<and> length hist < unat q + LOG_BUF_LINES
       then let e = hist ! (unat q - 1) in
         Some \<lparr>g_ts_ms = g_ts_ms e, g_level = g_level e, g_tag = take (tagsz - 1) (g_tag e),
               g_msg = take (msgsz - 1) (g_msg e)\<rparr>
       else None)"
proof -
  have "log_refines (fold capture_call calls static_log_buf) (hist, w, task)"
    using captures_refine [OF log_refines_static, of calls] assms(1) by simp
  then show ?thesis
    using range_of_log [OF _ assms(2)] line_of_log [OF _ assms(2)]
    by (simp add: missed_captures) (simp add: static_log_buf_def)
qed

lemma log_readers_exact_witness:
  "log_buf_get_line 1 32 3 (fold capture_call [(True, 1, ''abc''), (False, 2, ''z''), (True, 1, [NL])] static_log_buf) =
     Some \<lparr>g_ts_ms = 0, g_level = CHR ''?'', g_tag = '''', g_msg = ''ab''\<rparr>"
proof -
  have "fold spec_capture [(True, 1, ''abc''), (False, 2, ''z''), (True, 1, [NL])] ([], '''', 0) =
      ([\<lparr>g_ts_ms = 0, g_level = CHR ''?'', g_tag = '''', g_msg = ''abc''\<rparr>], '''', 1)"
    by (simp add: spec_capture_def completes_def overflow_short fold_newline_def before_last_newline_def
        after_last_newline_def stored_lines_def trim_trailing_def parse_line_def match_prefix_def)
  from log_readers_exact [OF this, of 1 32 3] show ?thesis by simp
qed

section \<open>Whole lines\<close>

text \<open>A colour sequence: parameters and a final character.\<close>

definition csi :: "string \<times> char \<Rightarrow> string" where
  "csi e = ESC # CHR ''['' # fst e @ [snd e]"

definition csi_ok :: "string \<times> char \<Rightarrow> bool" where
  "csi_ok e \<longleftrightarrow> (\<forall>c\<in>set (fst e). \<not> csi_final c) \<and> csi_final (snd e)"

lemma strip_csi: "csi_ok e \<Longrightarrow> strip_ansi (csi e @ s) = strip_ansi s"
  by (simp add: csi_def csi_ok_def dropWhile_append2)

lemma strip_csis: "\<forall>e\<in>set es. csi_ok e \<Longrightarrow> strip_ansi (concat (map csi es) @ s) = strip_ansi s"
  by (induction es) (simp_all add: strip_csi)

lemma strip_plain: "ESC \<notin> set a \<Longrightarrow> strip_ansi (a @ s) = a @ strip_ansi s"
  by (induction a) auto

definition esp_log_line :: "char \<Rightarrow> nat \<Rightarrow> string \<Rightarrow> string \<Rightarrow> string" where
  "esp_log_line level ts tag msg = [level] @ '' ('' @ decimal ts @ '') '' @ tag @ '': '' @ msg"

definition plain_text :: "string \<Rightarrow> bool" where
  "plain_text s \<longleftrightarrow> ESC \<notin> set s \<and> NL \<notin> set s \<and> CR \<notin> set s"

lemma match_prefix_line:
  assumes "level \<in> set ''EWIDV''" "ts < 2 ^ 32"
  shows "match_prefix (esp_log_line level ts tag msg @ rest) = Some (level, of_nat ts, tag @ '': '' @ msg @ rest)"
proof -
  have "strtoul (decimal ts @ '') '' @ tag @ '': '' @ msg @ rest) = (of_nat ts, '') '' @ tag @ '': '' @ msg @ rest)"
    by (rule strtoul_decimal) (use assms in \<open>simp_all add: digit_def\<close>)
  then show ?thesis using assms(1) by (simp add: match_prefix_def esp_log_line_def)
qed

lemma parse_line_line:
  assumes "level \<in> set ''EWIDV''" "ts < 2 ^ 32" "CHR '':'' \<notin> set tag" "length tag < LOG_BUF_TAG_MAX"
  shows "parse_line (esp_log_line level ts tag msg) =
    \<lparr>g_ts_ms = of_nat ts, g_level = level, g_tag = tag, g_msg = take (LOG_BUF_MSG_MAX - 1) msg\<rparr>"
proof -
  have t: "takeWhile (\<lambda>c. c \<noteq> CHR '':'') (tag @ '': '' @ msg) = tag"
    "dropWhile (\<lambda>c. c \<noteq> CHR '':'') (tag @ '': '' @ msg) = '': '' @ msg"
    using assms(3) by (subst takeWhile_append2 dropWhile_append2; force)+
  show ?thesis
    using match_prefix_line [OF assms(1,2), of tag msg "[]"] assms(4) t
    by (simp add: parse_line_def Let_def)
qed

lemma plain_decimal: "plain_text (decimal n)"
  using decimal_digits [of n] by (auto simp: plain_text_def list_all_iff digit_def)

lemma plain_line:
  assumes "level \<in> set ''EWIDV''" "plain_text tag" "plain_text msg"
  shows "plain_text (esp_log_line level ts tag msg)"
  using assms plain_decimal [of ts] by (auto simp: esp_log_line_def plain_text_def)

lemma fold_plain: "plain_text s \<Longrightarrow> map fold_newline s = s"
  by (induction s) (auto simp: plain_text_def fold_newline_def)

lemma completes_plain:
  assumes "plain_text t" "length t \<le> BLOCK"
  shows "completes '''' (t @ [NL]) = ([t], '''')"
  using assms by (simp add: completes_def before_last_newline_def after_last_newline_def fold_plain overflow_short)


lemma trim_solid: "s = [] \<or> last s \<noteq> CHR '' '' \<Longrightarrow> trim_trailing s = s"
  by (cases s rule: rev_cases) (simp_all add: trim_trailing_def)

lemma serial_level_kept: "s_serial_level (snd (capture locked self str s)) = s_serial_level s"
proof -
  have c: "s_serial_level (commit_pending s) = s_serial_level s" for s by (simp add: commit_pending_def Let_def)
  have "s_serial_level (pending_putc c s) = s_serial_level s" for c s by (simp add: pending_putc_def Let_def c)
  then have w: "s_serial_level (walk t s) = s_serial_level s" for t s by (induction t arbitrary: s) (simp_all add: c)
  show ?thesis by (simp add: capture_def Let_def w c)
qed

lemma opened_level:
  assumes "strip_ansi (take (STAGING_SIZE - 1) str) = t" "match_prefix t = Some (level, r)"
  shows "fst (fst (capture True self str s)) = level_from_letter level"
proof -
  have "s_pending (commit_pending s) = ''''" by (simp add: commit_pending_def Let_def)
  then show ?thesis unfolding capture_def assms Let_def by simp
qed

lemma strip_log_line:
  assumes "\<forall>e\<in>set on. csi_ok e" "\<forall>e\<in>set off. csi_ok e" "plain_text t"
  shows "strip_ansi (concat (map csi on) @ t @ concat (map csi off) @ [NL]) = t @ [NL]"
  using assms strip_plain [of t] by (simp add: strip_csis plain_text_def)

text \<open>A line printed whole, with any colour sequences around it, is stored as it was printed, whatever
  some task had left unfinished: the newest line of the ring has its time, level and tag, and its
  message up to 143 characters; and it goes to the serial port exactly when its own level is within
  the console's.\<close>

theorem whole_line_roundtrip:
  assumes line: "level \<in> set ''EWIDV''" "ts < 2 ^ 32" "plain_text tag" "CHR '':'' \<notin> set tag"
      "length tag < LOG_BUF_TAG_MAX" "plain_text msg" "msg \<noteq> []" "last msg \<noteq> CHR '' ''"
    and colour: "\<forall>e\<in>set on. csi_ok e" "\<forall>e\<in>set off. csi_ok e"
    and out: "out = concat (map csi on) @ esp_log_line level ts tag msg @ concat (map csi off) @ [NL]"
      "length out < STAGING_SIZE"
    and run: "fold spec_capture calls ([], '''', 0) = (hist, w, task)" "length hist + 2 < 2 ^ 32"
    and s: "s = fold capture_call calls static_log_buf" "log_vprintf True self out s = (serial, s')"
  shows "log_buf_get_line (s_total s') LOG_BUF_TAG_MAX LOG_BUF_MSG_MAX s' =
      Some \<lparr>g_ts_ms = of_nat ts, g_level = level, g_tag = tag, g_msg = take (LOG_BUF_MSG_MAX - 1) msg\<rparr> \<and>
    (serial \<longleftrightarrow> level_rank (level_from_letter level) \<le> level_rank (s_serial_level s))"
proof -
  let ?line = "esp_log_line level ts tag msg"
  let ?e = "\<lparr>g_ts_ms = of_nat ts, g_level = level, g_tag = tag, g_msg = take (LOG_BUF_MSG_MAX - 1) msg\<rparr>"
  have r: "log_refines s (hist, w, task)"
    using captures_refine [OF log_refines_static, of calls] run(1) by (simp add: s(1))
  have plain: "plain_text ?line" by (rule plain_line [OF line(1,3,6)])
  have short: "length ?line \<le> BLOCK" using out by simp
  have strip: "strip_ansi (take (STAGING_SIZE - 1) out) = ?line @ [NL]"
    using strip_log_line [OF colour plain] out by simp
  have opens: "match_prefix (?line @ [NL]) = Some (level, of_nat ts, tag @ '': '' @ msg @ [NL])"
    by (rule match_prefix_line [OF line(1,2)])
  have stored: "stored_lines [?line] = [?e]"
    using trim_solid [of ?line] line(7,8) parse_line_line [OF line(1,2,4,5), of msg]
    by (simp add: stored_lines_def esp_log_line_def)
  let ?old = "if w \<noteq> [] then [w] else []"
  have spec: "spec_capture (True, self, out) (hist, w, task) = (hist @ stored_lines ?old @ [?e], '''', self)"
    using completes_plain [OF plain short] stored stored_lines_append [of "[w]" "[?line]"]
    unfolding spec_capture_def prod.case strip Let_def opens by simp
  have s': "s' = capture_call (True, self, out) s"
    using s(2) by (simp add: log_vprintf_def capture_call_def case_prod_beta)
  have r': "log_refines s' (hist @ stored_lines ?old @ [?e], '''', self)"
    using capture_refines [OF r, of "(True, self, out)"] by (simp only: spec s')
  let ?h = "hist @ stored_lines ?old @ [?e]"
  have "length (stored_lines ?old) \<le> 1" by (simp add: stored_lines_def)
  then have len: "length ?h < 2 ^ 32" using run(2) by simp
  have "unat (of_nat k :: u32) = k" if "k < 2 ^ 32" for k using that by (simp add: unat_of_nat_eq)
  then have q: "unat (of_nat (length ?h) :: u32) = length ?h" using len by blast
  have tot: "s_total s' = of_nat (length ?h)" using r' unfolding log_refines_def by simp
  have "log_buf_get_line (s_total s') LOG_BUF_TAG_MAX LOG_BUF_MSG_MAX s' = Some ?e"
    using line_of_log [OF r' len, of "s_total s'" LOG_BUF_TAG_MAX LOG_BUF_MSG_MAX] line(5)
    unfolding tot q by (simp add: nth_append)
  moreover have "serial \<longleftrightarrow> level_rank (level_from_letter level) \<le> level_rank (s_serial_level s)"
    using s(2) opened_level [OF strip opens, of self s] by (simp add: log_vprintf_def case_prod_beta serial_level_kept)
  ultimately show ?thesis by simp
qed

lemma whole_line_roundtrip_witness:
  "let s' = snd (log_vprintf True 2 (csi (''0;32'', CHR ''m'') @ esp_log_line CHR ''I'' 7 ''wifi'' ''up''
        @ csi (''0'', CHR ''m'') @ [NL]) (fold capture_call [(True, 1, ''abc'')] static_log_buf))
   in log_buf_get_line (s_total s') 32 144 s' =
     Some \<lparr>g_ts_ms = 7, g_level = CHR ''I'', g_tag = ''wifi'', g_msg = ''up''\<rparr>"
proof -
  let ?s = "fold capture_call [(True, 1, ''abc'')] static_log_buf"
  let ?out = "concat (map csi [(''0;32'', CHR ''m'')]) @ esp_log_line CHR ''I'' 7 ''wifi'' ''up''
      @ concat (map csi [(''0'', CHR ''m'')]) @ [NL]"
  have run: "fold spec_capture [(True, 1, ''abc'')] ([], '''', 0) = ([], ''abc'', 1)"
    by (simp add: spec_capture_def completes_def overflow_short fold_newline_def stored_lines_def match_prefix_def)
  have plain: "plain_text ''wifi''" "plain_text ''up''" by (simp_all add: plain_text_def)
  have len: "length ?out < STAGING_SIZE"
    by (simp add: csi_def esp_log_line_def decimal.simps)
  have ok: "\<forall>e\<in>set [(''0;32'', CHR ''m'')]. csi_ok e" "\<forall>e\<in>set [(''0'', CHR ''m'')]. csi_ok e"
    by (simp_all add: csi_ok_def csi_final_def)
  have "log_vprintf True 2 ?out ?s = (fst (log_vprintf True 2 ?out ?s), snd (log_vprintf True 2 ?out ?s))" by simp
  from whole_line_roundtrip [OF _ _ plain(1) _ _ plain(2) _ _ ok refl len run _ refl this] show ?thesis
    by (simp add: Let_def)
qed

end
