(* ===== verification/Syslog.thy ===== *)
theory Syslog
  imports LogBuf SyslogCfg "HOL-Library.Sublist"
begin

text \<open>
  The log sender of \<open>main/syslog.c\<close>: the task that ships the ring of \<open>LogBuf\<close> to a collector, one RFC 5424
  datagram a line. The ring is read one lock at a time while others go on printing into it, so a pass
  is given the ring as it is at each of its reads. What \<open>sendto\<close> answers (0, or its errno) is an
  argument, as is what the socket calls answer.
\<close>

section \<open>State\<close>

abbreviation SYSLOG_BURST_MAX :: nat where "SYSLOG_BURST_MAX \<equiv> 16"
abbreviation SYSLOG_STALL_MAX :: u32 where "SYSLOG_STALL_MAX \<equiv> 3"
abbreviation SYSLOG_DGRAM_MAX :: nat where "SYSLOG_DGRAM_MAX \<equiv> 384"
abbreviation ENOMEM :: int where "ENOMEM \<equiv> 12"
abbreviation ENOBUFS :: int where "ENOBUFS \<equiv> 105"

datatype syslog_state = SYSLOG_OFF | SYSLOG_WAITING | SYSLOG_SHIPPING | SYSLOG_FAILING

text \<open>\<open>s_sock\<close> is whether the socket is open.\<close>

record syslog =
  s_sock :: bool
  s_bound :: bool
  s_cfg :: syslog_cfg
  s_seen_generation :: u32
  s_cursor :: u32
  s_sent :: u32
  s_filtered :: u32
  s_aged_out :: u32
  s_send_fail :: u32
  s_last_errno :: int
  s_boot_seq :: u32
  s_last_send_failed :: bool
  s_stalls :: u32
  s_pass_stalled :: bool
  s_logged_state :: syslog_state
  s_ever_logged :: bool
  s_last_log_tick :: u32
  s_suppressed :: u32

definition static_syslog :: syslog where
  "static_syslog =
     \<lparr>s_sock = False, s_bound = False,
      s_cfg = \<lparr>y_enabled = False, y_server_ip = 0, y_port = 0, y_facility = 0, y_min_severity = 0, y_hostname = ''''\<rparr>,
      s_seen_generation = 0, s_cursor = 0, s_sent = 0, s_filtered = 0, s_aged_out = 0, s_send_fail = 0,
      s_last_errno = 0, s_boot_seq = 0, s_last_send_failed = False, s_stalls = 0, s_pass_stalled = False,
      s_logged_state = SYSLOG_OFF, s_ever_logged = False, s_last_log_tick = 0, s_suppressed = 0\<rparr>"

section \<open>Framing\<close>

definition severity_from_letter :: "char \<Rightarrow> nat" where
  "severity_from_letter letter =
     (if letter = CHR ''E'' then 3
      else if letter = CHR ''W'' then 4
      else if letter = CHR ''I'' then 6
      else if letter = CHR ''D'' then 7
      else if letter = CHR ''V'' then 7
      else 5)"

definition sanitize_appname :: "nat \<Rightarrow> string \<Rightarrow> string" where
  "sanitize_appname outsz tag =
     (if tag = '''' then ''-''
      else map (\<lambda>c. if print_usascii c then c else CHR ''_'') (take (outsz - 1) tag))"

definition sanitize_msg :: "string \<Rightarrow> string" where
  "sanitize_msg s = map (\<lambda>c. if (of_char c :: nat) < 0x20 \<or> of_char c = (0x7F :: nat) then CHR ''.'' else c) s"

definition syslog_frame :: "nat \<Rightarrow> string \<Rightarrow> string \<Rightarrow> u32 \<Rightarrow> u32 \<Rightarrow> u32 \<Rightarrow> string \<Rightarrow> string" where
  "syslog_frame pri hostname appname boot_seq ts_ms seq msg =
     ''<'' @ decimal pri @ ''>1 - '' @ hostname @ '' '' @ appname @ '' '' @ decimal (unat boot_seq) @ '' - '' @
     ''[timeQuality tzKnown='' @ [CHR 0x22] @ ''0'' @ [CHR 0x22] @ '' isSynced='' @ [CHR 0x22] @ ''0'' @ [CHR 0x22] @
     ''][aog@32473 up_ms='' @ [CHR 0x22] @ decimal (unat ts_ms) @ [CHR 0x22] @
     '' seq='' @ [CHR 0x22] @ decimal (unat seq) @ [CHR 0x22] @
     '' boot='' @ [CHR 0x22] @ decimal (unat boot_seq) @ [CHR 0x22] @ ''] '' @ msg"

text \<open>What is handed to \<open>sendto\<close> for a line.\<close>

definition datagram :: "syslog_cfg \<Rightarrow> u32 \<Rightarrow> u32 \<Rightarrow> log_line \<Rightarrow> string" where
  "datagram cfg boot_seq seq l =
     take (SYSLOG_DGRAM_MAX - 1)
       (syslog_frame (unat (y_facility cfg) * 8 + severity_from_letter (g_level l)) (y_hostname cfg)
          (sanitize_appname LOG_BUF_TAG_MAX (g_tag l)) boot_seq (g_ts_ms l) seq (sanitize_msg (g_msg l)))"

section \<open>The socket\<close>

text \<open>\<open>can\<close> tells whether the bridge's name could be had and the option set; an errno is kept on failure.\<close>

record bind_env =
  be_named :: bool
  be_setsockopt :: int

definition bind_to_bridge :: "bind_env \<Rightarrow> bool \<Rightarrow> syslog \<Rightarrow> bool \<times> syslog" where
  "bind_to_bridge env bound s =
     (if \<not> s_sock s then (False, s)
      else if bound \<and> \<not> be_named env then (False, s)
      else if be_setsockopt env \<noteq> 0 then (False, s\<lparr>s_last_errno := be_setsockopt env\<rparr>)
      else (bound, s))"

text \<open>\<open>sock\<close> is what \<open>socket\<close> answers: 0, or its errno.\<close>

definition open_socket :: "int \<Rightarrow> bind_env \<Rightarrow> syslog \<Rightarrow> syslog" where
  "open_socket sock env s =
     (if s_sock s then s
      else if sock \<noteq> 0 then s\<lparr>s_last_errno := sock\<rparr>
      else let (b, s) = bind_to_bridge env True (s\<lparr>s_sock := True\<rparr>) in s\<lparr>s_bound := b\<rparr>)"

definition close_socket :: "bind_env \<Rightarrow> syslog \<Rightarrow> syslog" where
  "close_socket env s =
     (if \<not> s_sock s then s
      else let (_, s) = bind_to_bridge env False s in s\<lparr>s_sock := False, s_bound := False\<rparr>)"

text \<open>\<open>ours\<close> is whether the event is about the bridge.\<close>

definition br_netif_status_cb :: "bind_env \<Rightarrow> bool \<Rightarrow> bool \<Rightarrow> syslog \<Rightarrow> syslog" where
  "br_netif_status_cb env ours up s =
     (if \<not> ours then s else let (b, s) = bind_to_bridge env up s in s\<lparr>s_bound := b\<rparr>)"

section \<open>The drain\<close>

text \<open>
  The loop over the sequence numbers: \<open>ring j\<close> is the ring at the pass's \<open>j\<close>th read, \<open>k\<close> the datagrams tried
  so far and \<open>net k\<close> the answer to the next. The result has the datagrams the network accepted.
\<close>

fun drain_lines ::
  "(nat \<Rightarrow> log_buf) \<Rightarrow> (nat \<Rightarrow> int) \<Rightarrow> u32 list \<Rightarrow> nat \<Rightarrow> nat \<Rightarrow> syslog \<Rightarrow> string list \<times> syslog"
where
  "drain_lines ring net [] j k s = ([], s)"
| "drain_lines ring net (seq # seqs) j k s =
     (if k \<ge> SYSLOG_BURST_MAX then ([], s)
      else case log_buf_get_line seq LOG_BUF_TAG_MAX LOG_BUF_MSG_MAX (ring j) of
        None \<Rightarrow> drain_lines ring net seqs (j + 1) k (s\<lparr>s_aged_out := s_aged_out s + 1, s_cursor := seq\<rparr>)
      | Some l \<Rightarrow>
          if severity_from_letter (g_level l) > unat (y_min_severity (s_cfg s))
          then drain_lines ring net seqs (j + 1) k (s\<lparr>s_filtered := s_filtered s + 1, s_cursor := seq\<rparr>)
          else
            let err = net k; s = s\<lparr>s_last_send_failed := (err \<noteq> 0)\<rparr> in
            if err \<noteq> 0 then
              let s = s\<lparr>s_send_fail := s_send_fail s + 1, s_last_errno := err\<rparr> in
              if (err = ENOMEM \<or> err = ENOBUFS) \<and> s_stalls s < SYSLOG_STALL_MAX
              then ([], s\<lparr>s_stalls := s_stalls s + 1, s_pass_stalled := True\<rparr>)
              else drain_lines ring net seqs (j + 1) (k + 1) (s\<lparr>s_cursor := seq\<rparr>)
            else
              let (out, s') = drain_lines ring net seqs (j + 1) (k + 1)
                                (s\<lparr>s_sent := s_sent s + 1, s_stalls := 0, s_cursor := seq\<rparr>)
              in (datagram (s_cfg s) (s_boot_seq s) seq l # out, s'))"

text \<open>The first read, \<open>ring 0\<close>, is that of the range.\<close>

definition drain_pass :: "(nat \<Rightarrow> log_buf) \<Rightarrow> (nat \<Rightarrow> int) \<Rightarrow> syslog \<Rightarrow> bool \<times> string list \<times> syslog" where
  "drain_pass ring net s =
     (let (oldest, newest, _) = log_buf_get_range (ring 0);
          next = s_cursor s + 1;
          s = (if next < oldest \<and> s_cursor s \<noteq> 0 then s\<lparr>s_aged_out := s_aged_out s + (oldest - next)\<rparr> else s);
          next = (if next < oldest then oldest else next);
          (out, s) = drain_lines ring net (map of_nat [unat next ..< Suc (unat newest)]) 1 0 s
      in (s_cursor s < newest, out, s))"

text \<open>
  The task's \<open>while\<close>: pass \<open>p\<close> reads \<open>rings p\<close>. It need not end, when others print faster than it sends,
  and then has no value.
\<close>

partial_function (option) drain_loop ::
  "(nat \<Rightarrow> nat \<Rightarrow> log_buf) \<Rightarrow> (nat \<Rightarrow> nat \<Rightarrow> int) \<Rightarrow> nat \<Rightarrow> syslog \<Rightarrow> (string list \<times> syslog) option"
where
  "drain_loop rings nets p s =
     (case drain_pass (rings p) (nets p) s of (again, out, s) \<Rightarrow>
        if again \<and> \<not> s_pass_stalled s
        then Option.bind (drain_loop rings nets (p + 1) s) (\<lambda>(out', s). Some (out @ out', s))
        else Some (out, s))"

section \<open>State reporting\<close>

definition current_state :: "syslog \<Rightarrow> syslog_state" where
  "current_state s =
     (if \<not> y_enabled (s_cfg s) then SYSLOG_OFF
      else if \<not> s_bound s \<or> \<not> s_sock s then SYSLOG_WAITING
      else if s_last_send_failed s then SYSLOG_FAILING else SYSLOG_SHIPPING)"

text \<open>The line logged, if one is: the state, the changes it says went unreported, and the backlog. \<open>interval\<close> is a minute in ticks.\<close>

definition backlog :: "log_buf \<Rightarrow> syslog \<Rightarrow> u32" where
  "backlog ring s =
     (let (_, newest, _) = log_buf_get_range ring in if newest > s_cursor s then newest - s_cursor s else 0)"

definition settle_log ::
  "u32 \<Rightarrow> u32 \<Rightarrow> log_buf \<Rightarrow> syslog_state \<Rightarrow> syslog \<Rightarrow> (syslog_state \<times> u32 \<times> u32) option \<times> syslog"
where
  "settle_log interval now ring state s =
     (if state = s_logged_state s \<and> s_ever_logged s then (None, s)
      else if s_ever_logged s \<and> now - s_last_log_tick s < interval
      then (None, s\<lparr>s_suppressed := s_suppressed s + 1\<rparr>)
      else (Some (state, s_suppressed s, backlog ring s),
            s\<lparr>s_suppressed := 0, s_last_log_tick := now, s_logged_state := state, s_ever_logged := True\<rparr>))"

section \<open>The task\<close>

definition reload_config :: "syslog_cfg \<Rightarrow> u32 \<Rightarrow> int \<Rightarrow> bind_env \<Rightarrow> syslog \<Rightarrow> syslog" where
  "reload_config cfg gen sock env s =
     (let was_enabled = y_enabled (s_cfg s);
          s = s\<lparr>s_cfg := cfg, s_seen_generation := gen\<rparr>
      in if y_enabled cfg \<and> y_server_ip cfg \<noteq> 0
         then let s = open_socket sock env s in if \<not> was_enabled then s\<lparr>s_cursor := 0\<rparr> else s
         else close_socket env s)"

text \<open>What a pass of the task is given: its surroundings from waking to sleeping again.\<close>

record task_env =
  te_cfg :: syslog_cfg
  te_generation :: u32
  te_socket :: int
  te_bind :: bind_env
  te_rings :: "nat \<Rightarrow> nat \<Rightarrow> log_buf"
  te_nets :: "nat \<Rightarrow> nat \<Rightarrow> int"
  te_interval :: u32
  te_tick :: u32
  te_ring :: log_buf

definition syslog_task_start :: "task_env \<Rightarrow> syslog \<Rightarrow> syslog" where
  "syslog_task_start env s = reload_config (te_cfg env) (te_generation env) (te_socket env) (te_bind env) s"

definition syslog_task_pass ::
  "task_env \<Rightarrow> syslog \<Rightarrow> (string list \<times> (syslog_state \<times> u32 \<times> u32) option \<times> syslog) option"
where
  "syslog_task_pass env s =
     (let s = (if te_generation env \<noteq> s_seen_generation s
               then reload_config (te_cfg env) (te_generation env) (te_socket env) (te_bind env) s else s)
      in Option.bind
           (if y_enabled (s_cfg s) \<and> s_bound s \<and> s_sock s
            then drain_loop (te_rings env) (te_nets env) 0 (s\<lparr>s_pass_stalled := False\<rparr>)
            else Some ([], s))
           (\<lambda>(out, s). let (report, s) = settle_log (te_interval env) (te_tick env) (te_ring env) (current_state s) s
                       in Some (out, report, s)))"

record syslog_status =
  ss_enabled :: bool
  ss_bound :: bool
  ss_sent :: u32
  ss_filtered :: u32
  ss_aged_out :: u32
  ss_send_fail :: u32
  ss_last_errno :: int
  ss_backlog :: u32

definition syslog_get_status :: "log_buf \<Rightarrow> syslog \<Rightarrow> syslog_status" where
  "syslog_get_status ring s =
     \<lparr>ss_enabled = y_enabled (s_cfg s), ss_bound = s_bound s, ss_sent = s_sent s, ss_filtered = s_filtered s,
      ss_aged_out = s_aged_out s, ss_send_fail = s_send_fail s, ss_last_errno = s_last_errno s,
      ss_backlog = backlog ring s\<rparr>"

definition syslog_init :: "u32 option \<Rightarrow> syslog \<Rightarrow> syslog" where
  "syslog_init boot s = (case boot of Some n \<Rightarrow> s\<lparr>s_boot_seq := n\<rparr> | None \<Rightarrow> s)"


section \<open>What a pass does\<close>

definition accounted :: "syslog \<Rightarrow> u32" where
  "accounted s = s_sent s + s_filtered s + s_aged_out s + s_send_fail s"

text \<open>A pass that is through with \<open>n\<close> lines from \<open>a\<close> on, and may have stalled on the one after.\<close>

definition through :: "nat \<Rightarrow> nat \<Rightarrow> syslog \<Rightarrow> string list \<Rightarrow> syslog \<Rightarrow> bool" where
  "through a n s out s' \<longleftrightarrow>
     s_cursor s' = (if n = 0 then s_cursor s else of_nat (a + n - 1)) \<and>
     accounted s' = accounted s + of_nat n + (if s_pass_stalled s' then 1 else 0) \<and>
     s_sent s' = s_sent s + of_nat (length out) \<and> s_cfg s' = s_cfg s \<and> s_boot_seq s' = s_boot_seq s"

lemma through_Suc:
  assumes "through (Suc a) n s1 out s'" "s_cursor s1 = of_nat a" "accounted s1 = accounted s + 1"
    "s_sent s1 + of_nat (length out) = s_sent s + of_nat (length out')" "s_cfg s1 = s_cfg s" "s_boot_seq s1 = s_boot_seq s"
  shows "through a (Suc n) s out' s'"
  using assms by (auto simp: through_def)

definition shipped :: "log_line list \<Rightarrow> syslog \<Rightarrow> nat list \<Rightarrow> string list" where
  "shipped hist s qs =
     map (\<lambda>q. datagram (s_cfg s) (s_boot_seq s) (of_nat q) (hist ! (q - 1)))
       (filter (\<lambda>q. severity_from_letter (g_level (hist ! (q - 1))) \<le> unat (y_min_severity (s_cfg s))) qs)"

text \<open>Each read of a line in the range gives that line of the history, or nothing for one that is \<open>gone\<close>.\<close>

definition shows_hist :: "(nat \<Rightarrow> log_buf) \<Rightarrow> log_line list \<Rightarrow> (nat \<Rightarrow> bool) \<Rightarrow> nat \<Rightarrow> nat \<Rightarrow> bool" where
  "shows_hist ring hist gone a b \<longleftrightarrow>
     (\<forall>j q. a \<le> q \<and> q < b \<longrightarrow>
        (case log_buf_get_line (of_nat q) LOG_BUF_TAG_MAX LOG_BUF_MSG_MAX (ring j) of
           None \<Rightarrow> gone q | Some l \<Rightarrow> l = hist ! (q - 1)))"

text \<open>Of the lines \<open>qs\<close>, those not gone are shipped in order, and the others are counted.\<close>

definition ships :: "log_line list \<Rightarrow> (nat \<Rightarrow> bool) \<Rightarrow> nat list \<Rightarrow> syslog \<Rightarrow> string list \<Rightarrow> syslog \<Rightarrow> bool" where
  "ships hist gone qs s out s' \<longleftrightarrow>
     (\<exists>got. subseq got qs \<and> (\<forall>q\<in>set qs - set got. gone q) \<and> out = shipped hist s got \<and>
        s_aged_out s' = s_aged_out s + of_nat (length qs - length got)) \<and>
     \<not> s_pass_stalled s' \<and> s_cfg s' = s_cfg s \<and> s_boot_seq s' = s_boot_seq s"

lemma ships_Nil [simp]: "\<not> s_pass_stalled s \<Longrightarrow> ships hist gone [] s [] s"
  by (auto simp: ships_def shipped_def)

lemma ships_append:
  assumes "ships hist gone qs1 s out1 s1" "ships hist gone qs2 s1 out2 s2"
  shows "ships hist gone (qs1 @ qs2) s (out1 @ out2) s2"
proof -
  obtain got1 where g1: "subseq got1 qs1" "\<forall>q\<in>set qs1 - set got1. gone q" "out1 = shipped hist s got1"
      "s_aged_out s1 = s_aged_out s + of_nat (length qs1 - length got1)"
    using assms(1) by (auto simp: ships_def)
  obtain got2 where g2: "subseq got2 qs2" "\<forall>q\<in>set qs2 - set got2. gone q" "out2 = shipped hist s1 got2"
      "s_aged_out s2 = s_aged_out s1 + of_nat (length qs2 - length got2)"
    using assms(2) by (auto simp: ships_def)
  have same: "s_cfg s1 = s_cfg s" "s_boot_seq s1 = s_boot_seq s" using assms(1) by (simp_all add: ships_def)
  have l: "length got1 \<le> length qs1" "length got2 \<le> length qs2"
    using g1(1) g2(1) by (simp_all add: list_emb_length)
  have "subseq (got1 @ got2) (qs1 @ qs2)" using g1(1) g2(1) by (rule list_emb_append_mono)
  moreover have "out1 @ out2 = shipped hist s (got1 @ got2)"
    by (simp add: g1(3) g2(3) shipped_def same)
  moreover have "s_aged_out s2 = s_aged_out s + of_nat (length (qs1 @ qs2) - length (got1 @ got2))"
    using l by (simp add: g1(4) g2(4) of_nat_diff)
  ultimately show ?thesis using assms(2) g1(2) g2(2) same unfolding ships_def by fastforce
qed

lemma drain_lines_through:
  assumes "drain_lines ring net (map of_nat [a ..< a + d]) j k s = (out, s')" "\<not> s_pass_stalled s"
  shows "\<exists>n\<le>d. through a n s out s' \<and> (s_pass_stalled s' \<or> n = d \<or> SYSLOG_BURST_MAX \<le> k + n) \<and>
    ((\<forall>k. net k = 0) \<and> shows_hist ring hist gone a (a + d) \<longrightarrow> ships hist gone [a ..< a + n] s out s')"
  using assms
proof (induction d arbitrary: a j k s out)
  case 0
  then show ?case by (auto simp: through_def accounted_def)
next
  case (Suc d)
  let ?cfg = "s_cfg s" and ?get = "log_buf_get_line (of_nat a) LOG_BUF_TAG_MAX LOG_BUF_MSG_MAX (ring j)"
  let ?seqs = "map of_nat [Suc a ..< Suc a + d] :: u32 list"
  have u: "[a ..< a + Suc d] = a # [Suc a ..< Suc a + d]" by (simp add: upt_conv_Cons)
  have run: "drain_lines ring net (of_nat a # ?seqs) j k s = (out, s')" using Suc.prems(1) by (simp only: u list.map)
  have step: ?case
    if d: "drain_lines ring net ?seqs j' k' s1 = (out1, s')" and k': "k' \<le> Suc k"
      and s1: "\<not> s_pass_stalled s1" "s_cursor s1 = of_nat a" "accounted s1 = accounted s + 1"
        "s_sent s1 + of_nat (length out1) = s_sent s + of_nat (length out)" "s_cfg s1 = ?cfg" "s_boot_seq s1 = s_boot_seq s"
      and o: "(\<forall>k. net k = 0) \<and> shows_hist ring hist gone a (a + Suc d) \<Longrightarrow>
        \<exists>o1. out = o1 @ out1 \<and> ships hist gone [a] s o1 s1"
    for j' k' s1 out1
  proof -
    obtain n where n: "n \<le> d" "through (Suc a) n s1 out1 s'"
        "s_pass_stalled s' \<or> n = d \<or> SYSLOG_BURST_MAX \<le> k' + n"
        "(\<forall>k. net k = 0) \<and> shows_hist ring hist gone (Suc a) (Suc a + d) \<longrightarrow>
           ships hist gone [Suc a ..< Suc a + n] s1 out1 s'"
      using Suc.IH [OF d s1(1)] by blast
    have "through a (Suc n) s out s'" by (rule through_Suc [OF n(2) s1(2-6)])
    moreover have "s_pass_stalled s' \<or> Suc n = Suc d \<or> SYSLOG_BURST_MAX \<le> k + Suc n" using n(3) k' by auto
    moreover have "ships hist gone [a ..< a + Suc n] s out s'"
      if h: "(\<forall>k. net k = 0) \<and> shows_hist ring hist gone a (a + Suc d)"
    proof -
      have "shows_hist ring hist gone (Suc a) (Suc a + d)" using h by (auto simp: shows_hist_def)
      moreover have "[a ..< a + Suc n] = [a] @ [Suc a ..< Suc a + n]" by (simp add: upt_conv_Cons)
      ultimately show ?thesis using n(4) o [OF h] h ships_append by metis
    qed
    ultimately show ?thesis using n(1) by (intro exI [of _ "Suc n"]) simp
  qed
  show ?case
  proof (cases "SYSLOG_BURST_MAX \<le> k")
    case True
    then show ?thesis using run Suc.prems(2)
      by (intro exI [of _ 0]) (auto simp: through_def accounted_def)
  next
    case k: False
    have read: "case ?get of None \<Rightarrow> gone a | Some l \<Rightarrow> l = hist ! (a - 1)" if "shows_hist ring hist gone a (a + Suc d)"
      using that [unfolded shows_hist_def, rule_format, where q = a and j = j] by simp
    have dropped: "ships hist gone [a] s [] (s\<lparr>s_aged_out := s_aged_out s + 1, s_cursor := c\<rparr>)" if "gone a" for c
      unfolding ships_def by (intro conjI exI [of _ "[]"]) (use that Suc.prems(2) in \<open>simp_all add: shipped_def\<close>)
    have kept: "ships hist gone [a] s o1 s1"
      if "o1 = shipped hist s [a]" "s_aged_out s1 = s_aged_out s" "\<not> s_pass_stalled s1" "s_cfg s1 = ?cfg" "s_boot_seq s1 = s_boot_seq s"
      for o1 s1
      unfolding ships_def by (intro conjI exI [of _ "[a]"]) (use that in simp_all)
    show ?thesis
    proof (cases ?get)
      case None
      let ?s1 = "s\<lparr>s_aged_out := s_aged_out s + 1, s_cursor := of_nat a\<rparr>"
      have "drain_lines ring net ?seqs (j + 1) k ?s1 = (out, s')" using run k None by simp
      then show ?thesis
        by (rule step) (use None Suc.prems(2) read dropped in \<open>auto simp: accounted_def\<close>)
    next
      case (Some l)
      let ?low = "severity_from_letter (g_level l) > unat (y_min_severity ?cfg)"
      have hl: "hist ! (a - 1) = l" if "shows_hist ring hist gone a (a + Suc d)" using read [OF that] Some by simp
      show ?thesis
      proof (cases ?low)
        case True
        let ?s1 = "s\<lparr>s_filtered := s_filtered s + 1, s_cursor := of_nat a\<rparr>"
        have "drain_lines ring net ?seqs (j + 1) k ?s1 = (out, s')" using run k Some True by simp
        then show ?thesis
        proof (rule step)
          show "\<exists>o1. out = o1 @ out \<and> ships hist gone [a] s o1 ?s1"
          if "(\<forall>k. net k = 0) \<and> shows_hist ring hist gone a (a + Suc d)"
            by (intro exI [of _ "[]"] conjI kept) (use that hl True Suc.prems(2) in \<open>auto simp: shipped_def\<close>)
        qed (use Suc.prems(2) in \<open>auto simp: accounted_def\<close>)
      next
        case low: False
        let ?failed = "s\<lparr>s_last_send_failed := True, s_send_fail := s_send_fail s + 1, s_last_errno := net k\<rparr>"
        consider (sent) "net k = 0" | (stall) "net k \<noteq> 0" "net k = ENOMEM \<or> net k = ENOBUFS" "s_stalls s < SYSLOG_STALL_MAX"
          | (failed) "net k \<noteq> 0" "\<not> ((net k = ENOMEM \<or> net k = ENOBUFS) \<and> s_stalls s < SYSLOG_STALL_MAX)"
          by blast
        then show ?thesis
        proof cases
          case sent
          let ?s1 = "s\<lparr>s_last_send_failed := False, s_sent := s_sent s + 1, s_stalls := 0, s_cursor := of_nat a\<rparr>"
          obtain out1 where o: "drain_lines ring net ?seqs (j + 1) (k + 1) ?s1 = (out1, s')"
            "out = datagram ?cfg (s_boot_seq s) (of_nat a) l # out1"
            using run k Some low sent by (auto simp: Let_def split: prod.splits)
          have "\<exists>o1. out = o1 @ out1 \<and> ships hist gone [a] s o1 ?s1"
            if "(\<forall>k. net k = 0) \<and> shows_hist ring hist gone a (a + Suc d)"
            by (intro exI [of _ "[datagram ?cfg (s_boot_seq s) (of_nat a) l]"] conjI kept)
              (use that hl low o(2) Suc.prems(2) in \<open>auto simp: shipped_def\<close>)
          then show ?thesis
            using Suc.prems(2) o(2) by (intro step [OF o(1)]) (auto simp: accounted_def)
        next
          case stall
          then have "out = []" "s' = ?failed\<lparr>s_stalls := s_stalls s + 1, s_pass_stalled := True\<rparr>"
            using run k Some low by (auto simp: Let_def)
          then show ?thesis
            using stall(1) by (intro exI [of _ 0]) (auto simp: through_def accounted_def)
        next
          case failed
          then have d: "drain_lines ring net ?seqs (j + 1) (k + 1) (?failed\<lparr>s_cursor := of_nat a\<rparr>) = (out, s')"
            using run k Some low by (auto simp: Let_def)
          show ?thesis
            using Suc.prems(2) failed(1) by (intro step [OF d]) (auto simp: accounted_def)
        qed
      qed
    qed
  qed
qed

definition start_at :: "nat \<Rightarrow> nat \<Rightarrow> nat" where
  "start_at newest cursor = max (cursor + 1) (newest - 127)"

definition aged :: "nat \<Rightarrow> nat \<Rightarrow> nat" where
  "aged newest cursor = (if cursor = 0 then 0 else start_at newest cursor - (cursor + 1))"

lemma pass_through:
  assumes r: "log_refines (ring 0) (now, w, task)" "length now < 2 ^ 32 - 1"
    and c: "unat (s_cursor s) \<le> length now" and st: "\<not> s_pass_stalled s"
    and p: "drain_pass ring net s = (again, out, s')"
  defines "a \<equiv> start_at (length now) (unat (s_cursor s))" and "d \<equiv> Suc (length now) - start_at (length now) (unat (s_cursor s))"
    and "s0 \<equiv> s\<lparr>s_aged_out := s_aged_out s + of_nat (aged (length now) (unat (s_cursor s)))\<rparr>"
  shows "\<exists>n\<le>d. through a n s0 out s' \<and> (s_pass_stalled s' \<or> n = d \<or> SYSLOG_BURST_MAX \<le> n) \<and>
    (again \<longleftrightarrow> unat (s_cursor s') < length now) \<and>
    ((\<forall>k. net k = 0) \<and> shows_hist ring hist gone a (a + d) \<longrightarrow> ships hist gone [a ..< a + n] s0 out s')"
proof -
  let ?L = "length now" and ?c = "unat (s_cursor s)"
  have word: "unat (of_nat n :: u32) = n" if "n < 2 ^ 32" for n using that by (simp add: unat_of_nat_eq)
  define old where "old = (of_nat (max 1 (?L - 127)) :: u32)"
  define nxt where "nxt = s_cursor s + 1"
  have range: "log_buf_get_range (ring 0) = (old, of_nat ?L, LogBuf.s_missed (ring 0))"
    unfolding old_def by (rule range_of_log [OF r(1)]) (use r(2) in simp)
  have nxt_nat: "nxt = of_nat (?c + 1)" by (simp add: nxt_def)
  have u: "unat (of_nat ?L :: u32) = ?L" "unat old = max 1 (?L - 127)" "unat nxt = ?c + 1"
    unfolding old_def nxt_nat by (rule word, use r(2) c in simp)+
  have lt: "nxt < old \<longleftrightarrow> ?c + 1 < ?L - 127" by (simp only: word_less_nat_alt u) auto
  have a: "unat (if nxt < old then old else nxt) = a"
    using lt u by (auto simp: a_def start_at_def)
  have lost: "old - nxt = of_nat (?L - 127 - (?c + 1))" if "?c + 1 < ?L - 127"
  proof -
    have "old = of_nat (?L - 127)" using that by (simp add: old_def max_def)
    then show ?thesis using that unfolding nxt_nat by (simp only: of_nat_diff less_imp_le)
  qed
  have z: "s_cursor s = 0 \<longleftrightarrow> ?c = 0" by (simp add: unat_eq_0)
  have s0: "(if nxt < old \<and> s_cursor s \<noteq> 0 then s\<lparr>s_aged_out := s_aged_out s + (old - nxt)\<rparr> else s) = s0"
    using lost by (auto simp: lt z s0_def aged_def start_at_def max_def)
  have ad: "Suc ?L = a + d" using c by (simp add: a_def d_def start_at_def)
  obtain o2 s2 where run: "drain_lines ring net (map of_nat [a ..< a + d]) 1 0 s0 = (o2, s2)" by fastforce
  have res: "again = (s_cursor s2 < of_nat ?L)" "out = o2" "s' = s2"
    using p unfolding drain_pass_def range prod.case Let_def nxt_def [symmetric] s0 a u(1) ad run by (metis prod.inject)+
  have "\<not> s_pass_stalled s0" using st by (simp add: s0_def)
  from drain_lines_through [OF run this, of hist gone] obtain n where
    "n \<le> d" "through a n s0 o2 s2" "s_pass_stalled s2 \<or> n = d \<or> SYSLOG_BURST_MAX \<le> n"
    "(\<forall>k. net k = 0) \<and> shows_hist ring hist gone a (a + d) \<longrightarrow> ships hist gone [a ..< a + n] s0 o2 s2"
    by auto
  then show ?thesis using res by (intro exI [of _ n]) (simp add: word_less_nat_alt u)
qed

lemma through_cursor:
  assumes "through (start_at L c) n s out s'" "n \<le> Suc L - start_at L c" "L < 2 ^ 32 - 1" "unat (s_cursor s) = c" "c \<le> L"
  shows "unat (s_cursor s') = (if n = 0 then c else start_at L c + n - 1)" "unat (s_cursor s') \<le> L"
proof -
  have "unat (of_nat (start_at L c + n - 1) :: u32) = start_at L c + n - 1" if "n \<noteq> 0"
    by (rule unat_of_nat_eq) (use assms that in \<open>simp add: start_at_def\<close>)
  then show e: "unat (s_cursor s') = (if n = 0 then c else start_at L c + n - 1)"
    using assms(1,4) by (simp add: through_def)
  show "unat (s_cursor s') \<le> L" using assms(2,5) unfolding e by (auto simp: start_at_def)
qed

text \<open>A pass that is to go on has moved the cursor.\<close>

lemma pass_moves:
  assumes r: "log_refines (ring 0) (now, w, task)" "length now < 2 ^ 32 - 1"
    and c: "unat (s_cursor s) \<le> length now" and st: "\<not> s_pass_stalled s"
    and p: "drain_pass ring net s = (again, out, s')"
  shows "unat (s_cursor s') \<le> length now" "again \<longleftrightarrow> unat (s_cursor s') < length now"
    "again \<Longrightarrow> \<not> s_pass_stalled s' \<Longrightarrow> unat (s_cursor s) < unat (s_cursor s')"
proof -
  let ?L = "length now" and ?c = "unat (s_cursor s)"
  let ?s0 = "s\<lparr>s_aged_out := s_aged_out s + of_nat (aged ?L ?c)\<rparr>"
  obtain n where n: "n \<le> Suc ?L - start_at ?L ?c" "through (start_at ?L ?c) n ?s0 out s'"
    "s_pass_stalled s' \<or> n = Suc ?L - start_at ?L ?c \<or> SYSLOG_BURST_MAX \<le> n"
    "again \<longleftrightarrow> unat (s_cursor s') < ?L"
    using pass_through [OF r c st p] by blast
  note cur = through_cursor [OF n(2,1) r(2) _ c]
  show "unat (s_cursor s') \<le> ?L" "again \<longleftrightarrow> unat (s_cursor s') < ?L" using cur(2) n(4) by simp_all
  assume g: "again" "\<not> s_pass_stalled s'"
  have "n \<noteq> 0"
  proof
    assume n0: "n = 0"
    then have "?c < ?L" using g(1) n(4) cur(1) by simp
    then show False using n(3) n0 g(2) by (simp add: start_at_def split: if_splits)
  qed
  then show "?c < unat (s_cursor s')" using cur(1) by (simp add: start_at_def)
qed

lemma drain_loop_ends:
  assumes "\<And>p. log_refines (rings p 0) (hists p, ws p, tasks p)"
    and "\<And>p. length (hists p) \<le> length (hists (Suc p))" "\<And>p. length (hists p) \<le> N" "N < 2 ^ 32 - 1"
  shows "unat (s_cursor s) \<le> length (hists p) \<Longrightarrow> \<not> s_pass_stalled s \<Longrightarrow>
    \<exists>out s' q. drain_loop rings nets p s = Some (out, s') \<and> p \<le> q \<and>
      (s_pass_stalled s' \<or> unat (s_cursor s') = length (hists q))"
proof (induction "N - unat (s_cursor s)" arbitrary: p s rule: less_induct)
  case less
  obtain again out s' where p: "drain_pass (rings p) (nets p) s = (again, out, s')" by (metis prod_cases3)
  have l: "length (hists p) < 2 ^ 32 - 1" using assms(3) [of p] assms(4) by simp
  note m = pass_moves [OF assms(1) l less.prems p]
  show ?case
  proof (cases "again \<and> \<not> s_pass_stalled s'")
    case False
    then have "drain_loop rings nets p s = Some (out, s')" by (subst drain_loop.simps) (auto simp: p)
    moreover have "s_pass_stalled s' \<or> unat (s_cursor s') = length (hists p)" using False m by auto
    ultimately show ?thesis by blast
  next
    case True
    have "unat (s_cursor s') \<le> length (hists (Suc p))" using m(1) assms(2) [of p] by simp
    moreover have "N - unat (s_cursor s') < N - unat (s_cursor s)"
      using m(1) m(3) True assms(3) [of p] by simp
    ultimately obtain out2 s2 q where "drain_loop rings nets (Suc p) s' = Some (out2, s2)" "Suc p \<le> q"
        "s_pass_stalled s2 \<or> unat (s_cursor s2) = length (hists q)"
      using less.hyps True by blast
    moreover from this have "drain_loop rings nets p s = Some (out @ out2, s2)"
      by (subst drain_loop.simps) (simp add: p True)
    ultimately show ?thesis using Suc_leD by blast
  qed
qed

text \<open>Where the backlog begins: the first pass there ever was takes what the ring holds.\<close>

definition backlog_start :: "nat \<Rightarrow> nat \<Rightarrow> nat" where
  "backlog_start newest cursor = (if cursor = 0 then newest - LOG_BUF_LINES else cursor)"

text \<open>A pass whose sends all succeed: what it is through with has been shipped or is gone.\<close>

lemma pass_ships:
  assumes r: "log_refines (ring 0) (now, w, task)" "length now < 2 ^ 32 - 1"
    and c: "unat (s_cursor s) \<le> length now" and st: "\<not> s_pass_stalled s"
    and p: "drain_pass ring net s = (again, out, s')" and net: "\<forall>k. net k = 0"
    and sh: "shows_hist ring hist gone (start_at (length now) (unat (s_cursor s))) (Suc (length now))"
    and old: "\<And>q. q + LOG_BUF_LINES \<le> length now \<Longrightarrow> gone q"
  shows "ships hist gone [Suc (backlog_start (length now) (unat (s_cursor s))) ..< Suc (unat (s_cursor s'))] s out s'"
    and "again \<Longrightarrow> backlog_start (length now) (unat (s_cursor s)) \<le> unat (s_cursor s')"
proof -
  let ?L = "length now" and ?c = "unat (s_cursor s)"
  let ?s0 = "s\<lparr>s_aged_out := s_aged_out s + of_nat (aged ?L ?c)\<rparr>" and ?a = "start_at ?L ?c"
  let ?b = "Suc (backlog_start ?L ?c)"
  have "?a + (Suc ?L - ?a) = Suc ?L" using c by (simp add: start_at_def)
  then obtain n where n: "n \<le> Suc ?L - ?a" "through ?a n ?s0 out s'" "n = Suc ?L - ?a \<or> SYSLOG_BURST_MAX \<le> n"
    "again \<longleftrightarrow> unat (s_cursor s') < ?L" "ships hist gone [?a ..< ?a + n] ?s0 out s'"
    using pass_through [OF r c st p, of hist gone] net sh by (auto simp: ships_def)
  note cur = through_cursor [OF n(2,1) r(2) _ c, simplified]
  have gap: "[?b ..< Suc (unat (s_cursor s'))] = [?b ..< ?a] @ [?a ..< ?a + n]"
  proof (cases "n = 0")
    case True
    then have "?c = ?L" using n(3) c by (auto simp: start_at_def split: if_splits)
    then show ?thesis using True cur(1) by (auto simp: start_at_def backlog_start_def simp del: upt_Suc)
  next
    case False
    then show ?thesis
      using upt_add_eq_append [of ?b ?a n] cur(1)
      by (cases "?a = 0") (auto simp: start_at_def backlog_start_def simp del: upt_Suc)
  qed
  have "ships hist gone [?b ..< ?a] s [] ?s0"
    unfolding ships_def
  proof (intro conjI exI [of _ "[]"])
    show "\<forall>q\<in>set [?b ..< ?a] - set []. gone q" using old by (auto simp: start_at_def backlog_start_def)
    show "s_aged_out ?s0 = s_aged_out s + of_nat (length [?b ..< ?a] - length [])"
      by (auto simp: aged_def backlog_start_def start_at_def max_def)
  qed (use st in \<open>simp_all add: shipped_def\<close>)
  from ships_append [OF this n(5)] show "ships hist gone [?b ..< Suc (unat (s_cursor s'))] s out s'"
    unfolding gap by simp
  assume again
  then have "?c < unat (s_cursor s')" using pass_moves(3) [OF r c st p] n(5) by (simp add: ships_def)
  then have "n \<noteq> 0" using cur(1) by (cases "n = 0") simp_all
  then show "backlog_start ?L ?c \<le> unat (s_cursor s')" using cur(1) by (auto simp: start_at_def backlog_start_def)
qed

lemma drain_loop_ships:
  assumes r: "\<And>p. log_refines (rings p 0) (hists p, ws p, tasks p)"
    and mono: "\<And>p. length (hists p) \<le> length (hists (Suc p))" "\<And>p. length (hists p) \<le> N" "N < 2 ^ 32 - 1"
    and net: "\<forall>p k. nets p k = 0"
    and sh: "\<And>p a. 1 \<le> a \<Longrightarrow> length (hists p) < a + LOG_BUF_LINES \<Longrightarrow> shows_hist (rings p) hist gone a (Suc (length (hists p)))"
    and old: "\<And>p q. q + LOG_BUF_LINES \<le> length (hists p) \<Longrightarrow> gone q"
  shows "unat (s_cursor s) \<le> length (hists p) \<Longrightarrow> \<not> s_pass_stalled s \<Longrightarrow>
    \<exists>out s' q. drain_loop rings nets p s = Some (out, s') \<and> p \<le> q \<and> unat (s_cursor s') = length (hists q) \<and>
      ships hist gone [Suc (backlog_start (length (hists p)) (unat (s_cursor s))) ..< Suc (length (hists q))] s out s'"
proof (induction "N - unat (s_cursor s)" arbitrary: p s rule: less_induct)
  case less
  let ?L = "length (hists p)" and ?c = "unat (s_cursor s)"
  obtain again out s' where p: "drain_pass (rings p) (nets p) s = (again, out, s')" by (metis prod_cases3)
  have l: "?L < 2 ^ 32 - 1" using mono(2) [of p] mono(3) by simp
  note m = pass_moves [OF r l less.prems p]
  have "shows_hist (rings p) hist gone (start_at ?L ?c) (Suc ?L)" by (rule sh) (simp_all add: start_at_def)
  note ships = pass_ships [OF r l less.prems p _ this old]
  have s1: "ships hist gone [Suc (backlog_start ?L ?c) ..< Suc (unat (s_cursor s'))] s out s'"
    by (rule ships(1)) (use net in auto)
  then have st: "\<not> s_pass_stalled s'" by (simp add: ships_def)
  show ?case
  proof (cases again)
    case False
    then have L: "unat (s_cursor s') = ?L" using m(1,2) by simp
    moreover have "drain_loop rings nets p s = Some (out, s')" by (subst drain_loop.simps) (simp add: p False)
    ultimately show ?thesis using s1 by (intro exI [of _ out] exI [of _ s'] exI [of _ p]) simp
  next
    case True
    let ?c' = "unat (s_cursor s')"
    have c': "?c < ?c'" "?c' \<le> length (hists (Suc p))" using m(1,3) True st mono(1) [of p] by auto
    have "N - ?c' < N - ?c" using c' m(1) mono(2) [of p] by simp
    then obtain out2 s2 q where s2: "drain_loop rings nets (Suc p) s' = Some (out2, s2)" "unat (s_cursor s2) = length (hists q)"
        "Suc p \<le> q" "ships hist gone [Suc (backlog_start (length (hists (Suc p))) ?c') ..< Suc (length (hists q))] s' out2 s2"
      using less.hyps [OF _ c'(2) st] by blast
    have b: "backlog_start (length (hists (Suc p))) ?c' = ?c'" using c'(1) by (simp add: backlog_start_def)
    have "ships hist gone ([Suc (backlog_start ?L ?c) ..< Suc ?c'] @ [Suc ?c' ..< Suc (length (hists q))]) s (out @ out2) s2"
      using ships_append [OF s1 s2(4) [unfolded b]] .
    moreover have "length (hists (Suc p)) \<le> length (hists q)"
      using lift_Suc_mono_le [of "\<lambda>p. length (hists p)", OF mono(1) s2(3)] .
    moreover have "backlog_start ?L ?c \<le> ?c'" by (rule ships(2)) (use net True in auto)
    ultimately have "ships hist gone [Suc (backlog_start ?L ?c) ..< Suc (length (hists q))] s (out @ out2) s2"
      using upt_add_eq_append [of "Suc (backlog_start ?L ?c)" "Suc ?c'" "length (hists q) - ?c'"] c'(2)
      by (simp del: upt_Suc)
    moreover have "drain_loop rings nets p s = Some (out @ out2, s2)"
      by (subst drain_loop.simps) (simp add: p True st s2(1))
    ultimately show ?thesis using s2(2,3) Suc_leD by blast
  qed
qed

section \<open>Accounting\<close>

text \<open>No line is passed over in silence. Whatever is printed meanwhile and whatever the network answers,
  a pass that moves the cursor adds to the counters of lines sent, filtered, aged out and failed
  exactly as many as the cursor moved, and one more for a line it is to try again; one that does
  not get past its first line counts the lines that aged out all the same, and the next one will
  again. The lines sent are the datagrams the network accepted.\<close>

theorem syslog_pass_accounts:
  assumes "log_refines (ring 0) (now, w, task)" "length now < 2 ^ 32 - 1"
    and "unat (s_cursor s) \<le> length now" "s_cursor s \<noteq> 0" "\<not> s_pass_stalled s"
    and "drain_pass ring net s = (again, out, s')"
  shows "accounted s' = accounted s + (s_cursor s' - s_cursor s) + (if s_pass_stalled s' then 1 else 0) +
      (if s_cursor s' = s_cursor s then of_nat (aged (length now) (unat (s_cursor s))) else 0) \<and>
    s_sent s' = s_sent s + of_nat (length out)"
proof -
  let ?L = "length now" and ?c = "unat (s_cursor s)"
  let ?s0 = "s\<lparr>s_aged_out := s_aged_out s + of_nat (aged ?L ?c)\<rparr>"
  obtain n where n: "n \<le> Suc ?L - start_at ?L ?c" "through (start_at ?L ?c) n ?s0 out s'"
    using pass_through [OF assms(1-3,5,6)] by blast
  note cur = through_cursor [OF n(2,1) assms(2) _ assms(3)]
  have acc: "accounted ?s0 = accounted s + of_nat (aged ?L ?c)" "s_sent ?s0 = s_sent s"
    by (simp_all add: accounted_def)
  show ?thesis
  proof (cases "n = 0")
    case True
    then show ?thesis using n(2) acc by (simp add: through_def)
  next
    case False
    have "s_cursor s' = of_nat (start_at ?L ?c + n - 1)" using n(2) False by (simp add: through_def)
    also have "start_at ?L ?c + n - 1 = ?c + (aged ?L ?c + n)"
      using False assms(4) by (simp add: aged_def start_at_def unat_eq_0)
    finally have cursor: "s_cursor s' = s_cursor s + (of_nat (aged ?L ?c) + of_nat n)" by simp
    have "unat (s_cursor s') \<noteq> ?c" using cur(1) False by (simp add: start_at_def)
    then have "s_cursor s' \<noteq> s_cursor s" by auto
    then show ?thesis using n(2) acc False by (simp add: through_def cursor add.assoc)
  qed
qed

text \<open>A pass that stalls on the first line left after a gap has counted the gap and not moved past it.\<close>

lemma stall_counts_gap_again:
  assumes "log_refines (ring 0) (now, w, task)" "length now < 2 ^ 32 - 1"
    and "unat (s_cursor s) \<le> length now" "s_cursor s \<noteq> 0" "\<not> s_pass_stalled s"
    and "drain_pass ring net s = (again, [], s')" "s_pass_stalled s'" "s_cursor s' = s_cursor s"
  shows "accounted s' = accounted s + 1 + of_nat (aged (length now) (unat (s_cursor s)))"
proof -
  obtain n where n: "n \<le> Suc (length now) - start_at (length now) (unat (s_cursor s))"
      "through (start_at (length now) (unat (s_cursor s))) n
         (s\<lparr>s_aged_out := s_aged_out s + of_nat (aged (length now) (unat (s_cursor s)))\<rparr>) [] s'"
    using pass_through [OF assms(1-3,5,6)] by blast
  note cur = through_cursor [OF n(2,1) assms(2) _ assms(3)]
  have "n = 0" using cur(1) assms(8) by (simp add: start_at_def split: if_splits)
  moreover have "accounted (s\<lparr>s_aged_out := s_aged_out s + x\<rparr>) = accounted s + x" for x
    by (simp add: accounted_def)
  ultimately have "accounted s' = accounted s + of_nat (aged (length now) (unat (s_cursor s))) + 1"
    using n(2) assms(7) by (simp add: through_def)
  then show ?thesis by (simp add: add_ac)
qed

section \<open>The loop\<close>

text \<open>C35: The sender's loop ends, whatever the network answers and whatever else is printed, so long as the
  log is not printed into without end: it ends with nothing left to send, or because the network
  is out of buffers.\<close>

theorem syslog_drain_terminates:
  assumes "\<And>p. log_refines (rings p 0) (hists p, ws p, tasks p)"
    and "\<And>p. length (hists p) \<le> length (hists (Suc p))" "\<And>p. length (hists p) \<le> N" "N < 2 ^ 32 - 1"
    and "unat (s_cursor s) \<le> length (hists 0)" "\<not> s_pass_stalled s"
  shows "\<exists>out s' q. drain_loop rings nets 0 s = Some (out, s') \<and>
    (s_pass_stalled s' \<or> unat (s_cursor s') = length (hists q))"
  using drain_loop_ends [of rings hists ws tasks N s 0 nets, OF assms] by blast

lemma spec_history_grows: "prefix (fst spec) (fst (fold spec_capture calls spec))"
proof (induction calls arbitrary: spec)
  case (Cons call calls)
  have "prefix (fst spec) (fst (spec_capture call spec))"
    by (cases call; cases spec) (simp add: spec_capture_def Let_def case_prod_beta)
  then show ?case using Cons.IH [of "spec_capture call spec"] prefix_order.trans by fastforce
qed simp

lemma spec_history_prefix:
  assumes "m \<le> n"
  shows "prefix (fst (fold spec_capture (take m calls) spec)) (fst (fold spec_capture (take n calls) spec))"
proof -
  have "take n calls = take m calls @ drop m (take n calls)"
    using assms append_take_drop_id [of m "take n calls"] by (simp add: min_absorb1)
  then show ?thesis using spec_history_grows by (metis fold_append comp_apply)
qed


section \<open>The datagram\<close>

definition printable :: "string \<Rightarrow> bool" where
  "printable s \<longleftrightarrow> list_all (\<lambda>c. 32 \<le> (of_char c :: nat) \<and> of_char c \<noteq> (127 :: nat)) s"

lemma printable_parts:
  "printable []" "printable (c # s) \<longleftrightarrow> printable [c] \<and> printable s" "printable (s @ t) \<longleftrightarrow> printable s \<and> printable t"
  by (simp_all add: printable_def)

lemma printable_decimal: "printable (decimal n)"
  using decimal_digits [of n] by (auto simp: printable_def list_all_iff digit_def)

lemma printable_sanitized: "printable (sanitize_msg s)" "printable (sanitize_appname n tag)"
  by (auto simp: printable_def sanitize_msg_def sanitize_appname_def list_all_iff print_usascii_def)

lemma printable_hostname: "list_all print_usascii s \<Longrightarrow> printable s"
  by (auto simp: printable_def list_all_iff print_usascii_def)

lemma length_u32: "length (decimal (unat (w :: u32))) \<le> 10"
proof -
  have "unat w < 2 ^ LENGTH(32)" by (rule unsigned_less)
  then show ?thesis by (intro length_decimal) simp_all
qed

lemma severity_bound: "severity_from_letter c \<le> 7"
  by (simp add: severity_from_letter_def)

lemma length_sanitized: "length (sanitize_appname n tag) \<le> max 1 (n - 1)" "length (sanitize_msg s) = length s"
  by (auto simp: sanitize_appname_def sanitize_msg_def)

text \<open>Under a configuration that was accepted, no datagram is cut short: each is the whole RFC 5424 frame
  of its line, at most 334 bytes, and has no control character in it whatever the line held.\<close>

theorem datagram_whole:
  assumes v: "syslog_cfg_validate cfg ip netmask = None" "y_enabled cfg"
    and l: "log_buf_get_line q LOG_BUF_TAG_MAX LOG_BUF_MSG_MAX ring = Some l"
  shows "datagram cfg boot seq l =
      syslog_frame (unat (y_facility cfg) * 8 + severity_from_letter (g_level l)) (y_hostname cfg)
        (sanitize_appname LOG_BUF_TAG_MAX (g_tag l)) boot (g_ts_ms l) seq (sanitize_msg (g_msg l)) \<and>
    length (datagram cfg boot seq l) \<le> 334 \<and> printable (datagram cfg boot seq l)"
proof -
  let ?pri = "unat (y_facility cfg) * 8 + severity_from_letter (g_level l)"
  let ?app = "sanitize_appname LOG_BUF_TAG_MAX (g_tag l)" and ?msg = "sanitize_msg (g_msg l)"
  let ?frame = "syslog_frame ?pri (y_hostname cfg) ?app boot (g_ts_ms l) seq ?msg"
  have fac: "\<not> 23 < y_facility cfg" and host: "length (y_hostname cfg) \<le> 32" "list_all print_usascii (y_hostname cfg)"
    using v by (auto simp: syslog_cfg_validate_def list_all_iff list_ex_iff split: if_splits)
  have "unat (y_facility cfg) \<le> 23" using fac by (simp add: word_less_nat_alt)
  then have "?pri < 10 ^ 3" using severity_bound [of "g_level l"] by simp
  then have pri: "length (decimal ?pri) \<le> 3" by (rule length_decimal) simp
  have "length (g_msg l) \<le> 143" using l by (auto simp: log_buf_get_line_def Let_def split: if_splits)
  then have "length ?msg \<le> 143" by (simp add: length_sanitized)
  moreover have "length ?app \<le> 31" using length_sanitized (1) [of LOG_BUF_TAG_MAX "g_tag l"] by simp
  ultimately have len: "length ?frame \<le> 334"
    using pri host(1) length_u32 [of boot] length_u32 [of "g_ts_ms l"] length_u32 [of seq]
    unfolding syslog_frame_def by simp
  then have whole: "datagram cfg boot seq l = ?frame" by (simp add: datagram_def)
  have "printable ?frame"
    unfolding syslog_frame_def printable_parts(3)
    by (intro conjI printable_decimal printable_sanitized printable_hostname [OF host(2)]) (simp_all add: printable_def)
  then show ?thesis using len whole by simp
qed

section \<open>Two surprises\<close>

text \<open>A pass while the state stays unreported counts as a state change, whether or not the state changed.\<close>

lemma suppressed_counts_passes:
  assumes "s_ever_logged s" "state \<noteq> s_logged_state s" "now - s_last_log_tick s < interval"
  shows "s_suppressed (snd (settle_log interval now ring state s)) = s_suppressed s + 1 \<and>
    s_logged_state (snd (settle_log interval now ring state s)) = s_logged_state s"
  using assms by (simp add: settle_log_def)

text \<open>A pass that finds no socket does not open one: that waits for the next saved configuration.\<close>

lemma no_socket_stays_closed:
  assumes "\<not> s_sock s" "te_generation env = s_seen_generation s" "syslog_task_pass env s = Some (out, report, s')"
  shows "out = [] \<and> \<not> s_sock s' \<and> s_cursor s' = s_cursor s"
proof -
  have "s_sock (snd (settle_log i n r st s)) = s_sock s \<and> s_cursor (snd (settle_log i n r st s)) = s_cursor s" for i n r st
    by (simp add: settle_log_def)
  moreover have "settle_log (te_interval env) (te_tick env) (te_ring env) (current_state s) s = (report, s')" "out = []"
    using assms by (simp_all add: syslog_task_pass_def case_prod_beta)
  ultimately show ?thesis using assms(1) by (metis snd_conv)
qed

section \<open>Witnesses\<close>

lemma two_lines: "fold spec_capture [(True, 1, ''ab'' @ [NL]), (True, 1, ''c'' @ [NL])] ([], '''', 0) =
  ([\<lparr>g_ts_ms = 0, g_level = CHR ''?'', g_tag = '''', g_msg = ''ab''\<rparr>,
    \<lparr>g_ts_ms = 0, g_level = CHR ''?'', g_tag = '''', g_msg = ''c''\<rparr>], '''', 1)"
  by (simp add: spec_capture_def completes_def overflow_short fold_newline_def before_last_newline_def
      after_last_newline_def stored_lines_def trim_trailing_def parse_line_def match_prefix_def)

lemma two_lines_refined:
  "log_refines (fold capture_call [(True, 1, ''ab'' @ [NL]), (True, 1, ''c'' @ [NL])] static_log_buf)
     ([\<lparr>g_ts_ms = 0, g_level = CHR ''?'', g_tag = '''', g_msg = ''ab''\<rparr>,
       \<lparr>g_ts_ms = 0, g_level = CHR ''?'', g_tag = '''', g_msg = ''c''\<rparr>], '''', 1)"
  using captures_refine [OF log_refines_static] two_lines by metis

lemma syslog_pass_accounts_witness:
  "let ring = fold capture_call [(True, 1, ''ab'' @ [NL]), (True, 1, ''c'' @ [NL])] static_log_buf;
       s = static_syslog\<lparr>s_cursor := 1\<rparr>;
       (again, out, s') = drain_pass (\<lambda>_. ring) (\<lambda>_. 101) s
   in accounted s' = (s_cursor s' - 1) + (if s_pass_stalled s' then 1 else 0)"
proof -
  let ?ring = "fold capture_call [(True, 1, ''ab'' @ [NL]), (True, 1, ''c'' @ [NL])] static_log_buf"
  let ?s = "static_syslog\<lparr>s_cursor := 1\<rparr>"
  obtain again out s' where p: "drain_pass (\<lambda>_. ?ring) (\<lambda>_. 101) ?s = (again, out, s')" by (metis prod_cases3)
  have "accounted ?s = 0" "\<not> s_pass_stalled ?s" by (simp_all add: accounted_def static_syslog_def)
  then show ?thesis
    using syslog_pass_accounts [where ring = "\<lambda>_. ?ring", OF two_lines_refined _ _ _ _ p]
    unfolding p Let_def by (simp add: aged_def start_at_def)
qed

lemma syslog_drain_terminates_witness:
  "\<exists>out s'. drain_loop (\<lambda>_ _. fold capture_call [(True, 1, ''ab'' @ [NL]), (True, 1, ''c'' @ [NL])] static_log_buf)
     (\<lambda>_ _. 101) 0 static_syslog = Some (out, s')"
proof -
  let ?ring = "fold capture_call [(True, 1, ''ab'' @ [NL]), (True, 1, ''c'' @ [NL])] static_log_buf"
  let ?hist = "[\<lparr>g_ts_ms = 0, g_level = CHR ''?'', g_tag = '''', g_msg = ''ab''\<rparr>,
       \<lparr>g_ts_ms = 0, g_level = CHR ''?'', g_tag = '''', g_msg = ''c''\<rparr>]"
  have "log_refines ((\<lambda>_ _. ?ring) (p :: nat) (0 :: nat)) ((\<lambda>_. ?hist) p, (\<lambda>_. '''') p, (\<lambda>_. 1) p)" for p
    using two_lines_refined by simp
  from syslog_drain_terminates [where rings = "\<lambda>_ _. ?ring" and hists = "\<lambda>_. ?hist" and ws = "\<lambda>_. ''''" and
      tasks = "\<lambda>_. 1" and N = 2 and s = static_syslog and nets = "\<lambda>_ _. 101", OF this]
  show ?thesis by (simp add: static_syslog_def) blast
qed

lemma subseq_all:
  assumes "subseq xs ys" "set ys \<subseteq> set xs" "distinct ys"
  shows "xs = ys"
proof -
  have "length ys \<le> length xs"
    using card_mono [OF finite_set assms(2)] card_length [of xs] distinct_card [OF assms(3)] by linarith
  then have "length xs = length ys" using list_emb_length [OF assms(1)] by simp
  then show ?thesis using assms(1) by (simp add: subseq_same_length)
qed


lemma datagram_whole_witness:
  "let cfg = \<lparr>y_enabled = True, y_server_ip = ip4 192 168 5 9, y_port = 514, y_facility = 23, y_min_severity = 6,
              y_hostname = ''w''\<rparr>;
       ring = fold capture_call [(True, 1, ''ab'' @ [NL]), (True, 1, ''c'' @ [NL])] static_log_buf
   in length (datagram cfg 7 1 (the (log_buf_get_line 1 32 144 ring))) \<le> 334"
proof -
  let ?cfg = "\<lparr>y_enabled = True, y_server_ip = ip4 192 168 5 9, y_port = 514, y_facility = 23, y_min_severity = 6,
              y_hostname = ''w''\<rparr>"
  have v: "syslog_cfg_validate ?cfg (ip4 192 168 5 1) (ip4 255 255 255 0) = None" by code_simp
  have l: "log_buf_get_line 1 LOG_BUF_TAG_MAX LOG_BUF_MSG_MAX
      (fold capture_call [(True, 1, ''ab'' @ [NL]), (True, 1, ''c'' @ [NL])] static_log_buf)
      = Some \<lparr>g_ts_ms = 0, g_level = CHR ''?'', g_tag = '''', g_msg = ''ab''\<rparr>"
    using line_of_log [OF two_lines_refined, of 1] by simp
  have "y_enabled ?cfg" by simp
  from datagram_whole [OF v this l, of 7 1] show ?thesis unfolding Let_def l option.sel by blast
qed

end
