(* ===== verification/Frame.thy ===== *)
theory Frame
  imports Prelude
begin

text \<open>
  What the forwarding wrappers of \<open>main/client_track.c\<close> and the packet filter of \<open>main/wan.c\<close> read a
  frame through: lwIP's packet buffers and the Ethernet header. A packet buffer is the list of its
  segments' bytes, a null pointer is \<open>None\<close>; lwIP's \<open>pbuf_copy_partial\<close> is a parameter of the
  definitions that call it, and \<open>copies\<close> is what it is documented to do.
\<close>

type_synonym pbuf = "u8 list list"

abbreviation ERR_OK :: int where "ERR_OK \<equiv> 0"
abbreviation SIZEOF_ETH_HDR :: nat where "SIZEOF_ETH_HDR \<equiv> 14"
abbreviation IP_HLEN :: nat where "IP_HLEN \<equiv> 20"

definition payload :: "pbuf \<Rightarrow> u8 list" where
  "payload p = (case p of [] \<Rightarrow> [] | s # _ \<Rightarrow> s)"

definition tot_len :: "pbuf \<Rightarrow> nat" where
  "tot_len p = length (concat p)"

text \<open>What became of the frame: handed to the wrapped function, or swallowed with success reported.\<close>

datatype fate = Passed int | Swallowed

section \<open>Reading headers\<close>

definition mac_at :: "u8 list \<Rightarrow> nat \<Rightarrow> mac" where
  "mac_at bs i = mac_of_bytes (drop i bs)"

definition eth_type_ip :: "u8 list \<Rightarrow> bool" where
  "eth_type_ip bs \<longleftrightarrow> be16_at bs 12 = 0x0800"

text \<open>A stack buffer after a copy into its front.\<close>

definition fill :: "u8 list \<Rightarrow> u8 list \<Rightarrow> u8 list" where
  "fill junk bs = bs @ drop (length bs) junk"

text \<open>What \<open>pbuf_copy_partial\<close> is documented to do: the first bytes of the chain, across its segments.\<close>

definition copies :: "(pbuf \<Rightarrow> nat \<Rightarrow> u8 list) \<Rightarrow> bool" where
  "copies copy \<longleftrightarrow> (\<forall>p n. n \<le> tot_len p \<longrightarrow> copy p n = take n (concat p))"

lemma payload_prefix: "\<exists>ys. concat p = payload p @ ys"
  by (cases p) (simp_all add: payload_def)

section \<open>Reading only a prefix\<close>

lemma mac_at_prefix: "i + 6 \<le> length xs \<Longrightarrow> mac_at (xs @ ys) i = mac_at xs i"
  by (simp add: mac_at_def mac_of_bytes_def nth_append less_diff_conv)

lemma be16_at_prefix: "i + 2 \<le> length xs \<Longrightarrow> be16_at (xs @ ys) i = be16_at xs i"
  by (simp add: be16_at_def nth_append)

lemma u32_at_prefix: "i + 4 \<le> length xs \<Longrightarrow> u32_at (xs @ ys) i = u32_at xs i"
  by (simp add: u32_at_def nth_append)

end
