(* ===== verification/WanFilter.thy ===== *)
theory WanFilter
  imports WanPorts Frame
begin

text \<open>
  The packet filter on the WAN port (\<open>main/wan.c\<close>): the window it reads a frame through, the egress and
  ingress rules, the two wrappers with their counters and rate-limited logs, and the double buffer
  the rules are published in. The NAPT port range is lwIP's and a parameter (\<open>napt\<close>).
\<close>

section \<open>The window over a frame\<close>

abbreviation ETHTYPE_ARP :: u16 where "ETHTYPE_ARP \<equiv> 0x0806"
abbreviation ETHTYPE_IP :: u16 where "ETHTYPE_IP \<equiv> 0x0800"
abbreviation IP_PROTO_ICMP :: u8 where "IP_PROTO_ICMP \<equiv> 1"
abbreviation IP_PROTO_TCP :: u8 where "IP_PROTO_TCP \<equiv> 6"
abbreviation IP_PROTO_UDP :: u8 where "IP_PROTO_UDP \<equiv> 17"
abbreviation ICMP_ER :: u8 where "ICMP_ER \<equiv> 0"
abbreviation ICMP_DUR :: u8 where "ICMP_DUR \<equiv> 3"
abbreviation ICMP_ECHO :: u8 where "ICMP_ECHO \<equiv> 8"
abbreviation ICMP_TE :: u8 where "ICMP_TE \<equiv> 11"
abbreviation WAN_HDR_WINDOW :: nat where "WAN_HDR_WINDOW \<equiv> SIZEOF_ETH_HDR + IP_HLEN + 4"

record wan_frame =
  wf_eth :: "u8 list"
  wf_ip :: "u8 list option"
  wf_ip_avail :: nat

definition eth_type :: "u8 list \<Rightarrow> u16" where
  "eth_type eth = be16_at eth 12"

definition iph_hl :: "u8 list \<Rightarrow> u8" where
  "iph_hl ip = ip ! 0 AND 0x0F"

definition iph_proto :: "u8 list \<Rightarrow> u8" where
  "iph_proto ip = ip ! 9"

definition ip_window :: "u8 list \<Rightarrow> nat \<Rightarrow> wan_frame" where
  "ip_window eth have_len =
     (if eth_type eth = ETHTYPE_IP
      then \<lparr>wf_eth = eth, wf_ip = Some (drop SIZEOF_ETH_HDR eth), wf_ip_avail = have_len - SIZEOF_ETH_HDR\<rparr>
      else \<lparr>wf_eth = eth, wf_ip = None, wf_ip_avail = 0\<rparr>)"

definition frame_window :: "(pbuf \<Rightarrow> nat \<Rightarrow> u8 list) \<Rightarrow> u8 list \<Rightarrow> pbuf option \<Rightarrow> wan_frame option" where
  "frame_window copy scratch p =
     (let eth_ip_len = SIZEOF_ETH_HDR + IP_HLEN in
      case p of
        None \<Rightarrow> None
      | Some p \<Rightarrow>
          if length (payload p) \<ge> eth_ip_len then Some (ip_window (payload p) (length (payload p)))
          else if tot_len p \<ge> eth_ip_len then
            let have_len = (if tot_len p < WAN_HDR_WINDOW then tot_len p else WAN_HDR_WINDOW);
                got = copy p have_len
            in if length got \<noteq> have_len then None else Some (ip_window (fill scratch got) have_len)
          else if length (payload p) \<ge> SIZEOF_ETH_HDR then
            Some \<lparr>wf_eth = payload p, wf_ip = None, wf_ip_avail = 0\<rparr>
          else if tot_len p \<ge> SIZEOF_ETH_HDR then
            let got = copy p SIZEOF_ETH_HDR
            in if length got \<noteq> SIZEOF_ETH_HDR then None
               else Some \<lparr>wf_eth = fill scratch got, wf_ip = None, wf_ip_avail = 0\<rparr>
          else None)"

definition l4_ports :: "wan_frame \<Rightarrow> (u16 \<times> u16) option" where
  "l4_ports f =
     (case wf_ip f of
        None \<Rightarrow> None
      | Some ip \<Rightarrow>
          if iph_hl ip \<noteq> 5 \<or> wf_ip_avail f < IP_HLEN + 4 then None
          else Some (be16_at ip IP_HLEN, be16_at ip (IP_HLEN + 2)))"

definition icmp_type :: "wan_frame \<Rightarrow> u8" where
  "icmp_type f =
     (case wf_ip f of
        None \<Rightarrow> 0xFF
      | Some ip \<Rightarrow> if iph_hl ip \<noteq> 5 \<or> wf_ip_avail f < IP_HLEN + 1 then 0xFF else ip ! IP_HLEN)"

section \<open>The rules\<close>

record wan_rules =
  wr_ports :: "wan_port_rule list"
  wr_dns_ip :: u32
  wr_up :: bool

definition ip_src :: "u8 list \<Rightarrow> u32" where
  "ip_src ip = u32_at ip 12"

definition ip_dest :: "u8 list \<Rightarrow> u32" where
  "ip_dest ip = u32_at ip 16"

definition egress_allowed :: "wan_rules \<Rightarrow> wan_frame \<Rightarrow> bool" where
  "egress_allowed r f =
     (if eth_type (wf_eth f) = ETHTYPE_ARP then True
      else case wf_ip f of
        None \<Rightarrow> False
      | Some ip \<Rightarrow>
          if eth_type (wf_eth f) \<noteq> ETHTYPE_IP then False
          else if iph_hl ip \<noteq> 5 then False
          else if iph_proto ip = IP_PROTO_UDP \<and> l4_ports f = Some (68, 67) then True
          else if \<not> wr_up r then False
          else if iph_proto ip = IP_PROTO_ICMP then icmp_type f = ICMP_ECHO
          else if iph_proto ip = IP_PROTO_UDP \<or> iph_proto ip = IP_PROTO_TCP then
            (case l4_ports f of
               None \<Rightarrow> False
             | Some (sport, dport) \<Rightarrow>
                 if dport = 53 \<and> wr_dns_ip r \<noteq> 0 \<and> ip_dest ip = wr_dns_ip r then True
                 else if iph_proto ip = IP_PROTO_UDP \<and> dport = 123 then True
                 else
                   let want = (if iph_proto ip = IP_PROTO_UDP then WAN_PROTO_UDP else WAN_PROTO_TCP)
                   in list_ex (\<lambda>x. r_port x = dport \<and> r_proto x = want) (wr_ports r))
          else False)"

definition ingress_allowed :: "u16 \<times> u16 \<Rightarrow> wan_rules \<Rightarrow> wan_frame \<Rightarrow> bool" where
  "ingress_allowed napt r f =
     (if eth_type (wf_eth f) = ETHTYPE_ARP then True
      else case wf_ip f of
        None \<Rightarrow> False
      | Some ip \<Rightarrow>
          if eth_type (wf_eth f) \<noteq> ETHTYPE_IP then False
          else if iph_hl ip \<noteq> 5 then False
          else if iph_proto ip = IP_PROTO_ICMP then
            let t = icmp_type f in t = ICMP_ER \<or> t = ICMP_DUR \<or> t = ICMP_TE
          else if iph_proto ip = IP_PROTO_UDP \<or> iph_proto ip = IP_PROTO_TCP then
            (case l4_ports f of
               None \<Rightarrow> False
             | Some (sport, dport) \<Rightarrow>
                 if dport = 68 then True
                 else if iph_proto ip = IP_PROTO_UDP \<and> sport = 53 \<and> wr_dns_ip r \<noteq> 0 \<and> ip_src ip = wr_dns_ip r then True
                 else if iph_proto ip = IP_PROTO_UDP \<and> sport = 123 then True
                 else fst napt \<le> dport \<and> dport \<le> snd napt)
          else False)"

section \<open>Publishing the rules\<close>

record wan_snapshot =
  s_rules0 :: wan_rules
  s_rules1 :: wan_rules
  s_active :: bool

definition zero_rules :: wan_rules where
  "zero_rules = \<lparr>wr_ports = [], wr_dns_ip = 0, wr_up = False\<rparr>"

definition static_snapshot :: wan_snapshot where
  "static_snapshot = \<lparr>s_rules0 = zero_rules, s_rules1 = zero_rules, s_active = False\<rparr>"

text \<open>\<open>s_active\<close> says which buffer the pointer names: \<open>rules_at s b\<close> is what a reader that holds \<open>b\<close> sees.\<close>

definition rules_at :: "wan_snapshot \<Rightarrow> bool \<Rightarrow> wan_rules" where
  "rules_at s b = (if b then s_rules1 s else s_rules0 s)"

abbreviation active_rules :: "wan_snapshot \<Rightarrow> wan_rules" where
  "active_rules s \<equiv> rules_at s (s_active s)"

definition publish_rules :: "bool \<Rightarrow> u32 \<Rightarrow> wan_cfg \<Rightarrow> wan_snapshot \<Rightarrow> wan_snapshot" where
  "publish_rules up dns_ip cfg s =
     (let next = \<lparr>wr_ports = take WAN_CFG_MAX_PORTS (w_ports cfg), wr_dns_ip = dns_ip, wr_up = up\<rparr> in
      if s_active s then s\<lparr>s_rules0 := next, s_active := False\<rparr>
      else s\<lparr>s_rules1 := next, s_active := True\<rparr>)"

section \<open>The drop logs\<close>

text \<open>
  What both loggers keep in their static variables; the result is what is logged, if anything: how
  many drops before this one the line accounts for.
\<close>

record drop_log =
  g_last_us :: int
  g_unreported :: u32

abbreviation REFUSED_LOG_GAP_MS :: int where "REFUSED_LOG_GAP_MS \<equiv> 60000"
abbreviation DROPPED_IN_LOG_GAP_MS :: int where "DROPPED_IN_LOG_GAP_MS \<equiv> 10000"

definition log_drop :: "int \<Rightarrow> int \<Rightarrow> drop_log \<Rightarrow> u32 option \<times> drop_log" where
  "log_drop gap_ms now g =
     (let g = g\<lparr>g_unreported := g_unreported g + 1\<rparr> in
      if g_last_us g \<noteq> 0 \<and> now - g_last_us g < gap_ms * 1000 then (None, g)
      else (Some (g_unreported g - 1), g\<lparr>g_last_us := now, g_unreported := 0\<rparr>))"

definition log_refused :: "int \<Rightarrow> drop_log \<Rightarrow> u32 option \<times> drop_log" where
  "log_refused now g = log_drop REFUSED_LOG_GAP_MS now g"

definition log_dropped_in :: "int \<Rightarrow> u32 option \<Rightarrow> wan_frame \<Rightarrow> drop_log \<Rightarrow> u32 option \<times> drop_log" where
  "log_dropped_in now own_ip f g =
     (case wf_ip f of
        None \<Rightarrow> (None, g)
      | Some ip \<Rightarrow>
          if eth_type (wf_eth f) \<noteq> ETHTYPE_IP then (None, g)
          else (case own_ip of
                  None \<Rightarrow> (None, g)
                | Some own \<Rightarrow> if ip_dest ip \<noteq> own then (None, g) else log_drop DROPPED_IN_LOG_GAP_MS now g))"

section \<open>The wrappers\<close>

record wan_counters =
  tx_allowed :: u32
  tx_blocked :: u32
  rx_allowed :: u32
  rx_blocked :: u32
  refused_log :: drop_log
  dropped_in_log :: drop_log

definition sta_input_wrapper ::
  "int \<Rightarrow> u32 option \<Rightarrow> u16 \<times> u16 \<Rightarrow> (pbuf \<Rightarrow> nat \<Rightarrow> u8 list) \<Rightarrow> u8 list \<Rightarrow> (pbuf option \<Rightarrow> int) \<Rightarrow> wan_rules \<Rightarrow>
   pbuf option \<Rightarrow> wan_counters \<Rightarrow> fate \<times> wan_counters"
where
  "sta_input_wrapper now own_ip napt copy scratch orig r p s =
     (case frame_window copy scratch p of
        Some f \<Rightarrow>
          if \<not> ingress_allowed napt r f
          then (Swallowed, s\<lparr>rx_blocked := rx_blocked s + 1,
                  dropped_in_log := snd (log_dropped_in now own_ip f (dropped_in_log s))\<rparr>)
          else (Passed (orig p), s\<lparr>rx_allowed := rx_allowed s + 1\<rparr>)
      | None \<Rightarrow> (Passed (orig p), s\<lparr>rx_allowed := rx_allowed s + 1\<rparr>))"

definition sta_output_wrapper ::
  "int \<Rightarrow> (pbuf \<Rightarrow> nat \<Rightarrow> u8 list) \<Rightarrow> u8 list \<Rightarrow> (pbuf option \<Rightarrow> int) \<Rightarrow> wan_rules \<Rightarrow>
   pbuf option \<Rightarrow> wan_counters \<Rightarrow> fate \<times> wan_counters"
where
  "sta_output_wrapper now copy scratch orig r p s =
     (case frame_window copy scratch p of
        Some f \<Rightarrow>
          if \<not> egress_allowed r f
          then (Swallowed, s\<lparr>tx_blocked := tx_blocked s + 1, refused_log := snd (log_refused now (refused_log s))\<rparr>)
          else (Passed (orig p), s\<lparr>tx_allowed := tx_allowed s + 1\<rparr>)
      | None \<Rightarrow> (Passed (orig p), s\<lparr>tx_allowed := tx_allowed s + 1\<rparr>))"

section \<open>The policy, on what a frame is\<close>

text \<open>
  What a frame is to the policy: \<open>L4 proto src sport dst dport\<close> for TCP and UDP over plain IPv4.
\<close>

datatype flow = ARP | ICMP u8 | L4 u8 u32 u16 u32 u16 | NoFlow

definition flow_of :: "u8 list \<Rightarrow> flow" where
  "flow_of bs =
     (if be16_at bs 12 = ETHTYPE_ARP then ARP
      else if be16_at bs 12 \<noteq> ETHTYPE_IP \<or> length bs < 34 \<or> bs ! 14 AND 0x0F \<noteq> 5 then NoFlow
      else if bs ! 23 = IP_PROTO_ICMP then (if length bs < 35 then NoFlow else ICMP (bs ! 34))
      else if bs ! 23 = IP_PROTO_TCP \<or> bs ! 23 = IP_PROTO_UDP then
        (if length bs < 38 then NoFlow
         else L4 (bs ! 23) (u32_at bs 26) (be16_at bs 34) (u32_at bs 30) (be16_at bs 36))
      else NoFlow)"

text \<open>What may leave, and what may come in.\<close>

fun may_leave :: "wan_rules \<Rightarrow> flow \<Rightarrow> bool" where
  "may_leave r ARP = True"
| "may_leave r (ICMP t) = (wr_up r \<and> t = ICMP_ECHO)"
| "may_leave r (L4 proto src sport dst dport) =
     ((proto = IP_PROTO_UDP \<and> sport = 68 \<and> dport = 67) \<or>
      (wr_up r \<and>
       ((dport = 53 \<and> wr_dns_ip r \<noteq> 0 \<and> dst = wr_dns_ip r) \<or>
        (proto = IP_PROTO_UDP \<and> dport = 123) \<or>
        \<lparr>r_port = dport, r_proto = (if proto = IP_PROTO_UDP then WAN_PROTO_UDP else WAN_PROTO_TCP)\<rparr>
          \<in> set (wr_ports r))))"
| "may_leave r NoFlow = False"

fun may_enter :: "u16 \<times> u16 \<Rightarrow> wan_rules \<Rightarrow> flow \<Rightarrow> bool" where
  "may_enter napt r ARP = True"
| "may_enter napt r (ICMP t) = (t \<in> {ICMP_ER, ICMP_DUR, ICMP_TE})"
| "may_enter napt r (L4 proto src sport dst dport) =
     (dport = 68 \<or>
      (proto = IP_PROTO_UDP \<and> sport = 53 \<and> wr_dns_ip r \<noteq> 0 \<and> src = wr_dns_ip r) \<or>
      (proto = IP_PROTO_UDP \<and> sport = 123) \<or>
      (fst napt \<le> dport \<and> dport \<le> snd napt))"
| "may_enter napt r NoFlow = False"

text \<open>The same reading, through a window.\<close>

definition window_flow :: "wan_frame \<Rightarrow> flow" where
  "window_flow f =
     (if eth_type (wf_eth f) = ETHTYPE_ARP then ARP
      else case wf_ip f of
        None \<Rightarrow> NoFlow
      | Some ip \<Rightarrow>
          if eth_type (wf_eth f) \<noteq> ETHTYPE_IP \<or> iph_hl ip \<noteq> 5 then NoFlow
          else if iph_proto ip = IP_PROTO_ICMP then (if wf_ip_avail f < 21 then NoFlow else ICMP (ip ! 20))
          else if iph_proto ip = IP_PROTO_TCP \<or> iph_proto ip = IP_PROTO_UDP then
            (if wf_ip_avail f < 24 then NoFlow
             else L4 (iph_proto ip) (ip_src ip) (be16_at ip 20) (ip_dest ip) (be16_at ip 22))
          else NoFlow)"

lemma rule_listed:
  "list_ex (\<lambda>x. r_port x = p \<and> r_proto x = q) rs \<longleftrightarrow> \<lparr>r_port = p, r_proto = q\<rparr> \<in> set rs"
proof -
  have "x = \<lparr>r_port = p, r_proto = q\<rparr>" if "r_port x = p" "r_proto x = q" for x :: wan_port_rule
    using that by (simp add: rule_eq_iff [of x])
  then show ?thesis unfolding list_ex_iff by (metis wan_port_rule.select_convs)
qed

lemma egress_policy: "egress_allowed r f \<longleftrightarrow> may_leave r (window_flow f)"
proof (cases "wf_ip f")
  case (Some ip)
  then show ?thesis
    by (auto simp: egress_allowed_def window_flow_def l4_ports_def icmp_type_def rule_listed Let_def)
qed (simp add: egress_allowed_def window_flow_def)

lemma ingress_policy: "ingress_allowed napt r f \<longleftrightarrow> may_enter napt r (window_flow f)"
proof (cases "wf_ip f")
  case (Some ip)
  then show ?thesis
    by (auto simp: ingress_allowed_def window_flow_def l4_ports_def icmp_type_def Let_def)
qed (simp add: ingress_allowed_def window_flow_def)

text \<open>What the window shows is the frame's flow, or nothing the policy lets through.\<close>

lemma ip_window_flow:
  assumes e: "be16_at eth 12 = be16_at bs 12" and l: "34 \<le> length bs" "34 \<le> n"
    and agree: "\<And>i. i < min n 38 \<Longrightarrow> eth ! i = bs ! i" and n: "n \<le> length bs" "min n 38 \<le> length eth"
  shows "window_flow (ip_window eth n) = flow_of bs \<or> (n < 38 \<and> n < length bs \<and> window_flow (ip_window eth n) = NoFlow)"
proof -
  have "14 \<le> length eth" using n(2) l by simp
  then have d: "drop 14 eth ! i = bs ! (14 + i)" if "14 + i < min n 38" for i
    using agree [of "14 + i"] that by simp
  define ip where "ip = drop 14 eth"
  note d = d [folded ip_def]
  have at: "ip ! 0 = bs ! 14" "ip ! 9 = bs ! 23" "ip_src ip = u32_at bs 26" "ip_dest ip = u32_at bs 30"
    "35 \<le> n \<Longrightarrow> ip ! 20 = bs ! 34" "38 \<le> n \<Longrightarrow> be16_at ip 20 = be16_at bs 34"
    "38 \<le> n \<Longrightarrow> be16_at ip 22 = be16_at bs 36"
    using d [of 0] d [of 9] d [of 12] d [of 13] d [of 14] d [of 15] d [of 16] d [of 17] d [of 18] d [of 19]
      d [of 20] d [of 21] d [of 22] d [of 23] l
    by (simp_all add: ip_src_def ip_dest_def u32_at_def be16_at_def)
  show ?thesis
    using e l n(1) unfolding window_flow_def ip_window_def flow_of_def eth_type_def iph_hl_def iph_proto_def ip_def [symmetric]
    by (auto simp: at)
qed

lemma short_window_flow:
  assumes "be16_at eth 12 = be16_at bs 12" "length bs < 34"
  shows "window_flow \<lparr>wf_eth = eth, wf_ip = None, wf_ip_avail = 0\<rparr> = flow_of bs"
  using assms by (simp add: window_flow_def flow_of_def eth_type_def)

text \<open>Frames whose first segment ends inside the ports are refused rather than misread.\<close>

definition cut_in_ports :: "pbuf \<Rightarrow> bool" where
  "cut_in_ports pb \<longleftrightarrow> 34 \<le> length (payload pb) \<and> length (payload pb) < 38 \<and> length (payload pb) < tot_len pb"

lemma frame_window_flow:
  assumes c: "copies copy" and l: "14 \<le> tot_len pb"
  shows "\<exists>f. frame_window copy scratch (Some pb) = Some f \<and>
    (window_flow f = flow_of (concat pb) \<or> (cut_in_ports pb \<and> window_flow f = NoFlow))"
proof -
  let ?bs = "concat pb"
  obtain ys where ys: "?bs = payload pb @ ys" using payload_prefix by blast
  have len: "tot_len pb = length ?bs" by (simp add: tot_len_def)
  have copied: "copy pb n = take n ?bs" if "n \<le> tot_len pb" for n using c that by (simp add: copies_def)
  have e: "be16_at (take n ?bs @ zs) 12 = be16_at ?bs 12" if "14 \<le> n" "n \<le> length ?bs" for n zs
    using be16_at_prefix [of 12 "take n ?bs" zs] be16_at_prefix [of 12 "take n ?bs" "drop n ?bs"] that by simp
  consider (whole) "34 \<le> length (payload pb)"
    | (split) "length (payload pb) < 34" "34 \<le> tot_len pb"
    | (short) "tot_len pb < 34" "14 \<le> length (payload pb)"
    | (short_split) "tot_len pb < 34" "length (payload pb) < 14"
    using l by linarith
  then show ?thesis
  proof cases
    case whole
    have "be16_at (payload pb) 12 = be16_at ?bs 12" unfolding ys using whole by (simp add: be16_at_prefix)
    from ip_window_flow [OF this _ whole]
    have "window_flow (ip_window (payload pb) (length (payload pb))) = flow_of ?bs \<or>
        (length (payload pb) < 38 \<and> length (payload pb) < length ?bs \<and>
         window_flow (ip_window (payload pb) (length (payload pb))) = NoFlow)"
      using whole by (simp add: ys nth_append)
    then show ?thesis using whole by (auto simp: frame_window_def cut_in_ports_def len)
  next
    case split
    define n where "n = (if tot_len pb < WAN_HDR_WINDOW then tot_len pb else WAN_HDR_WINDOW)"
    have n: "n \<le> tot_len pb" "34 \<le> n" "n \<le> 38" "n < 38 \<Longrightarrow> n = length ?bs"
      using split(2) by (simp_all add: n_def len split: if_splits)
    let ?eth = "fill scratch (take n ?bs)"
    have f: "frame_window copy scratch (Some pb) = Some (ip_window ?eth n)"
      using split n(1) unfolding frame_window_def Let_def option.case n_def [symmetric] copied [OF n(1)]
      by (simp add: len)
    have "n \<le> length ?bs" using n(1) by (simp add: len)
    moreover from this n(2) have "be16_at ?eth 12 = be16_at ?bs 12" by (simp add: fill_def e)
    moreover have "?eth ! i = ?bs ! i" if "i < min n 38" for i
      using that \<open>n \<le> length ?bs\<close> by (simp add: fill_def nth_append)
    moreover have "min n 38 \<le> length ?eth" using \<open>n \<le> length ?bs\<close> by (simp add: fill_def)
    ultimately have "window_flow (ip_window ?eth n) = flow_of ?bs \<or>
        (n < 38 \<and> n < length ?bs \<and> window_flow (ip_window ?eth n) = NoFlow)"
      using ip_window_flow [of ?eth ?bs n] n(2) by simp
    then show ?thesis unfolding f using n(4) by auto
  next
    case short
    have "be16_at (payload pb) 12 = be16_at ?bs 12" unfolding ys using short(2) by (simp add: be16_at_prefix)
    from short_window_flow [OF this] short show ?thesis
      by (auto simp: frame_window_def len ys)
  next
    case short_split
    have f: "frame_window copy scratch (Some pb) =
        Some \<lparr>wf_eth = fill scratch (take 14 ?bs), wf_ip = None, wf_ip_avail = 0\<rparr>"
      using short_split l copied [OF l] by (simp add: frame_window_def len Let_def)
    have "be16_at (fill scratch (take 14 ?bs)) 12 = be16_at ?bs 12" using l by (simp add: fill_def e len)
    from short_window_flow [OF this] short_split show ?thesis unfolding f by (simp add: len)
  qed
qed

text \<open>The bytes the decision is taken on: the frame, but of one cut inside the ports only the first segment.\<close>

definition seen_bytes :: "pbuf \<Rightarrow> u8 list" where
  "seen_bytes pb = (if cut_in_ports pb then payload pb else concat pb)"

lemma cut_flow: "cut_in_ports pb \<Longrightarrow> flow_of (seen_bytes pb) \<noteq> L4 proto src sport dst dport"
  by (auto simp: seen_bytes_def cut_in_ports_def flow_of_def)

lemma frame_window_seen:
  assumes "copies copy" "14 \<le> tot_len pb"
  shows "\<exists>f. frame_window copy scratch (Some pb) = Some f \<and> window_flow f = flow_of (seen_bytes pb)"
proof (cases "cut_in_ports pb")
  case True
  then have l: "34 \<le> length (payload pb)" by (simp add: cut_in_ports_def)
  from ip_window_flow [OF refl l l] have "window_flow (ip_window (payload pb) (length (payload pb))) = flow_of (payload pb)"
    by simp
  then show ?thesis using True l by (simp add: frame_window_def seen_bytes_def)
next
  case False
  then show ?thesis using frame_window_flow [OF assms, of scratch] by (simp add: seen_bytes_def)
qed

section \<open>What gets through\<close>


text \<open>A TCP segment from the internet to the web server: 198.51.100.7:40000 to port 80.\<close>

definition web_probe :: "u8 list" where
  "web_probe =
     [2, 0, 0, 0, 0, 1, 2, 0, 0, 0, 0, 9, 8, 0, 0x45, 0, 0, 40, 0, 0, 0, 0, 64, 6, 0, 0, 198, 51, 100, 7,
      10, 0, 0, 5, 0x9C, 0x40, 0, 80, 0, 0]"

definition open_rules :: wan_rules where
  "open_rules = \<lparr>wr_ports = k_default_ports, wr_dns_ip = ip4 10 0 0 1, wr_up = True\<rparr>"

definition no_counters :: wan_counters where
  "no_counters =
     \<lparr>tx_allowed = 0, tx_blocked = 0, rx_allowed = 0, rx_blocked = 0,
      refused_log = \<lparr>g_last_us = 0, g_unreported = 0\<rparr>, dropped_in_log = \<lparr>g_last_us = 0, g_unreported = 0\<rparr>\<rparr>"

lemma web_probe_flow: "flow_of web_probe = L4 IP_PROTO_TCP (ip4 198 51 100 7) 40000 (ip4 10 0 0 5) 80"
  by code_simp


text \<open>The device's own TCP services cannot be reached from the upstream network: a segment addressed to
  any port below the NAT return window other than 68 (the web server's 80, say) is swallowed and
  counted, whatever the rules are, wherever it comes from; and while the rules say the WAN is down,
  nothing leaves but ARP and DHCP requests.\<close>

theorem wan_closed:
  assumes "copies copy" "14 \<le> tot_len pb"
    and "flow_of (concat pb) = L4 IP_PROTO_TCP src sport dst dport" "dport < fst napt" "dport \<noteq> 68"
    and "\<not> wr_up down" "14 \<le> tot_len qb" "fst (sta_output_wrapper now copy scratch orig down (Some qb) s) \<noteq> Swallowed"
  shows "(let (fate, s') = sta_input_wrapper now own_ip napt copy scratch orig r (Some pb) s in
      fate = Swallowed \<and> rx_blocked s' = rx_blocked s + 1 \<and> rx_allowed s' = rx_allowed s) \<and>
    (flow_of (concat qb) = ARP \<or> (\<exists>src dst. flow_of (concat qb) = L4 IP_PROTO_UDP src 68 dst 67))"
proof
  have "\<not> may_enter napt r (flow_of (concat pb))" using assms(3-5) by (simp add: not_le)
  moreover obtain f where f: "frame_window copy scratch (Some pb) = Some f"
    "window_flow f = flow_of (concat pb) \<or> (cut_in_ports pb \<and> window_flow f = NoFlow)"
    using frame_window_flow [OF assms(1,2)] by blast
  ultimately have "\<not> ingress_allowed napt r f" by (auto simp: ingress_policy)
  then show "let (fate, s') = sta_input_wrapper now own_ip napt copy scratch orig r (Some pb) s in
      fate = Swallowed \<and> rx_blocked s' = rx_blocked s + 1 \<and> rx_allowed s' = rx_allowed s"
    by (simp add: sta_input_wrapper_def f(1))
next
  obtain f where f: "frame_window copy scratch (Some qb) = Some f"
    "window_flow f = flow_of (concat qb) \<or> (cut_in_ports qb \<and> window_flow f = NoFlow)"
    using frame_window_flow [OF assms(1,7)] by blast
  have "egress_allowed down f" using assms(8) f(1) by (auto simp: sta_output_wrapper_def split: if_splits)
  then have "may_leave down (flow_of (concat qb))" using f(2) by (auto simp: egress_policy)
  then show "flow_of (concat qb) = ARP \<or> (\<exists>src dst. flow_of (concat qb) = L4 IP_PROTO_UDP src 68 dst 67)"
    using assms(6) by (cases "flow_of (concat qb)") simp_all
qed

definition arp_frame :: "u8 list" where
  "arp_frame = [255, 255, 255, 255, 255, 255, 2, 0, 0, 0, 0, 9, 8, 6, 0, 1, 8, 0, 6, 4, 0, 1]"

lemma wan_closed_witness:
  "let copy = (\<lambda>p n. take n (concat p));
       (fate, s') = sta_input_wrapper 5 None (49152, 61439) copy [] (\<lambda>_. 0) open_rules (Some [web_probe]) no_counters
   in fate = Swallowed \<and> rx_blocked s' = 1 \<and> flow_of (concat [arp_frame]) = ARP"
proof -
  let ?copy = "\<lambda>p n. take n (concat p) :: u8 list"
  have c: "copies ?copy" by (simp add: copies_def)
  have l: "14 \<le> tot_len [web_probe]" "14 \<le> tot_len [arp_frame]"
    by (simp_all add: tot_len_def web_probe_def arp_frame_def)
  have f: "flow_of (concat [web_probe]) = L4 IP_PROTO_TCP (ip4 198 51 100 7) 40000 (ip4 10 0 0 5) 80"
    using web_probe_flow by simp
  have out: "fst (sta_output_wrapper 5 ?copy [] (\<lambda>_. 0) zero_rules (Some [arp_frame]) no_counters) \<noteq> Swallowed"
    by code_simp
  have a: "flow_of (concat [arp_frame]) = ARP" by code_simp
  show ?thesis
    using wan_closed [OF c l(1) f _ _ _ l(2) out, of "(49152, 61439)" None open_rules] a
    by (simp add: zero_rules_def no_counters_def split_beta Let_def)
qed

section \<open>Facts about publishing and logging\<close>

text \<open>
  A reader takes the pointer once: the first publication after that leaves what it reads alone, the
  second one overwrites it.
\<close>

lemma reader_keeps_snapshot:
  "rules_at (publish_rules up dns cfg s) (s_active s) = active_rules s"
  by (simp add: publish_rules_def rules_at_def Let_def)

lemma second_publication_overwrites:
  "rules_at (publish_rules up2 dns2 cfg2 (publish_rules up1 dns1 cfg1 s)) (s_active s) =
     \<lparr>wr_ports = take WAN_CFG_MAX_PORTS (w_ports cfg2), wr_dns_ip = dns2, wr_up = up2\<rparr>"
  by (simp add: publish_rules_def rules_at_def Let_def)

lemma active_publish [simp]:
  "active_rules (publish_rules up dns cfg s) =
     \<lparr>wr_ports = take WAN_CFG_MAX_PORTS (w_ports cfg), wr_dns_ip = dns, wr_up = up\<rparr>"
  by (simp add: publish_rules_def rules_at_def Let_def)

fun log_drops :: "int \<Rightarrow> int list \<Rightarrow> drop_log \<Rightarrow> u32 list \<times> drop_log" where
  "log_drops gap [] g = ([], g)"
| "log_drops gap (now # nows) g =
     (let (line, g) = log_drop gap now g; (rest, g) = log_drops gap nows g
      in (case line of None \<Rightarrow> rest | Some n \<Rightarrow> n # rest, g))"

text \<open>Every drop is in a printed line's own count or still to be reported.\<close>

lemma drops_all_reported:
  "log_drops gap nows g = (ls, g') \<Longrightarrow>
     sum_list (map (\<lambda>n. n + 1) ls) + g_unreported g' = g_unreported g + of_nat (length nows)"
proof (induction nows arbitrary: g ls g')
  case (Cons now nows)
  obtain line g1 where l: "log_drop gap now g = (line, g1)" by fastforce
  obtain rest g2 where r: "log_drops gap nows g1 = (rest, g2)" by fastforce
  note ih = Cons.IH [OF r]
  show ?case
    using Cons.prems l r ih by (auto simp: log_drop_def Let_def algebra_simps split: if_splits)
qed simp

text \<open>UDP from anybody's port 123 comes in to any port, the DHCP server's among them.\<close>

lemma ntp_source_admitted: "may_enter napt r (L4 IP_PROTO_UDP src 123 dst dport)"
  by simp

end
