(* ===== verification/WanLink.thy ===== *)
theory WanLink
  imports WanFilter
begin

text \<open>
  The life of the WAN link (\<open>main/wan.c\<close>): the event handlers that connect, retry, publish the filter's
  rules and report the state. Handlers run one at a time on the event task. What a handler asks of
  the WiFi driver and of \<open>clock_time.c\<close> is its list of effects; the answers of ESP-IDF calls (the
  resolver, the access point record, the channel, whether NAPT could be enabled) are arguments. The web
  server's worker and the console, which publish the rules too, run beside them.
\<close>

section \<open>State\<close>

datatype wan_state =
  WAN_STATE_DISABLED | WAN_STATE_CONNECTING | WAN_STATE_UP | WAN_STATE_DOWN | WAN_STATE_NO_AP
| WAN_STATE_AUTH_FAILED | WAN_STATE_SUBNET_CONFLICT

datatype wan_effect = EspWifiConnect | EspWifiDisconnect | ClockTimeWanUp | ClockTimeWanDown

definition LAN_IP :: u32 where "LAN_IP = ip4 192 168 5 1"
definition LAN_MASK :: u32 where "LAN_MASK = ip4 255 255 255 0"

abbreviation BACKOFF_MIN_S :: u32 where "BACKOFF_MIN_S \<equiv> 1"
abbreviation BACKOFF_MAX_S :: u32 where "BACKOFF_MAX_S \<equiv> 60"
abbreviation BACKOFF_REJECTED_S :: u32 where "BACKOFF_REJECTED_S \<equiv> 300"
abbreviation AUTH_FAILS_BEFORE_SLOW :: u8 where "AUTH_FAILS_BEFORE_SLOW \<equiv> 3"
abbreviation WIFI_REASON_4WAY_HANDSHAKE_TIMEOUT :: u8 where "WIFI_REASON_4WAY_HANDSHAKE_TIMEOUT \<equiv> 15"
abbreviation WIFI_REASON_NO_AP_FOUND :: u8 where "WIFI_REASON_NO_AP_FOUND \<equiv> 201"
abbreviation WIFI_REASON_AUTH_FAIL :: u8 where "WIFI_REASON_AUTH_FAIL \<equiv> 202"
abbreviation WIFI_REASON_HANDSHAKE_TIMEOUT :: u8 where "WIFI_REASON_HANDSHAKE_TIMEOUT \<equiv> 204"

text \<open>
  \<open>s_status\<close> without the filter's counters, the module's own variables, the published rules, the
  retry timer (\<open>wl_timer\<close>: what it was last started with, until it fires) and whether the port's
  hooks are installed.
\<close>

record wan_link =
  wl_state :: wan_state
  wl_ip :: u32
  wl_netmask :: u32
  wl_gw :: u32
  wl_dns :: u32
  wl_ap_channel :: u8
  wl_ap_channel_configured :: u8
  wl_rssi :: u8
  wl_connects :: u32
  wl_disconnects :: u32
  wl_last_reason :: u16
  wl_retry_in_s :: u32
  wl_napt_on :: bool
  s_backoff_s :: u32
  s_auth_fails :: u8
  wl_rules :: wan_snapshot
  wl_has_timer :: bool
  wl_timer :: "u32 option"
  wl_hooked :: bool

definition static_wan :: wan_link where
  "static_wan =
     \<lparr>wl_state = WAN_STATE_DISABLED, wl_ip = 0, wl_netmask = 0, wl_gw = 0, wl_dns = 0, wl_ap_channel = 0,
      wl_ap_channel_configured = 0, wl_rssi = 0, wl_connects = 0, wl_disconnects = 0, wl_last_reason = 0,
      wl_retry_in_s = 0, wl_napt_on = False, s_backoff_s = BACKOFF_MIN_S, s_auth_fails = 0,
      wl_rules = static_snapshot, wl_has_timer = False, wl_timer = None, wl_hooked = False\<rparr>"

definition publish :: "bool \<Rightarrow> u32 \<Rightarrow> wan_cfg \<Rightarrow> wan_link \<Rightarrow> wan_link" where
  "publish up dns_ip cfg s = s\<lparr>wl_rules := publish_rules up dns_ip cfg (wl_rules s)\<rparr>"

section \<open>Handlers\<close>

definition on_sta_port_started :: "bool \<Rightarrow> wan_link \<Rightarrow> wan_effect list \<times> wan_link" where
  "on_sta_port_started netif_ready s =
     (if wl_hooked s then ([], s)
      else if \<not> netif_ready then ([], s)
      else ([EspWifiConnect], s\<lparr>wl_hooked := True, wl_state := WAN_STATE_CONNECTING\<rparr>))"

definition retry_timer_cb :: "wan_link \<Rightarrow> wan_effect list \<times> wan_link" where
  "retry_timer_cb s = ([EspWifiConnect], s\<lparr>wl_timer := None, wl_retry_in_s := 0\<rparr>)"

definition schedule_retry :: "u32 \<Rightarrow> wan_link \<Rightarrow> wan_link" where
  "schedule_retry seconds s =
     (if \<not> wl_has_timer s then s else s\<lparr>wl_retry_in_s := seconds, wl_timer := Some seconds\<rparr>)"

definition napt_ensure :: "bool \<Rightarrow> wan_link \<Rightarrow> wan_link" where
  "napt_ensure enabled s = (if wl_napt_on s then s else if enabled then s\<lparr>wl_napt_on := True\<rparr> else s)"

definition on_bridge_up :: "bool \<Rightarrow> bool \<Rightarrow> wan_link \<Rightarrow> wan_effect list \<times> wan_link" where
  "on_bridge_up is_bridge enabled s = ([], if \<not> is_bridge then s else napt_ensure enabled s)"

definition on_sta_connected :: "u8 option \<Rightarrow> u8 \<Rightarrow> wan_link \<Rightarrow> wan_effect list \<times> wan_link" where
  "on_sta_connected primary configured s =
     (let s = s\<lparr>wl_connects := wl_connects s + 1, s_auth_fails := 0\<rparr>;
          s = (case primary of Some ch \<Rightarrow> s\<lparr>wl_ap_channel := ch\<rparr> | None \<Rightarrow> s)
      in ([], s\<lparr>wl_ap_channel_configured := configured\<rparr>))"

definition overlaps_lan :: "u32 \<Rightarrow> u32 \<Rightarrow> bool" where
  "overlaps_lan ip netmask = ((ip XOR LAN_IP) AND (netmask AND LAN_MASK) = 0)"

definition on_got_ip ::
  "wan_cfg \<Rightarrow> u32 \<times> u32 \<times> u32 \<Rightarrow> u32 option \<Rightarrow> u8 option \<Rightarrow> bool \<Rightarrow> wan_link \<Rightarrow> wan_effect list \<times> wan_link"
where
  "on_got_ip cfg = (\<lambda>(ip, netmask, gw) dns ap napt s.
     if overlaps_lan ip netmask then
       ([ClockTimeWanDown, EspWifiDisconnect],
        schedule_retry BACKOFF_REJECTED_S
          (publish False 0 cfg (s\<lparr>wl_state := WAN_STATE_SUBNET_CONFLICT, wl_ip := 0, wl_dns := 0\<rparr>)))
     else
       let s = s\<lparr>wl_ip := ip, wl_netmask := netmask, wl_gw := gw\<rparr>;
           dns_ip = (case dns of Some d \<Rightarrow> d | None \<Rightarrow> 0);
           s = s\<lparr>wl_dns := dns_ip\<rparr>;
           s = (case ap of Some rssi \<Rightarrow> s\<lparr>wl_rssi := rssi\<rparr> | None \<Rightarrow> s);
           s = s\<lparr>wl_state := WAN_STATE_UP, s_backoff_s := BACKOFF_MIN_S, wl_retry_in_s := 0\<rparr>
       in ([ClockTimeWanUp], napt_ensure napt (publish True dns_ip cfg s)))"

definition on_lost_ip :: "wan_cfg \<Rightarrow> wan_link \<Rightarrow> wan_effect list \<times> wan_link" where
  "on_lost_ip cfg s =
     (let s = (if wl_state s = WAN_STATE_UP then s\<lparr>wl_state := WAN_STATE_DOWN\<rparr> else s)
      in ([ClockTimeWanDown], publish False 0 cfg (s\<lparr>wl_ip := 0, wl_dns := 0\<rparr>)))"

text \<open>The reason's part of the handler: the state, the failures counted and the delay chosen.\<close>

definition classify_loss :: "u8 \<Rightarrow> wan_link \<Rightarrow> u32 \<times> wan_link" where
  "classify_loss reason s =
     (if reason = WIFI_REASON_AUTH_FAIL \<or> reason = WIFI_REASON_4WAY_HANDSHAKE_TIMEOUT \<or>
         reason = WIFI_REASON_HANDSHAKE_TIMEOUT
      then let s = s\<lparr>s_auth_fails := s_auth_fails s + 1\<rparr> in
           if s_auth_fails s \<ge> AUTH_FAILS_BEFORE_SLOW
           then (BACKOFF_REJECTED_S, s\<lparr>wl_state := WAN_STATE_AUTH_FAILED\<rparr>)
           else (s_backoff_s s, s\<lparr>wl_state := WAN_STATE_CONNECTING\<rparr>)
      else (s_backoff_s s,
            if reason = WIFI_REASON_NO_AP_FOUND then s\<lparr>wl_state := WAN_STATE_NO_AP\<rparr>
            else if wl_state s \<noteq> WAN_STATE_CONNECTING then s\<lparr>wl_state := WAN_STATE_DOWN\<rparr>
            else s))"

definition double_backoff :: "wan_link \<Rightarrow> wan_link" where
  "double_backoff s =
     (let b = s_backoff_s s * 2 in s\<lparr>s_backoff_s := (if b > BACKOFF_MAX_S then BACKOFF_MAX_S else b)\<rparr>)"

definition on_sta_disconnected :: "wan_cfg \<Rightarrow> u8 \<Rightarrow> wan_link \<Rightarrow> wan_effect list \<times> wan_link" where
  "on_sta_disconnected cfg reason s =
     (let s = s\<lparr>wl_disconnects := wl_disconnects s + 1, wl_last_reason := ucast reason, wl_ip := 0, wl_dns := 0\<rparr>;
          s = publish False 0 cfg s
      in if wl_state s = WAN_STATE_SUBNET_CONFLICT then ([ClockTimeWanDown], s)
         else let (delay, s) = classify_loss reason s;
                  s = (if delay = s_backoff_s s then double_backoff s else s)
              in ([ClockTimeWanDown], schedule_retry delay s))"

section \<open>The public surface\<close>

definition wan_get_dns :: "wan_link \<Rightarrow> u32" where
  "wan_get_dns s = (let r = active_rules (wl_rules s) in if wr_up r then wr_dns_ip r else 0)"

definition wan_is_enabled :: "wan_link \<Rightarrow> bool" where
  "wan_is_enabled s \<longleftrightarrow> wl_state s \<noteq> WAN_STATE_DISABLED"

text \<open>\<open>wan_ports_changed\<close> in its two steps: what it read of the live rules, then the publication.\<close>

definition ports_changed_read :: "wan_link \<Rightarrow> bool \<times> u32" where
  "ports_changed_read s = (wr_up (active_rules (wl_rules s)), wr_dns_ip (active_rules (wl_rules s)))"

definition wan_ports_changed :: "wan_cfg \<Rightarrow> wan_link \<Rightarrow> wan_link" where
  "wan_ports_changed cfg s = (let (up, dns) = ports_changed_read s in publish up dns cfg s)"

fun wan_state_name :: "wan_state \<Rightarrow> string" where
  "wan_state_name WAN_STATE_DISABLED = ''disabled''"
| "wan_state_name WAN_STATE_CONNECTING = ''connecting''"
| "wan_state_name WAN_STATE_UP = ''up''"
| "wan_state_name WAN_STATE_DOWN = ''down''"
| "wan_state_name WAN_STATE_NO_AP = ''no_ap''"
| "wan_state_name WAN_STATE_AUTH_FAILED = ''auth_failed''"
| "wan_state_name WAN_STATE_SUBNET_CONFLICT = ''subnet_conflict''"

text \<open>The result is \<open>ESP_OK\<close> (0) or \<open>ESP_ERR_NO_MEM\<close>, by what the allocations answered.\<close>

abbreviation ESP_ERR_NO_MEM :: int where "ESP_ERR_NO_MEM \<equiv> 0x101"

definition wan_init :: "bool \<Rightarrow> bool \<Rightarrow> wan_cfg \<Rightarrow> wan_link \<Rightarrow> int \<times> wan_link" where
  "wan_init mutex_ok netif_ok cfg s =
     (if \<not> w_enabled cfg then (0, s\<lparr>wl_state := WAN_STATE_DISABLED\<rparr>)
      else if \<not> mutex_ok then (ESP_ERR_NO_MEM, s)
      else let s = publish False 0 cfg s in
        if \<not> netif_ok then (ESP_ERR_NO_MEM, s)
        else (0, s\<lparr>wl_has_timer := True, wl_state := WAN_STATE_CONNECTING\<rparr>))"

section \<open>Runs\<close>

datatype wan_event =
  PortStarted bool
| BridgeUp bool bool
| Connected "u8 option" u8
| GotIp "u32 \<times> u32 \<times> u32" "u32 option" "u8 option" bool
| LostIp
| Disconnected u8
| RetryFired

fun wan_apply :: "wan_cfg \<Rightarrow> wan_event \<Rightarrow> wan_link \<Rightarrow> wan_effect list \<times> wan_link" where
  "wan_apply cfg (PortStarted ready) s = on_sta_port_started ready s"
| "wan_apply cfg (BridgeUp is_bridge enabled) s = on_bridge_up is_bridge enabled s"
| "wan_apply cfg (Connected primary configured) s = on_sta_connected primary configured s"
| "wan_apply cfg (GotIp info dns ap napt) s = on_got_ip cfg info dns ap napt s"
| "wan_apply cfg LostIp s = on_lost_ip cfg s"
| "wan_apply cfg (Disconnected reason) s = on_sta_disconnected cfg reason s"
| "wan_apply cfg RetryFired s = retry_timer_cb s"

text \<open>
  What happens: an event of the link is handled, or a task in \<open>wan_ports_changed\<close> reads the live rules, or one
  of those that have read publishes what it read. A system is the link and what the tasks in flight have
  read; a handler publishes once, at most, so that a read or a publication of another task in the middle of
  it is one before it or one after it. An address arrives only on an interface that was started, and the
  timer fires only when armed. The configuration may change between any two steps.
\<close>

datatype wan_action = Happens wan_cfg wan_event | ReadRules | PublishRead wan_cfg nat

type_synonym wan_system = "wan_link \<times> (bool \<times> u32) list"

inductive wan_act :: "wan_action \<Rightarrow> wan_system \<Rightarrow> wan_system \<Rightarrow> bool" where
  happens: "(\<And>info dns ap napt. ev = GotIp info dns ap napt \<Longrightarrow> wl_hooked s) \<Longrightarrow>
    (ev = RetryFired \<Longrightarrow> wl_timer s \<noteq> None) \<Longrightarrow>
    wan_act (Happens cfg ev) (s, rs) (snd (wan_apply cfg ev s), rs)"
| reads: "wan_act ReadRules (s, rs) (s, rs @ [ports_changed_read s])"
| publishes: "k < length rs \<Longrightarrow> rs ! k = (up, dns) \<Longrightarrow>
    wan_act (PublishRead cfg k) (s, rs) (publish up dns cfg s, take k rs @ drop (Suc k) rs)"

inductive_cases wan_actE: "wan_act a x y"

text \<open>With the actions so far.\<close>

inductive wan_step :: "wan_action list \<times> wan_system \<Rightarrow> wan_action list \<times> wan_system \<Rightarrow> bool" where
  act: "wan_act a x y \<Longrightarrow> wan_step (tr, x) (tr @ [a], y)"

inductive_cases wan_stepE: "wan_step x y"

lemma wan_stepI: "wan_act a x y \<Longrightarrow> tr' = tr @ [a] \<Longrightarrow> wan_step (tr, x) (tr', y)"
  by (simp add: wan_step.act)

text \<open>A task that reads and publishes with nothing in between is a call of \<open>wan_ports_changed\<close>.\<close>

lemma ports_changed_at_once:
  "wan_step\<^sup>*\<^sup>* (tr, s, []) (tr @ [ReadRules, PublishRead cfg 0], wan_ports_changed cfg s, [])"
proof -
  obtain up dns where r: "ports_changed_read s = (up, dns)" by fastforce
  have "wan_step (tr, s, []) (tr @ [ReadRules], s, [(up, dns)])"
    by (rule wan_stepI [where a = ReadRules]) (use wan_act.reads [of s "[]"] r in simp_all)
  moreover have "wan_step (tr @ [ReadRules], s, [(up, dns)]) (tr @ [ReadRules, PublishRead cfg 0], publish up dns cfg s, [])"
    by (rule wan_stepI [where a = "PublishRead cfg 0"]) (use wan_act.publishes [of 0 "[(up, dns)]" up dns cfg s] in simp_all)
  ultimately show ?thesis by (simp add: wan_ports_changed_def r)
qed

text \<open>
  What the actions say of the rules: whether those in force agree with the link's last event that published
  any, and for each task in flight whether what it read still does. An event that publishes sets the rules
  right and overtakes every task in flight.
\<close>

fun publishing :: "wan_event \<Rightarrow> bool" where
  "publishing (GotIp info dns ap napt) = True"
| "publishing LostIp = True"
| "publishing (Disconnected reason) = True"
| "publishing _ = False"

fun after_action :: "bool \<times> bool list \<Rightarrow> wan_action \<Rightarrow> bool \<times> bool list" where
  "after_action (live, fs) (Happens cfg ev) = (if publishing ev then (True, map (\<lambda>_. False) fs) else (live, fs))"
| "after_action (live, fs) ReadRules = (live, fs @ [live])"
| "after_action (live, fs) (PublishRead cfg k) = (fs ! k, take k fs @ drop (Suc k) fs)"

definition freshness :: "wan_action list \<Rightarrow> bool \<times> bool list" where
  "freshness tr = foldl after_action (True, []) tr"

text \<open>No task has published what it had read before an event that published, since the last such event.\<close>

definition not_overtaken :: "wan_action list \<Rightarrow> bool" where
  "not_overtaken tr \<longleftrightarrow> fst (freshness tr)"

section \<open>The overlap test\<close>

text \<open>The test that decides whether an upstream network can be used is exact, for any mask: it fires
  exactly when some address belongs to both the upstream's network and the LAN's.\<close>

theorem overlap_test_exact:
  "overlaps_lan ip netmask \<longleftrightarrow>
     (\<exists>a. a AND netmask = ip AND netmask \<and> a AND LAN_MASK = LAN_IP AND LAN_MASK)"
proof
  assume o: "overlaps_lan ip netmask"
  let ?a = "(ip AND netmask) OR (LAN_IP AND LAN_MASK AND NOT netmask)"
  have agree: "bit ip n = bit LAN_IP n" if "bit netmask n" "bit LAN_MASK n" for n
  proof -
    have "\<not> bit ((ip XOR LAN_IP) AND (netmask AND LAN_MASK)) n"
      using o unfolding overlaps_lan_def by simp
    with that show ?thesis by (simp add: bit_simps)
  qed
  have "?a AND netmask = ip AND netmask"
    by (rule bit_word_eqI) (auto simp: bit_simps)
  moreover have "?a AND LAN_MASK = LAN_IP AND LAN_MASK"
    by (rule bit_word_eqI) (use agree in \<open>auto simp: bit_simps\<close>)
  ultimately show "\<exists>a. a AND netmask = ip AND netmask \<and> a AND LAN_MASK = LAN_IP AND LAN_MASK" by blast
next
  assume "\<exists>a. a AND netmask = ip AND netmask \<and> a AND LAN_MASK = LAN_IP AND LAN_MASK"
  then obtain a where a: "a AND netmask = ip AND netmask" "a AND LAN_MASK = LAN_IP AND LAN_MASK" by blast
  have n: "bit netmask n \<Longrightarrow> bit a n = bit ip n" for n
    using arg_cong [OF a(1), of "\<lambda>w. bit w n"] by (simp add: bit_simps)
  have l: "bit LAN_MASK n \<Longrightarrow> bit a n = bit LAN_IP n" for n
    using arg_cong [OF a(2), of "\<lambda>w. bit w n"] by (simp add: bit_simps)
  show "overlaps_lan ip netmask"
    unfolding overlaps_lan_def by (rule bit_word_eqI) (use n l in \<open>auto simp: bit_simps\<close>)
qed

section \<open>The filter follows the link\<close>

definition backoffs :: "u32 set" where
  "backoffs = {1, 2, 4, 8, 16, 32, 60}"

definition link_ok :: "wan_link \<Rightarrow> bool" where
  "link_ok s \<longleftrightarrow>
     (if wl_state s = WAN_STATE_UP then wl_hooked s \<and> \<not> overlaps_lan (wl_ip s) (wl_netmask s)
      else wl_ip s = 0 \<and> wl_dns s = 0) \<and>
     s_backoff_s s \<in> backoffs \<and> (\<forall>d. wl_timer s = Some d \<longrightarrow> d \<in> insert BACKOFF_REJECTED_S backoffs)"

text \<open>What the rules in force, or a copy read of them, should say.\<close>

definition truth_of :: "wan_link \<Rightarrow> bool \<times> u32" where
  "truth_of s = (wl_state s = WAN_STATE_UP, wl_dns s)"

abbreviation in_force :: "wan_link \<Rightarrow> bool" where
  "in_force s \<equiv> ports_changed_read s = truth_of s"

lemma read_published [simp]: "ports_changed_read (publish up dns cfg s) = (up, dns)"
  by (simp add: ports_changed_read_def publish_def)

lemma publish_keeps [simp]: "link_ok (publish up dns cfg s) = link_ok s" "truth_of (publish up dns cfg s) = truth_of s"
  by (simp_all add: publish_def link_ok_def truth_of_def)

lemma double_backoffs: "b \<in> backoffs \<Longrightarrow> (if b * 2 > BACKOFF_MAX_S then BACKOFF_MAX_S else b * 2) \<in> backoffs"
  by (auto simp: backoffs_def)

lemma classify_loss_ok:
  assumes "classify_loss reason s = (delay, s')" "s_backoff_s s \<in> backoffs"
  shows "wl_state s' \<noteq> WAN_STATE_UP \<and> delay \<in> insert BACKOFF_REJECTED_S backoffs \<and>
    s_backoff_s s' = s_backoff_s s \<and> wl_ip s' = wl_ip s \<and> wl_dns s' = wl_dns s \<and> wl_rules s' = wl_rules s \<and>
    wl_timer s' = wl_timer s \<and> wl_has_timer s' = wl_has_timer s \<and> wl_hooked s' = wl_hooked s"
  using assms by (auto simp: classify_loss_def Let_def split: if_splits)

lemma disconnected_ok:
  assumes "link_ok s"
  shows "link_ok (snd (on_sta_disconnected cfg reason s)) \<and> in_force (snd (on_sta_disconnected cfg reason s))"
proof -
  define s1 where "s1 = publish False 0 cfg
    (s\<lparr>wl_disconnects := wl_disconnects s + 1, wl_last_reason := ucast reason, wl_ip := 0, wl_dns := 0\<rparr>)"
  have s1: "s_backoff_s s1 = s_backoff_s s" "wl_ip s1 = 0" "wl_dns s1 = 0" "wl_timer s1 = wl_timer s"
    "ports_changed_read s1 = (False, 0)"
    by (simp_all add: s1_def) (simp_all add: publish_def)
  have b: "s_backoff_s s \<in> backoffs" "\<And>d. wl_timer s = Some d \<Longrightarrow> d \<in> insert BACKOFF_REJECTED_S backoffs"
    using assms unfolding link_ok_def by blast+
  obtain delay s2 where c: "classify_loss reason s1 = (delay, s2)" by fastforce
  note cl = classify_loss_ok [OF c, unfolded s1, OF b(1)]
  show ?thesis
  proof (cases "wl_state s1 = WAN_STATE_SUBNET_CONFLICT")
    case True
    then have "snd (on_sta_disconnected cfg reason s) = s1"
      unfolding on_sta_disconnected_def Let_def s1_def [symmetric] by simp
    then show ?thesis using True s1 b by (simp add: link_ok_def truth_of_def)
  next
    case False
    then have e: "snd (on_sta_disconnected cfg reason s) =
        schedule_retry delay (if delay = s_backoff_s s2 then double_backoff s2 else s2)"
      unfolding on_sta_disconnected_def Let_def s1_def [symmetric] by (simp add: c)
    have "s_backoff_s (double_backoff s2) \<in> backoffs"
      using double_backoffs [OF b(1)] cl by (simp add: double_backoff_def Let_def split: if_splits)
    then show ?thesis
      using cl s1 b unfolding e link_ok_def truth_of_def ports_changed_read_def
      by (simp add: schedule_retry_def double_backoff_def Let_def)
  qed
qed

lemma got_ip_ok:
  assumes "link_ok s" "wl_hooked s"
  shows "link_ok (snd (on_got_ip cfg info dns ap napt s)) \<and> in_force (snd (on_got_ip cfg info dns ap napt s))"
proof -
  obtain ip mask gw where i: "info = (ip, mask, gw)" by (cases info)
  have b: "s_backoff_s s \<in> backoffs" "\<And>d. wl_timer s = Some d \<Longrightarrow> d \<in> insert BACKOFF_REJECTED_S backoffs"
    using assms unfolding link_ok_def by blast+
  have one: "(1 :: u32) \<in> backoffs" by (simp add: backoffs_def)
  show ?thesis
  proof (cases "overlaps_lan ip mask")
    case True
    then show ?thesis
      using b by (simp add: on_got_ip_def i link_ok_def schedule_retry_def publish_def truth_of_def ports_changed_read_def)
  next
    case False
    then show ?thesis
      using b assms(2) one
      by (cases ap)
        (simp_all add: on_got_ip_def i link_ok_def napt_ensure_def publish_def truth_of_def ports_changed_read_def Let_def)
  qed
qed

lemma event_ok:
  assumes "link_ok s" "\<And>info dns ap napt. ev = GotIp info dns ap napt \<Longrightarrow> wl_hooked s"
  shows "link_ok (snd (wan_apply cfg ev s)) \<and>
    (if publishing ev then in_force (snd (wan_apply cfg ev s))
     else truth_of (snd (wan_apply cfg ev s)) = truth_of s \<and>
       ports_changed_read (snd (wan_apply cfg ev s)) = ports_changed_read s)"
proof (cases ev)
  case (PortStarted r)
  then show ?thesis
    using assms(1) by (auto simp: on_sta_port_started_def link_ok_def truth_of_def ports_changed_read_def split: if_splits)
next
  case (BridgeUp b e)
  then show ?thesis
    using assms(1) by (simp add: on_bridge_up_def napt_ensure_def link_ok_def truth_of_def ports_changed_read_def)
next
  case (Connected p c)
  then show ?thesis
    using assms(1) by (cases p) (simp_all add: on_sta_connected_def link_ok_def truth_of_def ports_changed_read_def Let_def)
next
  case (GotIp info dns ap napt)
  then show ?thesis using got_ip_ok [OF assms(1)] assms(2) by simp
next
  case LostIp
  then show ?thesis
    using assms(1) by (auto simp: on_lost_ip_def publish_def link_ok_def truth_of_def ports_changed_read_def Let_def)
next
  case (Disconnected r)
  then show ?thesis using disconnected_ok [OF assms(1)] by simp
next
  case RetryFired
  then show ?thesis
    using assms(1) by (simp add: retry_timer_cb_def link_ok_def truth_of_def ports_changed_read_def)
qed

text \<open>The invariant: the link's own, and whatever counts as fresh is true.\<close>

definition wan_ok :: "wan_action list \<times> wan_system \<Rightarrow> bool" where
  "wan_ok = (\<lambda>(tr, s, rs). link_ok s \<and>
     (let (live, fs) = freshness tr in
      length fs = length rs \<and> (live \<longrightarrow> in_force s) \<and> (\<forall>k<length rs. fs ! k \<longrightarrow> rs ! k = truth_of s)))"

lemma nth_without: "k < length xs \<Longrightarrow> j < length xs - 1 \<Longrightarrow>
    (take k xs @ drop (Suc k) xs) ! j = xs ! (if j < k then j else Suc j)"
  by (auto simp: nth_append)

lemma wan_step_ok:
  assumes "wan_ok a" "wan_step a b"
  shows "wan_ok b"
proof -
  obtain act tr s rs y where ab: "a = (tr, s, rs)" "b = (tr @ [act], y)" "wan_act act (s, rs) y"
    using assms(2) by (elim wan_stepE) (metis surj_pair)
  obtain live fs where g: "freshness tr = (live, fs)" by fastforce
  have ok: "link_ok s" "length fs = length rs" "live \<Longrightarrow> in_force s" "\<And>k. k < length rs \<Longrightarrow> fs ! k \<Longrightarrow> rs ! k = truth_of s"
    using assms(1) unfolding ab(1) wan_ok_def by (simp_all add: g)
  have g': "freshness (tr @ [act]) = after_action (live, fs) act" using g by (simp add: freshness_def)
  show ?thesis
    using ab(3)
  proof cases
    case (happens ev cfg)
    then show ?thesis
      using ok(2-4) event_ok [where s = s and ev = ev and cfg = cfg, OF ok(1) happens(3)] unfolding ab(2) happens(2) wan_ok_def
      by (auto simp: g' [unfolded happens(1)] split: if_splits)
  next
    case reads
    then show ?thesis
      using ok unfolding ab(2) reads(2) wan_ok_def
      by (auto simp: g' [unfolded reads(1)] nth_append less_Suc_eq)
  next
    case (publishes k up dns cfg)
    have k: "fs ! k \<Longrightarrow> (up, dns) = truth_of s" using ok(4) [of k] publishes(3,4) by simp
    have rest: "(take k fs @ drop (Suc k) fs) ! j \<Longrightarrow> (take k rs @ drop (Suc k) rs) ! j = truth_of s"
      if "j < length rs - 1" for j
      using ok(4) [of "if j < k then j else Suc j"] nth_without [of k fs j] nth_without [of k rs j] that publishes(3) ok(2)
      by (simp split: if_splits)
    show ?thesis
      using ok(1,2) k rest publishes(3) unfolding ab(2) publishes(1,2) wan_ok_def
      by (auto simp: g' [unfolded publishes(1)])
  qed
qed

interpretation wan: state_machine wan_step wan_ok
  by unfold_locales (rule wan_step_ok)

lemma wan_init_ok: "wan_ok ([], snd (wan_init m n cfg static_wan), [])"
  by (simp add: wan_ok_def freshness_def wan_init_def static_wan_def link_ok_def publish_def static_snapshot_def
      zero_rules_def rules_at_def backoffs_def publish_rules_def truth_of_def ports_changed_read_def Let_def)


definition wan_example :: wan_link where
  "wan_example =
     (let cfg = \<lparr>w_enabled = True, w_ssid = ''x'', w_password = '''', w_ports = k_default_ports\<rparr>;
          s0 = snd (wan_init True True cfg static_wan)
      in snd (wan_apply cfg (GotIp (ip4 10 0 0 5, ip4 255 255 255 0, ip4 10 0 0 1) (Some (ip4 10 0 0 1)) None True)
           (snd (wan_apply cfg (PortStarted True) s0))))"


section \<open>Two ways the code falls short of its comments\<close>

text \<open>
  After a subnet conflict the one long retry is the last: when it does not end in an address, the
  disconnection it ends in arms no timer, and no handler asks to connect again.
\<close>

lemma conflict_is_not_retried:
  assumes "wl_state s = WAN_STATE_SUBNET_CONFLICT" "wl_timer s = None"
  shows "wl_timer (snd (on_sta_disconnected cfg reason s)) = None \<and>
    wl_state (snd (on_sta_disconnected cfg reason s)) = WAN_STATE_SUBNET_CONFLICT \<and>
    fst (on_sta_disconnected cfg reason s) = [ClockTimeWanDown]"
  using assms by (simp add: on_sta_disconnected_def publish_def Let_def)

text \<open>
  \<open>wan_ports_changed\<close> reads the live rules before it takes the publishing mutex: if the link goes down
  in between, it publishes them as up again.
\<close>

lemma stale_ports_change_reopens:
  assumes "wan_step\<^sup>*\<^sup>* x (tr, s, [])" "wl_state s = WAN_STATE_UP" "ports_changed_read s = (True, dns)"
  shows "\<exists>t. wan_step\<^sup>*\<^sup>* x (tr @ [ReadRules, Happens cfg LostIp, PublishRead cfg 0], t, []) \<and>
    wl_state t \<noteq> WAN_STATE_UP \<and> wr_up (active_rules (wl_rules t))"
proof -
  let ?down = "snd (on_lost_ip cfg s)"
  let ?t = "publish True dns cfg ?down"
  have "wan_step (tr, s, []) (tr @ [ReadRules], s, [(True, dns)])"
    by (rule wan_stepI [where a = ReadRules]) (use wan_act.reads [of s "[]"] assms(3) in simp_all)
  moreover have "wan_step (tr @ [ReadRules], s, [(True, dns)]) (tr @ [ReadRules, Happens cfg LostIp], ?down, [(True, dns)])"
    by (rule wan_stepI [where a = "Happens cfg LostIp"]) (use wan_act.happens [of LostIp s cfg "[(True, dns)]"] in simp_all)
  moreover have "wan_step (tr @ [ReadRules, Happens cfg LostIp], ?down, [(True, dns)])
      (tr @ [ReadRules, Happens cfg LostIp, PublishRead cfg 0], ?t, [])"
    by (rule wan_stepI [where a = "PublishRead cfg 0"]) (use wan_act.publishes [of 0 "[(True, dns)]" True dns cfg ?down] in simp_all)
  ultimately have "wan_step\<^sup>*\<^sup>* x (tr @ [ReadRules, Happens cfg LostIp, PublishRead cfg 0], ?t, [])"
    using assms(1) by (simp add: rtranclp.rtrancl_into_rtrancl)
  moreover have "wl_state ?t \<noteq> WAN_STATE_UP" using assms(2) by (simp add: on_lost_ip_def publish_def)
  moreover have "wr_up (active_rules (wl_rules ?t))" using read_published [of True dns cfg ?down] by (simp add: ports_changed_read_def)
  ultimately show ?thesis by blast
qed

text \<open>The failure counter is a byte: the 256th refusal in a row counts as the first.\<close>

lemma auth_failures_wrap:
  assumes "s_auth_fails s = 255"
  shows "classify_loss WIFI_REASON_AUTH_FAIL s = (s_backoff_s s, s\<lparr>s_auth_fails := 0, wl_state := WAN_STATE_CONNECTING\<rparr>)"
  using assms by (simp add: classify_loss_def Let_def)

end
