(* ===== verification/WebRoutes.thy ===== *)
theory WebRoutes
  imports WebAuth ClockTime Syslog WanLink ClientTable
begin

text \<open>
  The web server's routes that change something (\<open>main/web_server.c\<close>), each as the whole handler: the
  access point's, the administrator's, the uplink's, the log sender's and the clock's settings, the
  firmware update, the capture level and the kicking of a station; and the simplest of those that do not.
\<close>

section \<open>The device\<close>

record device =
  v_auth :: auth_store
  v_fail :: auth_log
  v_wifi :: "wifi_nvs option"
  v_wan :: wan_store
  v_link :: wan_link
  v_syslog :: syslog_store
  v_clock :: clock_store
  v_level :: nat
  v_resets :: resets

text \<open>The answers of the update library: its writes in the order they are made, and its errors' names.\<close>

record ota_env =
  u_partition :: bool
  u_begin :: int
  u_write :: "nat \<Rightarrow> int"
  u_end :: int
  u_set_boot :: int
  u_err_name :: "int \<Rightarrow> string"

text \<open>
  What a handler finds around it: the refusal log's window and the tick count, the uptime, the flash's
  answers and what a failed save leaves of each namespace, the hardware address, the bridge's own address
  and mask, the address parser, the client table with the WiFi driver's answers, the update library.
\<close>

record env =
  env_window :: u32
  env_now :: u32
  env_up_us :: nat
  env_answers :: "int list"
  env_torn :: device
  env_mac :: "mac option"
  env_subnet :: "u32 \<times> u32"
  env_aton :: "string \<Rightarrow> u32"
  env_tracker :: tracker
  env_aid :: "mac \<Rightarrow> u16 option"
  env_deauth :: "u16 \<Rightarrow> bool"
  env_ota :: ota_env
  env_ssid :: string
  env_channel :: u8
  env_page :: "string \<Rightarrow> string"

datatype ota_op = OtaBegin nat | OtaWrite string | OtaAbort | OtaEnd | OtaSetBoot

datatype effect = Http web_effect | Ota ota_op | Kick mac | Drained nat | WakeSender | Restart

datatype outcome = Ok | Fail | Gone

type_synonym reply = "effect list \<times> outcome \<times> device"

definition respond :: "web_effect list \<Rightarrow> outcome \<Rightarrow> device \<Rightarrow> reply" where
  "respond es out d = (map Http es, out, d)"

definition json_ok :: web_effect where
  "json_ok = Respond 200 json_type ''{\"ok\":true}''"

text \<open>The end of a handler that answers from a buffer.\<close>

definition reply_json :: "nat \<Rightarrow> nat \<Rightarrow> resp \<Rightarrow> device \<Rightarrow> reply" where
  "reply_json status bufsz r d = (let (sent, es) = send_json status bufsz r in respond es (if sent then Ok else Fail) d)"

definition reply_refused :: "string \<Rightarrow> device \<Rightarrow> reply" where
  "reply_refused msg d =
     reply_json 400 128 (resp_append 128 ('''', 0) (''{\"ok\":false,\"error\":\"'' @ msg @ ''\"}'')) d"

definition save_failed :: web_effect where
  "save_failed = Respond 500 json_type ''{\"ok\":false,\"error\":\"Failed to save\"}''"

text \<open>The restart at the end of a save: the intent, the settling delay, \<open>esp_restart\<close>.\<close>

definition restart :: "env \<Rightarrow> reset_intent \<Rightarrow> web_effect list \<Rightarrow> device \<Rightarrow> reply" where
  "restart n intent es d =
     (map Http es @ [Http (Delay 500), Restart], Gone,
      d\<lparr>v_resets := reset_log_note_intent (env_up_us n) intent (v_resets d)\<rparr>)"

section \<open>The gates\<close>

definition with_login :: "env \<Rightarrow> request \<Rightarrow> (device \<Rightarrow> reply) \<Rightarrow> (device \<Rightarrow> reply) \<Rightarrow> device \<Rightarrow> reply" where
  "with_login n rq refused k d =
     (let (ok, a) = check_admin_auth rq (v_auth d); d = d\<lparr>v_auth := a\<rparr> in
      if \<not> ok then
        let (es, f) = send_auth_error (env_window n) (env_now n) rq (v_fail d);
            (es', out, d) = refused (d\<lparr>v_fail := f\<rparr>)
        in (map Http es @ es', out, d)
      else k d)"

definition with_own_password :: "web_effect list \<Rightarrow> (device \<Rightarrow> reply) \<Rightarrow> (device \<Rightarrow> reply) \<Rightarrow> device \<Rightarrow> reply" where
  "with_own_password denial refused k d =
     (let (dflt, a) = auth_cfg_password_is_default (v_auth d); d = d\<lparr>v_auth := a\<rparr> in
      if dflt then let (es', out, d) = refused d in (map Http denial @ es', out, d)
      else k d)"

definition with_csrf :: "request \<Rightarrow> string \<Rightarrow> (device \<Rightarrow> reply) \<Rightarrow> (device \<Rightarrow> reply) \<Rightarrow> device \<Rightarrow> reply" where
  "with_csrf rq expected refused k d =
     (let (ok, es) = csrf_check rq expected in
      if \<not> ok then let (es', out, d) = refused d in (map Http es @ es', out, d) else k d)"

definition with_body :: "request \<Rightarrow> nat \<Rightarrow> (string \<Rightarrow> device \<Rightarrow> reply) \<Rightarrow> device \<Rightarrow> reply" where
  "with_body rq bufsz k d =
     (case recv_body rq bufsz of
        (None, es) \<Rightarrow> respond es Fail d
      | (Some buf, _) \<Rightarrow> k buf d)"

definition finish :: "outcome \<Rightarrow> device \<Rightarrow> reply" where
  "finish out d = ([], out, d)"

text \<open>The three gates as nearly every route that changes something has them.\<close>

definition guarded :: "env \<Rightarrow> request \<Rightarrow> nat \<Rightarrow> (string \<Rightarrow> device \<Rightarrow> reply) \<Rightarrow> device \<Rightarrow> reply" where
  "guarded n rq bufsz k =
     with_login n rq (finish Ok)
       (with_own_password send_setup_required (finish Ok)
         (with_csrf rq ''application/json'' (finish Ok) (with_body rq bufsz k)))"

section \<open>Settings\<close>

primrec wifi_error_text :: "wifi_cfg_error \<Rightarrow> string" where
  "wifi_error_text SsidLength = ''SSID must be 1-31 characters''"
| "wifi_error_text WifiPasswordLength = ''Password must be 8-63 characters''"
| "wifi_error_text BadChannel = ''Channel must be 1, 6, or 11''"

definition wifi_request :: "string \<Rightarrow> string \<Rightarrow> device \<Rightarrow> wifi_cfg" where
  "wifi_request buf ssid d =
     (let password = (case json_get_string buf ''password'' WIFI_CFG_PASSWORD_MAX_LEN of Some p \<Rightarrow> p | None \<Rightarrow> '''');
          password = (if password = '''' then fst (snd (wifi_cfg_load (v_wifi d))) else password);
          channel_val = (case json_get_int buf ''channel'' of Some v \<Rightarrow> v | None \<Rightarrow> uint WIFI_CFG_DEFAULT_CHANNEL)
      in (ssid, password, if channel_val < 0 \<or> channel_val > 255 then 0 else word_of_int channel_val))"

definition wifi_save :: "env \<Rightarrow> string \<Rightarrow> device \<Rightarrow> reply" where
  "wifi_save n buf d =
     (case json_get_string buf ''ssid'' WIFI_CFG_SSID_MAX_LEN of
        None \<Rightarrow> respond [RespondErr 400 ''Missing \"ssid\"''] Fail d
      | Some ssid \<Rightarrow>
          let cfg = wifi_request buf ssid d in
          (case wifi_cfg_validate cfg of
             Some e \<Rightarrow> reply_refused (wifi_error_text e) d
           | None \<Rightarrow>
               let (err, nvs) = wifi_cfg_save (env_answers n) (v_wifi (env_torn n)) cfg (v_wifi d);
                   d = d\<lparr>v_wifi := nvs\<rparr>
               in if err \<noteq> 0 then respond [save_failed] Ok d
                  else restart n RESET_INTENT_WIFI_SAVE [json_ok] d))"

definition wifi_post_handler :: "env \<Rightarrow> request \<Rightarrow> device \<Rightarrow> reply" where
  "wifi_post_handler n rq = guarded n rq 256 (wifi_save n)"

primrec auth_error_text :: "auth_cfg_error \<Rightarrow> string" where
  "auth_error_text UsernameLength = ''Admin username must be 1-31 characters''"
| "auth_error_text AdminPasswordLength = ''Admin password must be 4-63 characters''"
| "auth_error_text DefaultPassword = ''Choose an admin password other than the default''"

definition admin_request :: "string \<Rightarrow> string \<times> string \<Rightarrow> string \<times> string" where
  "admin_request buf current =
     ((case json_get_string buf ''new_admin_user'' AUTH_CFG_USERNAME_MAX_LEN of
         Some u \<Rightarrow> if u \<noteq> '''' then u else fst current | None \<Rightarrow> fst current),
      (case json_get_string buf ''new_admin_password'' AUTH_CFG_PASSWORD_MAX_LEN of
         Some p \<Rightarrow> if p \<noteq> '''' then p else snd current | None \<Rightarrow> snd current))"

definition admin_save :: "env \<Rightarrow> string \<Rightarrow> device \<Rightarrow> reply" where
  "admin_save n buf d =
     (let (current, a) = auth_cfg_load (v_auth d);
          d = d\<lparr>v_auth := a\<rparr>;
          (user, password) = admin_request buf current
      in (case auth_cfg_validate user password of
            Some e \<Rightarrow> reply_refused (auth_error_text e) d
          | None \<Rightarrow>
              let (err, a) = auth_cfg_save (env_answers n) (u_nvs (v_auth (env_torn n))) user password (v_auth d);
                  d = d\<lparr>v_auth := a\<rparr>
              in if err \<noteq> 0 then respond [save_failed] Ok d else respond [json_ok] Ok d))"

text \<open>The one route that changes something and serves the factory password.\<close>

definition admin_post_handler :: "env \<Rightarrow> request \<Rightarrow> device \<Rightarrow> reply" where
  "admin_post_handler n rq =
     with_login n rq (finish Ok)
       (with_csrf rq ''application/json'' (finish Ok) (with_body rq 256 (admin_save n)))"

section \<open>The firmware\<close>

datatype ota_fail = RecvFailed | FlashFailed

fun ota_drain_body :: "int \<Rightarrow> recv_answer list \<Rightarrow> nat" where
  "ota_drain_body remaining (Chunk s # rs) =
     (if remaining > 0 \<and> s \<noteq> [] then length s + ota_drain_body (remaining - int (length s)) rs else 0)"
| "ota_drain_body remaining _ = 0"

text \<open>\<open>content_len\<close> as the \<open>int\<close> it is read into.\<close>

definition content_int :: "request \<Rightarrow> int" where
  "content_int rq = sint (of_nat (rq_content_len rq) :: u32)"

definition drain :: "request \<Rightarrow> device \<Rightarrow> reply" where
  "drain rq d = ([Drained (ota_drain_body (content_int rq) (rq_recv rq))], Ok, d)"

text \<open>The \<open>k\<close>-th write onwards.\<close>

fun ota_loop :: "(nat \<Rightarrow> int) \<Rightarrow> int \<Rightarrow> recv_answer list \<Rightarrow> nat \<Rightarrow> ota_op list \<times> ota_fail option" where
  "ota_loop wr remaining rs k =
     (if remaining \<le> 0 then ([], None)
      else (case rs of
        Chunk s # rs \<Rightarrow>
          if s = [] then ([OtaAbort], Some RecvFailed)
          else if wr k \<noteq> 0 then ([OtaWrite s, OtaAbort], Some FlashFailed)
          else let (ops, r) = ota_loop wr (remaining - int (length s)) rs (k + 1) in (OtaWrite s # ops, r)
      | _ \<Rightarrow> ([OtaAbort], Some RecvFailed)))"

declare ota_loop.simps [simp del]

definition ota_update :: "env \<Rightarrow> request \<Rightarrow> device \<Rightarrow> reply" where
  "ota_update n rq d =
     (let u = env_ota n in
      if rq_content_len rq = 0 then respond [RespondErr 400 ''Body missing''] Fail d
      else if \<not> u_partition u then respond [RespondErr 500 ''No OTA partition available''] Fail d
      else if u_begin u \<noteq> 0 then
        (Ota (OtaBegin (rq_content_len rq)) # map Http [RespondErr 400 ''Image too large or OTA busy''], Fail, d)
      else (case ota_loop (u_write u) (content_int rq) (rq_recv rq) 0 of (ops, failed) \<Rightarrow>
        let ops = map Ota (OtaBegin (rq_content_len rq) # ops) in
        (case failed of
           Some RecvFailed \<Rightarrow> (ops @ [Http (RespondErr 400 ''Failed to read body'')], Fail, d)
         | Some FlashFailed \<Rightarrow> (ops @ [Http (RespondErr 500 ''Flash write failed'')], Fail, d)
         | None \<Rightarrow>
             if u_end u \<noteq> 0 then
               let (es, out, d) = reply_refused (''Image validation failed: '' @ u_err_name u (u_end u)) d
               in (ops @ [Ota OtaEnd] @ es, out, d)
             else if u_set_boot u \<noteq> 0 then
               (ops @ map Ota [OtaEnd, OtaSetBoot] @
                  [Http (Respond 500 json_type ''{\"ok\":false,\"error\":\"Failed to set boot partition\"}'')], Ok, d)
             else let (es, out, d) = restart n RESET_INTENT_OTA [json_ok] d
               in (ops @ map Ota [OtaEnd, OtaSetBoot] @ es, out, d))))"

definition ota_post_handler :: "env \<Rightarrow> request \<Rightarrow> device \<Rightarrow> reply" where
  "ota_post_handler n rq =
     with_login n rq (drain rq)
       (with_own_password send_setup_required (drain rq)
         (with_csrf rq ''application/octet-stream'' (drain rq) (ota_update n rq)))"

section \<open>Stations and the capture level\<close>

definition parse_mac :: "string \<Rightarrow> mac option" where
  "parse_mac str =
     (case scan_fields 6 str of
        Some [a, b, c, d, e, f] \<Rightarrow> Some (Mac (ucast a) (ucast b) (ucast c) (ucast d) (ucast e) (ucast f))
      | _ \<Rightarrow> None)"

definition kick_station :: "env \<Rightarrow> string \<Rightarrow> device \<Rightarrow> reply" where
  "kick_station n buf d =
     (case Option.bind (json_get_string buf ''mac'' 24) parse_mac of
        None \<Rightarrow> respond [RespondErr 400 ''Missing or invalid \"mac\"''] Fail d
      | Some m \<Rightarrow>
          if client_track_kick_station m (env_aid n m) (env_deauth n) (env_tracker n)
          then let (es, out, d) = reply_json 200 96 (resp_append 96 ('''', 0) ''{\"ok\":true}'') d in (Kick m # es, out, d)
          else reply_json 200 96
            (resp_append 96 ('''', 0) ''{\"ok\":false,\"error\":\"Not a connected WiFi client\"}'') d)"

definition kick_post_handler :: "env \<Rightarrow> request \<Rightarrow> device \<Rightarrow> reply" where
  "kick_post_handler n rq = guarded n rq 64 (kick_station n)"

text \<open>The levels in the order of the logging library's enumeration.\<close>

definition log_level_names :: "string list" where
  "log_level_names = [''none'', ''error'', ''warn'', ''info'', ''debug'', ''verbose'']"

definition log_level_name :: "nat \<Rightarrow> string" where
  "log_level_name level = (if level < length log_level_names then log_level_names ! level else ''unknown'')"

text \<open>A warning passes the filter at \<open>warn\<close> and above.\<close>

definition warn_at :: "nat \<Rightarrow> string \<Rightarrow> web_effect list" where
  "warn_at level msg = (if level \<ge> 2 then [Warn msg] else [])"

definition set_level :: "string \<Rightarrow> device \<Rightarrow> reply" where
  "set_level buf d =
     (case json_get_string buf ''level'' 16 of
        None \<Rightarrow> respond [RespondErr 400 ''Missing \"level\"''] Fail d
      | Some level_str \<Rightarrow>
          (case first_slot (\<lambda>_ name. level_str = name) log_level_names of
             None \<Rightarrow> respond [RespondErr 400 ''Unknown level (want none|error|warn|info|debug|verbose)''] Fail d
           | Some new_level \<Rightarrow>
               let old_level = v_level d; msg = ''Log capture level set to '' @ log_level_names ! new_level
               in respond (warn_at (if new_level > old_level then new_level else old_level) msg @ [json_ok]) Ok
                    (d\<lparr>v_level := new_level\<rparr>)))"

definition logs_level_post_handler :: "env \<Rightarrow> request \<Rightarrow> device \<Rightarrow> reply" where
  "logs_level_post_handler n rq = guarded n rq 64 set_level"

section \<open>The log sender's settings\<close>

primrec syslog_error_text :: "syslog_cfg_error \<Rightarrow> string" where
  "syslog_error_text EnterAddress = ''Enter the syslog collector'' @ [CHR 0x27] @ ''s IP address''"
| "syslog_error_text NoSubnet =
     ''Could not read this bridge'' @ [CHR 0x27] @ ''s own address, so the collector'' @ [CHR 0x27] @
     ''s could not be checked''"
| "syslog_error_text OffSubnet =
     ''The collector must be on the bridge'' @ [CHR 0x27] @ ''s 192.168.5.0/24 network - it has no gateway to anywhere else''"
| "syslog_error_text OwnAddress =
     ''That is this device'' @ [CHR 0x27] @ ''s own address - enter the collector'' @ [CHR 0x27] @ ''s''"
| "syslog_error_text BroadcastAddress =
     ''Enter one collector'' @ [CHR 0x27] @ ''s address, not the broadcast address''"
| "syslog_error_text BadPort = ''Port must be 1-65535 (514 is the syslog default)''"
| "syslog_error_text BadFacility = ''Facility must be 0-23 (23 is local7)''"
| "syslog_error_text BadSeverity = ''Minimum severity must be 0-7''"
| "syslog_error_text BadHostnameLength = ''Hostname must be 1-32 characters''"
| "syslog_error_text BadHostnameChars = ''Hostname must be printable ASCII with no spaces''"

text \<open>A number of the body, checked and stored where the body has one.\<close>

definition with_int :: "string \<Rightarrow> string \<Rightarrow> (int \<Rightarrow> 'c \<Rightarrow> string + 'c) \<Rightarrow> string + 'c \<Rightarrow> string + 'c" where
  "with_int buf key f r =
     (case r of Inl e \<Rightarrow> Inl e
      | Inr cfg \<Rightarrow> (case json_get_int buf key of None \<Rightarrow> Inr cfg | Some v \<Rightarrow> f v cfg))"

definition with_text :: "string \<Rightarrow> string \<Rightarrow> nat \<Rightarrow> (string \<Rightarrow> 'c \<Rightarrow> string + 'c) \<Rightarrow> string + 'c \<Rightarrow> string + 'c" where
  "with_text buf key sz f r =
     (case r of Inl e \<Rightarrow> Inl e
      | Inr cfg \<Rightarrow> (case json_get_string buf key sz of None \<Rightarrow> Inr cfg | Some v \<Rightarrow> f v cfg))"

definition syslog_request :: "env \<Rightarrow> string \<Rightarrow> syslog_cfg \<Rightarrow> string + syslog_cfg" where
  "syslog_request n buf cfg =
     (let r = with_int buf ''enabled'' (\<lambda>v c. Inr (c\<lparr>y_enabled := v \<noteq> 0\<rparr>)) (Inr cfg);
          r = with_int buf ''port'' (\<lambda>v c. if v < 1 \<or> v > 65535 then Inl (syslog_error_text BadPort)
                                        else Inr (c\<lparr>y_port := word_of_int v\<rparr>)) r;
          r = with_int buf ''facility'' (\<lambda>v c. if v < 0 \<or> v > 23 then Inl (syslog_error_text BadFacility)
                                            else Inr (c\<lparr>y_facility := word_of_int v\<rparr>)) r;
          r = with_int buf ''min_severity'' (\<lambda>v c. if v < 0 \<or> v > 7 then Inl (syslog_error_text BadSeverity)
                                                else Inr (c\<lparr>y_min_severity := word_of_int v\<rparr>)) r;
          r = with_text buf ''server'' 16 (\<lambda>server c.
                if server = '''' then Inr (c\<lparr>y_server_ip := 0\<rparr>)
                else if env_aton n server = 0 then Inl ''That is not an IPv4 address''
                else Inr (c\<lparr>y_server_ip := env_aton n server\<rparr>)) r
      in with_text buf ''hostname'' SYSLOG_CFG_HOSTNAME_MAX_LEN (\<lambda>hostname c.
           Inr (c\<lparr>y_hostname := if hostname = '''' then strlcpy (syslog_cfg_default_hostname (env_mac n)) SYSLOG_CFG_HOSTNAME_MAX_LEN
                                else strlcpy hostname SYSLOG_CFG_HOSTNAME_MAX_LEN\<rparr>)) r)"

definition syslog_save :: "env \<Rightarrow> string \<Rightarrow> device \<Rightarrow> reply" where
  "syslog_save n buf d =
     (let (current, store) = syslog_cfg_get (env_mac n) (v_syslog d); d = d\<lparr>v_syslog := store\<rparr> in
      case syslog_request n buf current of
        Inl msg \<Rightarrow> respond [RespondErr 400 msg] Fail d
      | Inr cfg \<Rightarrow>
          (case syslog_cfg_validate cfg (fst (env_subnet n)) (snd (env_subnet n)) of
             Some e \<Rightarrow> respond [RespondErr 400 (syslog_error_text e)] Fail d
           | None \<Rightarrow>
               let (err, store) = syslog_cfg_save (env_answers n) (y_nvs (v_syslog (env_torn n))) (env_mac n) cfg (v_syslog d);
                   d = d\<lparr>v_syslog := store\<rparr>
               in if err \<noteq> 0 then respond [RespondErr 500 ''Failed to save syslog config''] Fail d
                  else (WakeSender # map Http [json_ok], Ok, d)))"

definition syslog_post_handler :: "env \<Rightarrow> request \<Rightarrow> device \<Rightarrow> reply" where
  "syslog_post_handler n rq = guarded n rq 256 (syslog_save n)"

section \<open>The clock's zone\<close>

primrec clock_error_text :: "clock_cfg_error \<Rightarrow> string" where
  "clock_error_text TzTooLong = ''Timezone is too long''"
| "clock_error_text TzNotAscii = ''Timezone must be plain ASCII, e.g. CST6CDT,M3.2.0,M11.1.0''"

definition time_save :: "env \<Rightarrow> string \<Rightarrow> device \<Rightarrow> reply" where
  "time_save n buf d =
     (let (_, store) = clock_cfg_get (v_clock d); d = d\<lparr>v_clock := store\<rparr> in
      case json_get_string buf ''tz'' CLOCK_CFG_TZ_MAX_LEN of
        None \<Rightarrow> respond [RespondErr 400 ''Missing \"tz\"''] Fail d
      | Some want \<Rightarrow>
          let tz = strlcpy (case clock_cfg_zone_from_label (Some want) of Some z \<Rightarrow> z | None \<Rightarrow> want) CLOCK_CFG_TZ_MAX_LEN
          in (case clock_cfg_validate tz of
                Some e \<Rightarrow> respond [RespondErr 400 (clock_error_text e)] Fail d
              | None \<Rightarrow>
                  let (err, store) = clock_cfg_save (env_answers n) (k_nvs (v_clock (env_torn n))) tz (v_clock d);
                      d = d\<lparr>v_clock := store\<rparr>
                  in if err \<noteq> 0 then respond [RespondErr 500 ''Failed to save the timezone''] Fail d
                     else respond [json_ok] Ok d))"

definition time_post_handler :: "env \<Rightarrow> request \<Rightarrow> device \<Rightarrow> reply" where
  "time_post_handler n rq =
     with_login n rq (finish Ok)
       (with_own_password send_setup_required (finish Ok)
         (with_csrf rq ''application/json'' (finish Fail) (with_body rq 128 (time_save n))))"

section \<open>The uplink's settings\<close>

primrec wan_error_text :: "wan_error \<Rightarrow> string" where
  "wan_error_text NumbersExpected = ''Ports must be numbers separated by commas, like 2101,2102''"
| "wan_error_text PortOutOfRange = ''Ports must be 1-65535''"
| "wan_error_text BadProtocol = ''After a port, write /tcp or /udp - nothing else''"
| "wan_error_text TooManyRules = ''At most 12 rules can be allowed''"
| "wan_error_text ListedTwice = ''That port and protocol is listed twice''"
| "wan_error_text BadSsid = ''Upstream network name must be 1-32 characters''"
| "wan_error_text BadPassword = ''Upstream password must be 8-63 characters, or blank for an open network''"
| "wan_error_text NoPorts = ''Add at least one allowed port - 2101 is the usual NTRIP caster port''"

definition wan_request :: "string \<Rightarrow> wan_cfg \<Rightarrow> string + wan_cfg" where
  "wan_request buf cfg =
     (let r = with_int buf ''enabled'' (\<lambda>v c. Inr (c\<lparr>w_enabled := v \<noteq> 0\<rparr>)) (Inr cfg);
          r = with_text buf ''ssid'' WAN_CFG_SSID_MAX_LEN
                (\<lambda>s c. Inr (c\<lparr>w_ssid := strlcpy s WAN_CFG_SSID_MAX_LEN\<rparr>)) r;
          r = with_text buf ''password'' WAN_CFG_PASSWORD_MAX_LEN
                (\<lambda>p c. Inr (if p \<noteq> '''' then c\<lparr>w_password := strlcpy p WAN_CFG_PASSWORD_MAX_LEN\<rparr> else c)) r
      in with_text buf ''ports'' WAN_CFG_PORTS_STR_MAX
           (\<lambda>ports c. case wan_cfg_parse_ports ports of
              Inl e \<Rightarrow> Inl (wan_error_text e) | Inr rules \<Rightarrow> Inr (c\<lparr>w_ports := rules\<rparr>)) r)"

definition radio_changed :: "wan_cfg \<Rightarrow> wan_cfg \<Rightarrow> bool" where
  "radio_changed before cfg \<longleftrightarrow>
     w_enabled cfg \<noteq> w_enabled before \<or> w_ssid cfg \<noteq> w_ssid before \<or> w_password cfg \<noteq> w_password before"

definition wan_save :: "env \<Rightarrow> string \<Rightarrow> device \<Rightarrow> reply" where
  "wan_save n buf d =
     (let (before, store) = wan_cfg_get (v_wan d); d = d\<lparr>v_wan := store\<rparr> in
      case wan_request buf before of
        Inl msg \<Rightarrow> respond [RespondErr 400 msg] Fail d
      | Inr cfg \<Rightarrow>
          (case wan_cfg_validate cfg of
             Some e \<Rightarrow> respond [RespondErr 400 (wan_error_text e)] Fail d
           | None \<Rightarrow>
               let (err, store) = wan_cfg_save (env_answers n) (ws_nvs (v_wan (env_torn n))) cfg (v_wan d);
                   d = d\<lparr>v_wan := store\<rparr>;
                   ok = (\<lambda>flag. Respond 200 json_type (''{\"ok\":true,\"reboot\":'' @ flag @ ''}''))
               in if err \<noteq> 0 then respond [RespondErr 500 ''Failed to save uplink config''] Fail d
                  else if \<not> radio_changed before cfg then
                    respond [ok ''false''] Ok
                      (d\<lparr>v_link := wan_ports_changed (fst (wan_cfg_get (v_wan d))) (v_link d)\<rparr>)
                  else restart n RESET_INTENT_WAN_SAVE [ok ''true''] d))"

definition wan_post_handler :: "env \<Rightarrow> request \<Rightarrow> device \<Rightarrow> reply" where
  "wan_post_handler n rq = guarded n rq 512 (wan_save n)"

section \<open>Pages\<close>

text \<open>The pages' bytes are built into the image.\<close>

definition send_page :: "string \<Rightarrow> device \<Rightarrow> reply" where
  "send_page page = respond
     [Respond 200 [(''Cache-Control'', ''no-store''), (''Content-Type'', ''text/html'')] page] Ok"

definition index_get_handler :: "env \<Rightarrow> request \<Rightarrow> device \<Rightarrow> reply" where
  "index_get_handler n rq =
     with_login n rq (finish Ok)
       (with_own_password send_default_creds_redirect (finish Ok) (send_page (env_page n ''index'')))"

definition admin_get_handler :: "env \<Rightarrow> request \<Rightarrow> device \<Rightarrow> reply" where
  "admin_get_handler n rq = with_login n rq (finish Ok) (send_page (env_page n ''admin''))"

definition status_get_handler :: "env \<Rightarrow> request \<Rightarrow> device \<Rightarrow> reply" where
  "status_get_handler n rq =
     with_login n rq (finish Ok)
       (with_own_password send_setup_required (finish Ok)
         (reply_json 200 240 (assemble 240
            [Plain ''{\"ssid\":\"'', Escaped (env_ssid n),
             Plain (''\",\"channel\":'' @ decimal (unat (env_channel n)) @ ''}'')])))"

section \<open>The routes that change something\<close>

datatype route = WifiPost | AdminPost | OtaPost | KickPost | LevelPost | SyslogPost | TimePost | WanPost

primrec serve :: "env \<Rightarrow> request \<Rightarrow> route \<Rightarrow> device \<Rightarrow> reply" where
  "serve n rq WifiPost = wifi_post_handler n rq"
| "serve n rq AdminPost = admin_post_handler n rq"
| "serve n rq OtaPost = ota_post_handler n rq"
| "serve n rq KickPost = kick_post_handler n rq"
| "serve n rq LevelPost = logs_level_post_handler n rq"
| "serve n rq SyslogPost = syslog_post_handler n rq"
| "serve n rq TimePost = time_post_handler n rq"
| "serve n rq WanPost = wan_post_handler n rq"

definition content_type :: "route \<Rightarrow> string" where
  "content_type r = (if r = OtaPost then ''application/octet-stream'' else ''application/json'')"

text \<open>
  A request that may act: the administrator's credentials, a password of the administrator's own (but for
  the route that sets one), the expected type and the device's own origin.
\<close>

definition authorised :: "route \<Rightarrow> request \<Rightarrow> (string \<times> string) list \<Rightarrow> device \<Rightarrow> bool" where
  "authorised r rq hs d \<longleftrightarrow>
     fst (check_admin_auth rq (v_auth d)) \<and>
     (r = AdminPost \<or> snd (credentials (v_auth d)) \<noteq> AUTH_CFG_DEFAULT_PASSWORD) \<and>
     typed hs (content_type r) \<and> same_origin hs"

section \<open>Facts\<close>

fun inert :: "effect \<Rightarrow> bool" where
  "inert (Http e) \<longleftrightarrow> True"
| "inert (Drained k) \<longleftrightarrow> True"
| "inert _ \<longleftrightarrow> False"

text \<open>Nothing but the login's cache and the refusal log has moved.\<close>

definition untouched :: "device \<Rightarrow> device \<Rightarrow> bool" where
  "untouched d d' \<longleftrightarrow>
     d' = d\<lparr>v_auth := v_auth d', v_fail := v_fail d'\<rparr> \<and> credentials (v_auth d') = credentials (v_auth d) \<and>
     u_nvs (v_auth d') = u_nvs (v_auth d)"

definition harmless :: "device \<Rightarrow> reply \<Rightarrow> bool" where
  "harmless d = (\<lambda>(es, out, d'). list_all inert es \<and> untouched d d')"

lemma untouched_refl [simp]: "untouched d d"
  by (simp add: untouched_def)

lemma untouched_trans: "untouched a b \<Longrightarrow> untouched b c \<Longrightarrow> untouched a c"
  unfolding untouched_def by (cases a; cases b; cases c) simp

lemma inert_http [simp]: "list_all inert (map Http es)"
  by (simp add: list_all_iff)

lemma harmless_finish [simp]: "harmless d (finish out d)"
  by (simp add: harmless_def finish_def)

lemma harmless_drain [simp]: "harmless d (drain rq d)"
  by (simp add: harmless_def drain_def)

lemma harmless_after: "untouched d d1 \<Longrightarrow> harmless d1 r \<Longrightarrow> harmless d r"
  by (auto simp: harmless_def intro: untouched_trans)

lemma check_untouched: "untouched d (d\<lparr>v_auth := snd (check_admin_auth rq (v_auth d))\<rparr>)"
  by (simp add: untouched_def check_keeps)

lemma default_keeps:
  "fst (auth_cfg_password_is_default a) \<longleftrightarrow> snd (credentials a) = AUTH_CFG_DEFAULT_PASSWORD"
  "credentials (snd (auth_cfg_password_is_default a)) = credentials a"
  "u_nvs (snd (auth_cfg_password_is_default a)) = u_nvs a"
  by (auto simp: auth_cfg_password_is_default_def credentials_def auth_cfg_load_def Let_def split: option.splits prod.splits)

lemma login_gate:
  assumes "\<forall>d. harmless d (refused d)"
    and "fst (check_admin_auth rq (v_auth d)) \<longrightarrow> harmless d (k (d\<lparr>v_auth := snd (check_admin_auth rq (v_auth d))\<rparr>))"
  shows "harmless d (with_login n rq refused k d)"
proof -
  obtain ok a where c: "check_admin_auth rq (v_auth d) = (ok, a)" by fastforce
  let ?d = "d\<lparr>v_auth := a\<rparr>"
  obtain es f where e: "send_auth_error (env_window n) (env_now n) rq (v_fail ?d) = (es, f)" by fastforce
  have "untouched d ?d" using check_untouched [of d rq] c by simp
  then have "untouched d (?d\<lparr>v_fail := f\<rparr>)" by (simp add: untouched_def)
  then have "harmless d (refused (?d\<lparr>v_fail := f\<rparr>))" using assms(1) harmless_after by blast
  then show ?thesis
    using assms(2) c e by (auto simp: with_login_def harmless_def Let_def split: prod.splits)
qed

lemma password_gate:
  assumes "\<forall>d. harmless d (refused d)"
    and "snd (credentials (v_auth d)) \<noteq> AUTH_CFG_DEFAULT_PASSWORD \<longrightarrow>
      harmless d (k (d\<lparr>v_auth := snd (auth_cfg_password_is_default (v_auth d))\<rparr>))"
  shows "harmless d (with_own_password denial refused k d)"
proof -
  obtain dflt a where c: "auth_cfg_password_is_default (v_auth d) = (dflt, a)" by fastforce
  have "untouched d (d\<lparr>v_auth := a\<rparr>)" using default_keeps [of "v_auth d"] c by (simp add: untouched_def)
  then have "harmless d (refused (d\<lparr>v_auth := a\<rparr>))" using assms(1) harmless_after by blast
  then show ?thesis
    using assms(2) c default_keeps(1) [of "v_auth d"]
    by (auto simp: with_own_password_def harmless_def Let_def split: prod.splits)
qed

lemma csrf_gate:
  assumes "\<forall>d. harmless d (refused d)" "fst (csrf_check rq expected) \<longrightarrow> harmless d (k d)"
  shows "harmless d (with_csrf rq expected refused k d)"
  using assms by (auto simp: with_csrf_def harmless_def Let_def split: prod.splits)

lemma default_untouched: "untouched d (d\<lparr>v_auth := snd (auth_cfg_password_is_default (v_auth d))\<rparr>)"
  by (simp add: untouched_def default_keeps)

text \<open>A route with the three gates in front of it does nothing for a request that is not authorised.\<close>

lemma three_gates:
  assumes "headers_are rq hs" "\<forall>d. harmless d (refused d)" "\<forall>d. harmless d (refused' d)"
    and "\<not> (fst (check_admin_auth rq (v_auth d)) \<and> snd (credentials (v_auth d)) \<noteq> AUTH_CFG_DEFAULT_PASSWORD \<and>
        typed hs ty \<and> same_origin hs)"
  shows "harmless d (with_login n rq refused (with_own_password denial refused (with_csrf rq ty refused' k)) d)"
proof (rule login_gate [OF assms(2)], rule impI)
  assume l: "fst (check_admin_auth rq (v_auth d))"
  let ?d = "d\<lparr>v_auth := snd (check_admin_auth rq (v_auth d))\<rparr>"
  have "harmless ?d (with_own_password denial refused (with_csrf rq ty refused' k) ?d)"
  proof (rule password_gate [OF assms(2)], rule impI)
    assume "snd (credentials (v_auth ?d)) \<noteq> AUTH_CFG_DEFAULT_PASSWORD"
    then have "\<not> fst (csrf_check rq ty)"
      using l assms(4) check_keeps(1) [of rq "v_auth d"] csrf_accepts [OF assms(1), of ty] by auto
    then have "harmless d' (with_csrf rq ty refused' k d')" for d' using csrf_gate [OF assms(3)] by blast
    with default_untouched
    show "harmless ?d (with_csrf rq ty refused' k (?d\<lparr>v_auth := snd (auth_cfg_password_is_default (v_auth ?d))\<rparr>))"
      by (rule harmless_after)
  qed
  then show "harmless d (with_own_password denial refused (with_csrf rq ty refused' k) ?d)"
    by (rule harmless_after [OF check_untouched])
qed

lemma two_gates:
  assumes "headers_are rq hs" "\<forall>d. harmless d (refused d)"
    and "\<not> (fst (check_admin_auth rq (v_auth d)) \<and> typed hs ty \<and> same_origin hs)"
  shows "harmless d (with_login n rq refused (with_csrf rq ty refused k) d)"
proof (rule login_gate [OF assms(2)], rule impI)
  assume "fst (check_admin_auth rq (v_auth d))"
  then have "\<not> fst (csrf_check rq ty)" using assms(3) csrf_accepts [OF assms(1), of ty] by auto
  then have "harmless d' (with_csrf rq ty refused k d')" for d' using csrf_gate [OF assms(2)] by blast
  with check_untouched
  show "harmless d (with_csrf rq ty refused k (d\<lparr>v_auth := snd (check_admin_auth rq (v_auth d))\<rparr>))"
    by (rule harmless_after)
qed

lemma harmless_finishes [simp]: "\<forall>d. harmless d (finish out d)" "\<forall>d. harmless d (drain rq d)"
  by simp_all

section \<open>Properties\<close>

text \<open>C3: No request changes anything or makes the device act unless it is authorised: with the
  administrator's credentials, which are not the factory's (but on the route that replaces them), with the
  route's exact content type, and from no other site. Whatever else is sent to these eight routes only
  gets an answer, a line in the log, and its body read off.
\<close>

theorem only_authorised_requests_act:
  assumes "headers_are rq hs" "\<not> authorised r rq hs d" "serve n rq r d = (es, out, d')"
  shows "list_all inert es \<and> untouched d d'"
proof -
  note t = three_gates [OF assms(1)] and u = two_gates [OF assms(1)]
  have "harmless d (serve n rq r d)"
    using assms(2)
    by (cases r) (auto simp: authorised_def content_type_def wifi_post_handler_def admin_post_handler_def
        ota_post_handler_def kick_post_handler_def logs_level_post_handler_def syslog_post_handler_def
        time_post_handler_def wan_post_handler_def guarded_def intro!: t u)
  then show ?thesis using assms(3) by (simp add: harmless_def)
qed

section \<open>Addresses\<close>

text \<open>How the client list shows an address.\<close>

definition mac_text :: "mac \<Rightarrow> string" where
  "mac_text m = tl (concat (map (\<lambda>b. CHR '':'' # hex2 b) (mac_bytes m)))"

lemma hex_digit_plain: "n < 16 \<Longrightarrow> \<not> space (hex_digit n) \<and> hex_digit n \<noteq> CHR ''-'' \<and> hex_digit n \<noteq> CHR ''+''"
  using hex_back [of n] by (auto simp: xdigit_def space_def Let_def)

lemma scan_hex2:
  assumes "q = [] \<or> hd q = CHR '':''"
  shows "scan_hex (hex2 b @ q) = Some (ucast b, q)"
proof -
  let ?h = "unat b div 16" and ?l = "unat b mod 16"
  have b: "unat b < 256" using unsigned_less [of b] by simp
  have d: "xdigit (hex_digit ?h) = Some ?h" "xdigit (hex_digit ?l) = Some ?l" using b by (simp_all add: hex_back)
  have p: "\<not> space (hex_digit ?h)" "hex_digit ?h \<noteq> CHR ''-''" "hex_digit ?h \<noteq> CHR ''+''"
    using hex_digit_plain [of ?h] b by simp_all
  have x: "hex_digit ?l \<noteq> CHR ''x''" "hex_digit ?l \<noteq> CHR ''X''" using d(2) by (auto simp: xdigit_def)
  have t: "takeWhile (\<lambda>c. xdigit c \<noteq> None) q = []" using assms by (cases q) (auto simp: xdigit_def)
  have n: "hex_number [hex_digit ?h, hex_digit ?l] = unat b" using d by (simp add: hex_number_def)
  have "of_nat (unat b) = (ucast b :: u32)" by simp
  then show ?thesis using b d p x t n unfolding scan_hex_def hex2_def by (simp add: Let_def)
qed

lemma ucast_back [simp]: "(ucast (ucast (b :: u8) :: u32) :: u8) = b"
  by (rule bit_word_eqI) (simp add: bit_unsigned_iff)

lemma scan_fields_mac:
  "map_option (map ucast) (scan_fields (length bs) (tl (concat (map (\<lambda>b. CHR '':'' # hex2 b) bs)))) = Some (bs :: u8 list)"
proof (induction bs)
  case (Cons b bs)
  show ?case
  proof (cases bs)
    case Nil
    then show ?thesis using scan_hex2 [of "[]" b] by simp
  next
    case (Cons c cs)
    then have "concat (map (\<lambda>b. CHR '':'' # hex2 b) bs) = CHR '':'' # tl (concat (map (\<lambda>b. CHR '':'' # hex2 b) bs))" by simp
    then show ?thesis
      using scan_hex2 [of "concat (map (\<lambda>b. CHR '':'' # hex2 b) bs)" b] Cons.IH Cons by (auto split: option.splits)
  qed
qed simp

lemma parse_mac_text: "parse_mac (mac_text m) = Some m"
proof -
  have "length (mac_bytes m) = 6" by (cases m) simp
  then obtain vs where v: "scan_fields 6 (mac_text m) = Some vs" "map ucast vs = mac_bytes m"
    using scan_fields_mac [of "mac_bytes m"] by (auto simp: mac_text_def)
  then show ?thesis unfolding parse_mac_def v(1) by (cases m) (auto simp: map_eq_Cons_conv)
qed

section \<open>The firmware update\<close>

text \<open>A loop that goes through has written each chunk it was given, and each write was answered with success.\<close>

lemma ota_loop_done:
  "ota_loop wr remaining rs k = (ops, None) \<Longrightarrow>
     \<exists>j ws. ops = map OtaWrite ws \<and> map Chunk ws = take j rs \<and> (\<forall>i < length ws. wr (k + i) = 0) \<and>
       remaining \<le> int (length (concat ws))"
proof (induction rs arbitrary: remaining k ops)
  case Nil
  then show ?case by (intro exI [of _ 0] exI [of _ "[]"]) (auto simp: ota_loop.simps split: if_splits)
next
  case (Cons r rs)
  show ?case
  proof (cases "remaining \<le> 0")
    case True
    then show ?thesis using Cons.prems by (intro exI [of _ 0] exI [of _ "[]"]) (simp add: ota_loop.simps)
  next
    case False
    then obtain s ops' where s: "r = Chunk s" "ops = OtaWrite s # ops'" "wr k = 0"
        "ota_loop wr (remaining - int (length s)) rs (k + 1) = (ops', None)"
      using Cons.prems by (subst (asm) ota_loop.simps) (auto split: recv_answer.splits if_splits prod.splits)
    from Cons.IH [OF s(4)] obtain j ws where "ops' = map OtaWrite ws" "map Chunk ws = take j rs"
        "\<forall>i < length ws. wr (k + 1 + i) = 0" "remaining - int (length s) \<le> int (length (concat ws))" by blast
    then show ?thesis
      using s(1-3) by (intro exI [of _ "Suc j"] exI [of _ "s # ws"]) (auto simp: less_Suc_eq_0_disj)
  qed
qed

lemma ota_loop_goes_through:
  assumes "\<And>k. wr k = 0"
  shows "'''' \<notin> set ws \<Longrightarrow> remaining \<le> int (length (concat ws)) \<Longrightarrow>
    \<exists>ops. ota_loop wr remaining (map Chunk ws @ rest) k = (ops, None)"
proof (induction ws arbitrary: remaining k)
  case (Cons w ws)
  then obtain ops where "ota_loop wr (remaining - int (length w)) (map Chunk ws @ rest) (k + 1) = (ops, None)"
    by fastforce
  moreover have "w \<noteq> []" using Cons.prems(1) by auto
  ultimately show ?case using assms by (subst ota_loop.simps) simp
qed (subst ota_loop.simps, simp)

lemma no_boot_effects [simp]:
  "Ota OtaSetBoot \<notin> Http ` S" "Restart \<notin> Http ` S" "Restart \<notin> Ota ` T"
  by auto

lemma loop_never_boots: "OtaSetBoot \<notin> set (fst (ota_loop wr remaining rs k))"
  by (induction rs arbitrary: remaining k)
    (subst ota_loop.simps; auto split: recv_answer.splits prod.splits; metis fst_conv)+

text \<open>C20: The boot partition is only ever switched to a complete image: the update was opened for the announced
  length, below two gigabytes, at least that much was received and written, chunk by chunk and in order,
  every one of the writes was answered with success, and the library accepted the whole; and the device
  restarts into it only then, telling its next boot why. Nothing else changes. An upload that arrives whole,
  with every call of the library answered with success, does restart the device.
\<close>

theorem ota_boots_whole_image:
  assumes "ota_update n rq d = (es, out, d')" "rq_content_len rq < 2 ^ 31"
  shows "(Ota OtaSetBoot \<in> set es \<longrightarrow>
      (\<exists>ws rest j. es = Ota (OtaBegin (rq_content_len rq)) # map (Ota \<circ> OtaWrite) ws @ Ota OtaEnd # Ota OtaSetBoot # rest \<and>
        map Chunk ws = take j (rq_recv rq) \<and> rq_content_len rq \<le> length (concat ws) \<and>
        u_begin (env_ota n) = 0 \<and> (\<forall>k < length ws. u_write (env_ota n) k = 0) \<and> u_end (env_ota n) = 0)) \<and>
    (Restart \<in> set es \<longrightarrow> Ota OtaSetBoot \<in> set es \<and> u_set_boot (env_ota n) = 0 \<and>
      v_resets d' = reset_log_note_intent (env_up_us n) RESET_INTENT_OTA (v_resets d)) \<and>
    (Restart \<notin> set es \<longrightarrow> d' = d) \<and>
    (0 < rq_content_len rq \<and> (\<exists>ws rest. rq_recv rq = map Chunk ws @ rest \<and> '''' \<notin> set ws \<and> rq_content_len rq \<le> length (concat ws)) \<and>
       u_partition (env_ota n) \<and> u_begin (env_ota n) = 0 \<and> (\<forall>k. u_write (env_ota n) k = 0) \<and> u_end (env_ota n) = 0 \<and>
       u_set_boot (env_ota n) = 0 \<longrightarrow> Restart \<in> set es)"
proof -
  let ?u = "env_ota n" and ?len = "rq_content_len rq"
  obtain ops failed where l: "ota_loop (u_write ?u) (content_int rq) (rq_recv rq) 0 = (ops, failed)"
    by fastforce
  have c: "content_int rq = int ?len"
    using assms(2) signed_take_bit_int_eq_self [of 31 "int ?len"]
    by (simp add: content_int_def signed_of_nat)
  have nb: "Ota OtaSetBoot \<notin> Ota ` set ops" using loop_never_boots [of "u_write ?u"] l by (metis fst_conv image_iff effect.inject(2))
  have whole: "failed = None"
    if h: "(\<exists>ws rest. rq_recv rq = map Chunk ws @ rest \<and> '''' \<notin> set ws \<and> ?len \<le> length (concat ws)) \<and> (\<forall>k. u_write ?u k = 0)"
  proof -
    obtain ws rest where w: "rq_recv rq = map Chunk ws @ rest" "'''' \<notin> set ws" "?len \<le> length (concat ws)" using h by blast
    have "content_int rq \<le> int (length (concat ws))" using w(3) c by simp
    moreover have "u_write ?u k = 0" for k using h by blast
    ultimately obtain ops' where "ota_loop (u_write ?u) (content_int rq) (map Chunk ws @ rest) 0 = (ops', None)"
      using ota_loop_goes_through [of "u_write ?u", OF _ w(2)] by blast
    then show ?thesis using l unfolding w(1) by simp
  qed
  show ?thesis
  proof (cases failed)
    case None
    obtain j ws where w: "ops = map OtaWrite ws" "map Chunk ws = take j (rq_recv rq)" "\<forall>k < length ws. u_write ?u k = 0"
        "?len \<le> length (concat ws)"
      using ota_loop_done [of "u_write ?u" "content_int rq" "rq_recv rq" 0 ops] l None c by auto
    have boots: "Ota OtaSetBoot \<in> set es \<Longrightarrow> u_begin ?u = 0 \<and> u_end ?u = 0 \<and>
        (\<exists>rest. es = Ota (OtaBegin ?len) # map (Ota \<circ> OtaWrite) ws @ Ota OtaEnd # Ota OtaSetBoot # rest)"
      using assms(1) l None nb w(1)
      by (auto simp: ota_update_def Let_def respond_def restart_def reply_refused_def reply_json_def send_json_def
          json_ok_def split: if_splits option.splits prod.splits)
    moreover have "(Restart \<in> set es \<longrightarrow> Ota OtaSetBoot \<in> set es \<and> u_set_boot ?u = 0 \<and>
        v_resets d' = reset_log_note_intent (env_up_us n) RESET_INTENT_OTA (v_resets d)) \<and> (Restart \<notin> set es \<longrightarrow> d' = d)"
      using assms(1) l None nb
      by (auto simp: ota_update_def Let_def respond_def restart_def reply_refused_def reply_json_def send_json_def
          json_ok_def split: if_splits option.splits prod.splits)
    moreover have "Restart \<in> set es" if "0 < ?len" "u_partition ?u" "u_begin ?u = 0" "u_end ?u = 0" "u_set_boot ?u = 0"
      using assms(1) l None that by (auto simp: ota_update_def Let_def restart_def)
    ultimately show ?thesis using w(2-4) by blast
  next
    case (Some f)
    then have "Ota OtaSetBoot \<notin> set es" "Restart \<notin> set es" "d' = d"
      using assms(1) l nb
      by (cases f; auto simp: ota_update_def Let_def respond_def split: if_splits)+
    then show ?thesis using whole Some by auto
  qed
qed

definition example_device :: device where
  "example_device =
     \<lparr>v_auth = snd (auth_cfg_save [] None ''admin'' ''secret'' factory),
      v_fail = \<lparr>f_unreported = 0, f_last_log = 0, f_logged = False\<rparr>, v_wifi = None,
      v_wan = \<lparr>ws_nvs = None, ws_cache = None\<rparr>, v_link = static_wan,
      v_syslog = \<lparr>y_nvs = None, y_cache = None, y_generation = 0\<rparr>,
      v_clock = \<lparr>k_nvs = None, k_cache = None, k_env = ''UTC0''\<rparr>, v_level = 3, v_resets = first_boot\<rparr>"

definition example_env :: env where
  "example_env =
     \<lparr>env_window = 6000, env_now = 0, env_up_us = 60000000, env_answers = [], env_torn = example_device,
      env_mac = None, env_subnet = (0, 0), env_aton = (\<lambda>_. 0), env_tracker = static_tracker,
      env_aid = (\<lambda>_. None), env_deauth = (\<lambda>_. False),
      env_ota = \<lparr>u_partition = True, u_begin = 0, u_write = (\<lambda>_. 0), u_end = 0, u_set_boot = 0, u_err_name = (\<lambda>_. '''')\<rparr>,
      env_ssid = ''AOG hub'', env_channel = 1, env_page = (\<lambda>_. '''')\<rparr>"

theorem only_authorised_requests_act_witness:
  "let hs = [(''Authorization'', ''Basic '' @ base64_encode ''admin:secret''), (''Content-Type'', ''text/plain'')];
       (es, out, d') = serve example_env (example_request hs ''{\"ssid\":\"mine\"}'') WifiPost example_device
   in list_all inert es \<and> untouched example_device d'"
proof -
  let ?hs = "[(''Authorization'', ''Basic '' @ base64_encode ''admin:secret''), (''Content-Type'', ''text/plain'')]"
  let ?rq = "example_request ?hs ''{\"ssid\":\"mine\"}''"
  obtain es out d' where s: "serve example_env ?rq WifiPost example_device = (es, out, d')" by (rule prod_cases3)
  have "\<not> authorised WifiPost ?rq ?hs example_device"
    by (simp add: authorised_def typed_def content_type_def media_type_def trim_blanks_def blank_def strcaseeq_def tolower_def)
  from only_authorised_requests_act [OF example_headers this s] show ?thesis unfolding Let_def s by simp
qed

theorem ota_boots_whole_image_witness:
  "let (es, out, d') = ota_update example_env (example_request [] ''image'') example_device
   in Ota (OtaWrite ''image'') \<in> set es \<and> Ota OtaSetBoot \<in> set es \<and> Restart \<in> set es"
proof -
  let ?rq = "example_request [] ''image''"
  obtain es out d' where s: "ota_update example_env ?rq example_device = (es, out, d')" by (rule prod_cases3)
  have l: "rq_content_len ?rq < 2 ^ 31" by (simp add: example_request_def)
  note facts = ota_boots_whole_image [OF s l]
  have "0 < rq_content_len ?rq \<and> (\<exists>ws rest. rq_recv ?rq = map Chunk ws @ rest \<and> '''' \<notin> set ws \<and> rq_content_len ?rq \<le> length (concat ws)) \<and>
      u_partition (env_ota example_env) \<and> u_begin (env_ota example_env) = 0 \<and> (\<forall>k. u_write (env_ota example_env) k = 0) \<and>
      u_end (env_ota example_env) = 0 \<and> u_set_boot (env_ota example_env) = 0"
    by (intro conjI exI [of _ "[''image'']"] exI [of _ "[]"]) (simp_all add: example_request_def example_env_def)
  then have r: "Restart \<in> set es" by (rule facts [THEN conjunct2, THEN conjunct2, THEN conjunct2, rule_format])
  then have b: "Ota OtaSetBoot \<in> set es" using facts [THEN conjunct2, THEN conjunct1] by simp
  then obtain ws rest j where w: "es = Ota (OtaBegin (rq_content_len ?rq)) # map (Ota \<circ> OtaWrite) ws @ Ota OtaEnd # Ota OtaSetBoot # rest"
      "map Chunk ws = take j (rq_recv ?rq)" "rq_content_len ?rq \<le> length (concat ws)"
    using facts [THEN conjunct1] by blast
  have "ws = [''image'']" using w(2,3) by (cases j) (auto simp: example_request_def)
  then have "Ota (OtaWrite ''image'') \<in> set es" using w(1) by simp
  then show ?thesis using r b unfolding s by simp
qed



text \<open>
  A new administrator's password of more than 63 characters is not refused, though the validation has
  a message for it: the reader has cut it to 63 by then, the cut one is saved, the request is answered as
  done, and the password that was typed no longer lets anyone in.
\<close>

theorem long_password_cut:
  assumes "buf = pre @ quoted ''new_admin_password'' @ '':\"'' @ json_escaped p @ ''\"'' @ rest"
    and "first_occurrence pre ''new_admin_password'' buf" "uncontrolled p" "63 < length p"
    and "json_get_string buf ''new_admin_user'' AUTH_CFG_USERNAME_MAX_LEN = None"
    and "credentials (v_auth d) = (user, old)" "0 < length user" "length user < 32"
    and "list_all (\<lambda>e. e = 0) (env_answers n)" "admin_save n buf d = (es, out, d')"
  shows "es = [Http json_ok] \<and> credentials (v_auth d') = (user, take 63 p) \<and> credentials (v_auth d') \<noteq> (user, p)"
proof -
  have j: "json_get_string buf ''new_admin_password'' AUTH_CFG_PASSWORD_MAX_LEN = Some (take 63 p)"
    using json_get_string_sent [OF assms(1) _ assms(2,3), of AUTH_CFG_PASSWORD_MAX_LEN] by simp
  obtain c a where l: "auth_cfg_load (v_auth d) = (c, a)" by fastforce
  then have c: "c = (user, old)" using assms(6) by (simp add: credentials_def)
  have ne: "take 63 p \<noteq> ''''" "length (take 63 p) = 63" using assms(4) by auto
  then have r: "admin_request buf c = (user, take 63 p)" using j assms(5) c by (simp add: admin_request_def)
  have "take 63 p \<noteq> AUTH_CFG_DEFAULT_PASSWORD"
  proof
    assume "take 63 p = AUTH_CFG_DEFAULT_PASSWORD"
    then have "length AUTH_CFG_DEFAULT_PASSWORD = 63" using ne(2) by (simp only:)
    then show False by simp
  qed
  then have v: "auth_cfg_validate user (take 63 p) = None"
    using ne(2) assms(7,8) by (simp add: auth_cfg_validate_def)
  let ?torn = "u_nvs (v_auth (env_torn n))"
  obtain err a' where s: "auth_cfg_save (env_answers n) ?torn user (take 63 p) a = (err, a')" by fastforce
  have "err = 0" using s assms(9) first_failure_none [of "env_answers n"] by (auto simp: auth_cfg_save_def Let_def split: if_splits)
  then have "credentials a' = (user, take 63 p)" using auth_cfg_survives(1) [OF v, of "env_answers n" ?torn a a'] s by simp
  moreover have "take 63 p \<noteq> p" using ne(2) assms(4) by auto
  ultimately show ?thesis
    using assms(10) l r v s \<open>err = 0\<close> by (auto simp: admin_save_def respond_def Let_def)
qed

theorem long_password_cut_witness:
  "let buf = ''{'' @ quoted ''new_admin_password'' @ '':\"'' @ json_escaped (replicate 64 CHR ''x'') @ ''\"'' @ ''}'';
       (es, out, d') = admin_save example_env buf example_device
   in es = [Http json_ok] \<and> credentials (v_auth d') = (''admin'', replicate 63 CHR ''x'')"
proof -
  let ?buf = "''{'' @ quoted ''new_admin_password'' @ '':\"'' @ json_escaped (replicate 64 CHR ''x'') @ ''\"'' @ ''}''"
  obtain es out d' where s: "admin_save example_env ?buf example_device = (es, out, d')" by (rule prod_cases3)
  have "auth_cfg_save [] None ''admin'' ''secret'' factory = (0, v_auth example_device)"
    by (simp add: example_device_def auth_cfg_save_def first_failure_def)
  then have c: "credentials (v_auth example_device) = (''admin'', ''secret'')"
    by (rule auth_cfg_survives(1) [rotated]) (simp add: auth_cfg_validate_def)
  have e: "json_escaped (replicate k CHR ''x'') = replicate k CHR ''x''" for k
    by (induction k) (simp_all add: json_escaped_def json_escape_def)
  have u: "json_get_string ?buf ''new_admin_user'' AUTH_CFG_USERNAME_MAX_LEN = None"
    unfolding e by (simp add: json_get_string_def json_value_def strstr.simps quoted_def eval_nat_numeral)
  have "first_occurrence ''{'' ''new_admin_password'' ?buf" "uncontrolled (replicate 64 CHR ''x'')"
    by (simp_all add: first_occurrence_def quoted_def uncontrolled_def list_all_iff)
  from long_password_cut [OF refl this _ u c _ _ _ s]
  show ?thesis unfolding Let_def s by (simp add: example_env_def)
qed

text \<open>A station is kicked by the address the client list shows for it: the text of any address is read
  back as that address.
\<close>

theorem mac_roundtrip:
  shows "parse_mac (mac_text m) = Some m"
  by (rule parse_mac_text)

end
