(* ===== verification/RailWitness.thy ===== *)
theory RailWitness
  imports ResetLog
begin

unbundle bit_operations_syntax

text \<open>
  The rail witness (\<open>main/rail_witness.c\<close>): a pattern left in a spare register of the Ethernet PHY, read back
  at the next boot over two pins driven by hand, tells a reset that kept the supply from a power cycle.
  The PHY is a parameter: what it does at a rising edge of the clock, and how time passes for it.
\<close>

section \<open>The wire\<close>

text \<open>
  What the PHY does at a rising edge, given the level the host drives (\<open>None\<close>: the host has released the
  line): the level the line then has.
\<close>

type_synonym 'p bus = "bool option \<Rightarrow> 'p \<Rightarrow> bool \<times> 'p"

text \<open>The host's side of MDIO: whether the pin is an output, and the level it was last set to; and the PHY.\<close>

record 'p wire =
  w_driving :: bool
  w_level :: bool
  w_phy :: 'p

definition driven :: "'p wire \<Rightarrow> bool option" where
  "driven w = (if w_driving w then Some (w_level w) else None)"

definition mdc_pulse_out :: "'p bus \<Rightarrow> bool \<Rightarrow> 'p wire \<Rightarrow> 'p wire" where
  "mdc_pulse_out clk level w =
     (let w = w\<lparr>w_level := level\<rparr> in w\<lparr>w_phy := snd (clk (driven w) (w_phy w))\<rparr>)"

text \<open>A pin that is an output is not read: \<open>gpio_get_level\<close> gives zero.\<close>

definition mdc_pulse_in :: "'p bus \<Rightarrow> 'p wire \<Rightarrow> bool \<times> 'p wire" where
  "mdc_pulse_in clk w =
     (let (level, p) = clk (driven w) (w_phy w) in (\<not> w_driving w \<and> level, w\<lparr>w_phy := p\<rparr>))"

definition mdio_drive :: "'p wire \<Rightarrow> 'p wire" where
  "mdio_drive w = w\<lparr>w_driving := True\<rparr>"

definition mdio_release :: "'p wire \<Rightarrow> 'p wire" where
  "mdio_release w = w\<lparr>w_driving := False\<rparr>"

text \<open>The highest bit first.\<close>

primrec mdio_write_bits :: "'p bus \<Rightarrow> u32 \<Rightarrow> nat \<Rightarrow> 'p wire \<Rightarrow> 'p wire" where
  "mdio_write_bits clk value 0 w = w"
| "mdio_write_bits clk value (Suc i) w = mdio_write_bits clk value i (mdc_pulse_out clk (bit value i) w)"

definition shift_in :: "u16 \<Rightarrow> bool \<Rightarrow> u16" where
  "shift_in value level = push_bit 1 value OR of_bool level"

primrec mdio_read_bits :: "'p bus \<Rightarrow> nat \<Rightarrow> u16 \<Rightarrow> 'p wire \<Rightarrow> u16 \<times> 'p wire" where
  "mdio_read_bits clk 0 value w = (value, w)"
| "mdio_read_bits clk (Suc n) value w =
     (let (level, w) = mdc_pulse_in clk w in mdio_read_bits clk n (shift_in value level) w)"

definition mdio_read_reg :: "'p bus \<Rightarrow> u8 \<Rightarrow> u8 \<Rightarrow> 'p wire \<Rightarrow> u16 \<times> 'p wire" where
  "mdio_read_reg clk phy_addr reg_addr w =
     (let w = mdio_drive w;
          w = mdio_write_bits clk 0xFFFFFFFF 32 w;
          w = mdio_write_bits clk 1 2 w;
          w = mdio_write_bits clk 2 2 w;
          w = mdio_write_bits clk (ucast (phy_addr AND 0x1F)) 5 w;
          w = mdio_write_bits clk (ucast (reg_addr AND 0x1F)) 5 w;
          w = mdio_release w;
          w = snd (mdc_pulse_in clk w);
          (value, w) = mdio_read_bits clk 16 0 w;
          w = snd (mdc_pulse_in clk w)
      in (value, w))"

section \<open>The probe\<close>

abbreviation PHY_REG_IDR1 :: u8 where "PHY_REG_IDR1 \<equiv> 0x02"
abbreviation PHY_REG_IDR2 :: u8 where "PHY_REG_IDR2 \<equiv> 0x03"
abbreviation PHY_REG_IMR :: u8 where "PHY_REG_IMR \<equiv> 0x1E"
abbreviation PHY_OUI_SMSC :: u32 where "PHY_OUI_SMSC \<equiv> 0x1F0"
abbreviation WITNESS_PATTERN_PRIMARY :: u16 where "WITNESS_PATTERN_PRIMARY \<equiv> 0x8001"
abbreviation WITNESS_PATTERN_FALLBACK :: u16 where "WITNESS_PATTERN_FALLBACK \<equiv> 0x00AA"
abbreviation PHY_ID_POLL_INTERVAL_MS :: nat where "PHY_ID_POLL_INTERVAL_MS \<equiv> 10"
abbreviation PHY_ID_TIMEOUT_MS :: nat where "PHY_ID_TIMEOUT_MS \<equiv> 500"

datatype rail_witness = RAIL_WITNESS_UNKNOWN | RAIL_WITNESS_HELD | RAIL_WITNESS_DROPPED

definition phy_oui :: "u16 \<Rightarrow> u16 \<Rightarrow> u32" where
  "phy_oui id1 id2 = push_bit 6 (ucast id1) OR ucast (drop_bit 10 id2)"

definition phy_responds :: "'p bus \<Rightarrow> u8 \<Rightarrow> 'p wire \<Rightarrow> bool \<times> 'p wire" where
  "phy_responds clk phy_addr w =
     (let (id1, w) = mdio_read_reg clk phy_addr PHY_REG_IDR1 w;
          (id2, w) = mdio_read_reg clk phy_addr PHY_REG_IDR2 w
      in (phy_oui id1 id2 = PHY_OUI_SMSC, w))"

definition imr_verdict :: "u16 \<Rightarrow> rail_witness" where
  "imr_verdict imr =
     (if imr = WITNESS_PATTERN_PRIMARY \<or> imr = WITNESS_PATTERN_FALLBACK then RAIL_WITNESS_HELD
      else if imr = 0 then RAIL_WITNESS_DROPPED
      else RAIL_WITNESS_UNKNOWN)"

text \<open>\<open>wait\<close> is what ten milliseconds do to the PHY.\<close>

function probe_loop :: "'p bus \<Rightarrow> ('p \<Rightarrow> 'p) \<Rightarrow> u8 \<Rightarrow> nat \<Rightarrow> 'p wire \<Rightarrow> rail_witness \<times> 'p wire" where
  "probe_loop clk wait phy_addr waited w =
     (if waited > PHY_ID_TIMEOUT_MS then (RAIL_WITNESS_UNKNOWN, w)
      else let (answered, w) = phy_responds clk phy_addr w in
        if answered then let (imr, w) = mdio_read_reg clk phy_addr PHY_REG_IMR w in (imr_verdict imr, w)
        else probe_loop clk wait phy_addr (waited + PHY_ID_POLL_INTERVAL_MS) (w\<lparr>w_phy := wait (w_phy w)\<rparr>))"
  by pat_completeness auto
termination by (relation "measure (\<lambda>(clk, wait, a, waited, w). 501 - waited)") auto

declare probe_loop.simps [simp del]

text \<open>The configuration is the PHY's address on the bus; the pins are the \<open>clk\<close> of the board.\<close>

definition rail_witness_probe :: "'p bus \<Rightarrow> ('p \<Rightarrow> 'p) \<Rightarrow> u8 option \<Rightarrow> 'p \<Rightarrow> rail_witness \<times> 'p" where
  "rail_witness_probe clk wait cfg p =
     (case cfg of
        None \<Rightarrow> (RAIL_WITNESS_UNKNOWN, p)
      | Some phy_addr \<Rightarrow>
          let (result, w) = probe_loop clk wait phy_addr 0 \<lparr>w_driving = False, w_level = False, w_phy = p\<rparr> in (result, w_phy w))"

text \<open>What \<open>app_main\<close> hands on to the reset history.\<close>

definition rail_of :: "rail_witness \<Rightarrow> reset_rail" where
  "rail_of rail =
     (if rail = RAIL_WITNESS_HELD then RESET_RAIL_HELD
      else if rail = RAIL_WITNESS_DROPPED then RESET_RAIL_DROPPED
      else RESET_RAIL_UNKNOWN)"

section \<open>Arming\<close>

text \<open>The Ethernet driver's register access, once it owns the bus: error code, value read, the driver after.\<close>

record 'd phy_driver =
  drv_write :: "u8 \<Rightarrow> u32 \<Rightarrow> 'd \<Rightarrow> int \<times> 'd"
  drv_read :: "u8 \<Rightarrow> 'd \<Rightarrow> int \<times> u32 \<times> 'd"

record witness =
  rw_pattern :: u16
  rw_handle :: bool
  rw_last_rewrite_us :: int

abbreviation ESP_ERR_NOT_SUPPORTED :: int where "ESP_ERR_NOT_SUPPORTED \<equiv> 0x106"
abbreviation INVALID_ARG :: int where "INVALID_ARG \<equiv> 0x102"
abbreviation REWRITE_INTERVAL_US :: int where "REWRITE_INTERVAL_US \<equiv> 30 * 1000 * 1000"

definition try_pattern :: "'d phy_driver \<Rightarrow> u16 \<Rightarrow> 'd \<Rightarrow> bool \<times> 'd" where
  "try_pattern drv pattern d =
     (let (err, d) = drv_write drv PHY_REG_IMR (ucast pattern) d in
      if err \<noteq> 0 then (False, d)
      else let (err, readback, d) = drv_read drv PHY_REG_IMR d in
        if err \<noteq> 0 then (False, d) else (ucast readback = pattern, d))"

definition rail_witness_arm :: "'d phy_driver \<Rightarrow> bool \<Rightarrow> int \<Rightarrow> 'd \<Rightarrow> witness \<Rightarrow> int \<times> 'd \<times> witness" where
  "rail_witness_arm drv handle now d s =
     (if \<not> handle then (INVALID_ARG, d, s)
      else let s = s\<lparr>rw_handle := True\<rparr>;
               (primary, d) = try_pattern drv WITNESS_PATTERN_PRIMARY d
        in if primary then (0, d, s\<lparr>rw_pattern := WITNESS_PATTERN_PRIMARY, rw_last_rewrite_us := now\<rparr>)
           else let (fallback, d) = try_pattern drv WITNESS_PATTERN_FALLBACK d in
             if fallback then (0, d, s\<lparr>rw_pattern := WITNESS_PATTERN_FALLBACK, rw_last_rewrite_us := now\<rparr>)
             else (ESP_ERR_NOT_SUPPORTED, d, s\<lparr>rw_pattern := 0\<rparr>))"

definition rail_witness_tick :: "'d phy_driver \<Rightarrow> int \<Rightarrow> 'd \<times> witness \<Rightarrow> 'd \<times> witness" where
  "rail_witness_tick drv now = (\<lambda>(d, s).
     if rw_pattern s = 0 \<or> \<not> rw_handle s then (d, s)
     else if now - rw_last_rewrite_us s < REWRITE_INTERVAL_US then (d, s)
     else (snd (drv_write drv PHY_REG_IMR (ucast (rw_pattern s)) d), s\<lparr>rw_last_rewrite_us := now\<rparr>))"

section \<open>A PHY on the bus\<close>

text \<open>
  IEEE 802.3 clause 22, as far as the code relies on it: after 32 ones, a read frame (start 01, opcode 10,
  the PHY's address, the register's, each with its highest bit first) is answered by a zero and the
  register's sixteen bits; one more clock and the PHY is ready for the next frame.
\<close>

primrec clocked :: "'p bus \<Rightarrow> bool option list \<Rightarrow> 'p \<Rightarrow> bool list \<times> 'p" where
  "clocked clk [] p = ([], p)"
| "clocked clk (x # xs) p = (let (level, p) = clk x p; (levels, p) = clocked clk xs p in (level # levels, p))"

definition read_frame :: "u8 \<Rightarrow> u8 \<Rightarrow> bool list" where
  "read_frame a r = replicate 32 True @ [False, True] @ [True, False] @ map (bit a) [4, 3, 2, 1, 0] @ map (bit r) [4, 3, 2, 1, 0]"

text \<open>
  A PHY that needs \<open>left\<close> more polls to come up. Until then it leaves the line to its pull-up.
\<close>

definition phy_on_bus :: "'p bus \<Rightarrow> ('p \<Rightarrow> 'p) \<Rightarrow> u8 \<Rightarrow> ('p \<Rightarrow> nat) \<Rightarrow> ('p \<Rightarrow> u8 \<Rightarrow> u16) \<Rightarrow> bool" where
  "phy_on_bus clk wait addr left reg \<longleftrightarrow>
     addr < 32 \<and>
     (\<forall>p r. left p = 0 \<longrightarrow> r < 32 \<longrightarrow>
        (let (levels, p') = clocked clk (map Some (read_frame addr r) @ replicate 18 None) p in
         take 17 (drop 46 levels) = False # map (bit (reg p r)) (rev [0..<16]) \<and> left p' = 0 \<and> reg p' = reg p)) \<and>
     (\<forall>p x. left p > 0 \<longrightarrow> (x = None \<longrightarrow> fst (clk x p)) \<and> left (snd (clk x p)) = left p \<and> reg (snd (clk x p)) = reg p) \<and>
     (\<forall>p. left (wait p) = left p - 1 \<and> reg (wait p) = reg p)"


lemma clocked_append:
  "clocked clk (xs @ ys) p =
     (let (a, p) = clocked clk xs p; (b, p) = clocked clk ys p in (a @ b, p))"
  by (induction xs arbitrary: p) (simp_all add: Let_def split: prod.splits)

lemma length_clocked [simp]: "length (fst (clocked clk xs p)) = length xs"
  by (induction xs arbitrary: p) (simp_all split: prod.splits, metis fst_conv)

lemma write_bits_clocked:
  assumes "w_driving w"
  shows "w_driving (mdio_write_bits clk v n w) \<and>
    w_phy (mdio_write_bits clk v n w) = snd (clocked clk (map Some (map (bit v) (rev [0..<n]))) (w_phy w))"
  using assms
  by (induction n arbitrary: w) (simp_all add: mdc_pulse_out_def driven_def Let_def split: prod.splits)

lemma read_bits_clocked:
  assumes "\<not> w_driving w"
  shows "mdio_read_bits clk n v w =
    (foldl shift_in v (fst (clocked clk (replicate n None) (w_phy w))),
     w\<lparr>w_phy := snd (clocked clk (replicate n None) (w_phy w))\<rparr>)"
  using assms
  by (induction n arbitrary: w v) (simp_all add: mdc_pulse_in_def driven_def Let_def split: prod.splits)

lemma shift_in_next: "shift_in (drop_bit (Suc n) v) (bit v n) = drop_bit n v"
proof (rule bit_word_eqI)
  fix k
  assume "k < LENGTH(16)"
  then show "bit (shift_in (drop_bit (Suc n) v) (bit v n)) k = bit (drop_bit n v) k"
    unfolding shift_in_def bit_or_iff bit_push_bit_iff bit_drop_bit_eq comp_def
    by (cases k) (auto simp: bit_of_bool_iff)
qed

lemma bits_assembled: "foldl shift_in (drop_bit n v) (map (bit v) (rev [0..<n])) = v"
  by (induction n) (simp_all add: shift_in_next del: bit_drop_bit_eq drop_bit_Suc)

lemma word_assembled: "foldl shift_in 0 (map (bit v) (rev [0..<16])) = v"
proof -
  have "drop_bit 16 v = 0" by (rule bit_eqI) (auto simp: bit_simps dest: bit_imp_le_length)
  then show ?thesis using bits_assembled [of 16 v] by simp
qed


abbreviation read_clocks :: "u8 \<Rightarrow> u8 \<Rightarrow> bool option list" where
  "read_clocks a r \<equiv> map Some (read_frame a r) @ replicate 18 None"

lemma frame_bits:
  "map (bit (0xFFFFFFFF :: u32)) (rev [0..<32]) = replicate 32 True"
  "map (bit (1 :: u32)) (rev [0..<2]) = [False, True]" "map (bit (2 :: u32)) (rev [0..<2]) = [True, False]"
  "map (bit (ucast (a AND 0x1F) :: u32)) (rev [0..<5]) = map (bit (a :: u8)) [4, 3, 2, 1, 0]"
  by (simp_all add: upt_rec bit_simps numeral_eq_Suc)

lemma length_read_frame [simp]: "length (read_frame a r) = 46"
  by (simp add: read_frame_def)

lemma snd_clocked_append: "snd (clocked clk (xs @ ys) p) = snd (clocked clk ys (snd (clocked clk xs p)))"
  by (simp add: clocked_append Let_def split: prod.splits)

lemma read_reg_clocked:
  "mdio_read_reg clk a r w = (v, w') \<Longrightarrow>
   v = foldl shift_in 0 (take 16 (drop 47 (fst (clocked clk (read_clocks a r) (w_phy w))))) \<and>
   w_phy w' = snd (clocked clk (read_clocks a r) (w_phy w)) \<and> \<not> w_driving w'"
proof -
  assume r: "mdio_read_reg clk a r w = (v, w')"
  let ?w5 = "mdio_write_bits clk (ucast (r AND 0x1F)) 5 (mdio_write_bits clk (ucast (a AND 0x1F)) 5
    (mdio_write_bits clk 2 2 (mdio_write_bits clk 1 2 (mdio_write_bits clk 0xFFFFFFFF 32 (mdio_drive w)))))"
  have d: "w_driving (mdio_drive w)" "w_phy (mdio_drive w) = w_phy w" by (simp_all add: mdio_drive_def)
  have "w_phy ?w5 = snd (clocked clk (map Some (read_frame a r)) (w_phy w))"
    using d by (simp only: write_bits_clocked frame_bits read_frame_def map_append snd_clocked_append)
  then have w6: "w_phy (mdio_release ?w5) = snd (clocked clk (map Some (read_frame a r)) (w_phy w))"
      "\<not> w_driving (mdio_release ?w5)"
    by (simp_all add: mdio_release_def)
  let ?w6 = "mdio_release ?w5" and ?w7 = "snd (mdc_pulse_in clk (mdio_release ?w5))"
  have w7: "w_phy ?w7 = snd (clk None (w_phy ?w6))" "\<not> w_driving ?w7"
    using w6(2) by (simp_all add: mdc_pulse_in_def driven_def split: prod.splits)
  obtain l8 p8 where c8: "clocked clk (replicate 16 None) (w_phy ?w7) = (l8, p8)" by fastforce
  have l8: "length l8 = 16" using length_clocked [of clk "replicate 16 None" "w_phy ?w7"] c8 by simp
  have r8: "mdio_read_bits clk 16 0 ?w7 = (foldl shift_in 0 l8, ?w7\<lparr>w_phy := p8\<rparr>)"
    using read_bits_clocked [OF w7(2), of clk 16 0] c8 by simp
  have v: "v = foldl shift_in 0 l8" "w' = snd (mdc_pulse_in clk (?w7\<lparr>w_phy := p8\<rparr>))"
    using r unfolding mdio_read_reg_def Let_def r8 by simp_all
  obtain l6 p6 where c6: "clocked clk (map Some (read_frame a r)) (w_phy w) = (l6, p6)" by fastforce
  have l6: "length l6 = 46" using length_clocked [of clk "map Some (read_frame a r)" "w_phy w"] c6 by simp
  have p6: "w_phy ?w6 = p6" using w6(1) c6 by simp
  obtain t p7 where t: "clk None p6 = (t, p7)" by fastforce
  then have p7: "w_phy ?w7 = p7" using w7(1) p6 by simp
  obtain e p9 where e: "clk None p8 = (e, p9)" by fastforce
  have "replicate 18 None = [None] @ replicate 16 None @ [None :: bool option]"
    by (simp add: numeral_eq_Suc)
  then have "clocked clk (read_clocks a r) (w_phy w) = (l6 @ t # l8 @ [e], p9)"
    using c6 t c8 e p7 by (simp add: clocked_append)
  moreover have "w_phy w' = p9" "\<not> w_driving w'"
    using v(2) w7(2) e by (simp_all add: mdc_pulse_in_def driven_def)
  ultimately show ?thesis using v(1) l6 l8 by simp
qed


lemma phy_onD:
  assumes "phy_on_bus clk wait a left reg"
  shows "left p = 0 \<Longrightarrow> r < 32 \<Longrightarrow> clocked clk (read_clocks a r) p = (levels, p') \<Longrightarrow>
      take 17 (drop 46 levels) = False # map (bit (reg p r)) (rev [0..<16]) \<and> left p' = 0 \<and> reg p' = reg p"
    and "left p > 0 \<Longrightarrow> clk x p = (level, q) \<Longrightarrow> (x = None \<longrightarrow> level) \<and> left q = left p \<and> reg q = reg p"
    and "left (wait p) = left p - 1" "reg (wait p) = reg p"
proof -
  assume l: "left p = 0" "r < 32" and c: "clocked clk (read_clocks a r) p = (levels, p')"
  have "\<forall>p r. left p = 0 \<longrightarrow> r < 32 \<longrightarrow>
      (let (levels, p') = clocked clk (read_clocks a r) p in
       take 17 (drop 46 levels) = False # map (bit (reg p r)) (rev [0..<16]) \<and> left p' = 0 \<and> reg p' = reg p)"
    using assms unfolding phy_on_bus_def by blast
  from this [rule_format, OF l]
  show "take 17 (drop 46 levels) = False # map (bit (reg p r)) (rev [0..<16]) \<and> left p' = 0 \<and> reg p' = reg p"
    unfolding c by simp
next
  assume l: "left p > 0" and c: "clk x p = (level, q)"
  have "\<forall>p x. left p > 0 \<longrightarrow> (x = None \<longrightarrow> fst (clk x p)) \<and> left (snd (clk x p)) = left p \<and> reg (snd (clk x p)) = reg p"
    using assms unfolding phy_on_bus_def by blast
  from this [rule_format, OF l, of x] show "(x = None \<longrightarrow> level) \<and> left q = left p \<and> reg q = reg p"
    unfolding c by auto
next
  show "left (wait p) = left p - 1" "reg (wait p) = reg p" using assms unfolding phy_on_bus_def by blast+
qed

lemma reads_register:
  assumes "phy_on_bus clk wait a left reg" "left (w_phy w) = 0" "r < 32" "mdio_read_reg clk a r w = (v, w')"
  shows "v = reg (w_phy w) r \<and> left (w_phy w') = 0 \<and> reg (w_phy w') = reg (w_phy w)"
proof -
  obtain levels p' where c: "clocked clk (read_clocks a r) (w_phy w) = (levels, p')" by fastforce
  have "take 17 (drop 46 levels) = False # map (bit (reg (w_phy w) r)) (rev [0..<16]) \<and> left p' = 0 \<and> reg p' = reg (w_phy w)"
    by (rule phy_onD(1) [OF assms(1-3) c])
  moreover have "take 16 (drop 47 levels) = tl (take 17 (drop 46 levels))"
    using drop_Suc [of 46 levels] by (simp add: tl_take tl_drop)
  ultimately show ?thesis
    using read_reg_clocked [OF assms(4)] c word_assembled by simp
qed

lemma silent_clocked:
  assumes "phy_on_bus clk wait a left reg" "left p > 0"
  shows "left (snd (clocked clk xs p)) = left p \<and> reg (snd (clocked clk xs p)) = reg p \<and>
    list_all2 (\<lambda>x level. x = None \<longrightarrow> level) xs (fst (clocked clk xs p))"
  using assms(2)
proof (induction xs arbitrary: p)
  case Nil
  then show ?case by simp
next
  case (Cons x xs)
  obtain level q where s: "clk x p = (level, q)" by fastforce
  have q: "(x = None \<longrightarrow> level) \<and> left q = left p \<and> reg q = reg p"
    by (rule phy_onD(2) [OF assms(1) Cons.prems s])
  then have "left q > 0" using Cons.prems by simp
  from Cons.IH [OF this] show ?case using s q by (cases "clocked clk xs q") auto
qed

lemma reads_silence:
  assumes "phy_on_bus clk wait a left reg" "left (w_phy w) > 0" "mdio_read_reg clk a r w = (v, w')"
  shows "v = 0xFFFF \<and> left (w_phy w') = left (w_phy w) \<and> reg (w_phy w') = reg (w_phy w)"
proof -
  obtain levels p' where c: "clocked clk (read_clocks a r) (w_phy w) = (levels, p')" by fastforce
  have s: "left p' = left (w_phy w) \<and> reg p' = reg (w_phy w) \<and>
      list_all2 (\<lambda>x level. x = None \<longrightarrow> level) (read_clocks a r) levels"
    using silent_clocked [OF assms(1,2), of "read_clocks a r"] c by simp
  from s have "list_all2 (\<lambda>x level. x = None \<longrightarrow> level) (take 16 (drop 47 (read_clocks a r))) (take 16 (drop 47 levels))"
    by (intro list_all2_takeI list_all2_dropI) blast
  then have "list_all2 (\<lambda>x level. x = None \<longrightarrow> level) (replicate 16 (None :: bool option)) (take 16 (drop 47 levels))" by simp
  then have "length (take 16 (drop 47 levels)) = 16 \<and> (\<forall>i<16. take 16 (drop 47 levels) ! i)"
    by (simp only: list_all2_conv_all_nth length_replicate) simp
  then have "take 16 (drop 47 levels) = replicate 16 True" by (intro nth_equalityI) simp_all
  then have "v = foldl shift_in 0 (replicate 16 True)" "w_phy w' = p'"
    using read_reg_clocked [OF assms(3)] c by simp_all
  moreover have "foldl shift_in 0 (replicate 16 True) = 0xFFFF" by (simp add: shift_in_def numeral_eq_Suc)
  ultimately show ?thesis using s by simp
qed


section \<open>What the probe tells\<close>

lemma idle_bus [simp]: "phy_oui 0xFFFF 0xFFFF \<noteq> PHY_OUI_SMSC"
  by (simp add: phy_oui_def)

lemma responds_if_up:
  assumes "phy_on_bus clk wait a left reg" "phy_responds clk a w = (ok, w')"
  shows "ok = (left (w_phy w) = 0 \<and> phy_oui (reg (w_phy w) PHY_REG_IDR1) (reg (w_phy w) PHY_REG_IDR2) = PHY_OUI_SMSC) \<and>
    left (w_phy w') = left (w_phy w) \<and> reg (w_phy w') = reg (w_phy w)"
proof -
  obtain id1 w1 where r1: "mdio_read_reg clk a PHY_REG_IDR1 w = (id1, w1)" by fastforce
  obtain id2 w2 where r2: "mdio_read_reg clk a PHY_REG_IDR2 w1 = (id2, w2)" by fastforce
  have o: "ok = (phy_oui id1 id2 = PHY_OUI_SMSC)" "w' = w2" using assms(2) r1 r2 by (auto simp: phy_responds_def)
  show ?thesis
  proof (cases "left (w_phy w) = 0")
    case True
    then show ?thesis
      using o reads_register [OF assms(1) True _ r1] reads_register [OF assms(1) _ _ r2] by simp
  next
    case False
    then show ?thesis
      using o reads_silence [OF assms(1) _ r1] reads_silence [OF assms(1) _ r2] by simp
  qed
qed

lemma probe_loop_tells:
  assumes "phy_on_bus clk wait a left reg"
    and "phy_oui (reg (w_phy w) PHY_REG_IDR1) (reg (w_phy w) PHY_REG_IDR2) = PHY_OUI_SMSC"
  shows "fst (probe_loop clk wait a waited w) =
    (if waited + 10 * left (w_phy w) \<le> PHY_ID_TIMEOUT_MS then imr_verdict (reg (w_phy w) PHY_REG_IMR)
     else RAIL_WITNESS_UNKNOWN)"
  using assms(2)
proof (induction "left (w_phy w)" arbitrary: waited w)
  case 0
  obtain ok w' where r: "phy_responds clk a w = (ok, w')" by fastforce
  have u: "ok" "left (w_phy w') = 0" "reg (w_phy w') = reg (w_phy w)"
    using responds_if_up [OF assms(1) r] 0 by simp_all
  obtain imr w'' where m: "mdio_read_reg clk a PHY_REG_IMR w' = (imr, w'')" by fastforce
  have "imr = reg (w_phy w) PHY_REG_IMR" using reads_register [OF assms(1) u(2) _ m] u(3) by simp
  then show ?case using r u(1) m 0(1) by (subst probe_loop.simps) simp
next
  case (Suc n)
  obtain ok w' where r: "phy_responds clk a w = (ok, w')" by fastforce
  have u: "\<not> ok" "left (w_phy w') = Suc n" "reg (w_phy w') = reg (w_phy w)"
    using responds_if_up [OF assms(1) r] Suc(2) by simp_all
  let ?w = "w'\<lparr>w_phy := wait (w_phy w')\<rparr>"
  have w: "n = left (w_phy ?w)" "reg (w_phy ?w) = reg (w_phy w)"
    using phy_onD(3,4) [OF assms(1), of "w_phy w'"] u by simp_all
  have "fst (probe_loop clk wait a (waited + 10) ?w) =
      (if waited + 10 + 10 * n \<le> PHY_ID_TIMEOUT_MS then imr_verdict (reg (w_phy w) PHY_REG_IMR) else RAIL_WITNESS_UNKNOWN)"
    using Suc(1) [OF w(1), of "waited + 10"] Suc(3) w by simp
  then show ?case using r u(1) Suc(2) by (subst probe_loop.simps) auto
qed

lemma probe_tells:
  assumes "phy_on_bus clk wait a left reg"
    and "phy_oui (reg p PHY_REG_IDR1) (reg p PHY_REG_IDR2) = PHY_OUI_SMSC"
  shows "fst (rail_witness_probe clk wait (Some a) p) =
    (if 10 * left p \<le> PHY_ID_TIMEOUT_MS then imr_verdict (reg p PHY_REG_IMR) else RAIL_WITNESS_UNKNOWN)"
  using probe_loop_tells [OF assms(1), of "\<lparr>w_driving = False, w_level = False, w_phy = p\<rparr>" 0] assms(2)
  by (cases "probe_loop clk wait a 0 \<lparr>w_driving = False, w_level = False, w_phy = p\<rparr>")
    (simp add: rail_witness_probe_def)

text \<open>
  The driver's access to a register that keeps, of what is written, the bits of \<open>kept\<close>.
\<close>

definition keeps_bits :: "'d phy_driver \<Rightarrow> ('d \<Rightarrow> u16) \<Rightarrow> u16 \<Rightarrow> bool" where
  "keeps_bits drv imr kept \<longleftrightarrow>
     (\<forall>v d. fst (drv_write drv PHY_REG_IMR v d) = 0 \<and> imr (snd (drv_write drv PHY_REG_IMR v d)) = ucast v AND kept) \<and>
     (\<forall>d. drv_read drv PHY_REG_IMR d = (0, ucast (imr d), d))"

lemma read_back [simp]: "ucast (ucast (v :: u16) :: u32) = v"
  by (rule bit_word_eqI) (simp add: bit_simps)

lemma try_keeps:
  assumes "keeps_bits drv imr kept" "try_pattern drv v d = (ok, d')"
  shows "imr d' = v AND kept \<and> ok = (v AND kept = v)"
proof -
  obtain e d1 where w: "drv_write drv PHY_REG_IMR (ucast v) d = (e, d1)" by fastforce
  have "fst (drv_write drv PHY_REG_IMR (ucast v) d) = 0 \<and>
      imr (snd (drv_write drv PHY_REG_IMR (ucast v) d)) = ucast (ucast v :: u32) AND kept"
    using assms(1) unfolding keeps_bits_def by blast
  then have "e = 0" "imr d1 = v AND kept" using w by simp_all
  moreover have "drv_read drv PHY_REG_IMR d1 = (0, ucast (imr d1), d1)"
    using assms(1) unfolding keeps_bits_def by blast
  ultimately show ?thesis using assms(2) w by (auto simp: try_pattern_def)
qed

lemma arm_keeps:
  assumes "keeps_bits drv imr kept" "rail_witness_arm drv True now d s = (err, d', s')"
  shows "if kept AND 0x8001 = 0x8001 then err = 0 \<and> rw_pattern s' = 0x8001 \<and> imr d' = 0x8001
    else if kept AND 0x00AA = 0x00AA then err = 0 \<and> rw_pattern s' = 0x00AA \<and> imr d' = 0x00AA
    else err = ESP_ERR_NOT_SUPPORTED \<and> rw_pattern s' = 0 \<and> imr d' = 0x00AA AND kept"
proof -
  obtain ok1 d1 where t1: "try_pattern drv 0x8001 d = (ok1, d1)" by fastforce
  obtain ok2 d2 where t2: "try_pattern drv 0x00AA d1 = (ok2, d2)" by fastforce
  show ?thesis
    using assms(2) try_keeps [OF assms(1) t1] try_keeps [OF assms(1) t2]
    by (auto simp: rail_witness_arm_def Let_def t1 t2 and.commute split: if_splits)
qed


section \<open>What the history is told\<close>

lemma rail_recorded:
  "has_flag (new_record b r s) RESET_LOG_F_RAIL_KNOWN \<longleftrightarrow> b_rail b \<noteq> RESET_RAIL_UNKNOWN"
  "has_flag (new_record b r s) RESET_LOG_F_RAIL_HELD \<longleftrightarrow> b_rail b = RESET_RAIL_HELD"
proof -
  let ?rail = "{RESET_LOG_F_RAIL_KNOWN, RESET_LOG_F_RAIL_HELD}"
  have i: "f \<in> ?rail \<Longrightarrow> has_flag (image_flags b ring e) f = has_flag e f" for f ring e
    by (auto simp: image_flags_def Let_def flag_defs split: option.split prod.split)
  have p: "f \<in> ?rail \<Longrightarrow> has_flag (prev_boot r s e) f = has_flag e f" for f e
    by (auto simp: prev_boot_def Let_def flag_defs split: option.split)
  let ?z = "zero_entry\<lparr>e_reason := b_reason b\<rparr>"
  let ?e = "case b_now b of None \<Rightarrow> ?z
      | Some now \<Rightarrow> set_flag RESET_LOG_F_BOOT_TIME ?z\<lparr>e_boot_epoch := now - of_nat (b_up_us b div 1000000)\<rparr>"
  have e: "f \<in> ?rail \<Longrightarrow> \<not> has_flag ?e f" for f
    by (auto simp: zero_entry_def has_flag_def set_flag_def flag_defs split: option.split)
  have "new_record b r s = image_flags b (g_ring s) ((rail_flags (b_rail b) (prev_boot r s ?e))
      \<lparr>e_version := field_str RESET_LOG_VERSION_MAX (b_version b)\<rparr>)"
    by (simp only: new_record_def Let_def)
  then have n: "f \<in> ?rail \<Longrightarrow> has_flag (new_record b r s) f = has_flag (rail_flags (b_rail b) (prev_boot r s ?e)) f" for f
    using i by simp
  have "\<not> has_flag (prev_boot r s ?e) RESET_LOG_F_RAIL_KNOWN" "\<not> has_flag (prev_boot r s ?e) RESET_LOG_F_RAIL_HELD"
    using e p by blast+
  then show "has_flag (new_record b r s) RESET_LOG_F_RAIL_KNOWN \<longleftrightarrow> b_rail b \<noteq> RESET_RAIL_UNKNOWN"
    "has_flag (new_record b r s) RESET_LOG_F_RAIL_HELD \<longleftrightarrow> b_rail b = RESET_RAIL_HELD"
    using n [of RESET_LOG_F_RAIL_KNOWN] n [of RESET_LOG_F_RAIL_HELD]
    by (simp_all add: rail_flags_def Let_def flag_defs)
qed

lemma boot_recorded:
  assumes "reset_log_init (b\<lparr>b_rail := rail\<rparr>) (reset_chip rtc s) = (err, s')" "b_mutex b"
  shows "\<exists>e. reset_log_get_current s' = Some e \<and>
    (has_flag e RESET_LOG_F_RAIL_KNOWN \<longleftrightarrow> rail \<noteq> RESET_RAIL_UNKNOWN) \<and>
    (has_flag e RESET_LOG_F_RAIL_HELD \<longleftrightarrow> rail = RESET_RAIL_HELD)"
  using init_current [OF assms(1)] assms(2) by (simp add: rail_recorded)

lemma tick_keeps:
  assumes "keeps_bits drv imr kept" "rw_pattern s AND kept = rw_pattern s" "imr d = rw_pattern s"
  shows "imr (fst (rail_witness_tick drv now (d, s))) = rw_pattern s \<and>
    rw_pattern (snd (rail_witness_tick drv now (d, s))) = rw_pattern s"
proof -
  have "imr (snd (drv_write drv PHY_REG_IMR (ucast (rw_pattern s)) d)) = ucast (ucast (rw_pattern s) :: u32) AND kept"
    using assms(1) unfolding keeps_bits_def by blast
  then show ?thesis using assms(2,3) by (simp add: rail_witness_tick_def)
qed

lemma ticks_keep:
  assumes "keeps_bits drv imr kept" "rw_pattern s AND kept = rw_pattern s" "imr d = rw_pattern s"
  shows "imr (fst (fold (rail_witness_tick drv) ts (d, s))) = rw_pattern s"
  using assms(2,3)
proof (induction ts arbitrary: d s)
  case Nil
  then show ?case by simp
next
  case (Cons t ts)
  obtain d' s' where t: "rail_witness_tick drv t (d, s) = (d', s')" by fastforce
  then show ?case using tick_keeps [OF assms(1) Cons.prems, of t] Cons.IH [of s' d'] Cons.prems(1) by simp
qed

section \<open>Properties\<close>

text \<open>C37: On a board whose PHY holds one of the two patterns, the next boot's record tells what the supply did:
  the witness is known, and held exactly if the register came through the reset; with any number of
  rewrites in between, read over the two pins from a PHY that takes up to half a second to come up.
\<close>

theorem rail_told:
  assumes "keeps_bits drv imr kept" "kept AND 0x8001 = 0x8001 \<or> kept AND 0x00AA = 0x00AA"
    and "rail_witness_arm drv True now d w = (err, d1, w1)" "fold (rail_witness_tick drv) ts (d1, w1) = (d2, w2)"
    and "phy_on_bus clk wait a left reg" "phy_oui (reg p PHY_REG_IDR1) (reg p PHY_REG_IDR2) = PHY_OUI_SMSC"
    and "left p \<le> 50" "reg p PHY_REG_IMR = (if held then imr d2 else 0)" "b_mutex b"
    and "reset_log_init (b\<lparr>b_rail := rail_of (fst (rail_witness_probe clk wait (Some a) p))\<rparr>) (reset_chip rtc s) = (e', s')"
  shows "err = 0 \<and> (\<exists>e. reset_log_get_current s' = Some e \<and> has_flag e RESET_LOG_F_RAIL_KNOWN \<and>
    (has_flag e RESET_LOG_F_RAIL_HELD \<longleftrightarrow> held))"
proof -
  have w1: "err = 0" "rw_pattern w1 \<in> {0x8001, 0x00AA}" "imr d1 = rw_pattern w1" "rw_pattern w1 AND kept = rw_pattern w1"
    using arm_keeps [OF assms(1,3)] assms(2) by (auto simp: and.commute split: if_splits)
  then have "imr d2 = rw_pattern w1" using ticks_keep [OF assms(1) w1(4,3), of ts] assms(4) by simp
  then have "fst (rail_witness_probe clk wait (Some a) p) = (if held then RAIL_WITNESS_HELD else RAIL_WITNESS_DROPPED)"
    using probe_tells [OF assms(5,6)] assms(7,8) w1(2) by (auto simp: imr_verdict_def)
  then have "rail_of (fst (rail_witness_probe clk wait (Some a) p)) =
      (if held then RESET_RAIL_HELD else RESET_RAIL_DROPPED)"
    by (simp add: rail_of_def)
  then show ?thesis using boot_recorded [OF assms(10,9)] w1(1) by (auto split: if_splits)
qed

text \<open>
  On a board whose PHY holds neither pattern, arming fails, and every later boot all the same claims to know:
  the register it reads is zero, and a reset that kept the supply is put down as a loss of power.
\<close>

theorem unarmed_board_blames_supply:
  assumes "keeps_bits drv imr kept" "kept AND 0x8001 \<noteq> 0x8001" "kept AND 0x00AA = 0"
    and "rail_witness_arm drv True now d w = (err, d1, w1)"
    and "phy_on_bus clk wait a left reg" "phy_oui (reg p PHY_REG_IDR1) (reg p PHY_REG_IDR2) = PHY_OUI_SMSC"
    and "left p \<le> 50" "reg p PHY_REG_IMR = imr d1" "b_mutex b"
    and "reset_log_init (b\<lparr>b_rail := rail_of (fst (rail_witness_probe clk wait (Some a) p))\<rparr>) (reset_chip rtc s) = (e', s')"
  shows "err = ESP_ERR_NOT_SUPPORTED \<and> (\<exists>e. reset_log_get_current s' = Some e \<and>
    has_flag e RESET_LOG_F_RAIL_KNOWN \<and> \<not> has_flag e RESET_LOG_F_RAIL_HELD)"
proof -
  have k: "kept AND 0x00AA \<noteq> 0x00AA" using assms(3) by simp
  have w1: "err = ESP_ERR_NOT_SUPPORTED" "imr d1 = 0"
    using arm_keeps [OF assms(1,4)] assms(2,3) k by (simp_all add: and.commute)
  then have "fst (rail_witness_probe clk wait (Some a) p) = RAIL_WITNESS_DROPPED"
    using probe_tells [OF assms(5,6)] assms(7,8) by (simp add: imr_verdict_def)
  then show ?thesis using boot_recorded [OF assms(10,9)] w1(1) by (simp add: rail_of_def)
qed


section \<open>A PHY\<close>

text \<open>
  One that follows the standard: what it has seen driven since the line was last released, how many clocks
  it has been released for, the polls it still needs to come up, its registers.
\<close>

type_synonym phy = "bool list \<times> nat \<times> nat \<times> (u8 \<Rightarrow> u16)"

definition phy_answer :: "u8 \<Rightarrow> bool list \<Rightarrow> nat \<Rightarrow> (u8 \<Rightarrow> u16) \<Rightarrow> bool" where
  "phy_answer a seen k reg =
     (let frame = drop (length seen - 46) seen;
          r = foldl (\<lambda>v b. 2 * v + of_bool b) 0 (drop 41 frame) :: u8
      in if frame \<noteq> read_frame a r then True
         else if k = 0 then False else if k \<le> 16 then bit (reg r) (16 - k) else True)"

definition phy_clk :: "u8 \<Rightarrow> phy bus" where
  "phy_clk a x = (\<lambda>(seen, k, left, reg). (case x of
     Some b \<Rightarrow> (b, (if k = 0 then seen @ [b] else [b], 0, left, reg))
   | None \<Rightarrow> (left > 0 \<or> phy_answer a seen k reg, (seen, k + 1, left, reg))))"

definition phy_wait :: "phy \<Rightarrow> phy" where
  "phy_wait = (\<lambda>(seen, k, left, reg). (seen, k, left - 1, reg))"

definition phy_left :: "phy \<Rightarrow> nat" where
  "phy_left = (\<lambda>(seen, k, left, reg). left)"

definition phy_reg :: "phy \<Rightarrow> u8 \<Rightarrow> u16" where
  "phy_reg = (\<lambda>(seen, k, left, reg). reg)"

lemma phy_driven: "clocked (phy_clk a) (map Some xs) (seen, 0, l, g) = (xs, (seen @ xs, 0, l, g))"
  by (induction xs arbitrary: seen) (simp_all add: phy_clk_def)

lemma phy_released:
  "clocked (phy_clk a) (replicate n None) (seen, k, 0, g) = (map (\<lambda>j. phy_answer a seen j g) [k..<k + n], (seen, k + n, 0, g))"
  by (induction n arbitrary: k) (simp_all add: phy_clk_def upt_conv_Cons del: upt_Suc)

lemma register_number:
  assumes "r < 32"
  shows "foldl (\<lambda>v b. 2 * v + of_bool b) 0 (map (bit r) [4, 3, 2, 1, 0]) = (r :: u8)"
proof -
  have "\<forall>n<32. foldl (\<lambda>v b. 2 * v + of_bool b) 0 (map (bit (of_nat n :: u8)) [4, 3, 2, 1, 0]) = (of_nat n :: u8)"
    by (simp add: numeral_eq_Suc All_less_Suc2)
  moreover have "unat r < 32" using assms by (simp add: word_less_nat_alt)
  ultimately have "foldl (\<lambda>v b. 2 * v + of_bool b) 0 (map (bit (of_nat (unat r) :: u8)) [4, 3, 2, 1, 0]) = (of_nat (unat r) :: u8)"
    by blast
  then show ?thesis by (simp del: list.map foldl_Cons)
qed

lemma phy_answers:
  assumes "r < 32" "drop (length seen - 46) seen = read_frame a r"
  shows "map (\<lambda>j. phy_answer a seen j g) [0..<17] = False # map (bit (g r)) (rev [0..<16])"
proof -
  have "drop 41 (read_frame a r) = map (bit r) [4, 3, 2, 1, 0]" by (simp add: read_frame_def)
  then have "foldl (\<lambda>v b. 2 * v + of_bool b) 0 (drop 41 (read_frame a r)) = r"
    using register_number [OF assms(1)] by (simp only:)
  then have "phy_answer a seen j g = (if j = 0 then False else if j \<le> 16 then bit (g r) (16 - j) else True)" for j
    using assms(2) by (simp add: phy_answer_def Let_def)
  then show ?thesis by (intro nth_equalityI) (auto simp: nth_Cons rev_nth split: nat.split)
qed

lemma phy_conforms:
  assumes "a < 32"
  shows "phy_on_bus (phy_clk a) phy_wait a phy_left phy_reg"
proof -
  have "take 17 (drop 46 levels) = False # map (bit (phy_reg p r)) (rev [0..<16]) \<and> phy_left p' = 0 \<and> phy_reg p' = phy_reg p"
    if up: "phy_left p = 0" and r: "r < 32" and l: "clocked (phy_clk a) (read_clocks a r) p = (levels, p')" for p r levels p'
  proof -
    obtain seen k g where p: "p = (seen, k, 0, g)" using up by (cases p) (auto simp: phy_left_def)
    obtain rest where rest: "read_frame a r = True # rest" by (simp add: read_frame_def numeral_eq_Suc)
    let ?seen = "(if k = 0 then seen else []) @ read_frame a r"
    have "clocked (phy_clk a) (map Some (read_frame a r)) p = (read_frame a r, (?seen, 0, 0, g))"
      unfolding rest p using phy_driven by (simp add: phy_clk_def)
    then have c: "levels = read_frame a r @ map (\<lambda>j. phy_answer a ?seen j g) [0..<18]" "p' = (?seen, 18, 0, g)"
      using l phy_released [of a 18 ?seen 0 g] by (simp_all add: clocked_append)
    have s: "drop (length ?seen - 46) ?seen = read_frame a r" by simp
    have "take 17 (drop 46 levels) = map (\<lambda>j. phy_answer a ?seen j g) [0..<17]"
      using c(1) by (simp add: take_map)
    also have "\<dots> = False # map (bit (g r)) (rev [0..<16])" by (rule phy_answers [OF r s])
    finally show ?thesis using c(2) p by (simp add: phy_left_def phy_reg_def)
  qed
  then show ?thesis
    using assms unfolding phy_on_bus_def
    by (auto simp: phy_clk_def phy_wait_def phy_left_def phy_reg_def split: option.splits)
qed


text \<open>The LAN8720A of this board, whose register keeps the bits of \<open>kept\<close>; and the pins of one that still needs
  three polls.\<close>

definition lan8720 :: "u16 \<Rightarrow> u16 phy_driver" where
  "lan8720 kept =
     \<lparr>drv_write = (\<lambda>r v d. (0, if r = PHY_REG_IMR then ucast v AND kept else d)),
      drv_read = (\<lambda>r d. (0, ucast d, d))\<rparr>"

lemma lan8720_keeps: "keeps_bits (lan8720 kept) (\<lambda>d. d) kept"
  by (simp add: keeps_bits_def lan8720_def)

definition cold_phy :: "u16 \<Rightarrow> phy" where
  "cold_phy imr = ([], 0, 3, \<lambda>r. if r = PHY_REG_IDR1 then 0x0007 else if r = PHY_REG_IDR2 then 0xC0F1
     else if r = PHY_REG_IMR then imr else 0)"

lemma cold_phy_simps:
  "phy_left (cold_phy imr) \<le> 50" "phy_reg (cold_phy imr) PHY_REG_IMR = imr"
  "phy_oui (phy_reg (cold_phy imr) PHY_REG_IDR1) (phy_reg (cold_phy imr) PHY_REG_IDR2) = PHY_OUI_SMSC"
  by (simp_all add: cold_phy_def phy_left_def phy_reg_def phy_oui_def)

definition unarmed :: witness where
  "unarmed = \<lparr>rw_pattern = 0, rw_handle = False, rw_last_rewrite_us = 0\<rparr>"

theorem rail_told_witness:
  "let rail = rail_of (fst (rail_witness_probe (phy_clk 1) phy_wait (Some 1) (cold_phy 0x8001)));
       s' = snd (reset_log_init (example_boot\<lparr>b_rail := rail\<rparr>) (reset_chip blank_rtc first_boot))
   in \<exists>e. reset_log_get_current s' = Some e \<and> has_flag e RESET_LOG_F_RAIL_KNOWN \<and> has_flag e RESET_LOG_F_RAIL_HELD"
proof -
  have m: "b_mutex example_boot" by (simp add: example_boot_def)
  have k: "(0x80FF :: u16) AND 0x8001 = 0x8001 \<or> (0x80FF :: u16) AND 0x00AA = 0x00AA" by simp
  have a: "rail_witness_arm (lan8720 0x80FF) True 0 0 unarmed = (0, 0x8001, \<lparr>rw_pattern = 0x8001, rw_handle = True, rw_last_rewrite_us = 0\<rparr>)"
    by (simp add: rail_witness_arm_def try_pattern_def lan8720_def unarmed_def)
  have f: "fold (rail_witness_tick (lan8720 0x80FF)) [1000000, 31000000] (0x8001, \<lparr>rw_pattern = 0x8001, rw_handle = True, rw_last_rewrite_us = 0\<rparr>)
      = (0x8001, \<lparr>rw_pattern = 0x8001, rw_handle = True, rw_last_rewrite_us = 31000000\<rparr>)"
    by (simp add: rail_witness_tick_def lan8720_def)
  have p: "phy_on_bus (phy_clk 1) phy_wait 1 phy_left phy_reg" by (rule phy_conforms) simp
  from rail_told [OF lan8720_keeps k a f p cold_phy_simps(3,1) _ m prod.collapse [symmetric], where held = True]
  show ?thesis by (simp add: cold_phy_simps(2) Let_def)
qed

theorem unarmed_board_blames_supply_witness:
  "let rail = rail_of (fst (rail_witness_probe (phy_clk 1) phy_wait (Some 1) (cold_phy 0)));
       s' = snd (reset_log_init (example_boot\<lparr>b_rail := rail\<rparr>) (reset_chip blank_rtc first_boot))
   in fst (rail_witness_arm (lan8720 0) True 0 0 unarmed) = ESP_ERR_NOT_SUPPORTED \<and>
     (\<exists>e. reset_log_get_current s' = Some e \<and> has_flag e RESET_LOG_F_RAIL_KNOWN \<and> \<not> has_flag e RESET_LOG_F_RAIL_HELD)"
proof -
  have m: "b_mutex example_boot" by (simp add: example_boot_def)
  have a: "rail_witness_arm (lan8720 0) True 0 0 unarmed = (ESP_ERR_NOT_SUPPORTED, 0, \<lparr>rw_pattern = 0, rw_handle = True, rw_last_rewrite_us = 0\<rparr>)"
    by (simp add: rail_witness_arm_def try_pattern_def lan8720_def unarmed_def)
  have p: "phy_on_bus (phy_clk 1) phy_wait 1 phy_left phy_reg" by (rule phy_conforms) simp
  from unarmed_board_blames_supply [OF lan8720_keeps _ _ a p cold_phy_simps(3,1,2) m prod.collapse [symmetric]]
  show ?thesis by (simp add: Let_def a)
qed

end
