(* ===== verification/Monitor.thy ===== *)
theory Monitor
  imports RailWitness ClockTime WanLink Quarantine
begin

text \<open>
  The Ethernet port's state (\<open>main/eth_link.c\<close>), the system monitor with its once-a-second round
  (\<open>main/sys_monitor.c\<close>) and the status LED it drives (\<open>main/status_led.c\<close>).
\<close>

section \<open>The Ethernet port\<close>

record eth_link =
  el_up :: bool
  el_speed_mbit :: u32
  el_full_duplex :: bool
  el_autoneg :: bool
  el_flaps :: u32
  el_change_us :: int

text \<open>
  What the driver answers at a link-up: whether the speed is 100 Mbit, whether the duplex is full, whether
  it was negotiated; \<open>None\<close> where the query failed, which leaves the default of the variable it fills.
\<close>

definition on_eth_connected :: "bool option \<Rightarrow> bool option \<Rightarrow> bool option \<Rightarrow> int \<Rightarrow> eth_link \<Rightarrow> eth_link" where
  "on_eth_connected speed_100m duplex_full autoneg now s =
     s\<lparr>el_up := True, el_speed_mbit := if speed_100m = Some True then 100 else 10,
       el_full_duplex := (duplex_full = Some True), el_autoneg := (autoneg = Some True), el_change_us := now\<rparr>"

definition on_eth_disconnected :: "int \<Rightarrow> eth_link \<Rightarrow> eth_link" where
  "on_eth_disconnected now s =
     s\<lparr>el_up := False, el_speed_mbit := 0, el_full_duplex := False, el_flaps := el_flaps s + 1, el_change_us := now\<rparr>"

definition static_eth_link :: eth_link where
  "static_eth_link = \<lparr>el_up = False, el_speed_mbit = 0, el_full_duplex = False, el_autoneg = False, el_flaps = 0, el_change_us = 0\<rparr>"

definition eth_link_init :: "bool \<Rightarrow> int \<Rightarrow> eth_link \<Rightarrow> int \<times> eth_link" where
  "eth_link_init mutex now s = (if \<not> mutex then (NO_MEM, s) else (0, s\<lparr>el_change_us := now\<rparr>))"

record eth_link_status =
  es_up :: bool
  es_speed_mbit :: u32
  es_full_duplex :: bool
  es_autoneg :: bool
  es_flaps :: u32
  es_since_change_s :: u32

definition eth_link_get_status :: "int \<Rightarrow> eth_link \<Rightarrow> eth_link_status" where
  "eth_link_get_status now s =
     \<lparr>es_up = el_up s, es_speed_mbit = el_speed_mbit s, es_full_duplex = el_full_duplex s, es_autoneg = el_autoneg s,
      es_flaps = el_flaps s, es_since_change_s = word_of_int ((now - el_change_us s) div 1000000)\<rparr>"

section \<open>The processor's load\<close>

abbreviation SYS_MONITOR_NUM_CORES :: nat where "SYS_MONITOR_NUM_CORES \<equiv> 2"

record monitor =
  m_cpu_pct :: "u8 list"
  m_prev_idle_rt :: "u32 list"
  m_prev_total_rt :: u32
  m_have_prev :: bool
  m_prev_cycles :: u32
  m_prev_time_us :: int
  m_cpu_freq_mhz :: u32

definition static_monitor :: monitor where
  "static_monitor =
     \<lparr>m_cpu_pct = replicate SYS_MONITOR_NUM_CORES 0, m_prev_idle_rt = replicate SYS_MONITOR_NUM_CORES 0,
      m_prev_total_rt = 0, m_have_prev = False, m_prev_cycles = 0, m_prev_time_us = 0, m_cpu_freq_mhz = 0\<rparr>"

text \<open>The core whose idle task has this name.\<close>

definition idle_core :: "string \<Rightarrow> nat option" where
  "idle_core name =
     (if take 4 name = ''IDLE'' \<and> length name = 5 \<and>
         48 \<le> (of_char (name ! 4) :: nat) \<and> (of_char (name ! 4) :: nat) < 48 + SYS_MONITOR_NUM_CORES
      then Some (of_char (name ! 4) - 48) else None)"

text \<open>Tasks as the scheduler lists them: name and run time.\<close>

definition idle_times :: "(string \<times> u32) list \<Rightarrow> u32 list" where
  "idle_times tasks =
     foldl (\<lambda>rt (name, time). case idle_core name of None \<Rightarrow> rt | Some c \<Rightarrow> rt[c := time])
       (replicate SYS_MONITOR_NUM_CORES 0) tasks"

definition load_pct :: "u32 \<Rightarrow> u32 \<Rightarrow> u8" where
  "load_pct idle_delta total_delta =
     (if idle_delta \<ge> total_delta then 0 else ucast (100 - idle_delta * 100 div total_delta))"

text \<open>
  \<open>tasks\<close> is empty when the scheduler could not list them; \<open>cycles\<close> is this core's counter.
\<close>

definition sys_monitor_tick :: "int \<Rightarrow> u32 \<Rightarrow> (string \<times> u32) list \<Rightarrow> u32 \<Rightarrow> monitor \<Rightarrow> monitor" where
  "sys_monitor_tick now_us cycles tasks total_rt s =
     (if tasks = [] then s
      else let idle_rt = idle_times tasks;
               s = (if m_have_prev s \<and> total_rt \<noteq> m_prev_total_rt s then
                      let total_delta = total_rt - m_prev_total_rt s
                      in s\<lparr>m_cpu_pct := map2 (\<lambda>rt prev. load_pct (rt - prev) total_delta) idle_rt (m_prev_idle_rt s)\<rparr>
                    else s);
               s = (if m_have_prev s \<and> now_us - m_prev_time_us s > 0 then
                      s\<lparr>m_cpu_freq_mhz := ucast ((ucast (cycles - m_prev_cycles s) :: u64) div word_of_int (now_us - m_prev_time_us s))\<rparr>
                    else s)
           in s\<lparr>m_prev_idle_rt := idle_rt, m_prev_total_rt := total_rt, m_prev_cycles := cycles,
                m_prev_time_us := now_us, m_have_prev := True\<rparr>)"

definition sys_monitor_get_cpu_load :: "monitor \<Rightarrow> u8 list" where
  "sys_monitor_get_cpu_load s = m_cpu_pct s"

definition sys_monitor_get_cpu_freq_mhz :: "monitor \<Rightarrow> u32" where
  "sys_monitor_get_cpu_freq_mhz s = m_cpu_freq_mhz s"

section \<open>The status LED\<close>

abbreviation HEALTHY_HALF_PERIOD_US :: nat where "HEALTHY_HALF_PERIOD_US \<equiv> 500 * 1000"
abbreviation FAULT_HALF_PERIOD_US :: nat where "FAULT_HALF_PERIOD_US \<equiv> 100 * 1000"

text \<open>\<open>led_timer\<close> is what the one-shot timer was last started with, \<open>led_level\<close> the pin.\<close>

record led =
  led_fault :: bool
  led_on :: bool
  led_level :: bool
  led_timer :: "nat option"

definition blink_timer_cb :: "led \<Rightarrow> led" where
  "blink_timer_cb s =
     (let s = s\<lparr>led_on := \<not> led_on s\<rparr> in
      s\<lparr>led_level := led_on s, led_timer := Some (if led_fault s then FAULT_HALF_PERIOD_US else HEALTHY_HALF_PERIOD_US)\<rparr>)"

text \<open>The answers of the pin's configuration, of the timer's creation and of its start.\<close>

definition status_led_init :: "int \<Rightarrow> int \<Rightarrow> int \<Rightarrow> led \<Rightarrow> int \<times> led" where
  "status_led_init gpio create start s =
     (if gpio \<noteq> 0 then (gpio, s)
      else let s = s\<lparr>led_level := False, led_on := False\<rparr> in
        if create \<noteq> 0 then (create, s)
        else (start, if start = 0 then s\<lparr>led_timer := Some HEALTHY_HALF_PERIOD_US\<rparr> else s))"

definition status_led_tick :: "int \<Rightarrow> eth_link \<Rightarrow> wan_state \<Rightarrow> quarantine \<Rightarrow> led \<Rightarrow> led" where
  "status_led_tick now eth wan q s =
     (let e = eth_link_get_status now eth;
          eth_fault = (\<not> es_up e \<or> es_speed_mbit e < 100 \<or> \<not> es_full_duplex e);
          wan_fault = (wan \<noteq> WAN_STATE_DISABLED \<and> wan \<noteq> WAN_STATE_UP);
          ip_conflict = client_track_get_armed_conflicts q > 0
      in s\<lparr>led_fault := eth_fault \<or> wan_fault \<or> ip_conflict\<rparr>)"

section \<open>The once-a-second round\<close>

record 'd board =
  bd_monitor :: monitor
  bd_resets :: resets
  bd_phy :: 'd
  bd_witness :: witness
  bd_clock :: clock
  bd_eth :: eth_link
  bd_wan :: wan_link
  bd_quarantine :: quarantine
  bd_led :: led

text \<open>
  What a round finds: the time since boot, the wall clock, the scheduler's and the cycle counter's
  readings, and the flash's answers to the two writes it may make.
\<close>

record round_env =
  re_us :: int
  re_now :: int
  re_cycles :: u32
  re_tasks :: "(string \<times> u32) list"
  re_total_rt :: u32
  re_ckpt :: "int list \<times> reset_nvs option"
  re_date :: "int list \<times> reset_nvs option"

definition sys_monitor_round :: "'d phy_driver \<Rightarrow> round_env \<Rightarrow> 'd board \<Rightarrow> clock_effect list \<times> 'd board" where
  "sys_monitor_round drv n s =
     (let s = s\<lparr>bd_monitor := sys_monitor_tick (re_us n) (re_cycles n) (re_tasks n) (re_total_rt n) (bd_monitor s)\<rparr>;
          s = s\<lparr>bd_resets := reset_log_checkpoint_tick (fst (re_ckpt n)) (snd (re_ckpt n)) (nat (re_us n)) (bd_resets s)\<rparr>;
          (phy, w) = rail_witness_tick drv (re_us n) (bd_phy s, bd_witness s);
          s = s\<lparr>bd_phy := phy, bd_witness := w\<rparr>;
          (es, c, g) = clock_time_tick (fst (re_date n)) (snd (re_date n)) (re_now n) (re_us n) (bd_clock s, bd_resets s);
          s = s\<lparr>bd_clock := c, bd_resets := g\<rparr>;
          s = s\<lparr>bd_led := status_led_tick (re_us n) (bd_eth s) (wl_state (bd_wan s)) (bd_quarantine s) (bd_led s)\<rparr>
      in (es, s))"


section \<open>What the figures mean\<close>

lemma length_idle_times [simp]: "length (idle_times tasks) = SYS_MONITOR_NUM_CORES"
proof -
  have "length (foldl (\<lambda>rt (name, time). case idle_core name of None \<Rightarrow> rt | Some c \<Rightarrow> rt[c := time]) rt tasks) = length rt" for rt
    by (induction tasks arbitrary: rt) (auto split: option.split)
  then show ?thesis by (simp add: idle_times_def)
qed

text \<open>Differences of free-running counters are exact across a wrap.\<close>

lemma delta_exact:
  assumes "a \<le> b" "b - a < 2 ^ 32"
  shows "(of_nat b :: u32) - of_nat a = of_nat (b - a)" "unat ((of_nat b :: u32) - of_nat a) = b - a"
proof -
  show d: "(of_nat b :: u32) - of_nat a = of_nat (b - a)" using assms(1) by (simp add: of_nat_diff)
  show "unat ((of_nat b :: u32) - of_nat a) = b - a" using assms(2) by (simp add: d unat_of_nat_eq)
qed

lemma load_pct_exact:
  assumes "0 < span" "span \<le> 42949672" "idle < 2 ^ 32"
  shows "load_pct (of_nat idle) (of_nat span) = of_nat (if span \<le> idle then 0 else 100 - 100 * idle div span)"
proof (cases "span \<le> idle")
  case True
  then show ?thesis using assms by (simp add: load_pct_def word_le_nat_alt unat_of_nat_eq)
next
  case False
  let ?q = "idle * 100 div span"
  have i: "idle * 100 < 2 ^ 32" "idle * 100 < 100 * span" using assms(2) False by simp_all
  have "unat (of_nat (idle * 100) :: u32) = idle * 100" by (rule unat_of_nat_eq) (use i in simp)
  then have "unat ((of_nat idle :: u32) * 100) = idle * 100" by simp
  then have "unat ((of_nat idle :: u32) * 100 div of_nat span) = ?q"
    using assms(2) by (simp add: unat_div_distrib unat_of_nat_eq)
  then have "of_nat (unat ((of_nat idle :: u32) * 100 div of_nat span)) = (of_nat ?q :: u32)" by (simp only:)
  then have d: "(of_nat idle :: u32) * 100 div of_nat span = of_nat ?q" by simp
  have q: "?q < 100" using i(2) by (rule less_mult_imp_div_less)
  then have "(100 :: u32) - of_nat ?q = of_nat (100 - ?q)" by (simp add: of_nat_diff)
  moreover have "ucast (of_nat n :: u32) = (of_nat n :: u8)" if "n \<le> 100" for n
    using that by (simp add: unsigned_of_nat take_bit_nat_eq_self)
  ultimately have "ucast ((100 :: u32) - of_nat ?q) = (of_nat (100 - ?q) :: u8)"
    by (simp del: of_nat_diff)
  then show ?thesis
    using False assms d by (simp add: load_pct_def word_le_nat_alt unat_of_nat_eq mult.commute)
qed

text \<open>A tick that comes late, after more than 42 seconds, finds an idle processor fully loaded.\<close>

lemma late_tick_wraps: "load_pct 43000000 43000001 = 100"
  by (simp add: load_pct_def)


section \<open>Properties\<close>

lemma tick_stores:
  assumes "tasks \<noteq> []"
  shows "m_prev_idle_rt (sys_monitor_tick now y tasks t s) = idle_times tasks"
    "m_prev_total_rt (sys_monitor_tick now y tasks t s) = t" "m_have_prev (sys_monitor_tick now y tasks t s)"
    "m_prev_cycles (sys_monitor_tick now y tasks t s) = y" "m_prev_time_us (sys_monitor_tick now y tasks t s) = now"
  using assms by (simp_all add: sys_monitor_tick_def Let_def)

lemma tick_loads:
  assumes "tasks \<noteq> []" "m_have_prev s" "t \<noteq> m_prev_total_rt s" "c < SYS_MONITOR_NUM_CORES" "length (m_prev_idle_rt s) = SYS_MONITOR_NUM_CORES"
  shows "m_cpu_pct (sys_monitor_tick now y tasks t s) ! c = load_pct (idle_times tasks ! c - m_prev_idle_rt s ! c) (t - m_prev_total_rt s)"
  using assms by (simp add: sys_monitor_tick_def Let_def)

lemma tick_clocks:
  assumes "tasks \<noteq> []" "m_have_prev s" "m_prev_time_us s < now"
  shows "m_cpu_freq_mhz (sys_monitor_tick now y tasks t s) =
    ucast ((ucast (y - m_prev_cycles s) :: u64) div word_of_int (now - m_prev_time_us s))"
  using assms by (simp add: sys_monitor_tick_def Let_def)

text \<open>
  The load shown for a core is the share of time its idle task did not run between the last two samples
  that could be taken, in whole percent and never above a hundred, and the clock rate the cycles of that
  time: exactly, though the counters wrap, as long as the samples are less than 42 seconds apart.
\<close>

theorem load_exact:
  fixes T0 T1 Y0 Y1 :: nat and now0 now1 :: int
  assumes "tasks0 \<noteq> []" "tasks1 \<noteq> []" "c < SYS_MONITOR_NUM_CORES"
    and "s1 = sys_monitor_tick now0 (of_nat Y0) tasks0 (of_nat T0) s0" "s2 = sys_monitor_tick now1 (of_nat Y1) tasks1 (of_nat T1) s1"
    and "idle_times tasks0 ! c = of_nat I0" "idle_times tasks1 ! c = of_nat I1" "I0 \<le> I1" "I1 - I0 < 2 ^ 32"
    and "T0 < T1" "T1 - T0 \<le> 42949672" "now0 < now1" "now1 - now0 < 2 ^ 32" "Y0 \<le> Y1" "Y1 - Y0 < 2 ^ 32"
  shows "unat (sys_monitor_get_cpu_load s2 ! c) = (if T1 - T0 \<le> I1 - I0 then 0 else 100 - 100 * (I1 - I0) div (T1 - T0)) \<and>
    unat (sys_monitor_get_cpu_freq_mhz s2) = (Y1 - Y0) div nat (now1 - now0)"
proof
  note p = tick_stores [OF assms(1), of now0 "of_nat Y0" "of_nat T0" s0, folded assms(4)]
  have t: "(of_nat T1 :: u32) - of_nat T0 = of_nat (T1 - T0)" "unat ((of_nat T1 :: u32) - of_nat T0) = T1 - T0"
    using delta_exact [of T0 T1] assms(10,11) by simp_all
  then have "(of_nat T1 :: u32) \<noteq> of_nat T0" using assms(10) by (metis diff_self unat_0 diff_is_0_eq not_le)
  then have "sys_monitor_get_cpu_load s2 ! c = load_pct (of_nat (I1 - I0)) (of_nat (T1 - T0))"
    using tick_loads [OF assms(2) p(3), of "of_nat T1" c now1 "of_nat Y1"] assms(3,5,6,7) p(1,2) t(1) delta_exact(1) [OF assms(8,9)]
    by (simp add: sys_monitor_get_cpu_load_def)
  then have l: "sys_monitor_get_cpu_load s2 ! c =
      of_nat (if T1 - T0 \<le> I1 - I0 then 0 else 100 - 100 * (I1 - I0) div (T1 - T0))"
    using load_pct_exact [of "T1 - T0" "I1 - I0"] assms(9,10,11) by simp
  have "(if T1 - T0 \<le> I1 - I0 then 0 else 100 - 100 * (I1 - I0) div (T1 - T0)) < (2 :: nat) ^ 8"
    by simp arith
  then show "unat (sys_monitor_get_cpu_load s2 ! c) = (if T1 - T0 \<le> I1 - I0 then 0 else 100 - 100 * (I1 - I0) div (T1 - T0))"
    unfolding l by (intro unat_of_nat_eq) simp
  have f: "sys_monitor_get_cpu_freq_mhz s2 = ucast ((ucast ((of_nat Y1 :: u32) - of_nat Y0) :: u64) div word_of_int (now1 - now0))"
    using tick_clocks [OF assms(2) p(3), of now1 "of_nat Y1" "of_nat T1"] assms(5,12) p(4,5)
    by (simp add: sys_monitor_get_cpu_freq_mhz_def)
  show "unat (sys_monitor_get_cpu_freq_mhz s2) = (Y1 - Y0) div nat (now1 - now0)"
  proof -
    let ?d = "Y1 - Y0" and ?k = "nat (now1 - now0)"
    have k: "word_of_int (now1 - now0) = (of_nat ?k :: u64)" "?k < 2 ^ 32"
      using assms(12,13) by (simp_all add: word_of_int_nat)
    have d: "(of_nat Y1 :: u32) - of_nat Y0 = of_nat ?d" by (rule delta_exact(1) [OF assms(14,15)])
    have "(ucast (of_nat ?d :: u32) :: u64) = of_nat ?d"
      using assms(15) by (simp add: unsigned_of_nat take_bit_nat_eq_self del: of_nat_diff)
    then have "unat ((ucast ((of_nat Y1 :: u32) - of_nat Y0) :: u64) div word_of_int (now1 - now0)) = ?d div ?k"
      unfolding d k(1) using k(2) assms(15) by (simp add: unat_div_distrib unat_of_nat_eq del: of_nat_diff)
    moreover have "?d div ?k < 2 ^ 32" using assms(15) by (rule order_le_less_trans [OF div_le_dividend])
    ultimately show ?thesis unfolding f by (simp add: unsigned_ucast_eq take_bit_nat_eq_self)
  qed
qed


theorem load_exact_witness:
  "let s1 = sys_monitor_tick 1000000 0xFFFFFFF0 [(''IDLE0'', 0xFFFFFF00), (''IDLE1'', 0)] 0xFFFFFFFF static_monitor;
       s2 = sys_monitor_tick 2000000 239999984 [(''IDLE0'', 749744), (''IDLE1'', 0)] 999999 s1
   in unat (sys_monitor_get_cpu_load s2 ! 0) = 25 \<and> unat (sys_monitor_get_cpu_freq_mhz s2) = 240"
proof -
  have i: "idle_times [(''IDLE0'', a), (''IDLE1'', b)] ! 0 = a" for a b
    by (simp add: idle_times_def idle_core_def numeral_2_eq_2)
  have a: "idle_times [(''IDLE0'', 0xFFFFFF00), (''IDLE1'', 0)] ! 0 = of_nat 0xFFFFFF00"
    "idle_times [(''IDLE0'', 749744), (''IDLE1'', 0)] ! 0 = of_nat (0xFFFFFF00 + 750000)"
    by (simp_all only: i) simp_all
  have w: "(4534967280 :: u32) = 239999984" "(4295967295 :: u32) = 999999" by simp_all
  from load_exact [OF _ _ _ refl refl a, where ?now0.0 = 1000000 and ?now1.0 = 2000000 and ?Y0.0 = "0xFFFFFFF0" and
      ?Y1.0 = "0xFFFFFFF0 + 240000000" and ?T0.0 = "0xFFFFFFFF" and ?T1.0 = "0xFFFFFFFF + 1000000" and ?s0.0 = static_monitor]
  show ?thesis by (simp add: Let_def w)
qed

datatype port_event = LinkUp "bool option" "bool option" "bool option" int | LinkDown int

fun port_step :: "eth_link \<Rightarrow> port_event \<Rightarrow> eth_link" where
  "port_step s (LinkUp speed duplex autoneg now) = on_eth_connected speed duplex autoneg now s"
| "port_step s (LinkDown now) = on_eth_disconnected now s"

fun full_speed :: "port_event \<Rightarrow> bool" where
  "full_speed (LinkUp speed duplex autoneg now) \<longleftrightarrow> speed = Some True \<and> duplex = Some True"
| "full_speed (LinkDown now) \<longleftrightarrow> False"

fun link_lost :: "port_event \<Rightarrow> bool" where
  "link_lost (LinkDown now) \<longleftrightarrow> True"
| "link_lost _ \<longleftrightarrow> False"

lemma port_state:
  "(let e = eth_link_get_status now (foldl port_step static_eth_link events) in
     (es_up e \<and> \<not> es_speed_mbit e < 100 \<and> es_full_duplex e) = (events \<noteq> [] \<and> full_speed (last events)) \<and>
     es_flaps e = of_nat (length (filter link_lost events)))"
proof (induction events rule: rev_induct)
  case Nil
  then show ?case by (simp add: eth_link_get_status_def static_eth_link_def)
next
  case (snoc ev events)
  then show ?case
    by (cases ev) (auto simp: eth_link_get_status_def on_eth_connected_def on_eth_disconnected_def Let_def)
qed

lemma round_led:
  assumes "sys_monitor_round drv n s = (es, s')"
  shows "bd_led s' = status_led_tick (re_us n) (bd_eth s) (wl_state (bd_wan s)) (bd_quarantine s) (bd_led s)"
  using assms by (auto simp: sys_monitor_round_def Let_def split: prod.splits)

text \<open>
  After a round of the monitor the LED blinks slowly exactly if all is well: the last thing the port
  did was to come up at full speed and full duplex, the uplink is off or up, and no client is on another's
  address; and the count of flaps shown is that of the times the link was lost.
\<close>

theorem led_tells_faults:
  assumes "bd_eth s = foldl port_step static_eth_link events" "sys_monitor_round drv n s = (es, s')"
  shows "led_timer (blink_timer_cb (bd_led s')) = Some
      (if events \<noteq> [] \<and> full_speed (last events) \<and> wl_state (bd_wan s) \<in> {WAN_STATE_DISABLED, WAN_STATE_UP} \<and>
          list_all (\<lambda>c. \<not> (q_used c \<and> q_armed c)) (s_conflicts (bd_quarantine s))
       then HEALTHY_HALF_PERIOD_US else FAULT_HALF_PERIOD_US) \<and>
    es_flaps (eth_link_get_status (re_us n) (bd_eth s)) = of_nat (length (filter link_lost events))"
proof -
  have p: "es_up e \<and> \<not> es_speed_mbit e < 100 \<and> es_full_duplex e \<longleftrightarrow> events \<noteq> [] \<and> full_speed (last events)"
    "es_flaps e = of_nat (length (filter link_lost events))"
    if "e = eth_link_get_status (re_us n) (bd_eth s)" for e
    using port_state [of "re_us n" events] that assms(1) by (simp_all add: Let_def)
  have q: "client_track_get_armed_conflicts (bd_quarantine s) > 0 \<longleftrightarrow>
      \<not> list_all (\<lambda>c. \<not> (q_used c \<and> q_armed c)) (s_conflicts (bd_quarantine s))"
    by (auto simp: client_track_get_armed_conflicts_def list_all_iff filter_empty_conv)
  show ?thesis
    unfolding round_led [OF assms(2)] blink_timer_cb_def Let_def status_led_tick_def
    using p [OF refl] q by auto
qed

theorem led_tells_faults_witness:
  "led_timer (blink_timer_cb (bd_led (snd (sys_monitor_round (lan8720 0x80FF)
     \<lparr>re_us = 1000000, re_now = 0, re_cycles = 0, re_tasks = [], re_total_rt = 0, re_ckpt = ([], None), re_date = ([], None)\<rparr>
     \<lparr>bd_monitor = static_monitor, bd_resets = first_boot, bd_phy = 0, bd_witness = unarmed,
      bd_clock = clock_at_boot example_clock_rtc,
      bd_eth = foldl port_step static_eth_link [LinkUp (Some True) (Some True) (Some True) 0, LinkDown 10, LinkUp (Some True) (Some False) None 20],
      bd_wan = static_wan, bd_quarantine = static_quarantine,
      bd_led = \<lparr>led_fault = False, led_on = False, led_level = False, led_timer = None\<rparr>\<rparr>)))) = Some 100000"
proof -
  let ?events = "[LinkUp (Some True) (Some True) (Some True) 0, LinkDown 10, LinkUp (Some True) (Some False) None 20]"
  have "led_timer (blink_timer_cb (bd_led (snd (sys_monitor_round drv n s)))) = Some 100000"
    if "bd_eth s = foldl port_step static_eth_link ?events" for drv :: "u16 phy_driver" and n s
    using led_tells_faults [OF that prod.collapse [symmetric]] by simp
  then show ?thesis by simp
qed

end
