(* ===== verification/PortRecord.thy ===== *)
theory PortRecord
  imports Prelude
begin

text \<open>
  Which port a DHCP message came in on (\<open>main/client_track.c\<close>): four slots, one per client, written
  by the receive path under a spinlock, the least recently written one reused, read by the DHCP
  server within five seconds. Each operation is one step; \<open>now\<close> is \<open>esp_timer_get_time()\<close>.
\<close>

abbreviation DHCP_PORT_SLOTS :: nat where "DHCP_PORT_SLOTS \<equiv> 4"
abbreviation DHCP_PORT_WINDOW_US :: int where "DHCP_PORT_WINDOW_US \<equiv> 5 * 1000000"

record dhcp_port =
  p_mac :: mac
  p_is_wifi :: bool
  p_seen_us :: int

definition zero_port :: dhcp_port where
  "zero_port = \<lparr>p_mac = Mac 0 0 0 0 0 0, p_is_wifi = False, p_seen_us = 0\<rparr>"

definition static_ports :: "dhcp_port list" where
  "static_ports = replicate DHCP_PORT_SLOTS zero_port"

text \<open>The loop keeps the first slot with the smallest time until it meets the client's own slot.\<close>

definition oldest_port :: "dhcp_port list \<Rightarrow> nat" where
  "oldest_port ps =
     (case best_slot (\<lambda>_ _. True) (\<lambda>a b. p_seen_us a < p_seen_us b) 0 ps None of
        Some (i, _) \<Rightarrow> i | None \<Rightarrow> 0)"

definition note_dhcp_port :: "int \<Rightarrow> mac \<Rightarrow> bool \<Rightarrow> dhcp_port list \<Rightarrow> dhcp_port list" where
  "note_dhcp_port now m is_wifi ps =
     (let slot = (case first_slot (\<lambda>_ p. p_seen_us p \<noteq> 0 \<and> p_mac p = m) ps of
                    Some i \<Rightarrow> i | None \<Rightarrow> oldest_port ps)
      in ps[slot := \<lparr>p_mac = m, p_is_wifi = is_wifi, p_seen_us = now\<rparr>])"

definition client_track_mac_on_wired_port :: "int \<Rightarrow> mac \<Rightarrow> dhcp_port list \<Rightarrow> bool" where
  "client_track_mac_on_wired_port now m ps =
     (case first_slot (\<lambda>_ p. \<not> (p_seen_us p = 0 \<or> p_mac p \<noteq> m)) ps of
        None \<Rightarrow> False
      | Some i \<Rightarrow> \<not> p_is_wifi (ps ! i) \<and> now - p_seen_us (ps ! i) \<le> DHCP_PORT_WINDOW_US)"

section \<open>A record outlives three other clients\<close>

abbreviation live_port :: "dhcp_port \<Rightarrow> bool" where
  "live_port p \<equiv> p_seen_us p \<noteq> 0"

interpretation ports: slot_table live_port p_mac
  "\<lambda>m. \<lparr>p_mac = m, p_is_wifi = is_wifi, p_seen_us = now\<rparr>" "\<lambda>_. now \<noteq> 0" for is_wifi now
  by unfold_locales simp_all

lemma oldest_port:
  assumes "ps \<noteq> []"
  shows "oldest_port ps < length ps \<and> (\<forall>j<length ps. p_seen_us (ps ! oldest_port ps) \<le> p_seen_us (ps ! j))"
proof -
  let ?b = "best_slot (\<lambda>_ _. True) (\<lambda>a b. p_seen_us a < p_seen_us b) 0 ps None"
  have "?b \<noteq> None" using assms by (auto simp: best_slot_None)
  then obtain i e where b: "?b = Some (i, e)" by auto
  from best_slot_SomeD [OF b] have i: "i < length ps" "e = ps ! i" by auto
  have "\<forall>j<length ps. True \<longrightarrow> \<not> p_seen_us (ps ! j) < p_seen_us e"
    using best_slot_best [OF _ _ _ b] by simp
  then show ?thesis using i by (simp add: oldest_port_def b not_less)
qed

lemma note_dhcp_port_cases:
  assumes "length ps = 4" "uniq_by live_port p_mac ps" "0 < now"
  obtains i where "i < 4" "note_dhcp_port now m w ps = ps[i := \<lparr>p_mac = m, p_is_wifi = w, p_seen_us = now\<rparr>]"
    "uniq_by live_port p_mac (note_dhcp_port now m w ps)"
    "(live_port (ps ! i) \<and> p_mac (ps ! i) = m) \<or>
     (lookup_slot live_port p_mac m ps = None \<and> (\<forall>j<4. p_seen_us (ps ! i) \<le> p_seen_us (ps ! j)))"
proof (cases "lookup_slot live_port p_mac m ps")
  case (Some i)
  then have n: "note_dhcp_port now m w ps = ps[i := \<lparr>p_mac = m, p_is_wifi = w, p_seen_us = now\<rparr>]"
    by (simp add: note_dhcp_port_def lookup_slot_def)
  from lookup_slot_SomeD [OF Some] assms(1) show thesis
    by (intro that [of i] n) (auto simp: n intro!: uniq_by_same assms(2))
next
  case None
  let ?i = "oldest_port ps"
  have n: "note_dhcp_port now m w ps = ps[?i := \<lparr>p_mac = m, p_is_wifi = w, p_seen_us = now\<rparr>]"
    using None by (simp add: note_dhcp_port_def lookup_slot_def)
  have "ps \<noteq> []" using assms(1) by auto
  from oldest_port [OF this] show thesis
    by (intro that [of ?i] n) (use None assms ports.claim_uniq [OF assms(2) None] in \<open>simp_all add: n\<close>)
qed

definition note_ports :: "(int \<times> mac \<times> bool) list \<Rightarrow> dhcp_port list \<Rightarrow> dhcp_port list" where
  "note_ports = fold (\<lambda>(now, m, w). note_dhcp_port now m w)"

text \<open>
  \<open>kept\<close>: the client's record is in slot \<open>k\<close>, and every record written since is one of the others'.
\<close>

definition kept :: "mac \<Rightarrow> bool \<Rightarrow> int \<Rightarrow> mac set \<Rightarrow> nat \<Rightarrow> dhcp_port list \<Rightarrow> bool" where
  "kept m w since others k ps \<longleftrightarrow>
     length ps = 4 \<and> uniq_by live_port p_mac ps \<and> k < 4 \<and>
     ps ! k = \<lparr>p_mac = m, p_is_wifi = w, p_seen_us = since\<rparr> \<and>
     (\<forall>j<4. j \<noteq> k \<longrightarrow> p_seen_us (ps ! j) < since \<or> (since < p_seen_us (ps ! j) \<and> p_mac (ps ! j) \<in> others))"

lemma kept_note:
  assumes k: "kept m w since others k ps" and n: "since < now" "0 < since" "a \<in> others" "a \<noteq> m"
    and c: "finite others" "card others \<le> 3"
  shows "kept m w since others k (note_dhcp_port now a v ps)"
proof -
  have l: "length ps = 4" and u: "uniq_by live_port p_mac ps" and k4: "k < 4"
    and at: "ps ! k = \<lparr>p_mac = m, p_is_wifi = w, p_seen_us = since\<rparr>"
    and rest: "\<And>j. j < 4 \<Longrightarrow> j \<noteq> k \<Longrightarrow> p_seen_us (ps ! j) < since \<or> (since < p_seen_us (ps ! j) \<and> p_mac (ps ! j) \<in> others)"
    using k by (simp_all add: kept_def)
  from n have "0 < now" by simp
  obtain i where i: "i < 4" "note_dhcp_port now a v ps = ps[i := \<lparr>p_mac = a, p_is_wifi = v, p_seen_us = now\<rparr>]"
    "uniq_by live_port p_mac (note_dhcp_port now a v ps)"
    "(live_port (ps ! i) \<and> p_mac (ps ! i) = a) \<or>
     (lookup_slot live_port p_mac a ps = None \<and> (\<forall>j<4. p_seen_us (ps ! i) \<le> p_seen_us (ps ! j)))"
    by (rule note_dhcp_port_cases [OF l u \<open>0 < now\<close>])
  have "i \<noteq> k"
  proof
    assume "i = k"
    with i(4) at n(4) have none: "lookup_slot live_port p_mac a ps = None"
      and "\<forall>j<4. since \<le> p_seen_us (ps ! j)" by auto
    then have other: "p_mac (ps ! j) \<in> others - {a}" if "j < 4" "j \<noteq> k" for j
      using rest [OF that] that n(2) l by (fastforce simp: lookup_slot_None)
    have live: "live_port (ps ! j)" if "j < 4" for j
      using \<open>\<forall>j<4. since \<le> p_seen_us (ps ! j)\<close> that n(2) by fastforce
    let ?J = "{..<4} - {k}"
    have inj: "inj_on (\<lambda>j. p_mac (ps ! j)) ?J"
      using live by (intro inj_onI uniq_by_nthD [OF u]) (auto simp: l)
    have img: "(\<lambda>j. p_mac (ps ! j)) ` ?J \<subseteq> others - {a}" using other by (auto simp del: Diff_iff)
    have "card ?J = 3" using k4 by simp
    then have "3 \<le> card (others - {a})"
      using card_inj_on_le [OF inj img] c(1) by simp
    moreover have "card (others - {a}) < card others" using c(1) n(3) by (rule card_Diff1_less)
    ultimately show False using c(2) by simp
  qed
  then show ?thesis
    using i(1-3) l k4 at rest n unfolding kept_def by (auto simp: nth_list_update)
qed

lemma kept_notes:
  assumes "kept m w since others k ps" "0 < since" "finite others" "card others \<le> 3"
    and "\<forall>(now, a, v)\<in>set xs. since < now \<and> a \<in> others \<and> a \<noteq> m"
  shows "kept m w since others k (note_ports xs ps)"
  using assms(1,5)
proof (induction xs arbitrary: ps)
  case (Cons x xs)
  obtain now a v where x: "x = (now, a, v)" by (cases x)
  with Cons.prems(2) have "since < now" "a \<in> others" "a \<noteq> m" by auto
  from kept_note [OF Cons.prems(1) this(1) assms(2) this(2,3) assms(3,4)]
  show ?case using Cons.IH Cons.prems(2) by (simp add: note_ports_def x)
qed (simp add: note_ports_def)

lemma kept_answer:
  assumes "kept m w since others k ps" "0 < since"
  shows "client_track_mac_on_wired_port now m ps \<longleftrightarrow> \<not> w \<and> now - since \<le> DHCP_PORT_WINDOW_US"
proof -
  have "lookup_slot live_port p_mac (p_mac (ps ! k)) ps = Some k"
    using assms by (intro lookup_slot_unique) (simp_all add: kept_def)
  then have "first_slot (\<lambda>_ p. \<not> (p_seen_us p = 0 \<or> p_mac p \<noteq> m)) ps = Some k"
    using assms by (simp add: kept_def lookup_slot_def)
  then show ?thesis using assms(1) by (simp add: client_track_mac_on_wired_port_def kept_def)
qed

text \<open>The table after any frames before the client's own: distinct clients, earlier times.\<close>

lemma notes_before:
  assumes "\<forall>(now, a, v)\<in>set xs. 0 < now \<and> now < since" "0 < since"
  shows "length (note_ports xs static_ports) = 4 \<and> uniq_by live_port p_mac (note_ports xs static_ports) \<and>
    (\<forall>j<4. p_seen_us (note_ports xs static_ports ! j) < since)"
  using assms(1)
proof (induction xs rule: rev_induct)
  case Nil
  show ?case using assms(2)
    by (auto simp: note_ports_def static_ports_def uniq_by_code zero_port_def less_Suc_eq numeral_eq_Suc)
next
  case (snoc x xs)
  obtain now a v where x: "x = (now, a, v)" by (cases x)
  let ?ps = "note_ports xs static_ports"
  have IH: "length ?ps = 4" "uniq_by live_port p_mac ?ps" "\<forall>j<4. p_seen_us (?ps ! j) < since"
    using snoc by auto
  have now: "0 < now" "now < since" using snoc.prems by (auto simp: x)
  obtain i where i: "i < 4" "note_dhcp_port now a v ?ps = ?ps[i := \<lparr>p_mac = a, p_is_wifi = v, p_seen_us = now\<rparr>]"
    "uniq_by live_port p_mac (note_dhcp_port now a v ?ps)"
    by (rule note_dhcp_port_cases [OF IH(1,2) now(1)])
  have "note_ports (xs @ [x]) static_ports = note_dhcp_port now a v ?ps" by (simp add: note_ports_def x)
  then show ?case using i IH now(2) by (auto simp: nth_list_update)
qed

lemma note_port_kept:
  assumes "\<forall>(now, a, v)\<in>set xs. 0 < now \<and> now < since" "0 < since"
  shows "\<exists>k. kept m w since others k (note_dhcp_port since m w (note_ports xs static_ports))"
proof -
  let ?ps = "note_ports xs static_ports"
  note b = notes_before [OF assms]
  then have b1: "length ?ps = 4" and b2: "uniq_by live_port p_mac ?ps" by simp_all
  obtain i where i: "i < 4" "note_dhcp_port since m w ?ps = ?ps[i := \<lparr>p_mac = m, p_is_wifi = w, p_seen_us = since\<rparr>]"
    "uniq_by live_port p_mac (note_dhcp_port since m w ?ps)"
    by (rule note_dhcp_port_cases [OF b1 b2 assms(2)])
  then show ?thesis using b unfolding kept_def by (intro exI [of _ i]) (auto simp: nth_list_update)
qed

text \<open>A DHCP client's port is remembered across its exchange: when its last DHCP frame came in at
  \<open>since\<close>, before it anything and after it frames of at most three other clients, the DHCP server's
  question is answered "wired" exactly when that frame came in by the cable and is no more than
  five seconds old.\<close>

theorem port_remembered:
  assumes "\<forall>(now, a, v)\<in>set before. 0 < now \<and> now < since" "0 < since"
    and "\<forall>(now, a, v)\<in>set after. since < now \<and> a \<noteq> m" "card ((\<lambda>(now, a, v). a) ` set after) \<le> 3"
  shows "client_track_mac_on_wired_port now m
      (note_ports after (note_dhcp_port since m w (note_ports before static_ports)))
    \<longleftrightarrow> \<not> w \<and> now - since \<le> DHCP_PORT_WINDOW_US"
proof -
  let ?others = "(\<lambda>(now, a, v). a) ` set after"
  obtain k where "kept m w since ?others k (note_dhcp_port since m w (note_ports before static_ports))"
    using note_port_kept [OF assms(1,2)] by blast
  moreover have "\<forall>(now, a, v)\<in>set after. since < now \<and> a \<in> ?others \<and> a \<noteq> m"
    using assms(3) by (auto intro: rev_image_eqI)
  ultimately
  have "kept m w since ?others k (note_ports after (note_dhcp_port since m w (note_ports before static_ports)))"
    by (intro kept_notes assms(2,4)) simp_all
  then show ?thesis using assms(2) by (rule kept_answer)
qed

lemma port_remembered_witness:
  "client_track_mac_on_wired_port 200 (Mac 2 0 0 0 0 1)
     (note_ports [(101, Mac 2 0 0 0 0 2, True), (102, Mac 2 0 0 0 0 3, True), (103, Mac 2 0 0 0 0 4, True),
        (104, Mac 2 0 0 0 0 2, True)]
       (note_dhcp_port 100 (Mac 2 0 0 0 0 1) False (note_ports [(5, Mac 2 0 0 0 0 9, True)] static_ports)))"
  using port_remembered [of "[(5, Mac 2 0 0 0 0 9, True)]" 100
      "[(101, Mac 2 0 0 0 0 2, True), (102, Mac 2 0 0 0 0 3, True), (103, Mac 2 0 0 0 0 4, True),
        (104, Mac 2 0 0 0 0 2, True)]" "Mac 2 0 0 0 0 1" 200 False]
  by (simp add: card_insert_if)

end
