(* ===== verification/Forwarding.thy ===== *)
theory Forwarding
  imports Quarantine PortRecord Frame
begin

text \<open>
  The per-frame half of \<open>main/client_track.c\<close>: the wrappers put around each bridge port's receive and
  transmit functions. They account every frame of a client, note the port of DHCP frames, swallow
  the frames of cut-off clients other than DHCP, and hand everything else on.

  lwIP's \<open>pbuf_copy_partial\<close> is a parameter (\<open>copy\<close>), as is what the wrapped function returns
  (\<open>orig\<close>); \<open>junk\<close> is what the wrapper's stack buffer holds before the copy, and \<open>mem\<close> the quarantine table at
  each load of the lookup.
\<close>

abbreviation TRAFFIC_EVENT_QUEUE_DEPTH :: nat where "TRAFFIC_EVENT_QUEUE_DEPTH \<equiv> 64"

section \<open>Reading headers\<close>

definition mac_is_client :: "mac \<Rightarrow> mac \<Rightarrow> bool" where
  "mac_is_client bridge m =
     (if mac_bytes m ! 0 AND 1 \<noteq> 0 then False
      else if m = Mac 0 0 0 0 0 0 then False
      else if m = bridge then False
      else True)"

definition is_dhcp_packet :: "u8 list \<Rightarrow> nat \<Rightarrow> bool" where
  "is_dhcp_packet ip avail =
     (if ip ! 9 \<noteq> 17 \<or> (ip ! 0 AND 0x0F) \<noteq> 5 \<or> avail < IP_HLEN + 4 then False
      else let sport = be16_at ip 20; dport = be16_at ip 22
        in sport = 67 \<or> sport = 68 \<or> dport = 67 \<or> dport = 68)"

section \<open>State\<close>

record traffic_event =
  ev_mac :: mac
  ev_is_wifi :: bool
  ev_bytes :: u16
  ev_is_uplink :: bool
  ev_observed_ip :: u32

record forwarding =
  s_traffic_q :: "traffic_event list"
  s_traffic_drops :: u32
  s_fwd_in_drops :: "u32 \<times> u32"
  s_fwd_out_drops :: "u32 \<times> u32"
  s_q_drops :: "u32 \<times> u32"
  s_dhcp_port :: "dhcp_port list"

definition static_forwarding :: forwarding where
  "static_forwarding =
     \<lparr>s_traffic_q = [], s_traffic_drops = 0, s_fwd_in_drops = (0, 0), s_fwd_out_drops = (0, 0),
      s_q_drops = (0, 0), s_dhcp_port = static_ports\<rparr>"

definition count_port :: "bool \<Rightarrow> u32 \<times> u32 \<Rightarrow> u32 \<times> u32" where
  "count_port is_wifi = (\<lambda>(eth, wifi). if is_wifi then (eth, wifi + 1) else (eth + 1, wifi))"

text \<open>\<open>xQueueSend\<close> with timeout 0, and the drop counted when it is full.\<close>

definition queue_event :: "traffic_event \<Rightarrow> forwarding \<Rightarrow> forwarding" where
  "queue_event ev s =
     (if length (s_traffic_q s) < TRAFFIC_EVENT_QUEUE_DEPTH then s\<lparr>s_traffic_q := s_traffic_q s @ [ev]\<rparr>
      else s\<lparr>s_traffic_drops := s_traffic_drops s + 1\<rparr>)"

definition chain_input :: "(pbuf option \<Rightarrow> int) \<Rightarrow> pbuf option \<Rightarrow> bool \<Rightarrow> forwarding \<Rightarrow> fate \<times> forwarding" where
  "chain_input orig p is_wifi s =
     (let err = orig p in
      (Passed err, if err \<noteq> ERR_OK then s\<lparr>s_fwd_in_drops := count_port is_wifi (s_fwd_in_drops s)\<rparr> else s))"

definition chain_output :: "(pbuf option \<Rightarrow> int) \<Rightarrow> pbuf option \<Rightarrow> bool \<Rightarrow> forwarding \<Rightarrow> fate \<times> forwarding" where
  "chain_output orig p is_wifi s =
     (let err = orig p in
      (Passed err, if err \<noteq> ERR_OK then s\<lparr>s_fwd_out_drops := count_port is_wifi (s_fwd_out_drops s)\<rparr> else s))"

section \<open>The receive wrapper\<close>

text \<open>The header the wrapper looks at: the bytes, whether there is an IP header, and how many are valid.\<close>

definition input_header ::
  "(pbuf \<Rightarrow> nat \<Rightarrow> u8 list) \<Rightarrow> u8 list \<Rightarrow> pbuf option \<Rightarrow> (u8 list \<times> bool \<times> nat) option"
where
  "input_header copy junk p =
     (let eth_ip_len = SIZEOF_ETH_HDR + IP_HLEN; hdrbuf = SIZEOF_ETH_HDR + IP_HLEN + 4 in
      case p of
        None \<Rightarrow> None
      | Some p \<Rightarrow>
          if length (payload p) \<ge> eth_ip_len then Some (payload p, True, length (payload p))
          else if tot_len p \<ge> eth_ip_len then
            let have_len = (if tot_len p < hdrbuf then tot_len p else hdrbuf)
            in Some (fill junk (copy p have_len), True, have_len)
          else if length (payload p) \<ge> 12 then Some (payload p, False, 0)
          else None)"

definition traffic_input_wrapper ::
  "int \<Rightarrow> mac \<Rightarrow> (pbuf \<Rightarrow> nat \<Rightarrow> u8 list) \<Rightarrow> u8 list \<Rightarrow> (nat \<Rightarrow> qtable) \<Rightarrow> (pbuf option \<Rightarrow> int) \<Rightarrow>
   bool \<Rightarrow> pbuf option \<Rightarrow> forwarding \<Rightarrow> fate \<times> forwarding"
where
  "traffic_input_wrapper now bridge copy junk mem orig is_wifi p s =
     (case (input_header copy junk p, p) of
        (Some (hdr, have_ip_hdr, have_len), Some pb) \<Rightarrow>
          let src = mac_at hdr 6 in
          if mac_is_client bridge src then
            let is_ip = (have_ip_hdr \<and> eth_type_ip hdr);
                is_dhcp = (is_ip \<and> is_dhcp_packet (drop SIZEOF_ETH_HDR hdr) (have_len - SIZEOF_ETH_HDR));
                src_ip = (if is_ip \<and> \<not> is_dhcp then u32_at hdr (SIZEOF_ETH_HDR + 12) else 0);
                s = (if is_dhcp then s\<lparr>s_dhcp_port := note_dhcp_port now src is_wifi (s_dhcp_port s)\<rparr> else s);
                ev = \<lparr>ev_mac = src, ev_is_wifi = is_wifi, ev_bytes = of_nat (tot_len pb), ev_is_uplink = True,
                      ev_observed_ip = src_ip\<rparr>;
                s = queue_event ev s
            in if \<not> is_dhcp \<and> mac_is_quarantined mem src
               then (Swallowed, s\<lparr>s_q_drops := apfst (\<lambda>n. n + 1) (s_q_drops s)\<rparr>)
               else chain_input orig p is_wifi s
          else chain_input orig p is_wifi s
      | _ \<Rightarrow> chain_input orig p is_wifi s)"

definition eth_input_wrapper where
  "eth_input_wrapper now bridge copy junk mem orig = traffic_input_wrapper now bridge copy junk mem orig False"

definition wifi_input_wrapper where
  "wifi_input_wrapper now bridge copy junk mem orig = traffic_input_wrapper now bridge copy junk mem orig True"

section \<open>The transmit wrapper\<close>

definition frame_is_dhcp :: "(pbuf \<Rightarrow> nat \<Rightarrow> u8 list) \<Rightarrow> u8 list \<Rightarrow> pbuf option \<Rightarrow> bool" where
  "frame_is_dhcp copy junk p =
     (case p of
        None \<Rightarrow> False
      | Some p \<Rightarrow>
          if tot_len p < SIZEOF_ETH_HDR + IP_HLEN then False
          else let len = (if tot_len p < SIZEOF_ETH_HDR + IP_HLEN + 4 then tot_len p
                          else SIZEOF_ETH_HDR + IP_HLEN + 4);
                   got = copy p len; buf = fill junk got
               in if length got \<noteq> len then False
                  else if \<not> eth_type_ip buf then False
                  else is_dhcp_packet (drop SIZEOF_ETH_HDR buf) (len - SIZEOF_ETH_HDR))"

definition output_header :: "(pbuf \<Rightarrow> nat \<Rightarrow> u8 list) \<Rightarrow> u8 list \<Rightarrow> pbuf option \<Rightarrow> u8 list option" where
  "output_header copy junk p =
     (case p of
        None \<Rightarrow> None
      | Some p \<Rightarrow>
          if length (payload p) \<ge> 12 then Some (payload p)
          else if tot_len p \<ge> 12 then Some (fill junk (copy p 12))
          else None)"

definition traffic_output_wrapper ::
  "mac \<Rightarrow> (pbuf \<Rightarrow> nat \<Rightarrow> u8 list) \<Rightarrow> u8 list \<Rightarrow> u8 list \<Rightarrow> (nat \<Rightarrow> qtable) \<Rightarrow> (pbuf option \<Rightarrow> int) \<Rightarrow>
   bool \<Rightarrow> pbuf option \<Rightarrow> forwarding \<Rightarrow> fate \<times> forwarding"
where
  "traffic_output_wrapper bridge copy junk junk' mem orig is_wifi p s =
     (case (output_header copy junk p, p) of
        (Some hdr, Some pb) \<Rightarrow>
          let dest = mac_at hdr 0 in
          if mac_is_client bridge dest then
            let ev = \<lparr>ev_mac = dest, ev_is_wifi = is_wifi, ev_bytes = of_nat (tot_len pb), ev_is_uplink = False,
                      ev_observed_ip = 0\<rparr>;
                s = queue_event ev s
            in if mac_is_quarantined mem dest \<and> \<not> frame_is_dhcp copy junk' p
               then (Swallowed, s\<lparr>s_q_drops := apsnd (\<lambda>n. n + 1) (s_q_drops s)\<rparr>)
               else chain_output orig p is_wifi s
          else chain_output orig p is_wifi s
      | _ \<Rightarrow> chain_output orig p is_wifi s)"

definition eth_output_wrapper where
  "eth_output_wrapper bridge copy junk junk' mem orig = traffic_output_wrapper bridge copy junk junk' mem orig False"

definition wifi_output_wrapper where
  "wifi_output_wrapper bridge copy junk junk' mem orig = traffic_output_wrapper bridge copy junk junk' mem orig True"

section \<open>The accounting task\<close>

text \<open>One turn of \<open>traffic_account_task\<close>: the oldest event, if there is one.\<close>

definition traffic_account_turn :: "int \<Rightarrow> forwarding \<times> tracker \<times> dhcp \<Rightarrow> forwarding \<times> tracker \<times> dhcp" where
  "traffic_account_turn now = (\<lambda>(s, td).
     case s_traffic_q s of
       [] \<Rightarrow> (s, td)
     | ev # rest \<Rightarrow>
         (s\<lparr>s_traffic_q := rest\<rparr>,
          account_traffic now (ev_mac ev) (ev_is_wifi ev) (ev_bytes ev) (ev_is_uplink ev)
            (if ev_observed_ip ev \<noteq> 0 then Some (ev_observed_ip ev) else None) td))"

record fwd_drops =
  eth_in :: u32
  wifi_in :: u32
  eth_out :: u32
  wifi_out :: u32

definition client_track_get_forward_drops :: "forwarding \<Rightarrow> fwd_drops" where
  "client_track_get_forward_drops s =
     \<lparr>eth_in = fst (s_fwd_in_drops s), wifi_in = snd (s_fwd_in_drops s), eth_out = fst (s_fwd_out_drops s),
      wifi_out = snd (s_fwd_out_drops s)\<rparr>"

definition client_track_get_traffic_drops :: "forwarding \<Rightarrow> u32" where
  "client_track_get_traffic_drops s = s_traffic_drops s"

definition client_track_get_quarantine_drops :: "forwarding \<Rightarrow> u32 \<times> u32" where
  "client_track_get_quarantine_drops s = s_q_drops s"

section \<open>The decision, on the frame as a whole\<close>

definition frame_dhcp :: "u8 list \<Rightarrow> bool" where
  "frame_dhcp bs \<longleftrightarrow> eth_type_ip bs \<and> is_dhcp_packet (drop 14 bs) (length bs - 14)"

text \<open>
  A frame in several segments the first of which ends inside the UDP ports. What comes in like that is not
  recognised as DHCP.
\<close>

definition cut_in_udp_ports :: "pbuf \<Rightarrow> bool" where
  "cut_in_udp_ports pb \<longleftrightarrow> 34 \<le> length (payload pb) \<and> length (payload pb) < 38 \<and> length (payload pb) < tot_len pb"

definition input_dhcp :: "pbuf \<Rightarrow> bool" where
  "input_dhcp pb \<longleftrightarrow> frame_dhcp (concat pb) \<and> \<not> cut_in_udp_ports pb"

definition input_spec ::
  "int \<Rightarrow> mac \<Rightarrow> (nat \<Rightarrow> qtable) \<Rightarrow> (pbuf option \<Rightarrow> int) \<Rightarrow> bool \<Rightarrow> pbuf \<Rightarrow> forwarding \<Rightarrow> fate \<times> forwarding"
where
  "input_spec now bridge mem orig w pb s =
     (let bs = concat pb; src = mac_at bs 6 in
      if \<not> mac_is_client bridge src then chain_input orig (Some pb) w s
      else
        let s = (if input_dhcp pb then s\<lparr>s_dhcp_port := note_dhcp_port now src w (s_dhcp_port s)\<rparr> else s);
            s = queue_event \<lparr>ev_mac = src, ev_is_wifi = w, ev_bytes = of_nat (length bs), ev_is_uplink = True,
                  ev_observed_ip = (if eth_type_ip bs \<and> \<not> input_dhcp pb then u32_at bs 26 else 0)\<rparr> s
        in if mac_is_quarantined mem src \<and> \<not> input_dhcp pb
           then (Swallowed, s\<lparr>s_q_drops := apfst (\<lambda>n. n + 1) (s_q_drops s)\<rparr>)
           else chain_input orig (Some pb) w s)"

definition output_spec ::
  "mac \<Rightarrow> (nat \<Rightarrow> qtable) \<Rightarrow> (pbuf option \<Rightarrow> int) \<Rightarrow> bool \<Rightarrow> pbuf \<Rightarrow> forwarding \<Rightarrow> fate \<times> forwarding"
where
  "output_spec bridge mem orig w pb s =
     (let bs = concat pb; dest = mac_at bs 0 in
      if \<not> mac_is_client bridge dest then chain_output orig (Some pb) w s
      else
        let s = queue_event \<lparr>ev_mac = dest, ev_is_wifi = w, ev_bytes = of_nat (length bs), ev_is_uplink = False,
                  ev_observed_ip = 0\<rparr> s
        in if mac_is_quarantined mem dest \<and> \<not> frame_dhcp bs
           then (Swallowed, s\<lparr>s_q_drops := apsnd (\<lambda>n. n + 1) (s_q_drops s)\<rparr>)
           else chain_output orig (Some pb) w s)"

text \<open>Two buffers that agree on the bytes the wrapper may look at.\<close>

lemma is_dhcp_append:
  assumes "(a < 24 \<and> b < 24) \<or> (24 \<le> a \<and> 24 \<le> b \<and> 24 \<le> length us)"
  shows "is_dhcp_packet (us @ ys) a = is_dhcp_packet (us @ zs) b"
  using assms by (auto simp: is_dhcp_packet_def Let_def be16_at_prefix nth_append)

lemma is_dhcp_prefix:
  assumes "34 \<le> length xs" "(a < 24 \<and> b < 24) \<or> (24 \<le> a \<and> 24 \<le> b \<and> 38 \<le> length xs)"
  shows "is_dhcp_packet (drop 14 (xs @ ys)) a = is_dhcp_packet (drop 14 (xs @ zs)) b"
  using is_dhcp_append [of a b "drop 14 xs" ys zs] assms by auto

lemma header_prefix:
  assumes "34 \<le> length xs" "(a < 24 \<and> b < 24) \<or> (24 \<le> a \<and> 24 \<le> b \<and> 38 \<le> length xs)"
  shows "mac_at (xs @ ys) 6 = mac_at (xs @ zs) 6" "eth_type_ip (xs @ ys) = eth_type_ip (xs @ zs)"
    "u32_at (xs @ ys) 26 = u32_at (xs @ zs) 26"
    "is_dhcp_packet (drop 14 (xs @ ys)) a = is_dhcp_packet (drop 14 (xs @ zs)) b"
  using is_dhcp_prefix [OF assms] assms(1)
  by (simp_all add: mac_at_prefix eth_type_ip_def be16_at_prefix u32_at_prefix)

lemma input_header_frame:
  assumes c: "copies copy" and l: "34 \<le> tot_len pb"
  shows "\<exists>hdr n. input_header copy junk (Some pb) = Some (hdr, True, n) \<and>
    mac_at hdr 6 = mac_at (concat pb) 6 \<and> eth_type_ip hdr = eth_type_ip (concat pb) \<and>
    u32_at hdr 26 = u32_at (concat pb) 26 \<and>
    is_dhcp_packet (drop 14 hdr) (n - 14) =
      (is_dhcp_packet (drop 14 (concat pb)) (length (concat pb) - 14) \<and> \<not> cut_in_udp_ports pb)"
proof (cases "34 \<le> length (payload pb)")
  case True
  obtain ys where ys: "concat pb = payload pb @ ys" using payload_prefix by blast
  have h: "input_header copy junk (Some pb) = Some (payload pb, True, length (payload pb))"
    using True by (simp add: input_header_def)
  show ?thesis
  proof (cases "38 \<le> length (payload pb) \<or> ys = []")
    case whole: True
    have "(length (payload pb) - 14 < 24 \<and> length (concat pb) - 14 < 24) \<or>
        (24 \<le> length (payload pb) - 14 \<and> 24 \<le> length (concat pb) - 14 \<and> 38 \<le> length (payload pb))"
      using whole True by (auto simp: ys)
    moreover have "\<not> cut_in_udp_ports pb" using whole by (auto simp: cut_in_udp_ports_def tot_len_def ys)
    ultimately show ?thesis
      using header_prefix [OF True, of "length (payload pb) - 14" "length (concat pb) - 14" "[]" ys] unfolding h ys by simp
  next
    case False
    then have "cut_in_udp_ports pb" using True by (simp add: cut_in_udp_ports_def tot_len_def ys)
    moreover have "length (payload pb) - 14 < 24" using False by arith
    then have "\<not> is_dhcp_packet (drop 14 (payload pb)) (length (payload pb) - 14)"
      by (simp add: is_dhcp_packet_def)
    ultimately show ?thesis
      using header_prefix(1-3) [OF True, of 0 0 "[]" ys] unfolding h ys by simp
  qed
next
  case False
  define n where "n = (if tot_len pb < 38 then tot_len pb else 38)"
  let ?xs = "take n (concat pb)" and ?hdr = "take n (concat pb) @ drop n junk"
  have n: "n \<le> length (concat pb)" "34 \<le> n" "n \<le> tot_len pb"
    using l by (simp_all add: n_def tot_len_def)
  then have xs: "length ?xs = n" and xs34: "34 \<le> length ?xs" by simp_all
  have "copy pb n = ?xs" using c n(3) by (simp add: copies_def)
  then have "input_header copy junk (Some pb) = Some (fill junk ?xs, True, n)"
    using False l by (simp add: input_header_def n_def Let_def)
  then have h: "input_header copy junk (Some pb) = Some (?hdr, True, n)"
    unfolding fill_def xs .
  have "(n - 14 < 24 \<and> length (concat pb) - 14 < 24) \<or> (24 \<le> n - 14 \<and> 24 \<le> length (concat pb) - 14 \<and> 38 \<le> length ?xs)"
    unfolding xs n_def using l by (auto simp: tot_len_def)
  note hp = header_prefix [OF xs34 this, of "drop n junk" "drop n (concat pb)", unfolded append_take_drop_id]
  have "\<not> cut_in_udp_ports pb" using False by (simp add: cut_in_udp_ports_def)
  with h hp show ?thesis by (intro exI [of _ ?hdr] exI [of _ n]) simp
qed

lemma output_header_frame:
  assumes "copies copy" "12 \<le> tot_len pb"
  shows "\<exists>hdr. output_header copy junk (Some pb) = Some hdr \<and> mac_at hdr 0 = mac_at (concat pb) 0"
proof (cases "12 \<le> length (payload pb)")
  case True
  obtain ys where "concat pb = payload pb @ ys" using payload_prefix by blast
  with True show ?thesis by (simp add: output_header_def mac_at_prefix)
next
  case False
  have "12 \<le> length (concat pb)" using assms(2) by (simp add: tot_len_def)
  then have "mac_at (take 12 (concat pb) @ ys) 0 = mac_at (concat pb) 0" for ys
    using mac_at_prefix [of 0 "take 12 (concat pb)" ys] mac_at_prefix [of 0 "take 12 (concat pb)" "drop 12 (concat pb)"]
    by simp
  with False assms show ?thesis by (simp add: output_header_def copies_def fill_def)
qed

lemma frame_is_dhcp_frame:
  assumes "copies copy" "34 \<le> tot_len pb"
  shows "frame_is_dhcp copy junk (Some pb) = frame_dhcp (concat pb)"
proof -
  define n where "n = (if tot_len pb < SIZEOF_ETH_HDR + IP_HLEN + 4 then tot_len pb else SIZEOF_ETH_HDR + IP_HLEN + 4)"
  let ?xs = "take n (concat pb)" and ?hdr = "take n (concat pb) @ drop n junk"
  have n: "n \<le> length (concat pb)" "34 \<le> n" "n \<le> tot_len pb"
    using assms(2) by (simp_all add: n_def tot_len_def)
  then have xs: "length ?xs = n" and xs34: "34 \<le> length ?xs" by simp_all
  have got: "copy pb n = ?xs" using assms(1) n(3) by (simp add: copies_def)
  have "(n - 14 < 24 \<and> length (concat pb) - 14 < 24) \<or> (24 \<le> n - 14 \<and> 24 \<le> length (concat pb) - 14 \<and> 38 \<le> length ?xs)"
    unfolding xs n_def using assms(2) by (auto simp: tot_len_def)
  note hp = header_prefix [OF xs34 this, of "drop n junk" "drop n (concat pb)", unfolded append_take_drop_id]
  have "frame_is_dhcp copy junk (Some pb) =
      (if length (copy pb n) \<noteq> n then False
       else if \<not> eth_type_ip (fill junk (copy pb n)) then False
       else is_dhcp_packet (drop 14 (fill junk (copy pb n))) (n - 14))"
    unfolding frame_is_dhcp_def option.case Let_def n_def [symmetric]
    by (rule if_not_P) (use assms(2) in simp)
  also have "\<dots> = (eth_type_ip ?hdr \<and> is_dhcp_packet (drop 14 ?hdr) (n - 14))"
    unfolding got fill_def xs by simp
  finally show ?thesis unfolding frame_dhcp_def using hp(2,4) by simp
qed


text \<open>A renewing client's frame, cut 20 bytes in, and a driver that has no memory.\<close>

definition dhcp_frame_example :: "u8 list" where
  "dhcp_frame_example =
     [2, 0, 0, 0, 0, 9, 2, 0, 0, 0, 0, 1, 8, 0, 0x45, 0, 1, 0, 0, 0, 0, 0, 64, 17, 0, 0, 192, 168, 5, 20,
      192, 168, 5, 1, 0, 68, 0, 67, 0, 0]"


end
