(* ===== verification/Console.thy ===== *)
theory Console
  imports ResetText WebRoutes Monitor DhcpServer Forwarding
begin

text \<open>
  The serial console (\<open>main/serial_console.c\<close>): its commands as functions of the parsed arguments, the state
  they read and the state they change. What a command prints is the list of its lines.
\<close>

section \<open>What a command works on\<close>

text \<open>The settings and the history as the web server has them, the quarantine, the log ring, the lease table.\<close>

record console =
  cs_dev :: device
  cs_quarantine :: quarantine
  cs_log :: log_buf
  cs_dhcp :: dhcp

text \<open>
  What a command finds around it. The libraries: the answers of the flash and what a failed save leaves
  (in \<open>vw_env\<close>), the answers to the erasures and what a failed one leaves, the printed form of an address,
  of a time, of the zone's abbreviation, the numbering of the reset reasons, the highest level compiled
  in, the names of errors. The other modules: their states as they are read. The time since boot and the
  wall clock.
\<close>

record view =
  vw_env :: env
  vw_erase :: "nat \<Rightarrow> int \<times> int \<times> int"
  vw_torn :: console
  vw_ntoa :: "u32 \<Rightarrow> string"
  vw_fmt :: "u64 \<Rightarrow> string"
  vw_abbrev :: "int \<Rightarrow> string"
  vw_enum :: "rst \<Rightarrow> u8"
  vw_max_level :: nat
  vw_err_name :: "int \<Rightarrow> string"
  vw_monitor :: monitor
  vw_fwd :: forwarding
  vw_eth :: eth_link
  vw_syslog :: syslog
  vw_clock :: clock
  vw_counters :: wan_counters
  vw_heap :: nat
  vw_min_heap :: nat
  vw_version :: string
  vw_us :: int
  vw_now :: int

datatype console_effect = Line string | Did effect

text \<open>What a command prints and does, its result, and the state after it.\<close>

type_synonym console_reply = "console_effect list \<times> int \<times> console"

definition say :: "string list \<Rightarrow> int \<Rightarrow> console \<Rightarrow> console_reply" where
  "say lines code s = (map Line lines, code, s)"

text \<open>The restart at the end of a command, with the intent and the delay in milliseconds.\<close>

definition restarting :: "view \<Rightarrow> reset_intent \<Rightarrow> nat \<Rightarrow> string list \<Rightarrow> console \<Rightarrow> console_reply" where
  "restarting v intent ms lines s =
     (map Line lines @ [Did (Http (Delay ms)), Did Restart], 0,
      s\<lparr>cs_dev := (cs_dev s)\<lparr>v_resets := reset_log_note_intent (nat (vw_us v)) intent (v_resets (cs_dev s))\<rparr>\<rparr>)"

text \<open>\<open>arg_parse\<close> is the library's: \<open>None\<close> where it found errors, which it prints.\<close>

definition with_args :: "'a option \<Rightarrow> ('a \<Rightarrow> console \<Rightarrow> console_reply) \<Rightarrow> console \<Rightarrow> console_reply" where
  "with_args args k s = (case args of None \<Rightarrow> ([], 1, s) | Some a \<Rightarrow> k a s)"

definition number :: "int \<Rightarrow> string" where
  "number i = (if i < 0 then ''-'' @ decimal (nat (- i)) else decimal (nat i))"

abbreviation quote :: string where "quote \<equiv> [CHR 0x22]"

section \<open>The access point and the login\<close>

definition cmd_wifi :: "view \<Rightarrow> (string option \<times> string option \<times> int option) option \<Rightarrow> console \<Rightarrow> console_reply" where
  "cmd_wifi v args = with_args args (\<lambda>(ssid, password, channel) s.
     (case wifi_cfg_load (v_wifi (cs_dev s)) of (cur_ssid, cur_password, cur_channel) \<Rightarrow>
        if ssid = None \<and> password = None \<and> channel = None then
          say [''SSID: '' @ cur_ssid, ''Channel: '' @ decimal (unat cur_channel)] 0 s
        else
          let ssid = (case ssid of Some x \<Rightarrow> x | None \<Rightarrow> cur_ssid);
              password = (case password of Some x \<Rightarrow> if x \<noteq> '''' then x else cur_password | None \<Rightarrow> cur_password);
              channel = (case channel of Some x \<Rightarrow> word_of_int x | None \<Rightarrow> cur_channel);
              cfg = (ssid, password, channel)
          in (case wifi_cfg_validate cfg of
                Some e \<Rightarrow> say [''Error: '' @ wifi_error_text e] 1 s
              | None \<Rightarrow>
                  let (err, nvs) = wifi_cfg_save (env_answers (vw_env v)) (v_wifi (env_torn (vw_env v))) cfg (v_wifi (cs_dev s));
                      s = s\<lparr>cs_dev := (cs_dev s)\<lparr>v_wifi := nvs\<rparr>\<rparr>
                  in if err \<noteq> 0 then say [''Error: failed to save WiFi config''] 1 s
                     else restarting v RESET_INTENT_WIFI_SAVE 200
                       [''Saved. SSID: '' @ ssid @ '', Channel: '' @ decimal (unat channel), ''Rebooting to apply...''] s)))"

definition cmd_admin :: "view \<Rightarrow> (string option \<times> string option) option \<Rightarrow> console \<Rightarrow> console_reply" where
  "cmd_admin v args = with_args args (\<lambda>(user, password) s.
     (let ((cur_user, cur_password), a) = auth_cfg_load (v_auth (cs_dev s));
          s = s\<lparr>cs_dev := (cs_dev s)\<lparr>v_auth := a\<rparr>\<rparr>
      in if user = None \<and> password = None then say [''Admin username: '' @ cur_user] 0 s
         else
           let new_user = (case user of Some x \<Rightarrow> x | None \<Rightarrow> cur_user);
               new_password = (case password of Some x \<Rightarrow> x | None \<Rightarrow> cur_password)
           in (case auth_cfg_validate new_user new_password of
                 Some e \<Rightarrow> say [''Error: '' @ auth_error_text e] 1 s
               | None \<Rightarrow>
                   let (err, a) = auth_cfg_save (env_answers (vw_env v)) (u_nvs (v_auth (env_torn (vw_env v))))
                         new_user new_password (v_auth (cs_dev s));
                       s = s\<lparr>cs_dev := (cs_dev s)\<lparr>v_auth := a\<rparr>\<rparr>
                   in if err \<noteq> 0 then say [''Error: failed to save admin credentials''] 1 s
                      else say [''Saved. Admin username: '' @ new_user] 0 s)))"

section \<open>The state of the bridge\<close>

definition total_bps :: "(client_info \<Rightarrow> u32) \<Rightarrow> client_info list \<Rightarrow> u32" where
  "total_bps f cs = foldl (\<lambda>t c. t + f c) 0 cs"

definition cmd_sysinfo :: "view \<Rightarrow> console \<Rightarrow> console_reply" where
  "cmd_sysinfo v s =
     (let cpu = sys_monitor_get_cpu_load (vw_monitor v);
          clients = client_track_get_snapshot (vw_us v) CLIENT_TRACK_MAX_CLIENTS (env_tracker (vw_env v));
          (rx_pps, tx_pps) = client_track_get_traffic_pps (env_tracker (vw_env v));
          eth = eth_link_get_status (vw_us v) (vw_eth v);
          n = (\<lambda>w :: u32. decimal (unat w))
      in say
        ([''Version:        '' @ vw_version v,
          ''Uptime:         '' @ decimal (nat (vw_us v div 1000000)) @ '' s''] @
         (case reset_log_get_current (v_resets (cs_dev s)) of
            Some cur \<Rightarrow> [''Last restart:   '' @ describe_reset (vw_enum v) (vw_fmt v) cur 192]
          | None \<Rightarrow> []) @
         [''Free heap:      '' @ decimal (vw_heap v) @ '' bytes'',
          ''Min free heap:  '' @ decimal (vw_min_heap v) @ '' bytes'',
          ''CPU load:       core0 '' @ decimal (unat (cpu ! 0)) @ ''%, core1 '' @ decimal (unat (cpu ! 1)) @ ''%'',
          ''CPU freq:       '' @ n (sys_monitor_get_cpu_freq_mhz (vw_monitor v)) @ '' MHz'',
          ''Net traffic:    rx '' @ n (total_bps ci_rx_bps clients) @ '' B/s ('' @ n rx_pps @ '' pkt/s), tx '' @
            n (total_bps ci_tx_bps clients) @ '' B/s ('' @ n tx_pps @ '' pkt/s)'',
          (if es_up eth
           then ''Eth port:       up, '' @ n (es_speed_mbit eth) @ '' Mbit '' @
             (if es_full_duplex eth then ''full'' else ''half'') @ '' duplex''
           else ''Eth port:       DOWN''),
          ''Eth link:       '' @ n (es_flaps eth) @ '' flap'' @ (if es_flaps eth = 1 then '''' else ''s'') @
            '', last change '' @ n (es_since_change_s eth) @ '' s ago'',
          ''Clients:        '' @ decimal (length clients),
          ''Traffic drops:  '' @ n (client_track_get_traffic_drops (vw_fwd v))]) 0 s)"

definition cmd_clients :: "view \<Rightarrow> console \<Rightarrow> console_reply" where
  "cmd_clients v s =
     (let clients = client_track_get_snapshot (vw_us v) CLIENT_TRACK_MAX_CLIENTS (env_tracker (vw_env v));
          n = (\<lambda>w :: u32. decimal (unat w));
          row = (\<lambda>mac ip link rssi rx tx rxp txp seen name.
            pad_right 18 mac @ '' '' @ pad_right 15 ip @ '' '' @ pad_right 4 link @ '' '' @ pad_right 5 rssi @ '' '' @
            pad_left 10 rx @ '' '' @ pad_left 10 tx @ '' '' @ pad_left 8 rxp @ '' '' @ pad_left 8 txp @ '' '' @ seen @ '' '' @ name)
      in if clients = [] then say [''No active clients.''] 0 s
         else say
           (row ''MAC'' ''IP'' ''LINK'' ''RSSI'' ''RX B/s'' ''TX B/s'' ''RX p/s'' ''TX p/s'' (pad_left 6 ''SEEN'') ''NAME'' #
            map (\<lambda>c. row (mac_text (ci_mac c)) (strlcpy (vw_ntoa v (ci_ip c)) 16) (if ci_is_wifi c then ''wifi'' else ''eth'')
                   (if ci_is_wifi c then strlcpy (number (sint (ci_rssi c))) 8 else ''-'')
                   (n (ci_rx_bps c)) (n (ci_tx_bps c)) (n (ci_rx_pps c)) (n (ci_tx_pps c))
                   (pad_left 5 (n (ci_last_seen_s c)) @ ''s'') (c_text (ci_name c))) clients) 0 s)"

section \<open>Leases\<close>

text \<open>The clause about a conflict that is acted on, of the first such conflict the client is an end of.\<close>

definition conflict_clause :: "conflict_info list \<Rightarrow> mac \<Rightarrow> string option" where
  "conflict_clause conflicts m =
     (case filter (\<lambda>c. f_armed c \<and> (f_mac c = m \<or> f_peer_mac c = m)) conflicts of
        [] \<Rightarrow> None
      | c # _ \<Rightarrow> Some (if f_mac c = m then '', duplicate - blocked'' else '', duplicate - kept''))"

definition lease_state :: "(u32 \<Rightarrow> string) \<Rightarrow> conflict_info list \<Rightarrow> dhcp_lease_info \<Rightarrow> nat \<Rightarrow> string" where
  "lease_state ntoa conflicts l n =
     (let manual = (i_observed_ip l \<noteq> 0);
          state = strlcpy
            (if manual \<and> i_ip l \<noteq> 0 then ''manual (leased '' @ strlcpy (ntoa (i_ip l)) 16 @ '')''
             else if manual then ''manual''
             else if i_expires_in_s l > 0 then ''active'' else ''reserved'') n;
          state = (case conflict_clause conflicts (i_mac l) of Some t \<Rightarrow> strlcat state t n | None \<Rightarrow> state)
      in if \<not> i_stored l then strlcat state '', unsaved'' n else state)"

definition lease_line :: "string \<Rightarrow> string \<Rightarrow> string \<Rightarrow> string \<Rightarrow> string \<Rightarrow> string" where
  "lease_line mac ip expires seen state =
     pad_right 18 mac @ '' '' @ pad_right 15 ip @ '' '' @ pad_left 9 expires @ '' '' @ pad_right 13 seen @ '' '' @ state"

definition lease_row :: "(u32 \<Rightarrow> string) \<Rightarrow> conflict_info list \<Rightarrow> dhcp_lease_info \<Rightarrow> string" where
  "lease_row ntoa conflicts l =
     (let manual = (i_observed_ip l \<noteq> 0);
          ip = strlcpy (ntoa (if manual then i_observed_ip l else i_ip l)) 16;
          expires = (if \<not> manual \<and> i_expires_in_s l > 0 then strlcpy (decimal (unat (i_expires_in_s l)) @ ''s'') 12 else ''-'');
          seen = (if i_boots_since_seen l = 0 then ''now''
            else strlcpy (decimal (unat (i_boots_since_seen l)) @ '' boot'' @ (if i_boots_since_seen l = 1 then '''' else ''s'') @ '' ago'') 24)
      in lease_line (mac_text (i_mac l)) ip expires seen (lease_state ntoa conflicts l 64))"

abbreviation CLIENT_TRACK_MAX_CONFLICTS :: nat where "CLIENT_TRACK_MAX_CONFLICTS \<equiv> QUARANTINE_MAX"

definition cmd_leases :: "view \<Rightarrow> console \<Rightarrow> console_reply" where
  "cmd_leases v s =
     (let leases = dhcp_server_get_leases (vw_us v) DHCP_SERVER_MAX_LEASES (cs_dhcp s);
          conflicts = client_track_get_conflicts (vw_us v) CLIENT_TRACK_MAX_CONFLICTS (cs_quarantine s);
          any_conflict = list_ex (\<lambda>l. conflict_clause conflicts (i_mac l) \<noteq> None) leases
      in if leases = [] then say [''No DHCP leases.''] 0 s
         else say
           (lease_line ''MAC'' ''IP'' ''EXPIRES'' ''SEEN'' ''STATE'' # map (lease_row (vw_ntoa v) conflicts) leases @
            (if any_conflict then
               ['''', ''Two devices are on one address. Run \"quarantine\" to see which device is on each,'',
                ''and to override the decision.''] else [])) 0 s)"

section \<open>The quarantine\<close>

text \<open>\<open>%2x\<close>: at most two characters after white space.\<close>

definition scan_hex2 :: "string \<Rightarrow> (u32 \<times> string) option" where
  "scan_hex2 s =
     (let p = dropWhile space s in
      case scan_hex (take 2 p) of None \<Rightarrow> None | Some (x, r) \<Rightarrow> Some (x, r @ drop 2 p))"

fun scan_pairs :: "char \<Rightarrow> nat \<Rightarrow> string \<Rightarrow> u32 list option" where
  "scan_pairs sep 0 s = Some []"
| "scan_pairs sep (Suc n) s =
     (case scan_hex2 s of
        None \<Rightarrow> None
      | Some (x, r) \<Rightarrow>
          if n = 0 then Some [x]
          else (case r of
                  c # q \<Rightarrow> if c = sep then map_option ((#) x) (scan_pairs sep n q) else None
                | [] \<Rightarrow> None))"

definition console_parse_mac :: "string \<Rightarrow> mac option" where
  "console_parse_mac s =
     (let fields = (case scan_pairs CHR '':'' 6 s of Some xs \<Rightarrow> Some xs | None \<Rightarrow> scan_pairs CHR ''-'' 6 s) in
      case fields of
        Some [a, b, c, d, e, f] \<Rightarrow>
          if list_ex (\<lambda>x. x > 0xFF) [a, b, c, d, e, f] then None
          else Some (Mac (ucast a) (ucast b) (ucast c) (ucast d) (ucast e) (ucast f))
      | _ \<Rightarrow> None)"

definition conflict_state :: "conflict_info \<Rightarrow> string" where
  "conflict_state c = strlcpy
     (if f_exempt c then ''pardoned''
      else if \<not> f_armed c then ''confirming''
      else if \<not> f_dropping c then ''confirmed, not enforced''
      else ''dropping for '' @ decimal (unat (f_armed_s c)) @ ''s'') 64"

definition conflict_line :: "string \<Rightarrow> string \<Rightarrow> string \<Rightarrow> string \<Rightarrow> string" where
  "conflict_line ip off keeper state =
     pad_right 15 ip @ '' '' @ pad_right 18 off @ '' '' @ pad_right 18 keeper @ '' '' @ state"

definition list_conflicts :: "view \<Rightarrow> console \<Rightarrow> console_reply" where
  "list_conflicts v s =
     (let conflicts = client_track_get_conflicts (vw_us v) CLIENT_TRACK_MAX_CONFLICTS (cs_quarantine s);
          (up, down) = client_track_get_quarantine_drops (vw_fwd v)
      in say
        ([''Enforcement: '' @
            (if client_track_quarantine_enforcing (cs_quarantine s)
             then ''on - a device on somebody else'' @ [CHR 0x27] @ ''s address gets cut off''
             else ''OFF - conflicts are reported but nothing is dropped''),
          ''Frames dropped: '' @ decimal (unat up) @ '' uplink, '' @ decimal (unat down) @ '' downlink''] @
         (if conflicts = [] then [''No duplicate addresses.'']
          else ['''', conflict_line ''ADDRESS'' ''CUT OFF'' ''KEPT BY'' ''STATE''] @
            map (\<lambda>c. conflict_line (strlcpy (vw_ntoa v (f_ip c)) 16) (mac_text (f_mac c)) (mac_text (f_peer_mac c))
                   (conflict_state c)) conflicts)) 0 s)"

definition cmd_quarantine :: "view \<Rightarrow> (string option \<times> string option) option \<Rightarrow> console \<Rightarrow> console_reply" where
  "cmd_quarantine v args = with_args args (\<lambda>(action, mac) s.
     (let enforce = (\<lambda>on. s\<lparr>cs_quarantine := client_track_quarantine_enforce on (cs_quarantine s)\<rparr>);
          clear = (\<lambda>m. case client_track_quarantine_clear m (cs_quarantine s) of (ok, q) \<Rightarrow> (ok, s\<lparr>cs_quarantine := q\<rparr>))
      in case action of
           None \<Rightarrow> list_conflicts v s
         | Some verb \<Rightarrow>
             if verb = ''on'' then say [''Enforcing: duplicate-address offenders will be cut off again.''] 0 (enforce True)
             else if verb = ''off'' then
               say [''Enforcement off: conflicts are still detected and reported, but nothing is dropped.''] 0 (enforce False)
             else if verb = ''clear'' then
               (case mac of
                  None \<Rightarrow> say [''Usage: quarantine clear <mac|all>''] 1 s
                | Some who \<Rightarrow>
                    if who = ''all'' then
                      say [''All pardons withdrawn. Conflicts still present will re-arm within a few seconds.''] 0 (snd (clear None))
                    else (case console_parse_mac who of
                        None \<Rightarrow> say [''Not a MAC address: '' @ who] 1 s
                      | Some m \<Rightarrow>
                          let (ok, s') = clear (Some m) in
                          if \<not> ok then
                            say [''No room to record another pardon (limit '' @ decimal CLIENT_TRACK_MAX_CONFLICTS @
                              ''). Use \"quarantine off\" instead.''] 1 s'
                          else say [''Pardoned '' @ who @
                              '' - it is being carried again, and will not be cut off again until a reboot.''] 0 s'))
             else say [''Unknown action '' @ quote @ verb @ quote @ ''. Use: quarantine [clear <mac|all> | on | off]''] 1 s))"

definition cmd_kick :: "view \<Rightarrow> string option \<Rightarrow> console \<Rightarrow> console_reply" where
  "cmd_kick v args = with_args args (\<lambda>who s.
     (case console_parse_mac who of
        None \<Rightarrow> say [''Not a MAC address: '' @ who] 1 s
      | Some m \<Rightarrow>
          let n = vw_env v in
          if client_track_kick_station m (env_aid n m) (env_deauth n) (env_tracker n)
          then (Did (Kick m) # map Line [''Kicked '' @ who @ '' - it will need to reassociate.''], 0, s)
          else say [who @ '' is not a connected WiFi client.''] 1 s))"

section \<open>The clock\<close>

text \<open>The zone and the time as they stand, the end of every call that does not fail.\<close>

definition show_time :: "view \<Rightarrow> console \<Rightarrow> string list \<times> console" where
  "show_time v s =
     (let (tz, store) = clock_cfg_get (v_clock (cs_dev s));
          s = s\<lparr>cs_dev := (cs_dev s)\<lparr>v_clock := store\<rparr>\<rparr>;
          c = vw_clock v;
          fmt = (\<lambda>t. strlcpy (vw_fmt v (word_of_int t)) CLOCK_TIME_STR_MAX)
      in ([''timezone        '' @ tz] @
          (case clock_time_now (vw_now v) (c_rtc c) of
             Some now \<Rightarrow>
               [''time            '' @ fmt now @ '' '' @ vw_abbrev v now] @
               (if clock_time_source c = ''carried'' then
                  [''source          carried through RTC memory from an earlier boot - this'',
                   ''                reset did not cut power, so the clock survived it'']
                else [''source          NTP, over the WAN'']) @
               (if clock_time_last_sync (c_rtc c) \<noteq> 0 then [''last sync       '' @ fmt (clock_time_last_sync (c_rtc c))] else []) @
               (if clock_time_stale (vw_now v) (c_rtc c) then
                  ['''', ''Nothing has corrected this clock in over a day. It runs on the internal'',
                   ''RC oscillator rather than a crystal, so by now it is likely to be out by'',
                   ''of the order of a minute. Treat the date as sound and the seconds as not.''] else [])
           | None \<Rightarrow>
               [''time            unknown'',
                '''', ''This device has no battery-backed clock, so it only knows the time while'',
                ''the WAN can reach an NTP server, and forgets it on the next power cut. The'',
                ''reset history is ordered and timed either way; see \"resets\".'']), s))"

definition zone_line :: "string \<times> string \<Rightarrow> string" where
  "zone_line z = ''  '' @ pad_right 24 (fst z) @ '' '' @ snd z"

definition cmd_time :: "view \<Rightarrow> (string option \<times> bool) option \<Rightarrow> console \<Rightarrow> console_reply" where
  "cmd_time v args = with_args args (\<lambda>(tz, listed) s.
     (if listed then
        say (map zone_line k_zones @ ['''', ''Any other zone can be given as a POSIX TZ string directly.'']) 0 s
      else (case tz of
          None \<Rightarrow> let (lines, s) = show_time v s in say lines 0 s
        | Some want \<Rightarrow>
            let (_, store) = clock_cfg_get (v_clock (cs_dev s));
                s = s\<lparr>cs_dev := (cs_dev s)\<lparr>v_clock := store\<rparr>\<rparr>;
                zone = strlcpy (case clock_cfg_zone_from_label (Some want) of Some z \<Rightarrow> z | None \<Rightarrow> want) CLOCK_CFG_TZ_MAX_LEN
            in (case clock_cfg_validate zone of
                  Some e \<Rightarrow> say [clock_error_text e] 1 s
                | None \<Rightarrow>
                    let (err, store) = clock_cfg_save (env_answers (vw_env v)) (k_nvs (v_clock (env_torn (vw_env v)))) zone
                          (v_clock (cs_dev s));
                        s = s\<lparr>cs_dev := (cs_dev s)\<lparr>v_clock := store\<rparr>\<rparr>
                    in if err \<noteq> 0 then say [''Failed to save the timezone.''] 1 s
                       else let (lines, s) = show_time v s in say ([''Timezone set to '' @ zone @ ''.''] @ lines) 0 s))))"

section \<open>Log levels\<close>

definition log_levels :: "(string \<times> esp_log_level) list" where
  "log_levels =
     [(''none'', ESP_LOG_NONE), (''error'', ESP_LOG_ERROR), (''warn'', ESP_LOG_WARN),
      (''info'', ESP_LOG_INFO), (''debug'', ESP_LOG_DEBUG), (''verbose'', ESP_LOG_VERBOSE)]"

text \<open>The capture level is the device's \<open>v_level\<close>, the number of the enumeration.\<close>

definition level_name :: "nat \<Rightarrow> string" where
  "level_name level = (case filter (\<lambda>(_, l). level_rank l = level) log_levels of [] \<Rightarrow> ''unknown'' | (name, _) # _ \<Rightarrow> name)"

definition cmd_loglevel :: "view \<Rightarrow> string option option \<Rightarrow> console \<Rightarrow> console_reply" where
  "cmd_loglevel v args = with_args args (\<lambda>level s.
     (case level of
        None \<Rightarrow> say [''Serial log level: '' @ level_name (level_rank (log_buf_get_serial_level (cs_log s))),
                   ''Capture level:    '' @ level_name (v_level (cs_dev s))] 0 s
      | Some name \<Rightarrow>
          (case first_slot (\<lambda>_ (n, _). name = n) log_levels of
             None \<Rightarrow> say [''Error: unknown level '' @ quote @ name @ quote @ '' (want none|error|warn|info|debug|verbose)''] 1 s
           | Some i \<Rightarrow>
               let level = snd (log_levels ! i); captured = v_level (cs_dev s);
                   s = s\<lparr>cs_log := log_buf_set_serial_level level (cs_log s)\<rparr>;
                   raised = (level_rank level > captured);
                   s = (if raised then s\<lparr>cs_dev := (cs_dev s)\<lparr>v_level := level_rank level\<rparr>\<rparr> else s)
               in say
                 ([''Serial log level set to '' @ name] @
                  (if raised then
                     [''Capture level raised to '' @ name @ '' (was '' @ level_name captured @
                      '') so these lines can reach this console.''] else []) @
                  (if level_rank level > vw_max_level v then
                     [''Note: this build compiles out everything above '' @ quote @ level_name (vw_max_level v) @ quote @
                      '' (CONFIG_LOG_MAXIMUM_LEVEL), so no '' @ name @ '' lines exist to show.''] else [])) 0 s)))"

section \<open>The log sender and the uplink\<close>

text \<open>An argument, checked and stored where it was given.\<close>

definition with_opt :: "'a option \<Rightarrow> ('a \<Rightarrow> 'c \<Rightarrow> string + 'c) \<Rightarrow> string + 'c \<Rightarrow> string + 'c" where
  "with_opt arg f r =
     (case r of Inl e \<Rightarrow> Inl e
      | Inr cfg \<Rightarrow> (case arg of None \<Rightarrow> Inr cfg | Some x \<Rightarrow> f x cfg))"

definition on_off :: "(bool \<Rightarrow> 'c) \<Rightarrow> string \<Rightarrow> string + 'c" where
  "on_off f state =
     (if state = ''on'' then Inr (f True) else if state = ''off'' then Inr (f False)
      else Inl (''Error: expected '' @ quote @ ''on'' @ quote @ '' or '' @ quote @ ''off'' @ quote @ '', got '' @ quote @ state @ quote))"

definition print_syslog_status :: "view \<Rightarrow> syslog_cfg \<Rightarrow> console \<Rightarrow> string list" where
  "print_syslog_status v cfg s =
     (let st = syslog_get_status (cs_log s) (vw_syslog v); n = (\<lambda>w :: u32. decimal (unat w)) in
      [''Syslog:     '' @ (if y_enabled cfg then ''enabled'' else ''disabled''),
       (if y_server_ip cfg = 0 then ''Collector:  not set''
        else ''Collector:  '' @ strlcpy (vw_ntoa v (y_server_ip cfg)) 16 @ '':'' @ decimal (unat (y_port cfg)) @
          ''   (facility '' @ decimal (unat (y_facility cfg)) @ '' '' @ syslog_cfg_facility_name (y_facility cfg) @
          '', minimum severity '' @
          (case syslog_cfg_severity_name (y_min_severity cfg) of Some t \<Rightarrow> t | None \<Rightarrow> ''(null)'') @ '')''),
       ''Hostname:   '' @ y_hostname cfg,
       ''Socket:     '' @ (if ss_bound st then ''bound to the bridge'' else ''not bound - waiting for the bridge network''),
       ''Sent:       '' @ n (ss_sent st) @ ''    Waiting: '' @ n (ss_backlog st) @ ''    Filtered: '' @ n (ss_filtered st) @
         ''    Aged out: '' @ n (ss_aged_out st) @ ''    Failed: '' @ n (ss_send_fail st) @
         '' (last errno '' @ number (ss_last_errno st) @ '')'',
       '''',
       ''Nothing here can tell whether the collector received any of it - UDP has'',
       ''no acknowledgement, and this device has no route to anywhere that could'',
       ''say. \"Sent\" means handed to the network.''])"

text \<open>The state, the collector, the port, the facility, the severity and the hostname.\<close>

type_synonym syslog_args = "string option \<times> string option \<times> int option \<times> int option \<times> string option \<times> string option"

definition syslog_args_cfg :: "view \<Rightarrow> syslog_args \<Rightarrow> syslog_cfg \<Rightarrow> string + syslog_cfg" where
  "syslog_args_cfg v args cfg =
     (case args of (state, server, port, facility, severity, hostname) \<Rightarrow>
        let n = vw_env v;
            r = with_opt state (\<lambda>x c. on_off (\<lambda>on. c\<lparr>y_enabled := on\<rparr>) x) (Inr cfg);
            r = with_opt server (\<lambda>x c. if env_aton n x = 0 then Inl (''Error: '' @ quote @ x @ quote @ '' is not an IPv4 address'')
                                       else Inr (c\<lparr>y_server_ip := env_aton n x\<rparr>)) r;
            r = with_opt port (\<lambda>x c. if x < 1 \<or> x > 65535 then Inl ''Error: port must be 1-65535 (514 is the syslog default)''
                                     else Inr (c\<lparr>y_port := word_of_int x\<rparr>)) r;
            r = with_opt facility (\<lambda>x c. if x < 0 \<or> x > 23 then Inl ''Error: facility must be 0-23 (23 is local7)''
                                         else Inr (c\<lparr>y_facility := word_of_int x\<rparr>)) r;
            r = with_opt severity (\<lambda>x c. case syslog_cfg_severity_from_name x of
                    None \<Rightarrow> Inl (''Error: unknown severity '' @ quote @ x @ quote @
                      '' (want emergency|alert|critical|error|warning|notice|info|debug)'')
                  | Some sev \<Rightarrow> Inr (c\<lparr>y_min_severity := sev\<rparr>)) r
        in with_opt hostname (\<lambda>x c. Inr (c\<lparr>y_hostname := if x = '''' then strlcpy (syslog_cfg_default_hostname (env_mac n)) SYSLOG_CFG_HOSTNAME_MAX_LEN
                                                         else strlcpy x SYSLOG_CFG_HOSTNAME_MAX_LEN\<rparr>)) r)"

definition cmd_syslog :: "view \<Rightarrow> syslog_args option \<Rightarrow> console \<Rightarrow> console_reply" where
  "cmd_syslog v args = with_args args (\<lambda>a s.
     (let n = vw_env v;
          (current, store) = syslog_cfg_get (env_mac n) (v_syslog (cs_dev s));
          s = s\<lparr>cs_dev := (cs_dev s)\<lparr>v_syslog := store\<rparr>\<rparr>
      in if a = (None, None, None, None, None, None) then say (print_syslog_status v current s) 0 s
         else (case syslog_args_cfg v a current of
             Inl msg \<Rightarrow> say [msg] 1 s
           | Inr cfg \<Rightarrow>
               (case syslog_cfg_validate cfg (fst (env_subnet n)) (snd (env_subnet n)) of
                  Some e \<Rightarrow> say [''Error: '' @ syslog_error_text e] 1 s
                | None \<Rightarrow>
                    let (err, store) = syslog_cfg_save (env_answers n) (y_nvs (v_syslog (env_torn n))) (env_mac n) cfg
                          (v_syslog (cs_dev s));
                        s = s\<lparr>cs_dev := (cs_dev s)\<lparr>v_syslog := store\<rparr>\<rparr>
                    in if err \<noteq> 0 then say [''Error: failed to save syslog config''] 1 s
                       else (Did WakeSender # map Line ([''Saved. In effect now; no reboot needed.'', ''''] @
                               print_syslog_status v cfg s), 0, s)))))"

definition ip_text :: "u32 \<Rightarrow> string" where
  "ip_text ip =
     (let b = (\<lambda>k. decimal (unat (drop_bit k ip AND 0xFF))) in b 0 @ ''.'' @ b 8 @ ''.'' @ b 16 @ ''.'' @ b 24)"

definition print_wan_status :: "view \<Rightarrow> wan_cfg \<Rightarrow> console \<Rightarrow> string list" where
  "print_wan_status v cfg s =
     (let st = v_link (cs_dev s); ports = fst (wan_cfg_format_ports cfg WAN_CFG_PORTS_STR_MAX);
          n = (\<lambda>w :: u32. decimal (unat w)); c = vw_counters v
      in [''WAN: '' @ (if w_enabled cfg then ''on'' else ''off''),
          ''  Upstream network: '' @ (if w_ssid cfg \<noteq> '''' then w_ssid cfg else ''(not set)''),
          ''  Password:         '' @ (if w_password cfg \<noteq> '''' then ''(set)'' else ''(open network)''),
          ''  Allowed ports:    '' @ (if ports \<noteq> '''' then ports else ''(none)''),
          ''  State:            '' @ wan_state_name (wl_state st)] @
         (if wl_state st = WAN_STATE_SUBNET_CONFLICT then
            [''  The upstream network hands out addresses on 192.168.5.x, the same range'',
             ''  this bridge uses. Change the upstream router'' @ [CHR 0x27] @ ''s range, or the WAN'',
             ''  cannot work.''] else []) @
         (if wl_ip st \<noteq> 0 then
            [''  Address:          '' @ ip_text (wl_ip st) @ ''/'' @ ip_text (wl_netmask st),
             ''  Gateway:          '' @ ip_text (wl_gw st),
             ''  DNS:              '' @ ip_text (wl_dns st),
             ''  Signal:           '' @ number (sint (wl_rssi st)) @ '' dBm''] else []) @
         (if wl_ap_channel st \<noteq> 0 then
            [''  Radio channel:    '' @ decimal (unat (wl_ap_channel st)) @
             (if wl_ap_channel_configured st \<noteq> 0 \<and> wl_ap_channel st \<noteq> wl_ap_channel_configured st then
                '' (the '' @ quote @ ''wifi'' @ quote @ '' setting asks for '' @ decimal (unat (wl_ap_channel_configured st)) @
                '', but one radio cannot serve two channels - the upstream network'' @ [CHR 0x27] @ ''s wins)'' else '''')] else []) @
         (if wl_retry_in_s st \<noteq> 0 then [''  Retrying in:      '' @ n (wl_retry_in_s st) @ '' s''] else []) @
         [''  NAT:              '' @ (if wl_napt_on st then ''enabled'' else ''not enabled''),
          ''  Connects/disconnects: '' @ n (wl_connects st) @ ''/'' @ n (wl_disconnects st) @
            '' (last reason '' @ decimal (unat (wl_last_reason st)) @ '')'',
          ''  Out: '' @ n (tx_allowed c) @ '' allowed, '' @ n (tx_blocked c) @
            '' blocked by the port list (DNS and NTP bypass it)'',
          ''  In:  '' @ n (rx_allowed c) @ '' allowed, '' @ n (rx_blocked c) @ '' blocked''])"

text \<open>The state, the network, its password and the port list.\<close>

type_synonym wan_args = "string option \<times> string option \<times> string option \<times> string option"

definition wan_args_cfg :: "wan_args \<Rightarrow> wan_cfg \<Rightarrow> string + wan_cfg" where
  "wan_args_cfg args cfg =
     (case args of (state, ssid, password, ports) \<Rightarrow>
        let r = with_opt state (\<lambda>x c. on_off (\<lambda>on. c\<lparr>w_enabled := on\<rparr>) x) (Inr cfg);
            r = with_opt ssid (\<lambda>x c. Inr (c\<lparr>w_ssid := strlcpy x WAN_CFG_SSID_MAX_LEN\<rparr>)) r;
            r = with_opt password (\<lambda>x c. Inr (c\<lparr>w_password := strlcpy x WAN_CFG_PASSWORD_MAX_LEN\<rparr>)) r
        in with_opt ports (\<lambda>x c. case wan_cfg_parse_ports x of
             Inl e \<Rightarrow> Inl (''Error: '' @ wan_error_text e) | Inr rules \<Rightarrow> Inr (c\<lparr>w_ports := rules\<rparr>)) r)"

definition cmd_wan :: "view \<Rightarrow> wan_args option \<Rightarrow> console \<Rightarrow> console_reply" where
  "cmd_wan v args = with_args args (\<lambda>a s.
     (let (before, store) = wan_cfg_get (v_wan (cs_dev s)); s = s\<lparr>cs_dev := (cs_dev s)\<lparr>v_wan := store\<rparr>\<rparr> in
      if a = (None, None, None, None) then say (print_wan_status v before s) 0 s
      else (case wan_args_cfg a before of
          Inl msg \<Rightarrow> say [msg] 1 s
        | Inr cfg \<Rightarrow>
            (case wan_cfg_validate cfg of
               Some e \<Rightarrow> say [''Error: '' @ wan_error_text e] 1 s
             | None \<Rightarrow>
                 let (err, store) = wan_cfg_save (env_answers (vw_env v)) (ws_nvs (v_wan (env_torn (vw_env v)))) cfg (v_wan (cs_dev s));
                     s = s\<lparr>cs_dev := (cs_dev s)\<lparr>v_wan := store\<rparr>\<rparr>
                 in if err \<noteq> 0 then say [''Error: failed to save uplink config''] 1 s
                    else if \<not> radio_changed before cfg then
                      let d = cs_dev s;
                          s = s\<lparr>cs_dev := d\<lparr>v_link := wan_ports_changed (fst (wan_cfg_get (v_wan d))) (v_link d)\<rparr>\<rparr>
                      in say ([''Saved. In effect now; no reboot needed.'', ''''] @ print_wan_status v cfg s) 0 s
                    else restarting v RESET_INTENT_WAN_SAVE 500
                      [''Saved. Restarting to apply - every WiFi client will disconnect and rejoin,'',
                       ''on the upstream network'' @ [CHR 0x27] @ ''s channel if the WAN comes up.''] s))))"

section \<open>Restart and factory reset\<close>

definition cmd_reboot :: "view \<Rightarrow> console \<Rightarrow> console_reply" where
  "cmd_reboot v s = restarting v RESET_INTENT_CONSOLE 200 [''Rebooting...''] s"

text \<open>
  The answers of open, erase and commit; \<open>old\<close> is what the namespace holds, \<open>torn\<close> what a failure after the
  opening leaves of it, \<open>cleared\<close> what it is without keys.
\<close>

definition erase_nvs_namespace :: "int \<times> int \<times> int \<Rightarrow> 'n \<Rightarrow> 'n \<Rightarrow> 'n \<Rightarrow> int \<times> 'n" where
  "erase_nvs_namespace answers torn cleared old =
     (case answers of (opened, erased, committed) \<Rightarrow>
        if opened \<noteq> 0 then (opened, old)
        else if erased \<noteq> 0 then (erased, torn)
        else (committed, if committed = 0 then cleared else torn))"

definition erased_wifi :: wifi_nvs where
  "erased_wifi = \<lparr>an_ssid = None, an_password = None, an_channel = None\<rparr>"

definition erased_auth :: auth_nvs where
  "erased_auth = \<lparr>un_user = None, un_password = None\<rparr>"

definition erased_syslog :: syslog_nvs where
  "erased_syslog = \<lparr>yn_enabled = None, yn_ip = None, yn_port = None, yn_fac = None, yn_sev = None, yn_host = None\<rparr>"

definition erased_wan :: wan_nvs where
  "erased_wan = \<lparr>n_enabled = None, n_ssid = None, n_password = None, n_ports = None\<rparr>"

text \<open>The five erasures: their errors, and the state with flash as they leave it.\<close>

definition erase_config :: "view \<Rightarrow> console \<Rightarrow> int list \<times> console" where
  "erase_config v s =
     (let d = cs_dev s; t = cs_dev (vw_torn v);
          (e1, wifi) = erase_nvs_namespace (vw_erase v 0) (v_wifi t) (Some erased_wifi) (v_wifi d);
          (e2, auth) = erase_nvs_namespace (vw_erase v 1) (u_nvs (v_auth t)) (Some erased_auth) (u_nvs (v_auth d));
          (e3, flash) = erase_nvs_namespace (vw_erase v 2) (s_flash (cs_dhcp (vw_torn v))) None (s_flash (cs_dhcp s));
          (e4, syslog) = erase_nvs_namespace (vw_erase v 3) (y_nvs (v_syslog t)) (Some erased_syslog) (y_nvs (v_syslog d));
          (e5, wan) = erase_nvs_namespace (vw_erase v 4) (ws_nvs (v_wan t)) (Some erased_wan) (ws_nvs (v_wan d))
      in ([e1, e2, e3, e4, e5],
          s\<lparr>cs_dhcp := (cs_dhcp s)\<lparr>s_flash := flash\<rparr>,
            cs_dev := d\<lparr>v_wifi := wifi, v_auth := (v_auth d)\<lparr>u_nvs := auth\<rparr>,
                       v_syslog := (v_syslog d)\<lparr>y_nvs := syslog\<rparr>, v_wan := (v_wan d)\<lparr>ws_nvs := wan\<rparr>\<rparr>\<rparr>))"

definition factory_reset_help :: "string list" where
  "factory_reset_help =
     [''This erases the saved WiFi and admin credentials, the saved DHCP'',
      ''address reservations, the remote syslog settings, and the internet'',
      ''uplink settings, restoring compiled-in defaults, then reboots.'',
      ''Clients will be given fresh addresses, the device will stop shipping'',
      ''its log anywhere, and it will stop joining any upstream network.'',
      '''',
      ''The reboot/crash history is kept. It is evidence about the device'',
      ''rather than configuration of it, and a factory reset is often the'',
      ''first thing tried on a device that keeps restarting - erasing it'',
      ''would destroy the record of the very fault being chased. Use'',
      ''\"resets\" to read it.'',
      '''',
      ''The timezone is kept too, because that history is: a reset does not'',
      ''move the device, and clearing the zone would leave the one thing'',
      ''deliberately preserved rendering its dates in the wrong one. Use'',
      ''\"time\" to change it.'',
      '''',
      ''Run \"factory-reset yes\" to confirm.'']"

definition cmd_factory_reset :: "view \<Rightarrow> string option option \<Rightarrow> console \<Rightarrow> console_reply" where
  "cmd_factory_reset v args = with_args args (\<lambda>confirm s.
     (if confirm \<noteq> Some ''yes'' then say factory_reset_help 0 s
      else case erase_config v s of (errs, s) \<Rightarrow>
        if list_ex (\<lambda>e. e \<noteq> 0) errs then
          let name = (\<lambda>i. vw_err_name v (errs ! i)) in
          say [''Error: failed to erase config (wifi: '' @ name 0 @ '', admin: '' @ name 1 @ '', leases: '' @ name 2 @
               '', syslog: '' @ name 3 @ '', uplink: '' @ name 4 @ '')''] 1 s
        else restarting v RESET_INTENT_FACTORY_RESET 200 [''Config erased. Rebooting...''] s))"

section \<open>The start\<close>

text \<open>The levels at the start, and the answers of the library that reads the line.\<close>

definition serial_console_init :: "int \<Rightarrow> int \<Rightarrow> console \<Rightarrow> int \<times> console" where
  "serial_console_init repl start s =
     (let s = s\<lparr>cs_dev := (cs_dev s)\<lparr>v_level := level_rank ESP_LOG_INFO\<rparr>,
                cs_log := log_buf_set_serial_level ESP_LOG_WARN (cs_log s)\<rparr>
      in (if repl \<noteq> 0 then repl else start, s))"

section \<open>Factory reset\<close>

lemma erase_answers: "fst (erase_nvs_namespace a torn cleared old) = 0 \<longleftrightarrow> a = (0, 0, 0)"
  by (auto simp: erase_nvs_namespace_def split: prod.splits)

lemma erase_clean: "snd (erase_nvs_namespace (0, 0, 0) torn cleared old) = cleared"
  by (simp add: erase_nvs_namespace_def)

lemma erase_config_errors:
  "list_ex (\<lambda>e. e \<noteq> 0) (fst (erase_config v s)) \<longleftrightarrow> \<not> (\<forall>k<5. vw_erase v k = (0, 0, 0))"
  by (simp add: erase_config_def Let_def case_prod_beta erase_answers numeral_eq_Suc All_less_Suc) blast

lemma erase_config_keeps:
  "v_resets (cs_dev (snd (erase_config v s))) = v_resets (cs_dev s)"
  "v_clock (cs_dev (snd (erase_config v s))) = v_clock (cs_dev s)"
  by (simp_all add: erase_config_def Let_def case_prod_beta)

text \<open>All that a boot reads of the settings is as on a device that was never configured.\<close>

definition unconfigured :: "console \<Rightarrow> bool" where
  "unconfigured s \<longleftrightarrow>
     wifi_cfg_load (v_wifi (cs_dev s)) = wifi_cfg_load None \<and>
     auth_cfg_load_from_nvs (u_nvs (v_auth (cs_dev s))) = auth_cfg_load_from_nvs None \<and>
     (\<forall>m. load_syslog_from_nvs m (y_nvs (v_syslog (cs_dev s))) = load_syslog_from_nvs m None) \<and>
     load_wan_from_nvs (ws_nvs (v_wan (cs_dev s))) = load_wan_from_nvs None \<and>
     s_flash (cs_dhcp s) = None"

lemma erase_config_done:
  assumes "\<forall>k<5. vw_erase v k = (0, 0, 0)"
  shows "unconfigured (snd (erase_config v s))"
proof -
  have e: "vw_erase v 0 = (0, 0, 0)" "vw_erase v 1 = (0, 0, 0)" "vw_erase v 2 = (0, 0, 0)" "vw_erase v 3 = (0, 0, 0)"
    "vw_erase v 4 = (0, 0, 0)"
    using assms by simp_all
  show ?thesis
    unfolding unconfigured_def erase_config_def Let_def case_prod_beta e erase_clean
    by (simp add: wifi_cfg_load_def auth_cfg_load_from_nvs_def load_syslog_from_nvs_def load_wan_from_nvs_def
        erased_wifi_def erased_auth_def erased_syslog_def erased_wan_def nvs_str_or_def nvs_str_def)
qed

lemma restarting_parts:
  assumes "restarting v intent ms lines s = (es, code, s')"
  shows "Did Restart \<in> set es" "code = 0" "cs_dhcp s' = cs_dhcp s"
    "cs_dev s' = (cs_dev s)\<lparr>v_resets := act (v_resets (cs_dev s)) (Intent (nat (vw_us v)) intent)\<rparr>"
  using assms by (auto simp: restarting_def)

lemma one_more: "lives (ops @ [op]) s = act (lives ops s) op"
  by (simp add: lives_def)

section \<open>Addresses as they are printed\<close>

lemma hex_digit_code: "k < 16 \<Longrightarrow> (of_char (hex_digit k) :: nat) = (if k < 10 then 48 + k else 87 + k)"
  by (simp add: hex_digit_def take_bit_nat_eq_self)

lemma hex_digit_facts:
  assumes "k < 16"
  shows "xdigit (hex_digit k) = Some k" "\<not> space (hex_digit k)" "hex_digit k \<noteq> CHR ''-''" "hex_digit k \<noteq> CHR ''+''"
    "hex_digit k \<noteq> CHR ''x''" "hex_digit k \<noteq> CHR ''X''"
proof -
  note c = hex_digit_code [OF assms]
  show "xdigit (hex_digit k) = Some k" using assms by (simp add: xdigit_def c Let_def)
  have n: "hex_digit k \<noteq> x" if "(of_char x :: nat) \<notin> {48..57} \<union> {97..102}" for x
    using that assms c by (auto split: if_splits)
  show "hex_digit k \<noteq> CHR ''-''" "hex_digit k \<noteq> CHR ''+''" "hex_digit k \<noteq> CHR ''x''" "hex_digit k \<noteq> CHR ''X''"
    by (rule n; simp)+
  have "hex_digit k \<noteq> CHR '' ''" by (rule n) simp
  then show "\<not> space (hex_digit k)" using assms by (simp add: space_def c)
qed

lemma scan_two_digits:
  assumes "i < 16" "j < 16" "r = [] \<or> xdigit (hd r) = None"
  shows "scan_hex (hex_digit i # hex_digit j # r) = Some (of_nat (16 * i + j), r)"
proof -
  have "takeWhile (\<lambda>c. xdigit c \<noteq> None) r = []" using assms(3) by (cases r) auto
  moreover have "16 * i + j \<le> 0xFFFFFFFF" using assms by simp
  ultimately show ?thesis
    using hex_digit_facts [OF assms(1)] hex_digit_facts [OF assms(2)]
    by (simp add: scan_hex_def Let_def hex_number_def)
qed

lemma scan_byte:
  assumes "r = [] \<or> xdigit (hd r) = None"
  shows "scan_hex (hex2 b @ r) = Some (ucast b, r)" "scan_hex2 (hex2 b @ r) = Some (ucast b, r)"
proof -
  have "unat b < 256" using unsigned_less [of b, where ?'a = nat] by simp
  then have n: "unat b div 16 < 16" "unat b mod 16 < 16" by auto
  have u: "of_nat (16 * (unat b div 16) + unat b mod 16) = (ucast b :: u32)" by simp
  show "scan_hex (hex2 b @ r) = Some (ucast b, r)"
    using scan_two_digits [OF n assms] u by (simp add: hex2_def)
  show "scan_hex2 (hex2 b @ r) = Some (ucast b, r)"
    using scan_two_digits [OF n, of "[]"] u hex_digit_facts(2) [OF n(1)]
    by (simp add: hex2_def scan_hex2_def Let_def numeral_2_eq_2)
qed

lemma mac_bytes_small: "\<not> (ucast (b :: u8) :: u32) > 0xFF"
proof -
  have "unat b < 256" using unsigned_less [of b, where ?'a = nat] by simp
  then have "unat (ucast b :: u32) < 256" by (simp add: unsigned_ucast_eq take_bit_nat_eq_self)
  then show ?thesis by (simp add: word_less_nat_alt)
qed

lemma colon_ends: "xdigit CHR '':'' = None" "xdigit CHR ''-'' = None"
  by (simp_all add: xdigit_def Let_def)

lemma printed_fields:
  "scan_fields 6 (mac_text (Mac a b c d e f)) = Some [ucast a, ucast b, ucast c, ucast d, ucast e, ucast f]"
  "scan_pairs CHR '':'' 6 (mac_text (Mac a b c d e f)) = Some [ucast a, ucast b, ucast c, ucast d, ucast e, ucast f]"
  using scan_byte(1) [of "[]" f] scan_byte(2) [of "[]" f]
  by (simp_all add: mac_text_def numeral_eq_Suc colon_ends scan_byte)

text \<open>As Windows writes it.\<close>

definition dashed :: "string \<Rightarrow> string" where
  "dashed s = map (\<lambda>c. if c = CHR '':'' then CHR ''-'' else c) s"

lemma dashed_hex2: "dashed (hex2 b) = hex2 b"
proof -
  have "hex_digit k \<noteq> CHR '':''" if "k < 16" for k
    using hex_digit_facts(1) [OF that] colon_ends by auto
  moreover have "unat b div 16 < 16" "unat b mod 16 < 16"
    using unsigned_less [of b, where ?'a = nat] by (auto simp: div_less_iff_less_mult)
  ultimately show ?thesis by (simp add: dashed_def hex2_def)
qed

lemma dashed_fields:
  "scan_pairs CHR '':'' 6 (dashed (mac_text (Mac a b c d e f))) = None"
  "scan_pairs CHR ''-'' 6 (dashed (mac_text (Mac a b c d e f))) = Some [ucast a, ucast b, ucast c, ucast d, ucast e, ucast f]"
proof -
  have "dashed (mac_text (Mac a b c d e f)) =
      hex2 a @ ''-'' @ hex2 b @ ''-'' @ hex2 c @ ''-'' @ hex2 d @ ''-'' @ hex2 e @ ''-'' @ hex2 f"
    using dashed_hex2 by (simp add: mac_text_def dashed_def)
  then show "scan_pairs CHR '':'' 6 (dashed (mac_text (Mac a b c d e f))) = None"
    "scan_pairs CHR ''-'' 6 (dashed (mac_text (Mac a b c d e f))) = Some [ucast a, ucast b, ucast c, ucast d, ucast e, ucast f]"
    using scan_byte(2) [of "[]" f] by (simp_all add: numeral_eq_Suc colon_ends scan_byte)
qed

section \<open>What is shown of a lease\<close>

lemma length_conflict_clause: "conflict_clause cs m = Some t \<Longrightarrow> length t \<le> 21"
  by (auto simp: conflict_clause_def split: list.splits if_splits)

lemma lease_state_fits:
  assumes "64 \<le> n"
  shows "lease_state ntoa conflicts l n = lease_state ntoa conflicts l 64 \<and> length (lease_state ntoa conflicts l 64) \<le> 61"
proof -
  define first where "first = (if i_observed_ip l \<noteq> 0 \<and> i_ip l \<noteq> 0 then ''manual (leased '' @ strlcpy (ntoa (i_ip l)) 16 @ '')''
             else if i_observed_ip l \<noteq> 0 then ''manual''
             else if i_expires_in_s l > 0 then ''active'' else ''reserved'')"
  have f: "length first \<le> 31"
    unfolding first_def using length_strlcpy [of "ntoa (i_ip l)" 16] by (simp split: if_split)
  define clause where "clause = (case conflict_clause conflicts (i_mac l) of Some t \<Rightarrow> t | None \<Rightarrow> '''')"
  have c: "length clause \<le> 21"
    unfolding clause_def using length_conflict_clause by (auto split: option.split)
  have "lease_state ntoa conflicts l m = first @ clause @ (if \<not> i_stored l then '', unsaved'' else '''')" if "64 \<le> m" for m
    unfolding lease_state_def Let_def first_def [symmetric] using f c that
    by (auto simp: clause_def strlcpy_fits strlcat_fits split: option.splits)
  then show ?thesis using f c assms by simp
qed

section \<open>Properties\<close>



definition example_console :: console where
  "example_console =
     \<lparr>cs_dev = example_device, cs_quarantine = static_quarantine, cs_log = static_log_buf, cs_dhcp = static_dhcp\<rparr>"

definition example_view :: view where
  "example_view =
     \<lparr>vw_env = example_env, vw_erase = (\<lambda>_. (0, 0, 0)), vw_torn = example_console, vw_ntoa = ip_text, vw_fmt = (\<lambda>_. ''?''),
      vw_abbrev = (\<lambda>_. ''UTC''), vw_enum = (\<lambda>_. 0), vw_max_level = 3, vw_err_name = (\<lambda>_. ''ESP_FAIL''),
      vw_monitor = static_monitor, vw_fwd = static_forwarding, vw_eth = static_eth_link, vw_syslog = static_syslog,
      vw_clock = clock_at_boot \<lparr>o_magic = 0, o_synced = 0, o_synced_inv = 0, o_lo = 0, o_lo_inv = 0, o_hi = 0, o_hi_inv = 0\<rparr>,
      vw_counters = no_counters, vw_heap = 100000, vw_min_heap = 90000, vw_version = ''1.0'', vw_us = 60000000, vw_now = 0\<rparr>"


text \<open>
  The console repairs a lockout: whatever credentials are stored, once \<open>admin\<close> has accepted a user name
  without a colon and a password, the web server lets exactly these in.
\<close>

theorem console_admin_logs_in:
  assumes "cmd_admin v (Some (Some user, Some password)) s = (es, 0, s')"
    and "CHR 0x00 \<notin> set (user' @ password')" "CHR '':'' \<notin> set user'" "length (user' @ password') \<le> 94"
    and "headers_are rq hs" "map_of hs ''Authorization'' = Some (''Basic '' @ base64_encode (user' @ '':'' @ password'))"
  shows "fst (check_admin_auth rq (v_auth (cs_dev s'))) \<longleftrightarrow> (user', password') = (user, password)"
proof -
  have "credentials (v_auth (cs_dev s')) = (user, password)"
    using assms(1)
    by (auto simp: cmd_admin_def with_args_def say_def Let_def split: prod.splits option.splits if_splits
        dest: auth_cfg_survives(1))
  then show ?thesis using login_by_credentials [OF assms(5,6,2,3,4)] by auto
qed

theorem console_admin_logs_in_witness:
  "let s = example_console\<lparr>cs_dev := example_device\<lparr>v_auth := snd (auth_cfg_save [] None ''a:b'' ''secret'' factory)\<rparr>\<rparr>;
       (es, code, s') = cmd_admin example_view (Some (Some ''admin'', Some ''again'')) s
   in fst (check_admin_auth (example_request [(''Authorization'', ''Basic '' @ base64_encode ''admin:again'')] '''')
        (v_auth (cs_dev s')))"
proof -
  let ?s = "example_console\<lparr>cs_dev := example_device\<lparr>v_auth := snd (auth_cfg_save [] None ''a:b'' ''secret'' factory)\<rparr>\<rparr>"
  obtain es s' where r: "cmd_admin example_view (Some (Some ''admin'', Some ''again'')) ?s = (es, 0, s')"
    by (simp add: cmd_admin_def with_args_def auth_cfg_load_def auth_cfg_validate_def auth_cfg_save_def first_failure_def
        example_view_def example_env_def say_def Let_def)
  from console_admin_logs_in [OF r _ _ _ example_headers, of "''admin''" "''again''"
      "[(''Authorization'', ''Basic '' @ base64_encode ''admin:again'')]" "''''"]
  show ?thesis by (simp add: r)
qed

text \<open>
  An address as the device prints it is read back by both parsers, and with dashes by the console's.\<close>

theorem printed_mac_accepted:
  "console_parse_mac (mac_text m) = Some m \<and> console_parse_mac (dashed (mac_text m)) = Some m \<and>
   parse_mac (mac_text m) = Some m"
  by (cases m) (simp add: console_parse_mac_def parse_mac_def printed_fields dashed_fields mac_bytes_small)

text \<open>
  The console takes a channel number modulo 256: one that is out of any range is accepted and stored as
  another, and the device restarted on it, where the web form refuses the same number.
\<close>

theorem console_channel_wraps:
  assumes "cfg = wifi_cfg_load (v_wifi (cs_dev s))" "wifi_cfg_validate cfg = None" "list_all (\<lambda>e. e = 0) (env_answers (vw_env v))"
    and "k \<in> {1, 6, 11}" "cmd_wifi v (Some (None, None, Some (k + 256 * m))) s = (es, code, s')"
    and "json_get_int buf ''channel'' = Some (k + 256)"
  shows "Did Restart \<in> set es \<and> wifi_cfg_load (v_wifi (cs_dev s')) = (fst cfg, fst (snd cfg), word_of_int k) \<and>
    wifi_cfg_validate (wifi_request buf ssid d) \<noteq> None"
proof -
  obtain ssid0 password0 channel0 where c: "cfg = (ssid0, password0, channel0)" by (metis prod_cases3)
  have z: "(256 :: u8) = 0" by simp
  have v: "wifi_cfg_validate (ssid0, password0, word_of_int k) = None"
    using assms(2,4) c by (auto simp: wifi_cfg_validate_def split: if_splits)
  obtain nvs where w: "wifi_cfg_save (env_answers (vw_env v)) (v_wifi (env_torn (vw_env v))) (ssid0, password0, word_of_int k)
      (v_wifi (cs_dev s)) = (0, nvs)" "wifi_cfg_load nvs = (ssid0, password0, word_of_int k)"
    using wifi_cfg_survives [OF v assms(3)] by (metis prod.collapse)
  have "wifi_cfg_load (v_wifi (cs_dev s)) = (ssid0, password0, channel0)" using assms(1) c by simp
  then have "Did Restart \<in> set es \<and> wifi_cfg_load (v_wifi (cs_dev s')) = (fst cfg, fst (snd cfg), word_of_int k)"
    using assms(5) v w c unfolding cmd_wifi_def with_args_def
    by (auto simp: Let_def restarting_def z)
  moreover have "snd (snd (wifi_request buf ssid d)) = 0"
    using assms(4,6) by (auto simp: wifi_request_def Let_def)
  then have "wifi_cfg_validate (wifi_request buf ssid d) \<noteq> None"
    by (cases "wifi_request buf ssid d") (simp add: wifi_cfg_validate_def)
  ultimately show ?thesis by blast
qed

theorem console_channel_wraps_witness:
  "let (es, code, s') = cmd_wifi example_view (Some (None, None, Some 262)) example_console in
     Did Restart \<in> set es \<and> wifi_cfg_load (v_wifi (cs_dev s')) = (''AOG hub'', ''password'', 6)"
proof -
  obtain es code s' where r: "cmd_wifi example_view (Some (None, None, Some (6 + 256 * 1))) example_console = (es, code, s')"
    by (metis prod_cases3)
  have c: "wifi_cfg_load (v_wifi (cs_dev example_console)) = (''AOG hub'', ''password'', 1)"
    by (simp add: example_console_def example_device_def wifi_cfg_load_def)
  have j: "json_get_int ''{\"channel\":262}'' ''channel'' = Some (6 + 256)" by code_simp
  from console_channel_wraps [OF c [symmetric] _ _ _ r j]
  show ?thesis using r by (simp add: wifi_cfg_validate_def example_view_def example_env_def)
qed

text \<open>
  After \<open>loglevel\<close> the lines of the named level reach the cable: the serial threshold is that level and the
  capture level at least as high, and it is never lowered, so that the web page loses nothing.
\<close>

theorem loglevel_takes_effect:
  assumes "cmd_loglevel v (Some (Some name)) s = (es, 0, s')"
  shows "\<exists>level. (name, level) \<in> set log_levels \<and> log_buf_get_serial_level (cs_log s') = level \<and>
    v_level (cs_dev s') = max (v_level (cs_dev s)) (level_rank level)"
proof -
  obtain i where i: "first_slot (\<lambda>_ (n, _). name = n) log_levels = Some i"
    using assms by (auto simp: cmd_loglevel_def with_args_def say_def split: option.splits)
  then have "i < length log_levels" "fst (log_levels ! i) = name"
    by (auto simp: first_slot_eq_Some split: prod.splits)
  then have "(name, snd (log_levels ! i)) \<in> set log_levels" by (metis nth_mem prod.collapse)
  then show ?thesis
    using assms i
    by (auto simp: cmd_loglevel_def with_args_def say_def Let_def log_buf_set_serial_level_def log_buf_get_serial_level_def)
qed

text \<open>
  The lease table is in RAM as well: if it has changed and is due to be written, the server's task, which runs
  while the console waits for the restart, puts the erased reservations back.
\<close>

lemma leases_come_back:
  assumes "s_dirty (cs_dhcp s)" "now - s_dirty_since_us (cs_dhcp s) > SAVE_DEBOUNCE_US"
    and "cmd_factory_reset v (Some (Some ''yes'')) s = (es, code, s')" "\<forall>k<5. vw_erase v k = (0, 0, 0)"
  shows "s_flash (cs_dhcp s') = None \<and>
    s_flash (save_if_due nvs_set now (cs_dhcp s')) = snd (nvs_set (table_blob (cs_dhcp s)) None)"
proof -
  have "restarting v RESET_INTENT_FACTORY_RESET 200 [''Config erased. Rebooting...''] (snd (erase_config v s)) = (es, code, s')"
    using assms(3,4) erase_config_errors [of v s]
    by (simp add: cmd_factory_reset_def with_args_def case_prod_beta split: if_splits)
  note c = restarting_parts(3) [OF this]
  have e: "cs_dhcp (snd (erase_config v s)) = (cs_dhcp s)\<lparr>s_flash := None\<rparr>"
    using assms(4) by (simp add: erase_config_def Let_def case_prod_beta erase_clean)
  show ?thesis using assms(1,2)
    by (simp add: c e save_if_due_def save_to_nvs_locked_def table_blob_def Let_def case_prod_beta)
qed

text \<open>A password too long for the buffer is cut to it and saved, as in the web form.\<close>

lemma console_password_cut:
  "wan_args_cfg (None, None, Some p, None) c = Inr (c\<lparr>w_password := take 63 p\<rparr>)"
  by (simp add: wan_args_cfg_def with_opt_def strlcpy_def)

end
