(* ===== verification/WebReports.thy ===== *)
theory WebReports
  imports Console
begin

text \<open>
  The web server's routes that only report (\<open>main/web_server.c\<close>): the clients, the leases, the reset history, a
  client's traffic, the state of the system, the log sender, the clock and the uplink, and the pages.
\<close>

section \<open>What a report reads\<close>

text \<open>The transmissions the WiFi driver counted (\<open>main/client_track.c\<close>).\<close>

record wifi_tx =
  x_total :: u32
  x_failed :: u32

definition wifi_tx_done_cb :: "bool \<Rightarrow> wifi_tx \<Rightarrow> wifi_tx" where
  "wifi_tx_done_cb ok s =
     (let s = s\<lparr>x_total := x_total s + 1\<rparr> in if \<not> ok then s\<lparr>x_failed := x_failed s + 1\<rparr> else s)"

definition client_track_get_wifi_tx :: "wifi_tx \<Rightarrow> u32 \<times> u32" where
  "client_track_get_wifi_tx s = (x_total s, x_failed s)"

text \<open>
  What a handler finds beside the device itself: the other modules as the console sees them, the
  quarantine, the lease table, the log as the handler starts and as each line is read, the driver's
  counts; and the library: the query string and its values, and whether a chunk is sent.
\<close>

record site =
  p_view :: view
  p_quarantine :: quarantine
  p_dhcp :: dhcp
  p_log :: log_buf
  p_later :: "nat \<Rightarrow> log_buf"
  p_tx :: wifi_tx
  p_query :: "nat \<Rightarrow> hdr_answer"
  p_value :: "string \<Rightarrow> string \<Rightarrow> nat \<Rightarrow> hdr_answer"
  p_sent :: "nat \<Rightarrow> bool"

definition with_admin :: "site \<Rightarrow> request \<Rightarrow> (device \<Rightarrow> reply) \<Rightarrow> device \<Rightarrow> reply" where
  "with_admin p rq k =
     with_login (vw_env (p_view p)) rq (finish Ok) (with_own_password send_setup_required (finish Ok) k)"

text \<open>
  A report from its pieces. A loop that stops once the buffer is full adds nothing to it: neither do the
  appends that follow.
\<close>

definition report :: "nat \<Rightarrow> piece list \<Rightarrow> device \<Rightarrow> reply" where
  "report bufsz ps = reply_json 200 bufsz (assemble bufsz ps)"

text \<open>The pieces of a list, with what stands before each element.\<close>

definition listed :: "(string \<Rightarrow> 'a \<Rightarrow> piece list) \<Rightarrow> 'a list \<Rightarrow> piece list" where
  "listed f xs = (case xs of [] \<Rightarrow> [] | x # rest \<Rightarrow> f '''' x @ concat (map (f '','') rest))"

abbreviation num :: "u32 \<Rightarrow> string" where "num w \<equiv> decimal (unat w)"

definition truth :: "bool \<Rightarrow> string" where
  "truth b = (if b then ''true'' else ''false'')"

text \<open>\<open>esp_ip4addr_ntoa\<close> into its sixteen bytes.\<close>

definition addr :: "site \<Rightarrow> u32 \<Rightarrow> string" where
  "addr p ip = strlcpy (vw_ntoa (p_view p) ip) 16"

section \<open>Clients\<close>

definition client_pieces :: "site \<Rightarrow> string \<Rightarrow> client_info \<Rightarrow> piece list" where
  "client_pieces p sep c =
     (let rssi_str = (if ci_is_wifi c then strlcpy (number (sint (ci_rssi c))) 8 else ''null'') in
      [Plain (sep @ ''{\"mac\":\"'' @ mac_text (ci_mac c) @ ''\",\"ip\":\"'' @ addr p (ci_ip c) @ ''\",'' @
         ''\"link\":\"'' @ (if ci_is_wifi c then ''wifi'' else ''eth'') @ ''\",\"rssi\":'' @ rssi_str @
         '',\"rx_bps\":'' @ num (ci_rx_bps c) @ '',\"tx_bps\":'' @ num (ci_tx_bps c) @ '','' @
         ''\"rx_pps\":'' @ num (ci_rx_pps c) @ '',\"tx_pps\":'' @ num (ci_tx_pps c) @ '','' @
         ''\"last_seen_s\":'' @ num (ci_last_seen_s c) @ '',\"name\":\"''),
       Escaped (c_text (ci_name c)), Plain ''\"}''])"

definition the_clients :: "site \<Rightarrow> client_info list" where
  "the_clients p =
     client_track_get_snapshot (vw_us (p_view p)) CLIENT_TRACK_MAX_CLIENTS (env_tracker (vw_env (p_view p)))"

abbreviation CLIENTS_BUF :: nat where
  "CLIENTS_BUF \<equiv> CLIENT_TRACK_MAX_CLIENTS * (200 + 6 * CLIENT_TRACK_NAME_MAX_LEN) + 16"

definition clients_pieces :: "site \<Rightarrow> piece list" where
  "clients_pieces p = [Plain ''[''] @ listed (client_pieces p) (the_clients p) @ [Plain '']'']"

definition clients_get_handler :: "site \<Rightarrow> request \<Rightarrow> device \<Rightarrow> reply" where
  "clients_get_handler p rq = with_admin p rq (report CLIENTS_BUF (clients_pieces p))"

section \<open>Leases\<close>

definition ip_or_empty :: "site \<Rightarrow> u32 \<Rightarrow> string" where
  "ip_or_empty p ip = (if ip = 0 then '''' else addr p ip)"

text \<open>The hostname of the client with that address, if it is tracked.\<close>

definition name_of :: "client_info list \<Rightarrow> mac \<Rightarrow> string" where
  "name_of clients m =
     (case filter (\<lambda>c. ci_mac c = m) clients of [] \<Rightarrow> '''' | c # _ \<Rightarrow> c_text (ci_name c))"

text \<open>The two fields of the first armed conflict the lease's client is an end of.\<close>

definition conflict_fields :: "conflict_info list \<Rightarrow> mac \<Rightarrow> string" where
  "conflict_fields conflicts m =
     (case filter (\<lambda>c. f_armed c \<and> (f_mac c = m \<or> f_peer_mac c = m)) conflicts of
        [] \<Rightarrow> ''''
      | c # _ \<Rightarrow>
          let blocked = (f_mac c = m); other = (if blocked then f_peer_mac c else f_mac c) in
          '',\"conflict\":\"'' @ (if blocked then ''blocked'' else ''holder'') @ ''\",'' @
          ''\"conflict_with\":\"'' @ mac_text other @ ''\"'')"

definition lease_pieces ::
  "site \<Rightarrow> client_info list \<Rightarrow> conflict_info list \<Rightarrow> string \<Rightarrow> dhcp_lease_info \<Rightarrow> piece list"
where
  "lease_pieces p clients conflicts sep l =
     [Plain (sep @ ''{\"mac\":\"'' @ mac_text (i_mac l) @ ''\",\"ip\":\"'' @ ip_or_empty p (i_ip l) @ ''\",'' @
        ''\"observed_ip\":\"'' @ ip_or_empty p (i_observed_ip l) @ ''\",\"expires_in_s\":'' @ num (i_expires_in_s l) @ '','' @
        ''\"boots_since_seen\":'' @ num (i_boots_since_seen l) @ '',\"stored\":'' @ truth (i_stored l) @ '','' @
        ''\"saved_ip\":\"'' @ ip_or_empty p (i_saved_ip l) @ ''\",\"saved_observed_ip\":\"'' @
        ip_or_empty p (i_saved_observed_ip l) @ ''\",\"name\":\"''),
      Escaped (name_of clients (i_mac l)), Plain ''\"'',
      Plain (conflict_fields conflicts (i_mac l)), Plain ''}'']"

abbreviation LEASES_BUF :: nat where
  "LEASES_BUF \<equiv> DHCP_SERVER_MAX_LEASES * 240 + CLIENT_TRACK_MAX_CLIENTS * 6 * CLIENT_TRACK_NAME_MAX_LEN +
     CLIENT_TRACK_MAX_CONFLICTS * 2 * 64 + 64"

definition leases_pieces :: "site \<Rightarrow> piece list" where
  "leases_pieces p =
     (let leases = dhcp_server_get_leases (vw_us (p_view p)) DHCP_SERVER_MAX_LEASES (p_dhcp p);
          conflicts = client_track_get_conflicts (vw_us (p_view p)) CLIENT_TRACK_MAX_CONFLICTS (p_quarantine p)
      in [Plain (''{\"max\":'' @ decimal DHCP_SERVER_MAX_LEASES @ '',\"restored\":'' @
            decimal (dhcp_server_get_restored_count (p_dhcp p)) @ '',\"leases\":['')] @
         listed (lease_pieces p (the_clients p) conflicts) leases @ [Plain '']}''])"

definition leases_get_handler :: "site \<Rightarrow> request \<Rightarrow> device \<Rightarrow> reply" where
  "leases_get_handler p rq = with_admin p rq (report LEASES_BUF (leases_pieces p))"

section \<open>The reset history\<close>

abbreviation JSON_TIME_MAX :: nat where "JSON_TIME_MAX \<equiv> CLOCK_TIME_STR_MAX + 2"

definition json_time_or_null :: "site \<Rightarrow> nat \<Rightarrow> u64 option \<Rightarrow> string" where
  "json_time_or_null p outsz t =
     (case t of
        None \<Rightarrow> strlcpy ''null'' outsz
      | Some t \<Rightarrow> strlcpy (''\"'' @ strlcpy (vw_fmt (p_view p) t) CLOCK_TIME_STR_MAX @ ''\"'') outsz)"

text \<open>The duration, its upper end, whether start-up finished, and whether the supply held.\<close>

definition approximate :: "reset_entry \<Rightarrow> bool" where
  "approximate e \<longleftrightarrow> \<not> has_flag e RESET_LOG_F_PREV_STATE \<and> has_flag e RESET_LOG_F_PREV_UPTIME_MIN"

definition uptime_str :: "reset_entry \<Rightarrow> string" where
  "uptime_str e =
     (if has_flag e RESET_LOG_F_PREV_STATE \<or> approximate e then strlcpy (num (e_prev_uptime_s e)) 12 else ''null'')"

definition uptime_max_str :: "reset_entry \<Rightarrow> string" where
  "uptime_max_str e =
     (let ceil_s = reset_log_uptime_ceiling (e_prev_uptime_s e) in
      if approximate e \<and> ceil_s \<noteq> 0 then strlcpy (decimal ceil_s) 12 else ''null'')"

definition ready_str :: "reset_entry \<Rightarrow> string" where
  "ready_str e = (if has_flag e RESET_LOG_F_PREV_STATE then truth (has_flag e RESET_LOG_F_REACHED_READY) else ''null'')"

definition rail_str :: "reset_entry \<Rightarrow> string" where
  "rail_str e = (if has_flag e RESET_LOG_F_RAIL_KNOWN then truth (has_flag e RESET_LOG_F_RAIL_HELD) else ''null'')"

definition boot_time :: "reset_entry \<Rightarrow> u64 option" where
  "boot_time e = (if has_flag e RESET_LOG_F_BOOT_TIME then Some (e_boot_epoch e) else None)"

definition reset_pieces :: "site \<Rightarrow> string \<Rightarrow> reset_entry \<Rightarrow> piece list" where
  "reset_pieces p sep e =
     (let when_str = json_time_or_null p JSON_TIME_MAX (boot_time e);
          when_epoch_str = (case boot_time e of None \<Rightarrow> ''null'' | Some t \<Rightarrow> strlcpy (number (sint t)) 24)
      in [Plain (sep @ ''{\"seq\":'' @ num (e_boot_seq e) @
            '',\"reason\":\"'' @ reset_log_reason_name (vw_enum (p_view p)) (e_reason e) @
            ''\",\"reason_code\":'' @ decimal (unat (e_reason e)) @ '','' @
            ''\"intent\":\"'' @ reset_log_intent_name (e_intent e) @ ''\",\"uptime_s\":'' @ uptime_str e @
            '',\"uptime_approx\":'' @ truth (approximate e) @ '','' @
            ''\"uptime_max_s\":'' @ uptime_max_str e @ '',\"reached_ready\":'' @ ready_str e @ '','' @
            ''\"rail_held\":'' @ rail_str e @ '','' @
            ''\"when\":'' @ when_str @ '',\"when_epoch\":'' @ when_epoch_str @ '','' @
            ''\"ota_pending\":'' @ truth (has_flag e RESET_LOG_F_OTA_PENDING) @
            '',\"rollback\":'' @ truth (has_flag e RESET_LOG_F_ROLLBACK) @ '','' @
            ''\"partition\":\"'' @ c_text (e_part e) @ ''\",\"version\":\"''),
          Escaped (c_text (e_version e)), Plain ''\"}''])"

abbreviation RESETS_BUF :: nat where
  "RESETS_BUF \<equiv> RESET_LOG_MAX_RECORDS * 352 + RESET_LOG_MAX_RECORDS * 6 * RESET_LOG_VERSION_MAX + 96"

definition uptime_text :: "site \<Rightarrow> string" where
  "uptime_text p = decimal (nat (vw_us (p_view p) div 1000000))"

definition resets_pieces :: "site \<Rightarrow> resets \<Rightarrow> piece list" where
  "resets_pieces p g =
     (let recs = reset_log_get RESET_LOG_MAX_RECORDS g in
      [Plain (''{\"max\":'' @ decimal RESET_LOG_MAX_RECORDS @ '',\"count\":'' @ decimal (length recs) @
         '',\"current_uptime_s\":'' @ uptime_text p @ '','' @ ''\"resets\":['')] @
      listed (reset_pieces p) recs @ [Plain '']}''])"

definition resets_get_handler :: "site \<Rightarrow> request \<Rightarrow> device \<Rightarrow> reply" where
  "resets_get_handler p rq = with_admin p rq (\<lambda>d. report RESETS_BUF (resets_pieces p (v_resets d)) d)"

section \<open>The traffic of a client\<close>

text \<open>A value of the query; where the buffer cut it, what it held.\<close>

definition query_value :: "site \<Rightarrow> string \<Rightarrow> string \<Rightarrow> nat \<Rightarrow> string" where
  "query_value p query key sz =
     (case p_value p query key sz of HdrOk v \<Rightarrow> v | HdrTrunc v \<Rightarrow> v | _ \<Rightarrow> '''')"

text \<open>A query too long for its buffer is refused; one that is missing has no values.\<close>

definition with_query :: "site \<Rightarrow> nat \<Rightarrow> ((string \<Rightarrow> nat \<Rightarrow> string) \<Rightarrow> device \<Rightarrow> reply) \<Rightarrow> device \<Rightarrow> reply" where
  "with_query p sz k d =
     (case p_query p sz of
        HdrTrunc _ \<Rightarrow> respond [RespondErr 414 ''Query string too long''] Fail d
      | HdrOk query \<Rightarrow> k (query_value p query) d
      | _ \<Rightarrow> k (\<lambda>_ _. '''') d)"

definition cursor :: "string \<Rightarrow> u32" where
  "cursor s = (if s \<noteq> '''' then fst (strtoul s) else 0)"

definition rates :: "u32 list \<Rightarrow> piece list" where
  "rates xs = listed (\<lambda>sep x. [Plain (sep @ num x)]) xs"

definition history_pieces :: "string \<Rightarrow> client_history \<Rightarrow> piece list" where
  "history_pieces mac_str h =
     (let f = (\<lambda>g. rates (take (h_count h) (g h))) in
      [Plain (''{\"mac\":\"'' @ mac_str @ ''\",\"period_ms\":'' @ decimal CLIENT_TRACK_HISTORY_PERIOD_MS @
         '',\"seq\":'' @ num (h_seq h) @ '',\"reset\":'' @ truth (h_reset h) @ '',\"rx\":['')] @
      f h_rx_bps @ [Plain ''],\"tx\":[''] @ f h_tx_bps @ [Plain ''],\"rx_pps\":[''] @ f h_rx_pps @
      [Plain ''],\"tx_pps\":[''] @ f h_tx_pps @ [Plain '']}''])"

definition client_history_get_handler :: "site \<Rightarrow> request \<Rightarrow> device \<Rightarrow> reply" where
  "client_history_get_handler p rq = with_admin p rq (with_query p 128 (\<lambda>value.
     (let mac_str = value ''mac'' 24; since_str = value ''since'' 16 in
      case parse_mac mac_str of
        None \<Rightarrow> respond [RespondErr 400 ''Missing or invalid \"mac\"''] Fail
      | Some m \<Rightarrow>
          (case client_track_get_history m (cursor since_str) (env_tracker (vw_env (p_view p))) of
             None \<Rightarrow> respond [RespondErr 404 ''Unknown client''] Fail
           | Some h \<Rightarrow> report 1600 (history_pieces mac_str h)))))"

section \<open>The system\<close>

definition traffic_text :: "site \<Rightarrow> string" where
  "traffic_text p =
     (let v = p_view p;
          cpu = sys_monitor_get_cpu_load (vw_monitor v);
          clients = the_clients p;
          (rx_pps, tx_pps) = client_track_get_traffic_pps (env_tracker (vw_env v));
          fwd = client_track_get_forward_drops (vw_fwd v);
          (tx_total, tx_failed) = client_track_get_wifi_tx (p_tx p);
          (q_up, q_down) = client_track_get_quarantine_drops (vw_fwd v)
      in ''{\"uptime_s\":'' @ uptime_text p @
         '',\"free_heap\":'' @ decimal (vw_heap v) @ '',\"min_free_heap\":'' @ decimal (vw_min_heap v) @ '','' @
         ''\"cpu_pct\":['' @ decimal (unat (cpu ! 0)) @ '','' @ decimal (unat (cpu ! 1)) @
         ''],\"cpu_freq_mhz\":'' @ num (sys_monitor_get_cpu_freq_mhz (vw_monitor v)) @
         '',\"net_rx_bps\":'' @ num (total_bps ci_rx_bps clients) @
         '',\"net_tx_bps\":'' @ num (total_bps ci_tx_bps clients) @ '','' @
         ''\"net_rx_pps\":'' @ num rx_pps @ '',\"net_tx_pps\":'' @ num tx_pps @ '','' @
         ''\"traffic_drops\":'' @ num (client_track_get_traffic_drops (vw_fwd v)) @ '','' @
         ''\"fwd_drop_eth_in\":'' @ num (eth_in fwd) @ '',\"fwd_drop_wifi_in\":'' @ num (wifi_in fwd) @ '','' @
         ''\"fwd_drop_eth_out\":'' @ num (eth_out fwd) @ '',\"fwd_drop_wifi_out\":'' @ num (wifi_out fwd) @ '','' @
         ''\"wifi_tx_total\":'' @ num tx_total @ '',\"wifi_tx_failed\":'' @ num tx_failed @ '','' @
         ''\"ip_conflicts\":'' @ decimal (client_track_get_armed_conflicts (p_quarantine p)) @
         '',\"ip_conflict_drops\":'' @ num (q_up + q_down) @ '','' @
         ''\"ip_conflict_enforced\":'' @ truth (client_track_quarantine_enforcing (p_quarantine p)) @ '','')"

definition boot_text :: "site \<Rightarrow> reset_entry option \<Rightarrow> string" where
  "boot_text p boot =
     (let of_boot = (\<lambda>f none. case boot of None \<Rightarrow> none | Some e \<Rightarrow> f e);
          flag = (\<lambda>f. case boot of None \<Rightarrow> False | Some e \<Rightarrow> f e)
      in ''\"boot_seq\":'' @ num (case boot of None \<Rightarrow> 0 | Some e \<Rightarrow> e_boot_seq e) @
         '',\"boot_reason\":\"'' @ of_boot (\<lambda>e. reset_log_reason_name (vw_enum (p_view p)) (e_reason e)) ''unknown'' @
         ''\",\"boot_intent\":\"'' @ of_boot (\<lambda>e. reset_log_intent_name (e_intent e)) ''unknown'' @ ''\",'' @
         ''\"boot_prev_uptime_s\":'' @ of_boot uptime_str ''null'' @
         '',\"boot_prev_uptime_approx\":'' @ truth (flag approximate) @ '','' @
         ''\"boot_prev_uptime_max_s\":'' @ of_boot uptime_max_str ''null'' @
         '',\"boot_prev_ready\":'' @ of_boot ready_str ''null'' @ '','' @
         ''\"boot_rail_held\":'' @ of_boot rail_str ''null'' @
         '',\"boot_rollback\":'' @ truth (flag (\<lambda>e. has_flag e RESET_LOG_F_ROLLBACK)) @ '','' @
         ''\"boot_when\":'' @ json_time_or_null p JSON_TIME_MAX (Option.bind boot boot_time) @ '','')"

definition eth_text :: "eth_link_status \<Rightarrow> string" where
  "eth_text eth =
     ''\"eth_link\":'' @ truth (es_up eth) @ '',\"eth_speed_mbit\":'' @ num (es_speed_mbit eth) @
     '',\"eth_duplex\":\"'' @ (if es_up eth then if es_full_duplex eth then ''full'' else ''half'' else '''') @ ''\",'' @
     ''\"eth_autoneg\":'' @ truth (es_autoneg eth) @ '',\"eth_flaps\":'' @ num (es_flaps eth) @
     '',\"eth_change_s\":'' @ num (es_since_change_s eth) @ '',''"

definition clock_text :: "site \<Rightarrow> string" where
  "clock_text p =
     (let v = p_view p;
          now = clock_time_now (vw_now v) (c_rtc (vw_clock v));
          now_str = json_time_or_null p JSON_TIME_MAX (map_option word_of_int now);
          now_zone = (case now of None \<Rightarrow> '''' | Some t \<Rightarrow> strlcpy (vw_abbrev v t) 16)
      in ''\"now\":'' @ now_str @ '',\"now_zone\":\"'' @ now_zone @ ''\",'' @
         ''\"clock_source\":\"'' @ clock_time_source (vw_clock v) @
         ''\",\"clock_stale\":'' @ truth (clock_time_stale (vw_now v) (c_rtc (vw_clock v))) @ '','')"

text \<open>One append, whose text is in four parts here.\<close>

definition system_text :: "site \<Rightarrow> resets \<Rightarrow> string" where
  "system_text p g =
     traffic_text p @ eth_text (eth_link_get_status (vw_us (p_view p)) (vw_eth (p_view p))) @
     boot_text p (reset_log_get_current g) @ clock_text p @ ''\"version\":\"'' @ vw_version (p_view p) @ ''\"}''"

definition system_get_handler :: "site \<Rightarrow> request \<Rightarrow> device \<Rightarrow> reply" where
  "system_get_handler p rq = with_admin p rq (\<lambda>d. report 1536 [Plain (system_text p (v_resets d))] d)"

section \<open>The log sender\<close>

lemma top_bit: "m AND 0x80000000 \<noteq> 0 \<Longrightarrow> bit (m :: u32) 31"
proof -
  assume a: "m AND 0x80000000 \<noteq> 0"
  have p: "(0x80000000 :: u32) = push_bit 31 1" by simp
  obtain k where k: "bit (m AND 0x80000000) k" using a bit_eq_iff [of "m AND 0x80000000" 0] by auto
  have "k = 31" if "bit (push_bit 31 1 :: u32) k" using that unfolding bit_push_bit_iff bit_1_iff by auto
  then show ?thesis using k unfolding p bit_and_iff by blast
qed

lemma shift_fewer:
  assumes "(m :: u32) AND 0x80000000 \<noteq> 0"
  shows "card {k. k < 32 \<and> bit (push_bit 1 m) k} < card {k. k < 32 \<and> bit m k}"
proof -
  let ?S = "{k. k < 31 \<and> bit m k}"
  have "{k. k < 32 \<and> bit (push_bit 1 m) k} \<subseteq> Suc ` ?S"
  proof
    fix k
    assume "k \<in> {k. k < 32 \<and> bit (push_bit 1 m) k}"
    then have "k = Suc (k - 1)" "k - 1 \<in> ?S" unfolding mem_Collect_eq bit_push_bit_iff by auto
    then show "k \<in> Suc ` ?S" by (rule image_eqI)
  qed
  then have "card {k. k < 32 \<and> bit (push_bit 1 m) k} \<le> card (Suc ` ?S)"
    by (rule card_mono [rotated]) simp
  also have "card (Suc ` ?S) = card ?S" by (simp add: card_image)
  also have "card ?S < card {k. k < 32 \<and> bit m k}"
  proof (rule psubset_card_mono)
    have "31 \<in> {k. k < 32 \<and> bit m k}" "31 \<notin> ?S" using top_bit [OF assms] by simp_all
    moreover have "?S \<subseteq> {k. k < 32 \<and> bit m k}" by (rule Collect_mono) simp
    ultimately show "?S \<subset> {k. k < 32 \<and> bit m k}" by blast
  qed simp
  finally show ?thesis .
qed

text \<open>The leading ones of a mask in host order.\<close>

function mask_bits :: "u32 \<Rightarrow> nat" where
  "mask_bits m = (if m AND 0x80000000 \<noteq> 0 then Suc (mask_bits (push_bit 1 m)) else 0)"
  by pat_completeness auto

termination
  by (relation "measure (\<lambda>m. card {k. k < 32 \<and> bit m k})") (rule wf_measure, unfold in_measure, erule shift_fewer)

declare mask_bits.simps [simp del]

definition subnet_text :: "site \<Rightarrow> u32 \<times> u32 \<Rightarrow> string" where
  "subnet_text p subnet =
     (let (ip, mask) = subnet in
      if mask = 0 then strlcpy ''unknown'' 32
      else strlcpy (addr p (ip AND mask) @ ''/'' @ decimal (mask_bits (lwip_ntohl mask))) 32)"

definition syslog_pieces :: "site \<Rightarrow> syslog_cfg \<Rightarrow> piece list" where
  "syslog_pieces p cfg =
     (let st = syslog_get_status (p_log p) (vw_syslog (p_view p)) in
      [Plain (''{\"enabled\":'' @ truth (y_enabled cfg) @ '',\"server\":\"'' @
         (if y_server_ip cfg = 0 then '''' else addr p (y_server_ip cfg)) @
         ''\",\"port\":'' @ decimal (unat (y_port cfg)) @ '',\"facility\":'' @ decimal (unat (y_facility cfg)) @ '','' @
         ''\"min_severity\":'' @ decimal (unat (y_min_severity cfg)) @
         '',\"subnet\":\"'' @ subnet_text p (env_subnet (vw_env (p_view p))) @ ''\",\"hostname\":\"''),
       Escaped (y_hostname cfg),
       Plain (''\",\"bound\":'' @ truth (ss_bound st) @ '',\"sent\":'' @ num (ss_sent st) @
         '',\"filtered\":'' @ num (ss_filtered st) @ '',\"aged_out\":'' @ num (ss_aged_out st) @ '','' @
         ''\"send_fail\":'' @ num (ss_send_fail st) @ '',\"errno\":'' @ number (ss_last_errno st) @
         '',\"backlog\":'' @ num (ss_backlog st) @ ''}'')])"

definition syslog_get_handler :: "site \<Rightarrow> request \<Rightarrow> device \<Rightarrow> reply" where
  "syslog_get_handler p rq = with_admin p rq (\<lambda>d.
     (let (cfg, store) = syslog_cfg_get (env_mac (vw_env (p_view p))) (v_syslog d) in
      report 512 (syslog_pieces p cfg) (d\<lparr>v_syslog := store\<rparr>)))"

section \<open>The clock\<close>

definition zone_pieces :: "string \<Rightarrow> string \<times> string \<Rightarrow> piece list" where
  "zone_pieces sep z = [Plain (sep @ ''{\"label\":\"'' @ fst z @ ''\",\"tz\":\"'' @ snd z @ ''\"}'')]"

definition time_pieces :: "site \<Rightarrow> string \<Rightarrow> piece list" where
  "time_pieces p tz =
     (let v = p_view p;
          now = clock_time_now (vw_now v) (c_rtc (vw_clock v));
          now_str = json_time_or_null p JSON_TIME_MAX (map_option word_of_int now);
          abbrev = (case now of None \<Rightarrow> '''' | Some t \<Rightarrow> strlcpy (vw_abbrev v t) 16);
          last_sync = clock_time_last_sync (c_rtc (vw_clock v));
          sync_str = json_time_or_null p JSON_TIME_MAX (if last_sync \<noteq> 0 then Some (word_of_int last_sync) else None)
      in [Plain ''{\"tz\":\"'', Escaped tz,
          Plain (''\",\"now\":'' @ now_str @ '',\"zone\":\"'' @ abbrev @ ''\",\"source\":\"'' @
            clock_time_source (vw_clock v) @ ''\",'' @
            ''\"stale\":'' @ truth (clock_time_stale (vw_now v) (c_rtc (vw_clock v))) @
            '',\"last_sync\":'' @ sync_str @ '',\"zones\":['')] @
         listed zone_pieces k_zones @ [Plain '']}''])"

definition time_get_handler :: "site \<Rightarrow> request \<Rightarrow> device \<Rightarrow> reply" where
  "time_get_handler p rq = with_admin p rq (\<lambda>d.
     (let (tz, store) = clock_cfg_get (v_clock d) in report 2048 (time_pieces p tz) (d\<lparr>v_clock := store\<rparr>)))"

section \<open>The uplink\<close>

definition wan_pieces :: "site \<Rightarrow> wan_cfg \<Rightarrow> wan_link \<Rightarrow> piece list" where
  "wan_pieces p cfg st =
     (let c = vw_counters (p_view p);
          up = (\<lambda>x. if wl_ip st = 0 then '''' else addr p x)
      in [Plain (''{\"enabled\":'' @ truth (w_enabled cfg) @ '',\"ssid\":\"''), Escaped (w_ssid cfg),
          Plain (''\",\"ports\":\"'' @ fst (wan_cfg_format_ports cfg WAN_CFG_PORTS_STR_MAX) @
            ''\",\"state\":\"'' @ wan_state_name (wl_state st) @ ''\",\"lan\":\"192.168.5.0/24\",'' @
            ''\"ip\":\"'' @ up (wl_ip st) @ ''\",\"netmask\":\"'' @ up (wl_netmask st) @
            ''\",\"gw\":\"'' @ up (wl_gw st) @ ''\",\"dns\":\"'' @ ip_or_empty p (wl_dns st) @ ''\",'' @
            ''\"channel\":'' @ decimal (unat (wl_ap_channel st)) @
            '',\"ap_channel_configured\":'' @ decimal (unat (wl_ap_channel_configured st)) @
            '',\"rssi\":'' @ number (sint (wl_rssi st)) @ '','' @
            ''\"napt\":'' @ truth (wl_napt_on st) @ '',\"connects\":'' @ num (wl_connects st) @
            '',\"disconnects\":'' @ num (wl_disconnects st) @
            '',\"last_reason\":'' @ decimal (unat (wl_last_reason st)) @ '','' @
            ''\"retry_in_s\":'' @ num (wl_retry_in_s st) @ '',\"tx_allowed\":'' @ num (tx_allowed c) @
            '',\"tx_blocked\":'' @ num (tx_blocked c) @ '','' @
            ''\"rx_allowed\":'' @ num (rx_allowed c) @ '',\"rx_blocked\":'' @ num (rx_blocked c) @ ''}'')])"

definition wan_get_handler :: "site \<Rightarrow> request \<Rightarrow> device \<Rightarrow> reply" where
  "wan_get_handler p rq = with_admin p rq (\<lambda>d.
     (let (cfg, store) = wan_cfg_get (v_wan d); d = d\<lparr>v_wan := store\<rparr> in
      report 768 (wan_pieces p cfg (v_link d)) d))"

section \<open>Pages\<close>

text \<open>A page, which a password of the factory's redirects away from, and the icon.\<close>

definition page_get_handler :: "string \<Rightarrow> site \<Rightarrow> request \<Rightarrow> device \<Rightarrow> reply" where
  "page_get_handler name p rq =
     (let n = vw_env (p_view p) in
      with_login n rq (finish Ok)
        (with_own_password send_default_creds_redirect (finish Ok) (send_page (env_page n name))))"

definition leases_page_get_handler :: "site \<Rightarrow> request \<Rightarrow> device \<Rightarrow> reply" where
  "leases_page_get_handler = page_get_handler ''leases''"

definition resets_page_get_handler :: "site \<Rightarrow> request \<Rightarrow> device \<Rightarrow> reply" where
  "resets_page_get_handler = page_get_handler ''resets''"

definition logs_page_get_handler :: "site \<Rightarrow> request \<Rightarrow> device \<Rightarrow> reply" where
  "logs_page_get_handler = page_get_handler ''logs''"

definition wan_page_get_handler :: "site \<Rightarrow> request \<Rightarrow> device \<Rightarrow> reply" where
  "wan_page_get_handler = page_get_handler ''wan''"

definition ports_page_get_handler :: "site \<Rightarrow> request \<Rightarrow> device \<Rightarrow> reply" where
  "ports_page_get_handler = page_get_handler ''ports''"

definition lan_page_get_handler :: "site \<Rightarrow> request \<Rightarrow> device \<Rightarrow> reply" where
  "lan_page_get_handler = page_get_handler ''lan''"

definition favicon_get_handler :: "site \<Rightarrow> request \<Rightarrow> device \<Rightarrow> reply" where
  "favicon_get_handler p rq =
     (let n = vw_env (p_view p) in
      with_login n rq (finish Ok)
        (respond [Respond 200 [(''Content-Type'', ''image/png''), (''Cache-Control'', ''max-age=604800'')]
           (env_page n ''favicon'')] Ok))"

section \<open>Lengths\<close>

lemma mask_bits_le: "mask_bits m \<le> 32"
proof -
  have "mask_bits m \<le> card {k. k < 32 \<and> bit m k}"
  proof (induction m rule: mask_bits.induct)
    case (1 m)
    show ?case
    proof (cases "m AND 0x80000000 = 0")
      case False
      then show ?thesis using 1 [OF False] shift_fewer [OF False] by (subst mask_bits.simps) simp
    qed (simp add: mask_bits.simps)
  qed
  also have "\<dots> \<le> card {..<32 :: nat}" by (rule card_mono) auto
  finally show ?thesis by simp
qed

lemma length_number: "\<bar>i\<bar> < 10 ^ k \<Longrightarrow> 0 < k \<Longrightarrow> length (number i) \<le> Suc k"
  using length_decimal [of "nat \<bar>i\<bar>" k] by (auto simp: number_def nat_less_iff)

lemma length_decimal_u16: "length (decimal (unat (w :: u16))) \<le> 5"
proof (rule length_decimal)
  have "unat w < 2 ^ 16" using unsigned_less [of w, where ?'a = nat] by simp
  then show "unat w < 10 ^ 5" by simp
qed simp

lemma length_rssi: "length (number (sint (w :: u8))) \<le> 4"
proof (rule length_number [of _ 3, simplified])
  have "- (2 ^ 7) \<le> sint w" "sint w < 2 ^ 7" using sint_range_size [of w] by (simp_all add: word_size)
  then show "\<bar>sint w\<bar> < 1000" by simp
qed

lemma length_truth: "length (truth b) \<le> 5"
  by (simp add: truth_def)

lemma length_addr: "length (addr p ip) \<le> 15"
  by (simp add: addr_def strlcpy_def)

lemma length_ip_or_empty: "length (ip_or_empty p ip) \<le> 15"
  using length_addr by (simp add: ip_or_empty_def)

lemma length_mac_text: "length (mac_text m) = 17"
  by (cases m) (simp add: mac_text_def hex2_def)

lemma length_json_time: "length (json_time_or_null p JSON_TIME_MAX t) \<le> 21"
  by (simp add: json_time_or_null_def strlcpy_def split: option.split)

lemma length_uptime_str: "length (uptime_str e) \<le> 10"
  using length_decimal_u32 [of "e_prev_uptime_s e"] by (auto simp: uptime_str_def strlcpy_def)

lemma length_uptime_max_str: "length (uptime_max_str e) \<le> 11"
  by (auto simp: uptime_max_str_def strlcpy_def Let_def)

lemma length_ready_str: "length (ready_str e) \<le> 5"
  using length_truth by (simp add: ready_str_def)

lemma length_rail_str: "length (rail_str e) \<le> 5"
  using length_truth by (simp add: rail_str_def)

lemma length_source: "length (clock_time_source c) \<le> 7"
  by (simp add: clock_time_source_def)

lemma length_state_name: "length (wan_state_name st) \<le> 15"
  by (cases st) simp_all

lemma length_subnet: "length (subnet_text p subnet) \<le> 31"
  using length_strlcpy [of _ 32] by (cases subnet) (simp add: subnet_text_def Let_def)

lemma length_escaped: "length (json_escaped s) \<le> 6 * length s"
proof (induction s)
  case (Cons c s)
  have "length (json_escape c) \<le> 6" by (simp add: json_escape_def)
  then show ?case using Cons by (simp add: json_escaped_def)
qed (simp add: json_escaped_def)

lemma length_c_text: "length (c_text bs) \<le> length bs"
  using length_takeWhile_le by (simp add: c_text_def c_string_def)

lemma length_c_text_terminated: "bs ! n = 0 \<Longrightarrow> length (c_text bs) \<le> n"
proof (rule ccontr)
  let ?t = "takeWhile (\<lambda>b. b \<noteq> 0) bs"
  assume z: "bs ! n = 0" and "\<not> length (c_text bs) \<le> n"
  then have "n < length ?t" by (simp add: c_text_def c_string_def)
  then have "bs ! n \<in> set ?t" using nth_mem [of n ?t] by (simp add: takeWhile_nth)
  then show False using z set_takeWhileD [of "bs ! n" _ bs] by auto
qed

section \<open>How long the reports are\<close>

abbreviation rendered :: "piece list \<Rightarrow> string" where "rendered ps \<equiv> concat (map render ps)"

lemma length_listed:
  assumes "\<And>sep x. x \<in> set xs \<Longrightarrow> length sep \<le> 1 \<Longrightarrow> length (rendered (f sep x)) \<le> g x"
  shows "length (rendered (listed f xs)) \<le> sum_list (map g xs)"
proof -
  have "length (rendered (concat (map (f '','') ys))) \<le> sum_list (map g ys)" if "set ys \<subseteq> set xs" for ys
    using that
  proof (induction ys)
    case (Cons y ys)
    then show ?case using assms [of y "'',''"] by simp
  qed simp
  then show ?thesis using assms [of "hd xs" "''''"] by (cases xs) (auto simp: listed_def intro: add_mono)
qed

lemma length_listed_uniform:
  assumes "\<And>sep x. x \<in> set xs \<Longrightarrow> length sep \<le> 1 \<Longrightarrow> length (rendered (f sep x)) \<le> b" "length xs \<le> n"
  shows "length (rendered (listed f xs)) \<le> n * b"
proof -
  have "length (rendered (listed f xs)) \<le> sum_list (map (\<lambda>_. b) xs)" by (rule length_listed) (rule assms(1))
  also have "\<dots> \<le> n * b" using assms(2) by (simp add: sum_list_triv)
  finally show ?thesis .
qed

lemma sent_whole:
  assumes "length (rendered ps) + 7 \<le> bufsz"
  shows "report bufsz ps d = ([Http (Respond 200 json_type (rendered ps))], Ok, d)"
proof -
  have "resp_send_json bufsz (assemble bufsz ps) = Some (rendered ps)"
    using sent_faithful(2) [OF assemble_faithful assms] assms by simp
  then show ?thesis by (simp add: report_def reply_json_def send_json_def respond_def)
qed

lemma length_client:
  assumes "length sep \<le> 1" "length (ci_name c) \<le> 31"
  shows "length (rendered (client_pieces p sep c)) \<le> 392"
  using assms length_mac_text [of "ci_mac c"] length_addr [of p "ci_ip c"] length_rssi [of "ci_rssi c"]
    length_strlcpy [of "number (sint (ci_rssi c))" 8]
    length_decimal_u32 [of "ci_rx_bps c"] length_decimal_u32 [of "ci_tx_bps c"] length_decimal_u32 [of "ci_rx_pps c"]
    length_decimal_u32 [of "ci_tx_pps c"] length_decimal_u32 [of "ci_last_seen_s c"]
    length_escaped [of "c_text (ci_name c)"] length_c_text [of "ci_name c"]
  by (simp add: client_pieces_def Let_def split: if_split)

lemma the_clients_fit: "length (the_clients p) \<le> 16" "c \<in> set (the_clients p) \<Longrightarrow> length (ci_name c) \<le> 31"
  by (auto simp: the_clients_def client_track_get_snapshot_def client_info_of_def Let_def)

lemma clients_fit: "length (rendered (clients_pieces p)) + 7 \<le> CLIENTS_BUF"
proof -
  have "length (rendered (listed (client_pieces p) (the_clients p))) \<le> 16 * 392"
    by (rule length_listed_uniform) (simp_all add: the_clients_fit length_client)
  then show ?thesis by (simp add: clients_pieces_def)
qed

text \<open>At most so many entries carry a name, and at most so many the two fields of a conflict.\<close>

lemma sum_marked:
  assumes "distinct (map key xs)" "finite M"
  shows "sum_list (map (\<lambda>x. if key x \<in> M then b else 0 :: nat) xs) \<le> card M * b"
proof -
  let ?ys = "filter (\<lambda>x. key x \<in> M) xs"
  have "sum_list (map (\<lambda>x. if key x \<in> M then b else 0) xs) = length ?ys * b"
    by (induction xs) simp_all
  moreover have "distinct (map key ?ys)" using assms(1) by (rule distinct_map_filter)
  then have "length ?ys = card (key ` set ?ys)" by (metis distinct_card length_map set_map)
  moreover have "card (key ` set ?ys) \<le> card M" by (rule card_mono) (use assms(2) in auto)
  ultimately show ?thesis by simp
qed

definition conflict_ends :: "conflict_info list \<Rightarrow> mac set" where
  "conflict_ends cs = f_mac ` set cs \<union> f_peer_mac ` set cs"

lemma card_conflict_ends: "card (conflict_ends cs) \<le> 2 * length cs"
proof -
  have "card (f_mac ` set cs) \<le> length cs" "card (f_peer_mac ` set cs) \<le> length cs"
    by (meson card_image_le card_length finite_set order_trans)+
  then show ?thesis using card_Un_le [of "f_mac ` set cs" "f_peer_mac ` set cs"] by (simp add: conflict_ends_def)
qed

lemma length_name_of:
  assumes "\<And>c. c \<in> set cs \<Longrightarrow> length (ci_name c) \<le> 31"
  shows "length (name_of cs m) \<le> (if m \<in> ci_mac ` set cs then 31 else 0)"
proof (cases "filter (\<lambda>c. ci_mac c = m) cs")
  case (Cons c rest)
  then have "c \<in> set cs" "ci_mac c = m" by (auto dest: filter_eq_ConsD)
  then show ?thesis using Cons assms [of c] length_c_text [of "ci_name c"] by (auto simp: name_of_def)
qed (simp add: name_of_def)

lemma length_conflict_fields: "length (conflict_fields cs m) \<le> (if m \<in> conflict_ends cs then 64 else 0)"
proof (cases "filter (\<lambda>c. f_armed c \<and> (f_mac c = m \<or> f_peer_mac c = m)) cs")
  case (Cons c rest)
  then have "c \<in> set cs" "f_mac c = m \<or> f_peer_mac c = m" by (auto dest: filter_eq_ConsD)
  then have "m \<in> conflict_ends cs" by (auto simp: conflict_ends_def)
  then show ?thesis using Cons by (simp add: conflict_fields_def Let_def length_mac_text)
qed (simp add: conflict_fields_def)

lemma length_lease:
  assumes "length sep \<le> 1"
  shows "length (rendered (lease_pieces p clients conflicts sep l)) \<le>
    238 + 6 * length (name_of clients (i_mac l)) + length (conflict_fields conflicts (i_mac l))"
  using assms length_mac_text [of "i_mac l"] length_truth [of "i_stored l"] length_escaped [of "name_of clients (i_mac l)"]
    length_ip_or_empty [of p "i_ip l"] length_ip_or_empty [of p "i_observed_ip l"] length_ip_or_empty [of p "i_saved_ip l"]
    length_ip_or_empty [of p "i_saved_observed_ip l"] length_decimal_u32 [of "i_expires_in_s l"]
    length_decimal_u32 [of "i_boots_since_seen l"]
  by (simp add: lease_pieces_def)

lemma leases_distinct:
  assumes "wf_dhcp s"
  shows "distinct (map i_mac (dhcp_server_get_leases now limit s))"
proof -
  let ?Q = "\<lambda>e. \<not> (l_ip e = 0 \<and> l_observed_ip e = 0)"
  have "distinct (map l_mac (filter l_in_use (s_leases s)))"
    using assms unfolding wf_dhcp_def uniq_by_code by blast
  then have "distinct (map l_mac (filter ?Q (filter l_in_use (s_leases s))))" by (rule distinct_map_filter)
  moreover have "filter ?Q (filter l_in_use (s_leases s)) =
      filter (\<lambda>e. \<not> (\<not> l_in_use e \<or> (l_ip e = 0 \<and> l_observed_ip e = 0))) (s_leases s)"
    unfolding filter_filter by (rule filter_cong) auto
  moreover have "map i_mac (map (lease_info now s) es) = map l_mac es" for es
    by (simp add: lease_info_def comp_def)
  ultimately show ?thesis
    by (simp add: dhcp_server_get_leases_def lease_info_def comp_def flip: take_map)
qed

lemma leases_fit:
  assumes "wf_dhcp (p_dhcp p)" "s_restored_count (p_dhcp p) < 100"
  shows "length (rendered (leases_pieces p)) + 7 \<le> LEASES_BUF"
proof -
  let ?cs = "the_clients p" and ?ls = "dhcp_server_get_leases (vw_us (p_view p)) DHCP_SERVER_MAX_LEASES (p_dhcp p)"
  let ?qs = "client_track_get_conflicts (vw_us (p_view p)) CLIENT_TRACK_MAX_CONFLICTS (p_quarantine p)"
  let ?N = "ci_mac ` set ?cs" and ?E = "conflict_ends ?qs"
  have d: "distinct (map i_mac ?ls)" using assms(1) by (rule leases_distinct)
  have "length (rendered (listed (lease_pieces p ?cs ?qs) ?ls)) \<le>
      sum_list (map (\<lambda>l. 238 + (if i_mac l \<in> ?N then 186 else 0) + (if i_mac l \<in> ?E then 64 else 0)) ?ls)"
  proof (rule length_listed)
    fix sep :: string and l :: dhcp_lease_info
    assume "length sep \<le> 1"
    moreover have "length (name_of ?cs (i_mac l)) \<le> (if i_mac l \<in> ?N then 31 else 0)"
      by (rule length_name_of) (rule the_clients_fit(2))
    ultimately show "length (rendered (lease_pieces p ?cs ?qs sep l)) \<le>
        238 + (if i_mac l \<in> ?N then 186 else 0) + (if i_mac l \<in> ?E then 64 else 0)"
      using length_lease [of sep p ?cs ?qs l] length_conflict_fields [of ?qs "i_mac l"]
      by (cases "i_mac l \<in> ?N"; cases "i_mac l \<in> ?E"; simp only: if_True if_False; linarith)
  qed
  also have "\<dots> = length ?ls * 238 + sum_list (map (\<lambda>l. if i_mac l \<in> ?N then 186 else 0) ?ls) +
      sum_list (map (\<lambda>l. if i_mac l \<in> ?E then 64 else 0) ?ls)"
    by (simp add: sum_list_addf sum_list_triv)
  also have "\<dots> \<le> 32 * 238 + 16 * 186 + 8 * 64"
  proof -
    have "card ?N \<le> 16" using card_image_le [of "set ?cs" ci_mac] card_length [of ?cs] the_clients_fit(1) [of p] by simp
    moreover have "length ?qs \<le> 4" by (simp add: client_track_get_conflicts_def)
    then have "card ?E \<le> 8" using card_conflict_ends [of ?qs] by simp
    moreover have "length ?ls \<le> 32" by (simp add: dhcp_server_get_leases_def)
    ultimately show ?thesis
      using sum_marked [OF d, of ?N 186] sum_marked [OF d, of ?E 64] by (simp add: conflict_ends_def)
  qed
  finally have "length (rendered (listed (lease_pieces p ?cs ?qs) ?ls)) \<le> 32 * 238 + 16 * 186 + 8 * 64" .
  moreover have "length (decimal (dhcp_server_get_restored_count (p_dhcp p))) \<le> 2"
    using length_decimal [of "dhcp_server_get_restored_count (p_dhcp p)" 2] assms(2)
    by (simp add: dhcp_server_get_restored_count_def)
  moreover have "length (decimal DHCP_SERVER_MAX_LEASES) \<le> 2" by (rule length_decimal) simp_all
  ultimately show ?thesis by (simp add: leases_pieces_def Let_def)
qed

lemma reason_names: "length (reset_log_reason_name enum r) \<le> 10"
  by (auto simp: reset_log_reason_name_def split: list.split dest!: filter_eq_ConsD)

lemma length_reset:
  assumes "entry_wf e" "length sep \<le> 1"
  shows "length (rendered (reset_pieces p sep e)) \<le> 352 + 138"
proof -
  have "length (c_text (e_version e)) \<le> 23" "length (c_text (e_part e)) \<le> 7"
    using assms(1) by (auto simp: entry_wf_def intro!: length_c_text_terminated)
  moreover have "length (case boot_time e of None \<Rightarrow> ''null'' | Some t \<Rightarrow> strlcpy (number (sint t)) 24) \<le> 23"
    using length_strlcpy [of _ 24] by (auto split: option.split)
  ultimately show ?thesis
    using assms(2) length_decimal_u32 [of "e_boot_seq e"] reason_names [of "vw_enum (p_view p)" "e_reason e"]
      length_decimal_u8 [of "e_reason e"] length_intent_name [of "e_intent e"] length_uptime_str [of e]
      length_uptime_max_str [of e] length_ready_str [of e] length_rail_str [of e]
      length_truth [of "approximate e"] length_truth [of "has_flag e RESET_LOG_F_OTA_PENDING"]
      length_truth [of "has_flag e RESET_LOG_F_ROLLBACK"] length_json_time [of p "boot_time e"]
      length_escaped [of "c_text (e_version e)"]
    by (simp add: reset_pieces_def Let_def)
qed

lemma uptime_fits: "0 \<le> vw_us (p_view p) \<Longrightarrow> vw_us (p_view p) < 2 ^ 63 \<Longrightarrow> length (uptime_text p) \<le> 20"
  unfolding uptime_text_def by (rule length_decimal) (simp_all add: nat_less_iff)

lemma resets_fit:
  assumes "ring_wf g" "0 \<le> vw_us (p_view p)" "vw_us (p_view p) < 2 ^ 63"
  shows "length (rendered (resets_pieces p g)) + 7 \<le> RESETS_BUF"
proof -
  let ?recs = "reset_log_get RESET_LOG_MAX_RECORDS g"
  have "set ?recs \<subseteq> set (g_ring g)" by (auto simp: reset_log_get_def dest: in_set_takeD split: if_splits)
  then have "e \<in> set ?recs \<Longrightarrow> entry_wf e" for e using assms(1) by (auto simp: ring_wf_def list_all_iff)
  moreover have l: "length ?recs \<le> 16" by (simp add: reset_log_get_def)
  ultimately have "length (rendered (listed (reset_pieces p) ?recs)) \<le> 16 * (352 + 138)"
    by (intro length_listed_uniform length_reset) auto
  moreover have "length (decimal (length ?recs)) \<le> 2" "length (decimal RESET_LOG_MAX_RECORDS) \<le> 2"
    using l by (auto intro!: length_decimal)
  ultimately show ?thesis using uptime_fits [OF assms(2,3)] by (simp add: resets_pieces_def Let_def)
qed

text \<open>
  The bounds under which the reports are built: those the modules keep themselves, the sizes of the
  settings, and the types of what the libraries return.
\<close>

definition in_bounds :: "site \<Rightarrow> device \<Rightarrow> bool" where
  "in_bounds p d \<longleftrightarrow>
     (let v = p_view p in
      wf_dhcp (p_dhcp p) \<and> s_restored_count (p_dhcp p) < 100 \<and> length (s_conflicts (p_quarantine p)) \<le> QUARANTINE_MAX \<and>
      ring_wf (v_resets d) \<and>
      0 \<le> vw_us v \<and> vw_us v < 2 ^ 63 \<and> vw_heap v < 2 ^ 32 \<and> vw_min_heap v < 2 ^ 32 \<and>
      \<bar>ss_last_errno (syslog_get_status (p_log p) (vw_syslog v))\<bar> < 2 ^ 32 \<and>
      length (vw_version v) < 32 \<and> length (env_ssid (vw_env v)) < WIFI_CFG_SSID_MAX_LEN \<and>
      length (y_hostname (fst (syslog_cfg_get (env_mac (vw_env v)) (v_syslog d)))) < SYSLOG_CFG_HOSTNAME_MAX_LEN \<and>
      length (fst (clock_cfg_get (v_clock d))) < CLOCK_CFG_TZ_MAX_LEN \<and>
      length (w_ssid (fst (wan_cfg_get (v_wan d)))) < WAN_CFG_SSID_MAX_LEN)"

lemma length_traffic:
  assumes "0 \<le> vw_us (p_view p)" "vw_us (p_view p) < 2 ^ 63" "vw_heap (p_view p) < 2 ^ 32" "vw_min_heap (p_view p) < 2 ^ 32"
    "length (s_conflicts (p_quarantine p)) \<le> QUARANTINE_MAX"
  shows "length (traffic_text p) \<le> 680"
proof -
  let ?v = "p_view p"
  have "length (filter (\<lambda>c. q_used c \<and> q_armed c) (s_conflicts (p_quarantine p))) \<le> QUARANTINE_MAX"
    using assms(5) length_filter_le order_trans by blast
  then have "length (decimal (client_track_get_armed_conflicts (p_quarantine p))) \<le> 1"
    using length_decimal [of "client_track_get_armed_conflicts (p_quarantine p)" 1]
    by (simp add: client_track_get_armed_conflicts_def)
  moreover have "length (decimal (vw_heap (p_view p))) \<le> 10" "length (decimal (vw_min_heap (p_view p))) \<le> 10"
    using assms(3,4) by (auto intro!: length_decimal)
  ultimately show ?thesis
    using uptime_fits [OF assms(1,2)] length_truth [of "client_track_quarantine_enforcing (p_quarantine p)"]
      length_decimal_u8 [of "sys_monitor_get_cpu_load (vw_monitor (p_view p)) ! 0"]
      length_decimal_u8 [of "sys_monitor_get_cpu_load (vw_monitor (p_view p)) ! 1"]
      length_decimal_u32 [of "sys_monitor_get_cpu_freq_mhz (vw_monitor ?v)"]
      length_decimal_u32 [of "total_bps ci_rx_bps (the_clients p)"]
      length_decimal_u32 [of "total_bps ci_tx_bps (the_clients p)"]
      length_decimal_u32 [of "fst (client_track_get_traffic_pps (env_tracker (vw_env ?v)))"]
      length_decimal_u32 [of "snd (client_track_get_traffic_pps (env_tracker (vw_env ?v)))"]
      length_decimal_u32 [of "client_track_get_traffic_drops (vw_fwd ?v)"]
      length_decimal_u32 [of "eth_in (client_track_get_forward_drops (vw_fwd ?v))"]
      length_decimal_u32 [of "wifi_in (client_track_get_forward_drops (vw_fwd ?v))"]
      length_decimal_u32 [of "eth_out (client_track_get_forward_drops (vw_fwd ?v))"]
      length_decimal_u32 [of "wifi_out (client_track_get_forward_drops (vw_fwd ?v))"]
      length_decimal_u32 [of "fst (client_track_get_wifi_tx (p_tx p))"]
      length_decimal_u32 [of "snd (client_track_get_wifi_tx (p_tx p))"]
      length_decimal_u32 [of "fst (client_track_get_quarantine_drops (vw_fwd ?v)) + snd (client_track_get_quarantine_drops (vw_fwd ?v))"]
    by (simp add: traffic_text_def Let_def case_prod_beta)
qed

lemma length_eth: "length (eth_text eth) \<le> 142"
  using length_truth [of True] length_truth [of False] length_truth [of "es_autoneg eth"] length_decimal_u32 [of "es_speed_mbit eth"]
    length_decimal_u32 [of "es_flaps eth"] length_decimal_u32 [of "es_since_change_s eth"]
  by (simp add: eth_text_def split: if_split)

lemma length_boot: "length (boot_text p boot) \<le> 320"
proof (cases boot)
  case None
  then show ?thesis
    using length_json_time [of p None] length_truth [of False] length_decimal_u32 [of 0] by (simp add: boot_text_def)
next
  case (Some e)
  then show ?thesis
    using length_decimal_u32 [of "e_boot_seq e"] reason_names [of "vw_enum (p_view p)" "e_reason e"]
      length_intent_name [of "e_intent e"] length_uptime_str [of e] length_uptime_max_str [of e] length_ready_str [of e]
      length_rail_str [of e] length_truth [of "approximate e"] length_truth [of "has_flag e RESET_LOG_F_ROLLBACK"]
      length_json_time [of p "boot_time e"]
    by (simp add: boot_text_def Let_def)
qed

lemma length_abbrev: "length (case now of None \<Rightarrow> '''' | Some t \<Rightarrow> strlcpy (vw_abbrev v t) 16) \<le> 15"
  using length_strlcpy [of _ 16] by (auto split: option.split)

lemma length_clock: "length (clock_text p) \<le> 110"
  using length_abbrev [of "p_view p" "clock_time_now (vw_now (p_view p)) (c_rtc (vw_clock (p_view p)))"]
    length_source [of "vw_clock (p_view p)"] length_truth [of "clock_time_stale (vw_now (p_view p)) (c_rtc (vw_clock (p_view p)))"]
    length_json_time [of p "map_option word_of_int (clock_time_now (vw_now (p_view p)) (c_rtc (vw_clock (p_view p))))"]
  by (simp add: clock_text_def Let_def)

lemma system_fits: "in_bounds p d \<Longrightarrow> length (rendered [Plain (system_text p (v_resets d))]) + 7 \<le> 1536"
  using length_traffic [of p] length_eth [of "eth_link_get_status (vw_us (p_view p)) (vw_eth (p_view p))"]
    length_boot [of p "reset_log_get_current (v_resets d)"] length_clock [of p]
  by (simp add: in_bounds_def system_text_def Let_def)

lemma syslog_fits:
  assumes "in_bounds p d"
  shows "length (rendered (syslog_pieces p (fst (syslog_cfg_get (env_mac (vw_env (p_view p))) (v_syslog d))))) + 7 \<le> 512"
proof -
  define cfg where "cfg = fst (syslog_cfg_get (env_mac (vw_env (p_view p))) (v_syslog d))"
  define st where "st = syslog_get_status (p_log p) (vw_syslog (p_view p))"
  have "length (json_escaped (y_hostname cfg)) \<le> 192" "length (number (ss_last_errno st)) \<le> 11"
    using assms length_escaped [of "y_hostname cfg"] length_number [of "ss_last_errno st" 10]
    by (simp_all add: in_bounds_def cfg_def st_def Let_def)
  then have "length (rendered (syslog_pieces p cfg)) + 7 \<le> 512"
    using length_truth [of "y_enabled cfg"] length_truth [of "ss_bound st"] length_addr [of p "y_server_ip cfg"]
      length_decimal_u16 [of "y_port cfg"] length_decimal_u8 [of "y_facility cfg"] length_decimal_u8 [of "y_min_severity cfg"]
      length_subnet [of p "env_subnet (vw_env (p_view p))"] length_decimal_u32 [of "ss_sent st"]
      length_decimal_u32 [of "ss_filtered st"] length_decimal_u32 [of "ss_aged_out st"] length_decimal_u32 [of "ss_send_fail st"]
      length_decimal_u32 [of "ss_backlog st"]
    by (simp add: syslog_pieces_def st_def Let_def split: if_split)
  then show ?thesis by (simp add: cfg_def)
qed

lemma zones_length: "length (rendered (listed zone_pieces k_zones)) = 1453"
  by (simp add: listed_def zone_pieces_def k_zones_def)

lemma time_fits: "length tz < CLOCK_CFG_TZ_MAX_LEN \<Longrightarrow> length (rendered (time_pieces p tz)) + 7 \<le> 2048"
  using length_abbrev [of "p_view p" "clock_time_now (vw_now (p_view p)) (c_rtc (vw_clock (p_view p)))"]
    length_source [of "vw_clock (p_view p)"] length_truth [of "clock_time_stale (vw_now (p_view p)) (c_rtc (vw_clock (p_view p)))"]
    length_json_time [of p "map_option word_of_int (clock_time_now (vw_now (p_view p)) (c_rtc (vw_clock (p_view p))))"]
    length_json_time [of p "if clock_time_last_sync (c_rtc (vw_clock (p_view p))) \<noteq> 0
      then Some (word_of_int (clock_time_last_sync (c_rtc (vw_clock (p_view p))))) else None"]
    length_escaped [of tz] zones_length
  by (simp add: time_pieces_def Let_def split: if_split)

lemma length_ports: "length (fst (wan_cfg_format_ports cfg WAN_CFG_PORTS_STR_MAX)) \<le> 120"
  by (simp add: wan_cfg_format_ports_def Let_def)

lemma wan_fits: "length (w_ssid cfg) < WAN_CFG_SSID_MAX_LEN \<Longrightarrow> length (rendered (wan_pieces p cfg st)) + 7 \<le> 768"
  using length_truth [of "w_enabled cfg"] length_escaped [of "w_ssid cfg"] length_state_name [of "wl_state st"]
    length_addr [of p "wl_ip st"] length_addr [of p "wl_netmask st"] length_addr [of p "wl_gw st"]
    length_ip_or_empty [of p "wl_dns st"] length_ports [of cfg] length_decimal_u8 [of "wl_ap_channel st"]
    length_decimal_u8 [of "wl_ap_channel_configured st"] length_rssi [of "wl_rssi st"] length_truth [of "wl_napt_on st"]
    length_decimal_u32 [of "wl_connects st"] length_decimal_u32 [of "wl_disconnects st"]
    length_decimal_u16 [of "wl_last_reason st"] length_decimal_u32 [of "wl_retry_in_s st"]
    length_decimal_u32 [of "tx_allowed (vw_counters (p_view p))"] length_decimal_u32 [of "tx_blocked (vw_counters (p_view p))"]
    length_decimal_u32 [of "rx_allowed (vw_counters (p_view p))"] length_decimal_u32 [of "rx_blocked (vw_counters (p_view p))"]
  by (simp add: wan_pieces_def Let_def split: if_split)

lemma history_fits:
  assumes "length mac_str < 24" "\<And>g. g \<in> {h_rx_bps, h_tx_bps, h_rx_pps, h_tx_pps} \<Longrightarrow> length (g h) \<le> 32"
  shows "length (rendered (history_pieces mac_str h)) + 7 \<le> 1600"
proof -
  have l: "length (rendered (rates (take (h_count h) xs))) \<le> 32 * 11" if "length xs \<le> 32" for xs
    unfolding rates_def
  proof (rule length_listed_uniform)
    fix sep :: string and x :: u32
    assume "length sep \<le> 1"
    then show "length (rendered [Plain (sep @ num x)]) \<le> 11" using length_decimal_u32 [of x] by simp
  qed (use that in simp)
  then show ?thesis
    using l [OF assms(2), of h_rx_bps] l [OF assms(2), of h_tx_bps] l [OF assms(2), of h_rx_pps] l [OF assms(2), of h_tx_pps]
      assms(1) length_decimal_u32 [of "h_seq h"] length_truth [of "h_reset h"] length_decimal [of CLIENT_TRACK_HISTORY_PERIOD_MS 3]
    by (simp add: history_pieces_def Let_def)
qed

section \<open>Past the gates\<close>

definition admitted :: "request \<Rightarrow> device \<Rightarrow> bool" where
  "admitted rq d \<longleftrightarrow>
     fst (check_admin_auth rq (v_auth d)) \<and> snd (credentials (v_auth d)) \<noteq> AUTH_CFG_DEFAULT_PASSWORD"

text \<open>The device with the login's settings read in.\<close>

definition logged_in :: "request \<Rightarrow> device \<Rightarrow> device" where
  "logged_in rq d = d\<lparr>v_auth := snd (auth_cfg_password_is_default (snd (check_admin_auth rq (v_auth d))))\<rparr>"

lemma logged_in_keeps [simp]:
  "v_resets (logged_in rq d) = v_resets d" "v_level (logged_in rq d) = v_level d" "v_link (logged_in rq d) = v_link d"
  "v_syslog (logged_in rq d) = v_syslog d" "v_clock (logged_in rq d) = v_clock d" "v_wan (logged_in rq d) = v_wan d"
  by (simp_all add: logged_in_def)

lemma logged_in_untouched: "untouched d (logged_in rq d)"
  by (simp add: untouched_def logged_in_def default_keeps check_keeps)

lemma past_gates: "admitted rq d \<Longrightarrow> with_admin p rq k d = k (logged_in rq d)"
  using default_keeps(1) [of "snd (check_admin_auth rq (v_auth d))"] check_keeps(1) [of rq "v_auth d"]
  by (auto simp: admitted_def with_admin_def with_login_def with_own_password_def logged_in_def Let_def split: prod.split)

section \<open>An example\<close>

definition example_site :: site where
  "example_site =
     \<lparr>p_view = example_view, p_quarantine = static_quarantine, p_dhcp = lan_dhcp,
      p_log = static_log_buf, p_later = (\<lambda>_. static_log_buf), p_tx = \<lparr>x_total = 0, x_failed = 0\<rparr>,
      p_query = (\<lambda>_. HdrNotFound), p_value = (\<lambda>_ _ _. HdrNotFound), p_sent = (\<lambda>_. True)\<rparr>"

definition example_login :: "(string \<times> string) list" where
  "example_login = [(''Authorization'', ''Basic '' @ base64_encode ''admin:secret'')]"

lemma example_admitted: "admitted (example_request example_login body) example_device"
proof -
  have c: "credentials (v_auth example_device) = (''admin'', ''secret'')"
    by (simp add: example_device_def factory_def auth_cfg_save_def credentials_def first_failure_def auth_cfg_load_def Let_def)
  have "fst (check_admin_auth (example_request example_login body) (v_auth example_device)) \<longleftrightarrow>
      credentials (v_auth example_device) = (''admin'', ''secret'')"
    by (rule login_by_credentials [OF example_headers]) (simp_all add: example_login_def)
  then show ?thesis using c by (simp add: admitted_def)
qed

lemma example_in_bounds: "in_bounds example_site example_device"
proof -
  have "saved first_boot"
    by (rule init_ckpt(1) [OF first_boot_init]) (simp_all add: example_boot_def first_boot_seq)
  then have "ring_wf first_boot" by (simp add: saved_def)
  moreover have "s_restored_count lan_dhcp < 100" by (simp add: lan_dhcp_def static_dhcp_def)
  ultimately show ?thesis
    using wf_lan_dhcp
    by (simp add: in_bounds_def example_site_def example_view_def example_env_def example_device_def static_quarantine_def
        syslog_get_status_def static_syslog_def syslog_cfg_get_def load_syslog_from_nvs_def clock_cfg_get_def
        load_tz_from_nvs_def resolve_tz_def resolve_hostname_def syslog_cfg_default_hostname_def
        wan_cfg_get_def load_wan_from_nvs_def Let_def)
qed

end
