(* ===== verification/WebLogs.thy ===== *)
theory WebLogs
  imports WebReports
begin

text \<open>
  The log over the web (\<open>main/web_server.c\<close>): \<open>/api/logs\<close>, which a page polls with the number of the last
  line it has seen, and the download of the whole ring as a file.
\<close>

section \<open>Polling\<close>

abbreviation LOGS_TRAILER_MAX :: nat where "LOGS_TRAILER_MAX \<equiv> 320"
abbreviation LOGS_GAP_MAX :: nat where "LOGS_GAP_MAX \<equiv> 32"
abbreviation LOGS_BUF :: nat where "LOGS_BUF \<equiv> 4096"

definition appends :: "nat \<Rightarrow> piece list \<Rightarrow> resp \<Rightarrow> resp" where
  "appends bufsz ps r = foldl (append_piece bufsz) r ps"

definition gap_pieces :: "string \<Rightarrow> nat \<Rightarrow> piece list" where
  "gap_pieces sep n = [Plain (sep @ ''{\"gap\":'' @ decimal n @ ''}'')]"

definition line_pieces :: "string \<Rightarrow> nat \<Rightarrow> log_line \<Rightarrow> piece list" where
  "line_pieces sep q l =
     [Plain (sep @ ''{\"n\":'' @ decimal q @ '',\"l\":\"'' @ [g_level l] @ ''\",\"t\":'' @ num (g_ts_ms l) @ '',\"g\":\"''),
      Escaped (g_tag l), Plain ''\",\"m\":\"'', Escaped (g_msg l), Plain ''\"}'']"

text \<open>
  The packing loop over the \<open>n\<close> numbers from \<open>q\<close> on, with the response, the count of entries and the
  pending gap. The numbers are natural ones: the loop does not end if the newest is the last of 32 bits.
\<close>

fun pack :: "(nat \<Rightarrow> log_line option) \<Rightarrow> nat \<Rightarrow> nat \<Rightarrow> resp \<Rightarrow> nat \<Rightarrow> u32 \<Rightarrow> nat \<times> resp \<times> nat \<times> u32" where
  "pack rd 0 q r emitted gap = (q, r, emitted, gap)"
| "pack rd (Suc n) q r emitted gap =
     (case rd q of
        None \<Rightarrow> pack rd n (Suc q) r emitted (gap + 1)
      | Some l \<Rightarrow>
          let needed = 64 + 6 * length (g_tag l) + 6 * length (g_msg l) in
          if snd r + needed + 2 * LOGS_GAP_MAX + LOGS_TRAILER_MAX \<ge> LOGS_BUF then (q, r, emitted, gap)
          else
            let sep = (\<lambda>k. if k = 0 then '''' else '','');
                (r, emitted, gap) =
                  (if gap > 0 then (appends LOGS_BUF (gap_pieces (sep emitted) (unat gap)) r, emitted + 1, 0)
                   else (r, emitted, gap));
                r = appends LOGS_BUF (line_pieces (sep emitted) q l) r
            in pack rd n (Suc q) r (emitted + 1) gap)"

definition trailer_pieces ::
  "site \<Rightarrow> nat \<Rightarrow> nat \<Rightarrow> u32 \<Rightarrow> u32 \<Rightarrow> u32 \<Rightarrow> bool \<Rightarrow> piece list"
where
  "trailer_pieces p level shown lost missed newest restarted =
     (let st = syslog_get_status (p_log p) (vw_syslog (p_view p)) in
      [Plain (''],\"seq\":'' @ decimal shown @ '',\"lost\":'' @ num lost @ '',\"missed\":'' @ num missed @
         '',\"more\":'' @ truth (Suc shown \<le> unat newest) @ '','' @
         ''\"restarted\":'' @ truth restarted @ '',\"level\":\"'' @ log_level_name level @
         ''\",\"serial_level\":\"'' @ log_level_name (level_rank (log_buf_get_serial_level (p_log p))) @ ''\",'' @
         ''\"max_level\":\"'' @ log_level_name (vw_max_level (p_view p)) @ ''\"''),
       Plain ('',\"syslog_enabled\":'' @ truth (ss_enabled st) @ '',\"syslog_sent\":'' @ num (ss_sent st) @
         '',\"syslog_aged\":'' @ num (ss_aged_out st) @ '','' @
         ''\"syslog_failed\":'' @ num (ss_send_fail st) @ '',\"syslog_errno\":'' @ number (ss_last_errno st) @
         '',\"syslog_backlog\":'' @ num (ss_backlog st)),
       Plain ''}''])"

text \<open>Where a reader goes on, whether it is started over, and how many lines it has lost.\<close>

definition logs_start :: "u32 \<Rightarrow> u32 \<Rightarrow> u32 \<Rightarrow> u32 \<times> bool \<times> u32" where
  "logs_start since oldest newest =
     (let restarted = (since > newest); nxt = (if restarted then oldest else since + 1) in
      if nxt < oldest then (oldest, restarted, if since = 0 then 0 else oldest - nxt) else (nxt, restarted, 0))"

definition line_at :: "site \<Rightarrow> nat \<Rightarrow> log_line option" where
  "line_at p q = log_buf_get_line (of_nat q) LOG_BUF_TAG_MAX LOG_BUF_MSG_MAX (p_later p q)"

definition logs_since :: "site \<Rightarrow> u32 \<Rightarrow> device \<Rightarrow> reply" where
  "logs_since p since d =
     (let (oldest, newest, missed) = log_buf_get_range (p_log p);
          (nxt, restarted, lost) = logs_start since oldest newest;
          r = appends LOGS_BUF [Plain ''{\"lines\":[''] ('''', 0);
          (seq, r, emitted, gap) = pack (line_at p) (Suc (unat newest) - unat nxt) (unat nxt) r 0 0;
          r = (if gap > 0 then appends LOGS_BUF (gap_pieces (if emitted = 0 then '''' else '','') (unat gap)) r else r);
          r = appends LOGS_BUF (trailer_pieces p (v_level d) (seq - 1) lost missed newest restarted) r
      in reply_json 200 LOGS_BUF r d)"

definition logs_get_handler :: "site \<Rightarrow> request \<Rightarrow> device \<Rightarrow> reply" where
  "logs_get_handler p rq =
     with_admin p rq (with_query p 64 (\<lambda>value. logs_since p (cursor (value ''since'' 16))))"

section \<open>What a response tells\<close>

text \<open>An entry of the list: so many lines lost at this place, or a line under its number.\<close>

datatype log_entry = Lost nat | Shown nat log_line

fun entry_pieces :: "string \<Rightarrow> log_entry \<Rightarrow> piece list" where
  "entry_pieces sep (Lost n) = gap_pieces sep n"
| "entry_pieces sep (Shown q l) = line_pieces sep q l"

text \<open>The entries tell of the numbers from \<open>a\<close> up to \<open>b\<close> exactly, as they were read.\<close>

fun accounts :: "(nat \<Rightarrow> log_line option) \<Rightarrow> nat \<Rightarrow> log_entry list \<Rightarrow> nat \<Rightarrow> bool" where
  "accounts rd a [] b \<longleftrightarrow> a = b"
| "accounts rd a (Lost n # es) b \<longleftrightarrow> 0 < n \<and> (\<forall>k<n. rd (a + k) = None) \<and> accounts rd (a + n) es b"
| "accounts rd a (Shown q l # es) b \<longleftrightarrow> q = a \<and> rd a = Some l \<and> accounts rd (Suc a) es b"

lemma accounts_append: "accounts rd a es b \<Longrightarrow> accounts rd b es' c \<Longrightarrow> accounts rd a (es @ es') c"
  by (induction rd a es b rule: accounts.induct) auto

lemma accounts_le: "accounts rd a es b \<Longrightarrow> a + length es \<le> b"
  by (induction rd a es b rule: accounts.induct) auto

lemma appends_exact:
  assumes "length body + length (rendered ps) + 7 \<le> bufsz"
  shows "appends bufsz ps (body, length body) = (body @ rendered ps, length (body @ rendered ps))"
proof -
  have "faithful bufsz body (body, length body)" using assms by (simp add: faithful_def)
  from fold_faithful [OF this, of ps] show ?thesis using assms by (simp add: appends_def faithful_def)
qed

lemma listed_snoc: "listed f (xs @ [x]) = listed f xs @ f (if xs = [] then '''' else '','') x"
  by (cases xs) (simp_all add: listed_def)

lemma length_gap: "length sep \<le> 1 \<Longrightarrow> n < 2 ^ 32 \<Longrightarrow> length (rendered (gap_pieces sep n)) \<le> 19"
  using length_decimal [of n 10] by (simp add: gap_pieces_def)

lemma length_line:
  "length sep \<le> 1 \<Longrightarrow> q < 2 ^ 32 \<Longrightarrow>
   length (rendered (line_pieces sep q l)) \<le> 64 + 6 * length (g_tag l) + 6 * length (g_msg l)"
  using length_decimal [of q 10] length_decimal_u32 [of "g_ts_ms l"] length_escaped [of "g_tag l"] length_escaped [of "g_msg l"]
  by (simp add: line_pieces_def)

lemma pack_forward: "pack rd n q r e g = (q', r', e', g') \<Longrightarrow> q \<le> q' \<and> q' \<le> q + n"
proof (induction n arbitrary: q r e g)
  case (Suc n)
  show ?case
  proof (cases "rd q")
    case None
    then show ?thesis using Suc.prems Suc.IH [of "Suc q"] by fastforce
  next
    case (Some l)
    then have "q' = q \<or> (\<exists>r e g. pack rd n (Suc q) r e g = (q', r', e', g'))"
      using Suc.prems by (auto simp: Let_def simp del: split_paired_Ex split_paired_All split: if_splits)
    then show ?thesis using Suc.IH [of "Suc q"] by fastforce
  qed
qed simp

text \<open>A pending gap, as an entry.\<close>

definition with_gap :: "log_entry list \<Rightarrow> nat \<Rightarrow> log_entry list" where
  "with_gap es n = (if 0 < n then es @ [Lost n] else es)"

definition packed :: "(nat \<Rightarrow> log_line option) \<Rightarrow> string \<Rightarrow> nat \<Rightarrow> nat \<Rightarrow> resp \<Rightarrow> nat \<Rightarrow> u32 \<Rightarrow> log_entry list \<Rightarrow> bool" where
  "packed rd pre a q r e gap es \<longleftrightarrow>
     (let body = pre @ rendered (listed entry_pieces es) in
      r = (body, length body) \<and> e = length es \<and> length body + 364 < LOGS_BUF \<and>
      accounts rd a (with_gap es (unat gap)) q)"

lemma packed_lost:
  assumes "packed rd pre a q r e gap es" "rd q = None" "unat gap + 1 < 2 ^ 32"
  shows "packed rd pre a (Suc q) r e (gap + 1) es"
proof -
  have g: "unat (gap + 1) = Suc (unat gap)" using assms(3) by (simp add: unat_word_ariths)
  have "accounts rd a (es @ [Lost (Suc n)]) (Suc q)" if "accounts rd a (with_gap es n) q" for n
    using that assms(2)
    by (induction rd a es q rule: accounts.induct) (auto simp: with_gap_def less_Suc_eq split: if_splits)
  then show ?thesis using assms(1) by (simp add: packed_def g with_gap_def Let_def)
qed

lemma packed_gap_written:
  assumes "packed rd pre a q r e gap es" "0 < gap"
  shows "\<exists>r1. appends LOGS_BUF (gap_pieces (if e = 0 then '''' else '','') (unat gap)) r = r1 \<and>
    r1 = (pre @ rendered (listed entry_pieces (es @ [Lost (unat gap)])), length (pre @ rendered (listed entry_pieces (es @ [Lost (unat gap)])))) \<and>
    snd r1 \<le> snd r + 19 \<and> accounts rd a (es @ [Lost (unat gap)]) q"
proof -
  let ?sep = "if es = [] then '''' else '',''" and ?body = "pre @ rendered (listed entry_pieces es)"
  have g: "0 < unat gap" "unat gap < 2 ^ 32"
    using assms(2) unsigned_less [of gap, where ?'a = nat] by (simp_all add: word_less_nat_alt)
  have l: "length (rendered (gap_pieces ?sep (unat gap))) \<le> 19" using g(2) by (intro length_gap) auto
  have p: "r = (?body, length ?body)" "e = length es" "length ?body + 364 < LOGS_BUF" "accounts rd a (with_gap es (unat gap)) q"
    using assms(1) by (simp_all add: packed_def Let_def)
  have "appends LOGS_BUF (gap_pieces ?sep (unat gap)) r =
      (?body @ rendered (gap_pieces ?sep (unat gap)), length (?body @ rendered (gap_pieces ?sep (unat gap))))"
    unfolding p(1) by (rule appends_exact) (use l p(3) in linarith)
  then show ?thesis using p l g(1) by (simp add: listed_snoc with_gap_def)
qed

lemma packed_line:
  assumes "r = (pre @ rendered (listed entry_pieces es), length (pre @ rendered (listed entry_pieces es)))"
    and "snd r + 64 + 6 * length (g_tag l) + 6 * length (g_msg l) + 365 < LOGS_BUF" "accounts rd a es q" "rd q = Some l" "q < 2 ^ 32"
  shows "packed rd pre a (Suc q) (appends LOGS_BUF (line_pieces (if es = [] then '''' else '','') q l) r) (length es + 1) 0 (es @ [Shown q l])"
proof -
  let ?sep = "if es = [] then '''' else '',''" and ?body = "pre @ rendered (listed entry_pieces es)"
  have l: "length (rendered (line_pieces ?sep q l)) \<le> 64 + 6 * length (g_tag l) + 6 * length (g_msg l)"
    using assms(5) by (intro length_line) auto
  have "appends LOGS_BUF (line_pieces ?sep q l) r =
      (?body @ rendered (line_pieces ?sep q l), length (?body @ rendered (line_pieces ?sep q l)))"
    unfolding assms(1) by (rule appends_exact) (use l assms(1,2) in simp)
  moreover have "accounts rd a (es @ [Shown q l]) (Suc q)" by (rule accounts_append [OF assms(3)]) (simp add: assms(4))
  moreover have "length (?body @ rendered (line_pieces ?sep q l)) + 364 < LOGS_BUF" using l assms(1,2) by simp
  ultimately show ?thesis by (simp add: packed_def with_gap_def listed_snoc)
qed

lemma pack_tells:
  assumes "pack rd n q r e gap = (q', r', e', gap')" "packed rd pre a q r e gap es"
    and "q + n \<le> 2 ^ 32" "unat gap + n < 2 ^ 32"
  shows "\<exists>es'. packed rd pre a q' r' e' gap' es'"
  using assms
proof (induction n arbitrary: q r e gap es)
  case (Suc n)
  show ?case
  proof (cases "rd q")
    case None
    have g: "unat (gap + 1) = Suc (unat gap)" using Suc.prems(4) by (simp add: unat_word_ariths)
    show ?thesis
      using Suc.IH [OF _ packed_lost [OF Suc.prems(2) None]] Suc.prems None g by simp
  next
    case (Some l)
    define es1 where "es1 = with_gap es (unat gap)"
    define r1 where "r1 = (if gap > 0 then appends LOGS_BUF (gap_pieces (if e = 0 then '''' else '','') (unat gap)) r else r)"
    show ?thesis
    proof (cases "snd r + (64 + 6 * length (g_tag l) + 6 * length (g_msg l)) + 2 * LOGS_GAP_MAX + LOGS_TRAILER_MAX \<ge> LOGS_BUF")
      case True
      then show ?thesis using Suc.prems Some by auto
    next
      case False
      have e: "e = length es" using Suc.prems(2) by (simp add: packed_def Let_def)
      have "r1 = (pre @ rendered (listed entry_pieces es1), length (pre @ rendered (listed entry_pieces es1))) \<and>
          snd r1 \<le> snd r + 19 \<and> accounts rd a es1 q"
        using packed_gap_written [OF Suc.prems(2)] Suc.prems(2)
        by (cases "gap = 0") (auto simp: r1_def es1_def with_gap_def packed_def word_gt_0 Let_def unat_gt_0)
      then have "packed rd pre a (Suc q) (appends LOGS_BUF (line_pieces (if es1 = [] then '''' else '','') q l) r1) (length es1 + 1) 0
          (es1 @ [Shown q l])"
        using False Some Suc.prems(3) by (intro packed_line) auto
      moreover have "pack rd n (Suc q) (appends LOGS_BUF (line_pieces (if es1 = [] then '''' else '','') q l) r1) (length es1 + 1) 0 =
          (q', r', e', gap')"
        using Suc.prems(1) False Some e
        by (cases "gap = 0") (simp_all add: r1_def es1_def with_gap_def word_gt_0 unat_gt_0 Let_def)
      ultimately show ?thesis using Suc.IH Suc.prems(3,4) by simp
    qed
  qed
qed auto

lemma length_level_name: "length (log_level_name level) \<le> 7"
  by (auto simp: log_level_name_def log_level_names_def less_Suc_eq numeral_eq_Suc nth_Cons split: nat.splits)

lemma length_trailer:
  assumes "shown < 2 ^ 32" "\<bar>ss_last_errno (syslog_get_status (p_log p) (vw_syslog (p_view p)))\<bar> < 2 ^ 32"
  shows "length (rendered (trailer_pieces p level shown lost missed newest restarted)) \<le> 308"
proof -
  define st where "st = syslog_get_status (p_log p) (vw_syslog (p_view p))"
  have "length (number (ss_last_errno st)) \<le> 11" using assms(2) length_number [of "ss_last_errno st" 10] by (simp add: st_def)
  moreover have "length (decimal shown) \<le> 10" using assms(1) by (intro length_decimal) auto
  ultimately show ?thesis
    using length_decimal_u32 [of lost] length_decimal_u32 [of missed] length_truth [of "Suc shown \<le> unat newest"]
      length_truth [of restarted] length_level_name [of level] length_level_name [of "vw_max_level (p_view p)"]
      length_level_name [of "level_rank (log_buf_get_serial_level (p_log p))"] length_truth [of "ss_enabled st"]
      length_decimal_u32 [of "ss_sent st"] length_decimal_u32 [of "ss_aged_out st"] length_decimal_u32 [of "ss_send_fail st"]
      length_decimal_u32 [of "ss_backlog st"]
    by (simp add: trailer_pieces_def st_def [symmetric] Let_def)
qed

text \<open>The whole text of a response.\<close>

definition logs_text :: "site \<Rightarrow> nat \<Rightarrow> log_entry list \<Rightarrow> nat \<Rightarrow> u32 \<Rightarrow> u32 \<Rightarrow> u32 \<Rightarrow> bool \<Rightarrow> string" where
  "logs_text p level es shown lost missed newest restarted =
     ''{\"lines\":['' @ rendered (listed entry_pieces es) @
     rendered (trailer_pieces p level shown lost missed newest restarted)"

lemma range_of_ring:
  assumes "log_buf_get_range s = (oldest, newest, missed)"
  shows "1 \<le> unat oldest" "unat oldest \<le> Suc (unat newest)"
proof -
  have "(128 :: u32) < w \<Longrightarrow> unat (w - 128 + 1) = unat w - 127" for w
  proof -
    assume "(128 :: u32) < w"
    then have "unat (w - 127) = unat w - 127" by (simp add: word_less_nat_alt unat_sub word_le_nat_alt)
    then show "unat (w - 128 + 1) = unat w - 127" by simp
  qed
  then show "1 \<le> unat oldest" "unat oldest \<le> Suc (unat newest)"
    using assms by (auto simp: log_buf_get_range_def word_less_nat_alt split: if_splits)
qed

lemma start_of_reader:
  assumes "logs_start since oldest newest = (nxt, restarted, lost)" "1 \<le> unat oldest" "unat oldest \<le> Suc (unat newest)"
    and "unat newest < 2 ^ 32 - 1"
  shows "1 \<le> unat nxt" "unat nxt \<le> Suc (unat newest)" "restarted \<longleftrightarrow> newest < since"
    "unat nxt = (if restarted \<or> since = 0 then unat oldest else unat since + 1 + unat lost)"
    "since \<noteq> 0 \<and> \<not> restarted \<Longrightarrow> lost \<noteq> 0 \<Longrightarrow> nxt = oldest"
proof -
  have s: "unat (since + 1) = Suc (unat since)" if "\<not> newest < since"
    using that assms(4) by (simp add: word_less_nat_alt unat_word_ariths)
  have d: "unat (oldest - w) = unat oldest - unat w" if "w < oldest" for w
    using that by (simp add: unat_sub word_le_nat_alt word_less_nat_alt)
  show "restarted \<longleftrightarrow> newest < since" using assms(1) by (auto simp: logs_start_def Let_def split: if_splits)
  show "1 \<le> unat nxt" "unat nxt \<le> Suc (unat newest)"
    "unat nxt = (if restarted \<or> since = 0 then unat oldest else unat since + 1 + unat lost)"
    "since \<noteq> 0 \<and> \<not> restarted \<Longrightarrow> lost \<noteq> 0 \<Longrightarrow> nxt = oldest"
    using assms(1-3) s d [of "since + 1"]
    by (auto simp: logs_start_def Let_def word_less_nat_alt split: if_splits)
qed

lemma pack_moves:
  assumes "pack rd (Suc n) q r e gap = (q', r', e', gap')" "snd r < 2000" "\<And>l. rd q = Some l \<Longrightarrow> fits l"
  shows "q < q'"
proof (cases "rd q")
  case None
  then show ?thesis using assms(1) pack_forward [of rd n "Suc q"] by fastforce
next
  case (Some l)
  then have "fits l" by (rule assms(3))
  then have "\<not> snd r + (64 + 6 * length (g_tag l) + 6 * length (g_msg l)) + 2 * LOGS_GAP_MAX + LOGS_TRAILER_MAX \<ge> LOGS_BUF"
    using assms(2) by (simp add: fits_def)
  then have "\<exists>r e g. pack rd n (Suc q) r e g = (q', r', e', gap')"
    using assms(1) Some by (auto simp: Let_def simp del: split_paired_Ex split_paired_All split: if_splits)
  then show ?thesis using pack_forward [of rd n "Suc q"] by fastforce
qed

lemma line_at_fits: "line_at p q = Some l \<Longrightarrow> fits l"
  by (auto simp: line_at_def log_buf_get_line_def fits_def Let_def split: if_splits)

lemma logs_since_tells:
  assumes "log_buf_get_range (p_log p) = (oldest, newest, missed)" "unat newest < 2 ^ 32 - 1"
    and "\<bar>ss_last_errno (syslog_get_status (p_log p) (vw_syslog (p_view p)))\<bar> < 2 ^ 32"
    and "logs_start since oldest newest = (nxt, restarted, lost)"
  shows "\<exists>es shown. logs_since p since d =
      ([Http (Respond 200 json_type (logs_text p (v_level d) es shown lost missed newest restarted))], Ok, d) \<and>
    accounts (line_at p) (unat nxt) es (Suc shown) \<and> shown \<le> unat newest \<and> (nxt \<le> newest \<longrightarrow> unat nxt \<le> shown)"
proof -
  let ?pre = "''{\"lines\":[''" and ?n = "Suc (unat newest) - unat nxt"
  note b = range_of_ring [OF assms(1)]
  note s = start_of_reader [OF assms(4) b assms(2)]
  have i: "appends LOGS_BUF [Plain ?pre] ('''', 0) = (?pre, length ?pre)"
    using appends_exact [of "''''" "[Plain ?pre]" LOGS_BUF] by simp
  obtain q r e gap where p: "pack (line_at p) ?n (unat nxt) (?pre, length ?pre) 0 0 = (q, r, e, gap)" by (rule prod_cases4)
  have "packed (line_at p) ?pre (unat nxt) (unat nxt) (?pre, length ?pre) 0 0 []"
    by (simp add: packed_def with_gap_def listed_def)
  then obtain es where k: "packed (line_at p) ?pre (unat nxt) q r e gap es"
    using pack_tells [OF p] s(1,2) assms(2) by fastforce
  let ?es = "with_gap es (unat gap)" and ?body = "?pre @ rendered (listed entry_pieces (with_gap es (unat gap)))"
  define r1 where "r1 = (if gap > 0 then appends LOGS_BUF (gap_pieces (if e = 0 then '''' else '','') (unat gap)) r else r)"
  have "r1 = (?body, length ?body) \<and> length ?body \<le> snd r + 19 \<and> snd r + 364 < LOGS_BUF"
    using packed_gap_written [OF k] k
    by (cases "gap = 0") (auto simp: r1_def with_gap_def packed_def word_gt_0 Let_def unat_gt_0)
  then have r1: "r1 = (?body, length ?body)" "length ?body + 345 < LOGS_BUF" by simp_all
  have q: "unat nxt \<le> q" "q \<le> Suc (unat newest)" using pack_forward [OF p] s(2) by simp_all
  let ?t = "trailer_pieces p (v_level d) (q - 1) lost missed newest restarted"
  have "length (rendered ?t) \<le> 308" using q assms(2,3) by (intro length_trailer) auto
  then have f: "length ?body + length (rendered ?t) + 7 \<le> LOGS_BUF" using r1(2) by linarith
  then have w: "appends LOGS_BUF ?t r1 = (?body @ rendered ?t, length (?body @ rendered ?t))"
    unfolding r1(1) by (rule appends_exact)
  have w': "length (?body @ rendered ?t) < LOGS_BUF" using f by (simp only: length_append)
  have "logs_since p since d = reply_json 200 LOGS_BUF (appends LOGS_BUF ?t r1) d"
    by (simp only: logs_since_def assms(1,4) i p r1_def Let_def prod.case)
  then have "logs_since p since d =
      ([Http (Respond 200 json_type (logs_text p (v_level d) ?es (q - 1) lost missed newest restarted))], Ok, d)"
    using w w' by (simp add: reply_json_def send_json_def resp_send_json_def respond_def logs_text_def)
  moreover have "accounts (line_at p) (unat nxt) ?es (Suc (q - 1))" using k q(1) s(1) by (simp add: packed_def Let_def)
  moreover have "q - 1 \<le> unat newest" using q(2) by simp
  moreover have "nxt \<le> newest \<longrightarrow> unat nxt \<le> q - 1"
  proof
    assume "nxt \<le> newest"
    then obtain m where "?n = Suc m" by (metis Suc_diff_le word_le_nat_alt)
    then have "unat nxt < q" using pack_moves [OF p [unfolded \<open>?n = Suc m\<close>]] line_at_fits by simp
    then show "unat nxt \<le> q - 1" by simp
  qed
  ultimately show ?thesis by blast
qed

section \<open>The download\<close>

abbreviation LOGS_DL_CHUNK :: nat where "LOGS_DL_CHUNK \<equiv> 1024"
abbreviation LOGS_DL_LINE_MAX :: nat where "LOGS_DL_LINE_MAX \<equiv> 200"

text \<open>The chunk being filled, whether a chunk could not be sent, and the chunks that were.\<close>

type_synonym transfer = "resp \<times> bool \<times> string list"

text \<open>What is sent of a buffer that overran is all of it, the terminator included.\<close>

definition dl_flush :: "(nat \<Rightarrow> bool) \<Rightarrow> transfer \<Rightarrow> transfer" where
  "dl_flush sent = (\<lambda>((buf, off), failed, out).
     (if failed \<or> off = 0 then ((buf, 0), failed, out)
      else if sent (length out) then ((buf, 0), failed, out @ [take off (buf @ [CHR 0x00])])
      else ((buf, 0), True, out)))"

definition dl_add :: "string \<Rightarrow> transfer \<Rightarrow> transfer" where
  "dl_add str = (\<lambda>(r, rest). (resp_append LOGS_DL_CHUNK r str, rest))"

definition dl_room :: "(nat \<Rightarrow> bool) \<Rightarrow> transfer \<Rightarrow> transfer" where
  "dl_room sent t = (if snd (fst t) + LOGS_DL_LINE_MAX \<ge> LOGS_DL_CHUNK then dl_flush sent t else t)"

abbreviation failed_transfer :: "transfer \<Rightarrow> bool" where "failed_transfer t \<equiv> fst (snd t)"

definition dl_columns :: "string \<Rightarrow> string \<Rightarrow> char \<Rightarrow> string \<Rightarrow> string \<Rightarrow> string" where
  "dl_columns seq ms level tag msg =
     pad_left 6 seq @ ''  '' @ pad_left 8 ms @ ''  '' @ [level] @ ''  '' @ pad_right 24 tag @ ''  '' @ msg @ [NL]"

definition dl_line :: "nat \<Rightarrow> log_line \<Rightarrow> string" where
  "dl_line q l =
     dl_columns (decimal q) (num (g_ts_ms l)) (g_level l) (if g_tag l \<noteq> '''' then g_tag l else ''-'') (g_msg l)"

definition dl_marker :: "nat \<Rightarrow> string" where
  "dl_marker n = ''*** '' @ decimal n @ '' line(s) were overwritten while this file was being written ***'' @ [NL]"

fun dl_lines :: "(nat \<Rightarrow> log_line option) \<Rightarrow> (nat \<Rightarrow> bool) \<Rightarrow> nat \<Rightarrow> nat \<Rightarrow> transfer \<Rightarrow> u32 \<Rightarrow> transfer \<times> u32" where
  "dl_lines rd sent 0 q t gap = (t, gap)"
| "dl_lines rd sent (Suc n) q t gap =
     (if failed_transfer t then (t, gap)
      else (case rd q of
          None \<Rightarrow> dl_lines rd sent n (Suc q) t (gap + 1)
        | Some l \<Rightarrow>
            let t = dl_room sent t in
            if failed_transfer t then (t, gap)
            else let t = (if gap > 0 then dl_add (dl_marker (unat gap)) t else t)
                 in dl_lines rd sent n (Suc q) (dl_add (dl_line q l) t) 0))"

definition dl_boot_part :: "site \<Rightarrow> reset_entry option \<Rightarrow> string" where
  "dl_boot_part p boot =
     (let eth = eth_link_get_status (vw_us (p_view p)) (vw_eth (p_view p)) in
      ''wt32-bridge device log'' @ [NL, NL] @
      ''version         '' @ vw_version (p_view p) @ [NL] @
      (case boot of
         Some e \<Rightarrow> ''boot            '' @ num (e_boot_seq e) @ '' ('' @ reset_log_reason_name (vw_enum (p_view p)) (e_reason e) @
           '', intent '' @ reset_log_intent_name (e_intent e) @ '')'' @ [NL]
       | None \<Rightarrow> ''boot            unknown'' @ [NL]) @
      ''uptime          '' @ uptime_text p @ '' s'' @ [NL] @
      ''ethernet        '' @ (if es_up eth then ''up'' else ''down'') @ (if es_up eth then '''' else '' (no link)'') @ [NL] @
      (if es_up eth then
         ''                '' @ num (es_speed_mbit eth) @ '' Mbit, '' @ (if es_full_duplex eth then ''full'' else ''half'') @
         '' duplex, '' @ num (es_flaps eth) @ '' flap(s), '' @ num (es_since_change_s eth) @ '' s in this state'' @ [NL]
       else ''''))"

definition dl_log_part :: "site \<Rightarrow> nat \<Rightarrow> syslog_cfg \<Rightarrow> string" where
  "dl_log_part p level cfg =
     (let (oldest, newest, missed) = log_buf_get_range (p_log p); st = syslog_get_status (p_log p) (vw_syslog (p_view p)) in
      ''log ring        '' @ decimal LOG_BUF_LINES @ '' lines, holding '' @ num oldest @ ''..'' @ num newest @ [NL] @
      ''lines lost      '' @ num missed @ '' the capture hook could not store'' @ [NL] @
      ''capture level   '' @ log_level_name level @ '' (build maximum: '' @ log_level_name (vw_max_level (p_view p)) @ '')'' @ [NL] @
      (if y_enabled cfg then
         ''syslog          enabled, '' @ addr p (y_server_ip cfg) @ '':'' @ decimal (unat (y_port cfg)) @ '', '' @
         num (ss_sent st) @ '' sent, '' @ num (ss_aged_out st) @ '' aged out, '' @ num (ss_send_fail st) @ '' failed'' @ [NL]
       else ''syslog          disabled'' @ [NL]) @
      ''timestamps      milliseconds since this boot started, deliberately, even'' @ [NL] @
      ''                when the device does know the wall-clock time. There is no'' @ [NL] @
      ''                RTC battery here, so a clock exists only while the WAN can'' @ [NL] @
      ''                reach an NTP server - and a log whose lines are relative'' @ [NL] @
      ''                for the first part of a boot and absolute afterwards is'' @ [NL] @
      ''                harder to read than one that is consistently relative. The'' @ [NL] @
      ''                reboot history at /resets IS dated where it can be.'' @ [NL] @
      [NL] @
      dl_columns ''seq'' ''ms'' CHR ''L'' ''tag'' ''message'')"

definition dl_tail :: "(nat \<Rightarrow> bool) \<Rightarrow> transfer \<times> u32 \<Rightarrow> transfer" where
  "dl_tail sent = (\<lambda>(t, gap).
     (let t = (if gap > 0 \<and> \<not> failed_transfer t then dl_add (dl_marker (unat gap)) (dl_room sent t) else t)
      in dl_flush sent t))"

text \<open>The chunks that are sent; the handler's body is their text.\<close>

definition log_file :: "site \<Rightarrow> reset_entry option \<Rightarrow> nat \<Rightarrow> syslog_cfg \<Rightarrow> transfer" where
  "log_file p boot level cfg =
     (let sent = p_sent p; (oldest, newest, missed) = log_buf_get_range (p_log p);
          t = dl_flush sent (dl_add (dl_boot_part p boot) (('''', 0), False, []));
          t = dl_flush sent (dl_add (dl_log_part p level cfg) t)
      in dl_tail sent (dl_lines (line_at p) sent (Suc (unat newest) - unat oldest) (unat oldest) t 0))"

definition dl_name :: "site \<Rightarrow> reset_entry option \<Rightarrow> string" where
  "dl_name p boot = strlcpy
     (''attachment; filename=\"wt32-bridge-log-boot'' @ num (case boot of None \<Rightarrow> 0 | Some e \<Rightarrow> e_boot_seq e) @ ''-'' @
      uptime_text p @ ''s.txt\"'') 96"

definition logs_download_get_handler :: "site \<Rightarrow> request \<Rightarrow> device \<Rightarrow> reply" where
  "logs_download_get_handler p rq = with_admin p rq (\<lambda>d.
     (let boot = reset_log_get_current (v_resets d);
          (cfg, store) = syslog_cfg_get (env_mac (vw_env (p_view p))) (v_syslog d);
          d = d\<lparr>v_syslog := store\<rparr>;
          (_, _, out) = log_file p boot (v_level d) cfg
      in respond [Respond 200 [(''Content-Type'', ''text/plain''), (''Cache-Control'', ''no-store''),
           (''Content-Disposition'', dl_name p boot)] (concat out)] Ok d))"

section \<open>The file, chunk by chunk\<close>

text \<open>Nothing failed, and what was sent and what the chunk holds are the text so far.\<close>

definition holds :: "transfer \<Rightarrow> string \<Rightarrow> bool" where
  "holds t sofar \<longleftrightarrow>
     (\<exists>b n out. t = ((b, n), False, out) \<and> n \<le> length b \<and> length b < LOGS_DL_CHUNK \<and> sofar = concat out @ take n b)"

lemma holds_flush: "holds t sofar \<Longrightarrow> (\<And>k. sent k) \<Longrightarrow> holds (dl_flush sent t) sofar \<and> snd (fst (dl_flush sent t)) = 0"
  by (auto simp: holds_def dl_flush_def)

lemma holds_add:
  "holds t sofar \<Longrightarrow> snd (fst t) + length s < LOGS_DL_CHUNK \<Longrightarrow>
   holds (dl_add s t) (sofar @ s) \<and> snd (fst (dl_add s t)) = snd (fst t) + length s"
  by (auto simp: holds_def dl_add_def resp_append_def)

lemma holds_room:
  "holds t sofar \<Longrightarrow> (\<And>k. sent k) \<Longrightarrow> holds (dl_room sent t) sofar \<and> snd (fst (dl_room sent t)) + LOGS_DL_LINE_MAX < LOGS_DL_CHUNK"
  using holds_flush [of t sofar sent] by (auto simp: dl_room_def)

lemma length_dl_line:
  assumes "q < 2 ^ 32" "fits l" "length (g_tag l) \<le> 27"
  shows "length (dl_line q l) \<le> LOGS_DL_LINE_MAX"
  using assms length_decimal [of q 10] length_decimal_u32 [of "g_ts_ms l"]
  by (auto simp: dl_line_def dl_columns_def pad_left_def pad_right_def fits_def)

lemma holds_lines:
  assumes "holds t sofar" "\<And>k. sent k" "q + n \<le> 2 ^ 32"
    and "\<And>k. q \<le> k \<Longrightarrow> k < q + n \<Longrightarrow> \<exists>l. rd k = Some l \<and> fits l \<and> length (g_tag l) \<le> 27"
  shows "\<exists>t'. dl_lines rd sent n q t 0 = (t', 0) \<and> holds t' (sofar @ concat (map (\<lambda>k. dl_line k (the (rd k))) [q..<q + n]))"
  using assms(1,3,4)
proof (induction n arbitrary: q t sofar)
  case (Suc n)
  obtain l where l: "rd q = Some l" "fits l" "length (g_tag l) \<le> 27" using Suc.prems(3) [of q] by auto
  have f: "\<not> failed_transfer t" using Suc.prems(1) by (auto simp: holds_def)
  note r = holds_room [OF Suc.prems(1), of sent, OF assms(2)]
  have "length (dl_line q l) \<le> LOGS_DL_LINE_MAX" using l(2,3) Suc.prems(2) by (intro length_dl_line) auto
  then have h: "holds (dl_add (dl_line q l) (dl_room sent t)) (sofar @ dl_line q l)"
    using r by (intro holds_add [THEN conjunct1]) auto
  have f': "\<not> failed_transfer (dl_room sent t)" using r by (auto simp: holds_def)
  have m: "Suc q + n \<le> 2 ^ 32" "\<And>k. Suc q \<le> k \<Longrightarrow> k < Suc q + n \<Longrightarrow> \<exists>l. rd k = Some l \<and> fits l \<and> length (g_tag l) \<le> 27"
    using Suc.prems(2,3) by simp_all
  obtain t' where t': "dl_lines rd sent n (Suc q) (dl_add (dl_line q l) (dl_room sent t)) 0 = (t', 0)"
      "holds t' ((sofar @ dl_line q l) @ concat (map (\<lambda>k. dl_line k (the (rd k))) [Suc q..<Suc q + n]))"
    using Suc.IH [OF h m] by blast
  moreover have "dl_lines rd sent (Suc n) q t 0 = dl_lines rd sent n (Suc q) (dl_add (dl_line q l) (dl_room sent t)) 0"
    using f f' l(1) by (simp add: Let_def)
  moreover have "[q..<q + Suc n] = q # [Suc q..<Suc q + n]" by (simp add: upt_conv_Cons del: upt_Suc)
  ultimately show ?case using l(1) by (simp del: upt_Suc dl_lines.simps)
qed simp

lemma heading_fits:
  assumes "0 \<le> vw_us (p_view p)" "vw_us (p_view p) < 2 ^ 63" "length (vw_version (p_view p)) < 32"
  shows "length (dl_boot_part p boot) < LOGS_DL_CHUNK" "length (dl_log_part p level cfg) < LOGS_DL_CHUNK"
proof -
  let ?eth = "eth_link_get_status (vw_us (p_view p)) (vw_eth (p_view p))"
  have b: "length (case boot of
      Some e \<Rightarrow> ''boot            '' @ num (e_boot_seq e) @ '' ('' @ reset_log_reason_name (vw_enum (p_view p)) (e_reason e) @
        '', intent '' @ reset_log_intent_name (e_intent e) @ '')'' @ [NL]
    | None \<Rightarrow> ''boot            unknown'' @ [NL]) \<le> 70"
  proof (cases boot)
    case (Some e)
    then show ?thesis
      using reason_names [of "vw_enum (p_view p)" "e_reason e"] length_intent_name [of "e_intent e"]
        length_decimal_u32 [of "e_boot_seq e"] by simp
  qed simp
  show "length (dl_boot_part p boot) < LOGS_DL_CHUNK"
    using b assms(3) uptime_fits [OF assms(1,2)] length_decimal_u32 [of "es_speed_mbit ?eth"]
      length_decimal_u32 [of "es_flaps ?eth"] length_decimal_u32 [of "es_since_change_s ?eth"]
    unfolding dl_boot_part_def Let_def length_append by (simp split: if_split)
  obtain oldest newest missed where r: "log_buf_get_range (p_log p) = (oldest, newest, missed)" by (rule prod_cases3)
  have "length (decimal LOG_BUF_LINES) \<le> 3" by (rule length_decimal) simp_all
  then show "length (dl_log_part p level cfg) < LOGS_DL_CHUNK"
    using length_decimal_u32 [of oldest] length_decimal_u32 [of newest] length_decimal_u32 [of missed]
      length_level_name [of level] length_level_name [of "vw_max_level (p_view p)"] length_addr [of p "y_server_ip cfg"]
      length_decimal_u16 [of "y_port cfg"] length_decimal_u32 [of "ss_sent (syslog_get_status (p_log p) (vw_syslog (p_view p)))"]
      length_decimal_u32 [of "ss_aged_out (syslog_get_status (p_log p) (vw_syslog (p_view p)))"]
      length_decimal_u32 [of "ss_send_fail (syslog_get_status (p_log p) (vw_syslog (p_view p)))"]
    by (simp add: dl_log_part_def dl_columns_def pad_left_def pad_right_def r Let_def split: if_split)
qed

lemma file_heading:
  assumes "0 \<le> vw_us (p_view p)" "vw_us (p_view p) < 2 ^ 63" "length (vw_version (p_view p)) < 32" "\<And>k. sent k"
  shows "holds (dl_flush sent (dl_add (dl_log_part p level cfg) (dl_flush sent (dl_add (dl_boot_part p boot) (('''', 0), False, [])))))
    (dl_boot_part p boot @ dl_log_part p level cfg)"
proof -
  have "holds (('''', 0), False, []) ''''" by (simp add: holds_def)
  then have "holds (dl_add (dl_boot_part p boot) (('''', 0), False, [])) (dl_boot_part p boot)"
    using holds_add [of "(('''', 0), False, [])" "''''" "dl_boot_part p boot"] heading_fits(1) [OF assms(1-3), of boot] by simp
  note b = holds_flush [OF this, of sent, OF assms(4)]
  have "holds (dl_add (dl_log_part p level cfg) (dl_flush sent (dl_add (dl_boot_part p boot) (('''', 0), False, []))))
      (dl_boot_part p boot @ dl_log_part p level cfg)"
    using holds_add [OF conjunct1 [OF b], of "dl_log_part p level cfg"] b heading_fits(2) [OF assms(1-3), of level cfg] by simp
  from holds_flush [OF this, of sent, OF assms(4)] show ?thesis by simp
qed

text \<open>
  A marker comes before the line the space was left for, and is not counted in: with a marker and a line of
  more than 154 characters (a message of 107 makes one) in a chunk that has room for the line, the end of the
  line is lost and what is sent ends in the terminator.
\<close>

lemma marker_overruns_chunk:
  assumes "t = ((b, 800), False, out)" "length b = 800" "154 < length (dl_line q l)"
  shows "dl_room sent t = t \<and>
    (\<exists>c. dl_flush (\<lambda>_. True) (dl_add (dl_line q l) (dl_add (dl_marker n) t)) = c \<and>
      last (snd (snd c)) = take 1023 (b @ dl_marker n @ dl_line q l) @ [CHR 0x00])"
proof -
  have "0 < length (decimal n)" unfolding length_greater_0_conv by (rule hd_decimal(3))
  then have m: "69 \<le> length (dl_marker n)" by (simp add: dl_marker_def Suc_le_eq)
  have "1024 \<le> length (b @ dl_marker n @ dl_line q l)" using assms(2,3) m by simp
  then show ?thesis
    using assms(1,2) by (auto simp: dl_room_def dl_flush_def dl_add_def resp_append_def min_def)
qed

section \<open>Properties\<close>

text \<open>C29: A poll of the log is always answered in full, and it accounts for every line: the numbers from where the
  reader goes on up to the one it is told to come back with are each either in the response, with the line
  the ring holds under it, or counted in a gap at its place; between what it had seen and where it goes on
  lie exactly the lines it is told it has lost; and if there is anything newer, it gets further.
\<close>

theorem poll_accounts:
  assumes "admitted rq d" "p_query p 64 = HdrOk query" "since = cursor (query_value p query ''since'' 16)"
    and "log_buf_get_range (p_log p) = (oldest, newest, missed)" "unat newest < 2 ^ 32 - 1" "in_bounds p d"
  shows "\<exists>es shown lost first. logs_get_handler p rq d =
      ([Http (Respond 200 json_type (logs_text p (v_level d) es shown lost missed newest (newest < since)))], Ok, logged_in rq d) \<and>
    accounts (line_at p) first es (Suc shown) \<and> shown \<le> unat newest \<and>
    first = (if newest < since \<or> since = 0 then unat oldest else unat since + 1 + unat lost) \<and>
    (0 < lost \<longrightarrow> first = unat oldest) \<and> (first \<le> unat newest \<longrightarrow> first \<le> shown)"
proof -
  obtain nxt restarted lost where l: "logs_start since oldest newest = (nxt, restarted, lost)" by (rule prod_cases3)
  note s = start_of_reader [OF l range_of_ring [OF assms(4)] assms(5)]
  have e: "\<bar>ss_last_errno (syslog_get_status (p_log p) (vw_syslog (p_view p)))\<bar> < 2 ^ 32"
    using assms(6) by (simp add: in_bounds_def Let_def)
  have g: "logs_get_handler p rq d = logs_since p since (logged_in rq d)"
    using assms(1-3) by (simp add: logs_get_handler_def past_gates with_query_def)
  obtain es shown where "logs_since p since (logged_in rq d) =
      ([Http (Respond 200 json_type (logs_text p (v_level d) es shown lost missed newest restarted))], Ok, logged_in rq d)"
    "accounts (line_at p) (unat nxt) es (Suc shown)" "shown \<le> unat newest" "nxt \<le> newest \<longrightarrow> unat nxt \<le> shown"
    using logs_since_tells [OF assms(4,5) e l, of "logged_in rq d"] by auto
  moreover have "0 < lost \<longrightarrow> unat nxt = unat oldest" using s(3-5) by (auto simp: word_gt_0)
  ultimately show ?thesis
    using g s(3,4)
    by (intro exI [of _ es] exI [of _ shown] exI [of _ lost] exI [of _ "unat nxt"]) (simp add: word_le_nat_alt)
qed

definition example_log :: log_buf where
  "example_log = static_log_buf
     \<lparr>s_lines := (s_lines static_log_buf)[0 := \<lparr>g_ts_ms = 5, g_level = CHR ''I'', g_tag = ''main'', g_msg = ''up''\<rparr>],
      s_total := 1\<rparr>"

definition polled_site :: site where
  "polled_site = example_site
     \<lparr>p_log := example_log, p_later := (\<lambda>_. example_log), p_query := (\<lambda>_. HdrOk ''tab=1'')\<rparr>"

lemma polled_in_bounds: "in_bounds polled_site example_device"
  using example_in_bounds by (simp add: in_bounds_def polled_site_def syslog_get_status_def example_site_def)

lemma example_log_line:
  "log_buf_get_range example_log = (1, 1, 0)"
  "log_buf_get_line 1 32 144 example_log = Some \<lparr>g_ts_ms = 5, g_level = CHR ''I'', g_tag = ''main'', g_msg = ''up''\<rparr>"
  by (simp_all add: example_log_def static_log_buf_def log_buf_get_range_def log_buf_get_line_def Let_def)

lemma polled_line: "line_at polled_site 1 = Some \<lparr>g_ts_ms = 5, g_level = CHR ''I'', g_tag = ''main'', g_msg = ''up''\<rparr>"
  using example_log_line(2) by (simp add: line_at_def polled_site_def)

theorem poll_accounts_witness:
  "\<exists>lost. fst (logs_get_handler polled_site (example_request example_login '''') example_device) =
     [Http (Respond 200 json_type (logs_text polled_site 3
        [Shown 1 \<lparr>g_ts_ms = 5, g_level = CHR ''I'', g_tag = ''main'', g_msg = ''up''\<rparr>] 1 lost 0 1 False))]"
proof -
  have q: "p_query polled_site 64 = HdrOk ''tab=1''" "0 = cursor (query_value polled_site ''tab=1'' ''since'' 16)"
    by (simp_all add: polled_site_def example_site_def query_value_def cursor_def)
  have r: "log_buf_get_range (p_log polled_site) = (1, 1, 0)" by (simp add: polled_site_def example_log_line)
  have n: "unat (1 :: u32) < 2 ^ 32 - 1" by simp
  from poll_accounts [OF example_admitted [of "''''"] q r n polled_in_bounds]
  obtain es shown lost where a: "accounts (line_at polled_site) 1 es (Suc shown)" "shown = 1"
    "fst (logs_get_handler polled_site (example_request example_login '''') example_device) =
      [Http (Respond 200 json_type (logs_text polled_site (v_level example_device) es shown lost 0 1 False))]"
    by fastforce
  have "es = [Shown 1 \<lparr>g_ts_ms = 5, g_level = CHR ''I'', g_tag = ''main'', g_msg = ''up''\<rparr>]"
  proof (cases es)
    case (Cons e rest)
    then have "rest = []" using accounts_le [OF a(1)] a(2) by (cases rest) simp_all
    then show ?thesis using a(1,2) polled_line Cons by (cases e) auto
  qed (use a(1,2) in simp)
  moreover have "v_level example_device = 3" by (simp add: example_device_def)
  ultimately show ?thesis using a(2,3) by auto
qed

text \<open>C31: A download that is not interrupted is the whole log: if every chunk is sent and no line is overwritten
  meanwhile, the file is its heading and every line of the ring in order, none of them cut, as long as no tag
  has more than 27 characters (a longer one beside two ten-digit numbers would not fit the 200 bytes kept for a
  line).
\<close>

theorem download_whole:
  assumes "admitted rq d" "in_bounds p d" "\<And>k. p_sent p k"
    and "log_buf_get_range (p_log p) = (oldest, newest, missed)" "unat newest < 2 ^ 32 - 1"
    and "\<And>q. unat oldest \<le> q \<Longrightarrow> q \<le> unat newest \<Longrightarrow> \<exists>l. line_at p q = Some l \<and> length (g_tag l) \<le> 27"
    and "boot = reset_log_get_current (v_resets d)" "syslog_cfg_get (env_mac (vw_env (p_view p))) (v_syslog d) = (cfg, store)"
  shows "logs_download_get_handler p rq d =
    ([Http (Respond 200 [(''Content-Type'', ''text/plain''), (''Cache-Control'', ''no-store''),
         (''Content-Disposition'', dl_name p boot)]
       (dl_boot_part p boot @ dl_log_part p (v_level d) cfg @
        concat (map (\<lambda>q. dl_line q (the (line_at p q))) [unat oldest..<Suc (unat newest)])))],
     Ok, (logged_in rq d)\<lparr>v_syslog := store\<rparr>)"
proof -
  let ?head = "dl_boot_part p boot @ dl_log_part p (v_level d) cfg"
  let ?n = "Suc (unat newest) - unat oldest"
  let ?lines = "concat (map (\<lambda>q. dl_line q (the (line_at p q))) [unat oldest..<Suc (unat newest)])"
  define t where "t = dl_flush (p_sent p) (dl_add (dl_log_part p (v_level d) cfg)
    (dl_flush (p_sent p) (dl_add (dl_boot_part p boot) (('''', 0), False, []))))"
  have b: "0 \<le> vw_us (p_view p)" "vw_us (p_view p) < 2 ^ 63" "length (vw_version (p_view p)) < 32"
    using assms(2) by (simp_all add: in_bounds_def Let_def)
  have h: "holds t ?head" unfolding t_def by (rule file_heading [OF b assms(3)])
  note r = range_of_ring [OF assms(4)]
  have n: "unat oldest + ?n = Suc (unat newest)" using r(2) by simp
  have survived: "\<exists>l. line_at p q = Some l \<and> fits l \<and> length (g_tag l) \<le> 27" if "unat oldest \<le> q" "q < Suc (unat newest)" for q
    using assms(6) [of q] that line_at_fits [of p q] by auto
  obtain t' where l: "dl_lines (line_at p) (p_sent p) ?n (unat oldest) t 0 = (t', 0)" "holds t' (?head @ ?lines)"
    using holds_lines [OF h, of "p_sent p" "unat oldest" ?n "line_at p", OF assms(3), unfolded n, OF _ survived] assms(5)
    by (auto simp del: upt_Suc split_paired_Ex)
  obtain buf out where f: "dl_flush (p_sent p) t' = ((buf, 0), False, out)" "concat out = ?head @ ?lines"
    using holds_flush [OF l(2), of "p_sent p", OF assms(3)] by (auto simp: holds_def simp del: upt_Suc)
  have "log_file p boot (v_level d) cfg = ((buf, 0), False, out)"
    using l(1) f(1) unfolding log_file_def assms(4) Let_def prod.case t_def [symmetric] by (simp add: dl_tail_def)
  then show ?thesis
    using f(2) assms(7,8) by (simp add: logs_download_get_handler_def past_gates [OF assms(1)] respond_def Let_def del: upt_Suc)
qed

theorem download_whole_witness:
  "\<exists>heading d'. logs_download_get_handler polled_site (example_request example_login '''') example_device =
     ([Http (Respond 200 [(''Content-Type'', ''text/plain''), (''Cache-Control'', ''no-store''),
          (''Content-Disposition'', dl_name polled_site (reset_log_get_current first_boot))]
        (heading @ ''     1         5  I  main                      up'' @ [NL]))], Ok, d')"
proof -
  have r: "log_buf_get_range (p_log polled_site) = (1, 1, 0)" by (simp add: polled_site_def example_log_line)
  have l: "\<exists>l. line_at polled_site q = Some l \<and> length (g_tag l) \<le> 27" if "unat (1 :: u32) \<le> q" "q \<le> unat (1 :: u32)" for q
    using that polled_line by (cases "q = 1") auto
  have t: "dl_line 1 \<lparr>g_ts_ms = 5, g_level = CHR ''I'', g_tag = ''main'', g_msg = ''up''\<rparr> =
      ''     1         5  I  main                      up'' @ [NL]"
    by code_simp
  have s: "p_sent polled_site k" for k by (simp add: polled_site_def example_site_def)
  have v: "v_resets example_device = first_boot" by (simp add: example_device_def)
  from download_whole [OF example_admitted [of "''''"] polled_in_bounds s r _ l refl prod.collapse [symmetric]]
  show ?thesis unfolding v using polled_line t by auto
qed

end
