(* ===== verification/WebServer.thy ===== *)
theory WebServer
  imports WebLogs
begin

text \<open>
  The web server as a whole (\<open>main/web_server.c\<close>): its routes and their registration, and what holds of all
  of them.
\<close>

section \<open>Routes\<close>

datatype get_route =
  Index | AdminPage | Status | TimeGet | Clients | ClientHistory | System | LeasesPage | Leases | ResetsPage | Resets |
  LogsPage | Logs | LogsDownload | SyslogGet | WanPage | LanPage | PortsPage | Favicon | WanGet

primrec serve_get :: "site \<Rightarrow> request \<Rightarrow> get_route \<Rightarrow> device \<Rightarrow> reply" where
  "serve_get p rq Index = index_get_handler (vw_env (p_view p)) rq"
| "serve_get p rq AdminPage = admin_get_handler (vw_env (p_view p)) rq"
| "serve_get p rq Status = status_get_handler (vw_env (p_view p)) rq"
| "serve_get p rq TimeGet = time_get_handler p rq"
| "serve_get p rq Clients = clients_get_handler p rq"
| "serve_get p rq ClientHistory = client_history_get_handler p rq"
| "serve_get p rq System = system_get_handler p rq"
| "serve_get p rq LeasesPage = leases_page_get_handler p rq"
| "serve_get p rq Leases = leases_get_handler p rq"
| "serve_get p rq ResetsPage = resets_page_get_handler p rq"
| "serve_get p rq Resets = resets_get_handler p rq"
| "serve_get p rq LogsPage = logs_page_get_handler p rq"
| "serve_get p rq Logs = logs_get_handler p rq"
| "serve_get p rq LogsDownload = logs_download_get_handler p rq"
| "serve_get p rq SyslogGet = syslog_get_handler p rq"
| "serve_get p rq WanPage = wan_page_get_handler p rq"
| "serve_get p rq LanPage = lan_page_get_handler p rq"
| "serve_get p rq PortsPage = ports_page_get_handler p rq"
| "serve_get p rq Favicon = favicon_get_handler p rq"
| "serve_get p rq WanGet = wan_get_handler p rq"

datatype handler = Get get_route | Post route

text \<open>The paths, in the order of their registration.\<close>

definition uri_handlers :: "(string \<times> handler) list" where
  "uri_handlers =
     [(''/'', Get Index), (''/admin'', Get AdminPage), (''/api/status'', Get Status), (''/api/wifi'', Post WifiPost),
      (''/api/admin'', Post AdminPost), (''/api/clients'', Get Clients), (''/api/client/history'', Get ClientHistory),
      (''/api/clients/kick'', Post KickPost), (''/api/system'', Get System), (''/api/ota'', Post OtaPost),
      (''/leases'', Get LeasesPage), (''/api/leases'', Get Leases), (''/resets'', Get ResetsPage),
      (''/api/resets'', Get Resets), (''/logs'', Get LogsPage), (''/api/logs'', Get Logs),
      (''/api/logs/level'', Post LevelPost), (''/api/logs/download'', Get LogsDownload),
      (''/api/syslog'', Get SyslogGet), (''/api/syslog'', Post SyslogPost), (''/wan'', Get WanPage), (''/lan'', Get LanPage),
      (''/ports'', Get PortsPage), (''/favicon.ico'', Get Favicon), (''/api/wan'', Get WanGet), (''/api/wan'', Post WanPost),
      (''/api/time'', Get TimeGet), (''/api/time'', Post TimePost)]"

text \<open>
  \<open>started\<close> is what \<open>httpd_start\<close> answered; \<open>register\<close> is the library's, with the size of its table, and its
  answer is not looked at.
\<close>

abbreviation MAX_URI_HANDLERS :: nat where "MAX_URI_HANDLERS \<equiv> 32"

definition web_server_start ::
  "int \<Rightarrow> (nat \<Rightarrow> string \<times> handler \<Rightarrow> (string \<times> handler) list \<Rightarrow> (string \<times> handler) list) \<Rightarrow> (string \<times> handler) list option"
where
  "web_server_start started register =
     (if started \<noteq> 0 then None else Some (fold (register MAX_URI_HANDLERS) uri_handlers []))"

text \<open>A request handed to one of the handlers.\<close>

definition handle :: "site \<Rightarrow> request \<Rightarrow> handler \<Rightarrow> device \<Rightarrow> reply" where
  "handle p rq h = (case h of Get r \<Rightarrow> serve_get p rq r | Post r \<Rightarrow> serve (vw_env (p_view p)) rq r)"

section \<open>Reports\<close>

text \<open>The pieces of the routes that answer with a report, and with what they leave of the settings' caches.\<close>

definition report_of :: "site \<Rightarrow> get_route \<Rightarrow> device \<Rightarrow> piece list option" where
  "report_of p r d =
     (case r of
        Status \<Rightarrow> Some [Plain ''{\"ssid\":\"'', Escaped (env_ssid (vw_env (p_view p))),
          Plain (''\",\"channel\":'' @ decimal (unat (env_channel (vw_env (p_view p)))) @ ''}'')]
      | TimeGet \<Rightarrow> Some (time_pieces p (fst (clock_cfg_get (v_clock d))))
      | Clients \<Rightarrow> Some (clients_pieces p)
      | System \<Rightarrow> Some [Plain (system_text p (v_resets d))]
      | Leases \<Rightarrow> Some (leases_pieces p)
      | Resets \<Rightarrow> Some (resets_pieces p (v_resets d))
      | SyslogGet \<Rightarrow> Some (syslog_pieces p (fst (syslog_cfg_get (env_mac (vw_env (p_view p))) (v_syslog d))))
      | WanGet \<Rightarrow> Some (wan_pieces p (fst (wan_cfg_get (v_wan d))) (v_link d))
      | _ \<Rightarrow> None)"

text \<open>Settings as the next reader gets them, and everything else, are as before.\<close>

definition same_settings :: "mac option \<Rightarrow> device \<Rightarrow> device \<Rightarrow> bool" where
  "same_settings m d d' \<longleftrightarrow>
     credentials (v_auth d') = credentials (v_auth d) \<and> u_nvs (v_auth d') = u_nvs (v_auth d) \<and> v_wifi d' = v_wifi d \<and>
     ws_nvs (v_wan d') = ws_nvs (v_wan d) \<and> fst (wan_cfg_get (v_wan d')) = fst (wan_cfg_get (v_wan d)) \<and>
     v_link d' = v_link d \<and> y_nvs (v_syslog d') = y_nvs (v_syslog d) \<and>
     fst (syslog_cfg_get m (v_syslog d')) = fst (syslog_cfg_get m (v_syslog d)) \<and>
     k_nvs (v_clock d') = k_nvs (v_clock d) \<and> fst (clock_cfg_get (v_clock d')) = fst (clock_cfg_get (v_clock d)) \<and>
     v_level d' = v_level d \<and> v_resets d' = v_resets d"

lemma getters_keep:
  "ws_nvs (snd (wan_cfg_get w)) = ws_nvs w" "fst (wan_cfg_get (snd (wan_cfg_get w))) = fst (wan_cfg_get w)"
  "y_nvs (snd (syslog_cfg_get m y)) = y_nvs y" "fst (syslog_cfg_get m (snd (syslog_cfg_get m y))) = fst (syslog_cfg_get m y)"
  "k_nvs (snd (clock_cfg_get k)) = k_nvs k" "fst (clock_cfg_get (snd (clock_cfg_get k))) = fst (clock_cfg_get k)"
  by (auto simp: wan_cfg_get_def syslog_cfg_get_def clock_cfg_get_def Let_def split: option.splits)

lemma untouched_same: "untouched d d' \<Longrightarrow> same_settings m d d'"
  unfolding untouched_def same_settings_def by (elim conjE) (erule ssubst, simp)

lemma same_trans: "same_settings m a b \<Longrightarrow> same_settings m b c \<Longrightarrow> same_settings m a c"
  by (simp add: same_settings_def)

text \<open>A route that reads changes nothing that counts.\<close>

definition only_read :: "mac option \<Rightarrow> device \<Rightarrow> reply \<Rightarrow> bool" where
  "only_read m d = (\<lambda>(es, out, d'). (\<forall>e\<in>set es. \<exists>h. e = Http h) \<and> same_settings m d d')"

lemma only_read_respond [simp]: "only_read m d (respond es out d') = same_settings m d d'"
  by (auto simp: only_read_def respond_def)

lemma only_read_report [simp]: "only_read m d (report bufsz ps d') = same_settings m d d'"
  by (simp add: report_def reply_json_def case_prod_beta)

lemma same_refl [simp]: "same_settings m d d"
  by (simp add: same_settings_def)

lemma only_read_login:
  assumes "\<And>d1. same_settings m d d1 \<Longrightarrow> only_read m d (k d1)"
  shows "only_read m d (with_login n rq (finish out) k d)"
proof -
  obtain ok a where c: "check_admin_auth rq (v_auth d) = (ok, a)" by fastforce
  have s: "same_settings m d (d\<lparr>v_auth := a\<rparr>)" using untouched_same [OF check_untouched, of m d rq] by (simp add: c)
  show ?thesis
  proof (cases ok)
    case True
    then have "with_login n rq (finish out) k d = k (d\<lparr>v_auth := a\<rparr>)" by (simp add: with_login_def c)
    then show ?thesis using assms [OF s] by simp
  next
    case False
    then show ?thesis
      using s by (auto simp: with_login_def c finish_def only_read_def same_settings_def case_prod_beta)
  qed
qed

lemma only_read_password:
  assumes "same_settings m d d1" "\<And>d2. same_settings m d d2 \<Longrightarrow> only_read m d (k d2)"
  shows "only_read m d (with_own_password denial (finish out) k d1)"
proof -
  obtain dflt a where c: "auth_cfg_password_is_default (v_auth d1) = (dflt, a)" by fastforce
  have s: "same_settings m d (d1\<lparr>v_auth := a\<rparr>)"
    using same_trans [OF assms(1) untouched_same [OF default_untouched, of m d1]] by (simp add: c)
  show ?thesis
  proof (cases dflt)
    case False
    then have "with_own_password denial (finish out) k d1 = k (d1\<lparr>v_auth := a\<rparr>)" by (simp add: with_own_password_def c)
    then show ?thesis using assms(2) [OF s] by simp
  next
    case True
    then show ?thesis using s by (auto simp: with_own_password_def c finish_def only_read_def)
  qed
qed

lemma only_read_admin:
  assumes "\<And>d1. same_settings m d d1 \<Longrightarrow> only_read m d (k d1)"
  shows "only_read m d (with_admin p rq k d)"
  unfolding with_admin_def by (rule only_read_login) (rule only_read_password [OF _ assms])

lemma only_read_query:
  "same_settings m d d1 \<Longrightarrow> (\<And>value. only_read m d (k value d1)) \<Longrightarrow> only_read m d (with_query p sz k d1)"
  by (simp add: with_query_def split: hdr_answer.split)

lemma same_after_get:
  assumes "same_settings m d d1"
  shows "same_settings m d (d1\<lparr>v_wan := snd (wan_cfg_get (v_wan d1))\<rparr>)"
    "same_settings m d (d1\<lparr>v_syslog := snd (syslog_cfg_get m (v_syslog d1))\<rparr>)"
    "same_settings m d (d1\<lparr>v_clock := snd (clock_cfg_get (v_clock d1))\<rparr>)"
  using assms by (simp_all add: same_settings_def getters_keep)

lemma logs_since_reads: "same_settings m d d1 \<Longrightarrow> only_read m d (logs_since p since d1)"
  by (simp add: logs_since_def reply_json_def Let_def split: prod.split)

lemma gets_only_read: "only_read (env_mac (vw_env (p_view p))) d (serve_get p rq r d)"
proof -
  let ?m = "env_mac (vw_env (p_view p))"
  have page: "only_read ?m d (page_get_handler name p rq d)" for name
    unfolding page_get_handler_def Let_def
    by (rule only_read_login, rule only_read_password, assumption) (simp add: send_page_def)
  have report: "only_read ?m d (with_admin p rq (\<lambda>d. report bufsz (ps d) d) d)" for bufsz ps
    by (rule only_read_admin) simp
  show ?thesis
  proof (cases r)
    case Index
    then show ?thesis
      by (simp only: serve_get.simps index_get_handler_def) (rule only_read_login, rule only_read_password, assumption, simp add: send_page_def)
  next
    case AdminPage
    then show ?thesis
      by (simp only: serve_get.simps admin_get_handler_def) (rule only_read_login, simp add: send_page_def)
  next
    case Status
    then show ?thesis
      by (simp only: serve_get.simps status_get_handler_def)
        (rule only_read_login, rule only_read_password, assumption, simp add: reply_json_def case_prod_beta)
  next
    case Favicon
    then show ?thesis
      by (simp only: serve_get.simps favicon_get_handler_def Let_def) (rule only_read_login, simp)
  next
    case TimeGet
    then show ?thesis
      by (simp only: serve_get.simps time_get_handler_def)
        (rule only_read_admin, simp add: case_prod_beta same_after_get)
  next
    case SyslogGet
    then show ?thesis
      by (simp only: serve_get.simps syslog_get_handler_def)
        (rule only_read_admin, simp add: case_prod_beta same_after_get)
  next
    case WanGet
    then show ?thesis
      by (simp only: serve_get.simps wan_get_handler_def)
        (rule only_read_admin, simp add: case_prod_beta same_after_get Let_def)
  next
    case LogsDownload
    then show ?thesis
      by (simp only: serve_get.simps logs_download_get_handler_def)
        (rule only_read_admin, simp add: case_prod_beta same_after_get Let_def)
  next
    case Logs
    then show ?thesis
      by (simp only: serve_get.simps logs_get_handler_def)
        (rule only_read_admin, rule only_read_query, assumption, rule logs_since_reads)
  next
    case ClientHistory
    then show ?thesis
      by (simp only: serve_get.simps client_history_get_handler_def)
        (rule only_read_admin, rule only_read_query, assumption, simp add: Let_def split: option.split)
  qed (simp_all only: serve_get.simps page report clients_get_handler_def system_get_handler_def leases_get_handler_def
      resets_get_handler_def leases_page_get_handler_def resets_page_get_handler_def logs_page_get_handler_def
      wan_page_get_handler_def lan_page_get_handler_def ports_page_get_handler_def)
qed

lemma refused_login:
  assumes "\<not> fst (check_admin_auth rq (v_auth d))"
  shows "fst (with_login n rq refused k d) =
      map Http (fst (send_auth_error (env_window n) (env_now n) rq (v_fail d))) @
      fst (refused (d\<lparr>v_auth := snd (check_admin_auth rq (v_auth d)),
        v_fail := snd (send_auth_error (env_window n) (env_now n) rq (v_fail d))\<rparr>))"
    "fst (snd (with_login n rq refused k d)) =
      fst (snd (refused (d\<lparr>v_auth := snd (check_admin_auth rq (v_auth d)),
        v_fail := snd (send_auth_error (env_window n) (env_now n) rq (v_fail d))\<rparr>)))"
  using assms by (auto simp: with_login_def Let_def case_prod_beta)

section \<open>Properties\<close>

text \<open>C30: Every report reaches an administrator who has logged in as a whole document: whatever the tables, the
  settings and the history hold, none of the eight reports overruns its buffer, and asking for it changes
  nothing.
\<close>

theorem reports_whole:
  assumes "admitted rq d" "in_bounds p d" "report_of p r d = Some ps"
  shows "\<exists>d'. serve_get p rq r d = ([Http (Respond 200 json_type (rendered ps))], Ok, d') \<and>
    same_settings (env_mac (vw_env (p_view p))) d d'"
proof -
  have b: "wf_dhcp (p_dhcp p)" "s_restored_count (p_dhcp p) < 100" "ring_wf (v_resets d)" "0 \<le> vw_us (p_view p)"
    "vw_us (p_view p) < 2 ^ 63" "length (env_ssid (vw_env (p_view p))) < 33"
    "length (fst (clock_cfg_get (v_clock d))) < CLOCK_CFG_TZ_MAX_LEN" "length (w_ssid (fst (wan_cfg_get (v_wan d)))) < WAN_CFG_SSID_MAX_LEN"
    using assms(2) by (simp_all add: in_bounds_def Let_def)
  let ?status = "[Plain ''{\"ssid\":\"'', Escaped (env_ssid (vw_env (p_view p))),
    Plain (''\",\"channel\":'' @ decimal (unat (env_channel (vw_env (p_view p)))) @ ''}'')]"
  have status: "length (rendered ?status) + 7 \<le> 240"
    using length_escaped [of "env_ssid (vw_env (p_view p))"] b(6) length_decimal_u8 [of "env_channel (vw_env (p_view p))"] by simp
  have "status_get_handler (vw_env (p_view p)) rq = with_admin p rq (report 240 ?status)"
    unfolding status_get_handler_def with_admin_def report_def ..
  then have "\<exists>d'. serve_get p rq r d = ([Http (Respond 200 json_type (rendered ps))], Ok, d')"
    using assms(3) sent_whole [OF status] sent_whole [OF clients_fit [of p]] sent_whole [OF leases_fit [OF b(1,2)]]
      sent_whole [OF resets_fit [OF b(3-5)]] sent_whole [OF system_fits [OF assms(2)]] sent_whole [OF syslog_fits [OF assms(2)]]
      sent_whole [OF time_fits [OF b(7), of p]] sent_whole [OF wan_fits [OF b(8), of p "v_link d"]]
    by (cases r)
      (simp_all add: report_of_def past_gates [OF assms(1)] time_get_handler_def clients_get_handler_def system_get_handler_def
        leases_get_handler_def resets_get_handler_def syslog_get_handler_def wan_get_handler_def case_prod_beta Let_def)
  then show ?thesis using gets_only_read [of p d rq r] by (auto simp: only_read_def)
qed

theorem reports_whole_witness:
  "fst (serve_get example_site (example_request example_login '''') Leases example_device) =
     [Http (Respond 200 json_type ''{\"max\":32,\"restored\":0,\"leases\":[]}'')]"
proof -
  have n: "decimal 32 = ''32''" "decimal 0 = ''0''" by code_simp+
  have l: "dhcp_server_get_leases now 32 lan_dhcp = []" "s_restored_count lan_dhcp = 0" "p_dhcp example_site = lan_dhcp" for now
    by (simp_all add: dhcp_server_get_leases_def lan_dhcp_def static_dhcp_def zero_lease_def filter_empty_conv example_site_def)
  have t: "rendered (leases_pieces example_site) = ''{\"max\":32,\"restored\":0,\"leases\":[]}''"
    unfolding leases_pieces_def Let_def l dhcp_server_get_restored_count_def n by (simp add: listed_def)
  have "report_of example_site Leases example_device = Some (leases_pieces example_site)" by (simp add: report_of_def)
  from reports_whole [OF example_admitted [of "''''"] example_in_bounds this] show ?thesis unfolding t by auto
qed

text \<open>C12: Nobody learns anything without the administrator's credentials: to a request that does not carry them,
  on any of the twenty-eight routes, the answer is the same whatever the device's settings, tables, logs and
  history are; it depends on the request, the login's own state and the tick count alone.
\<close>

theorem nothing_told_without_login:
  assumes "\<not> fst (check_admin_auth rq (v_auth d))"
    and "v_auth d' = v_auth d" "v_fail d' = v_fail d"
    and "env_window (vw_env (p_view p')) = env_window (vw_env (p_view p))" "env_now (vw_env (p_view p')) = env_now (vw_env (p_view p))"
  shows "fst (handle p rq h d) = fst (handle p' rq h d') \<and> fst (snd (handle p rq h d)) = fst (snd (handle p' rq h d'))"
proof -
  have a': "\<not> fst (check_admin_auth rq (v_auth d'))" using assms(1,2) by simp
  note r = refused_login [OF assms(1)] refused_login [OF a']
  show ?thesis
  proof (cases h)
    case (Get g)
    then show ?thesis
      by (cases g) (simp_all add: handle_def r assms(2-5) finish_def with_admin_def index_get_handler_def admin_get_handler_def
        status_get_handler_def time_get_handler_def clients_get_handler_def client_history_get_handler_def
        system_get_handler_def leases_get_handler_def resets_get_handler_def logs_get_handler_def
        logs_download_get_handler_def syslog_get_handler_def wan_get_handler_def favicon_get_handler_def
        leases_page_get_handler_def resets_page_get_handler_def logs_page_get_handler_def wan_page_get_handler_def
        lan_page_get_handler_def ports_page_get_handler_def page_get_handler_def Let_def)
  next
    case (Post g)
    then show ?thesis
      by (cases g) (simp_all add: handle_def r assms(2-5) finish_def drain_def wifi_post_handler_def admin_post_handler_def
        ota_post_handler_def kick_post_handler_def logs_level_post_handler_def syslog_post_handler_def
        time_post_handler_def wan_post_handler_def guarded_def Let_def)
  qed
qed

theorem nothing_told_without_login_witness:
  "fst (handle example_site (example_request [] '''') (Get Leases) example_device) =
     fst (handle (example_site\<lparr>p_dhcp := static_dhcp\<rparr>) (example_request [] '''') (Get Leases) (example_device\<lparr>v_level := 5\<rparr>))"
proof -
  have "\<not> fst (check_admin_auth (example_request [] '''') (v_auth example_device))"
    by (simp add: check_admin_auth_def example_request_def)
  from nothing_told_without_login [OF this, of "example_device\<lparr>v_level := 5\<rparr>" "example_site\<lparr>p_dhcp := static_dhcp\<rparr>" example_site
      "Get Leases"]
  show ?thesis by simp
qed

text \<open>
  With a library that takes a handler while there is room and none has its path and method, every route of
  the table is registered, in its order.
\<close>

lemma all_registered:
  assumes "\<And>h hs. length hs < MAX_URI_HANDLERS \<Longrightarrow> h \<notin> set hs \<Longrightarrow> register MAX_URI_HANDLERS h hs = hs @ [h]"
  shows "web_server_start 0 register = Some uri_handlers"
proof -
  have "fold (register MAX_URI_HANDLERS) xs hs = hs @ xs"
    if "distinct (hs @ xs)" "length (hs @ xs) \<le> MAX_URI_HANDLERS" for xs hs
    using that by (induction xs arbitrary: hs) (simp_all add: assms)
  moreover have "distinct uri_handlers" "length uri_handlers \<le> MAX_URI_HANDLERS" by (simp_all add: uri_handlers_def)
  ultimately show ?thesis by (simp add: web_server_start_def)
qed

end
