(* ===== verification/Startup.thy ===== *)
theory Startup
  imports RailWitness DhcpServer
begin

text \<open>
  The start-up (\<open>main/main.c\<close>): \<open>app_main\<close> and its helpers as the sequence of calls they make, what each
  call answers, and where a failure stops it.
\<close>

section \<open>The calls\<close>

text \<open>
  The calls that can fail, or whose place in the order matters. An answer other than zero is a failure,
  a missing object where a call makes one.
\<close>

datatype init_call =
  LogBufInit | NvsFlashInit | NvsFlashErase | NvsFlashRetry | RailWitnessProbe | ResetLogInit
| NetifInit | EventLoopCreate | ReadMac
| EthMacNew | EthPhyNew | EthDriverInstall | EthNetifNew | EthNetifAttach | EthSetMac
| EthLinkInit | StatusLedInit
| WifiInit | WifiNetifCreate | WifiApHandlers | WifiSetModeAp | WifiCfgApply
| BridgeNetifNew | BridgeAddEth | BridgeAddWifi | BridgeAttach | DhcpServerStart
| ClientTrackInit | SysMonitorInit | AuthCfgInit | SyslogCfgInit | SyslogInit | ClockCfgInit | ClockTimeInit
| WanCfgInit | WanInit | EthPromiscuous | EthStart | WifiStart | RailWitnessArm | TxdoneInit | WebServerStart
| SerialConsoleInit | MarkAppValid | NoteReady

text \<open>A call, and whether its failure stops the start (\<open>ESP_ERROR_CHECK\<close>, \<open>assert\<close>).\<close>

type_synonym init_step = "init_call \<times> bool"

fun run_steps :: "(init_call \<Rightarrow> int) \<Rightarrow> init_step list \<Rightarrow> init_call list \<times> bool" where
  "run_steps ans [] = ([], True)"
| "run_steps ans ((c, must) # rest) =
     (if must \<and> ans c \<noteq> 0 then ([c], False)
      else let (trace, completed) = run_steps ans rest in (c # trace, completed))"

abbreviation ESP_ERR_NVS_NO_FREE_PAGES :: int where "ESP_ERR_NVS_NO_FREE_PAGES \<equiv> 0x110d"
abbreviation ESP_ERR_NVS_NEW_VERSION_FOUND :: int where "ESP_ERR_NVS_NEW_VERSION_FOUND \<equiv> 0x1110"

definition nvs_start :: "(init_call \<Rightarrow> int) \<Rightarrow> init_step list" where
  "nvs_start ans =
     (if ans NvsFlashInit = ESP_ERR_NVS_NO_FREE_PAGES \<or> ans NvsFlashInit = ESP_ERR_NVS_NEW_VERSION_FOUND
      then [(NvsFlashInit, False), (NvsFlashErase, True), (NvsFlashRetry, True)]
      else [(NvsFlashInit, True)])"

definition eth_init :: "init_step list" where
  "eth_init =
     [(EthMacNew, False), (EthPhyNew, False), (EthDriverInstall, True), (EthNetifNew, True), (EthNetifAttach, True)]"

definition wifi_init_softap :: "init_step list" where
  "wifi_init_softap =
     [(WifiInit, True), (WifiNetifCreate, True), (WifiApHandlers, True), (WifiSetModeAp, True), (WifiCfgApply, True)]"

text \<open>A bridge that could not be made is only logged, and the rest of it left out.\<close>

definition setup_bridge :: "(init_call \<Rightarrow> int) \<Rightarrow> init_step list" where
  "setup_bridge ans =
     (if ans BridgeNetifNew \<noteq> 0 then [(BridgeNetifNew, False)]
      else [(BridgeNetifNew, False), (BridgeAddEth, True), (BridgeAddWifi, True), (BridgeAttach, True),
            (DhcpServerStart, True)])"

definition app_steps :: "(init_call \<Rightarrow> int) \<Rightarrow> init_step list" where
  "app_steps ans =
     [(LogBufInit, False)] @ nvs_start ans @
     [(RailWitnessProbe, False), (ResetLogInit, False), (NetifInit, True), (EventLoopCreate, True), (ReadMac, True)] @
     eth_init @ [(EthSetMac, True), (EthLinkInit, True), (StatusLedInit, True)] @
     wifi_init_softap @ setup_bridge ans @
     [(ClientTrackInit, True), (SysMonitorInit, True), (AuthCfgInit, True), (SyslogCfgInit, True), (SyslogInit, True),
      (ClockCfgInit, True), (ClockTimeInit, False), (WanCfgInit, True), (WanInit, True), (EthPromiscuous, True),
      (EthStart, True), (WifiStart, True), (RailWitnessArm, False), (TxdoneInit, True), (WebServerStart, False),
      (SerialConsoleInit, True), (MarkAppValid, False), (NoteReady, False)]"

text \<open>\<open>syslog_init\<close> refuses to start without a bridge.\<close>

definition answer :: "(init_call \<Rightarrow> int) \<Rightarrow> init_call \<Rightarrow> int" where
  "answer ans c = (if c = SyslogInit \<and> ans BridgeNetifNew \<noteq> 0 then INVALID_ARG else ans c)"

definition app_main :: "(init_call \<Rightarrow> int) \<Rightarrow> init_call list \<times> bool" where
  "app_main ans = run_steps (answer ans) (app_steps ans)"

text \<open>What the start does to the reset history after its record is made: its last call.\<close>

definition app_main_ready :: "init_call list \<Rightarrow> resets \<Rightarrow> resets" where
  "app_main_ready trace s = (if NoteReady \<in> set trace then reset_log_note_ready s else s)"

text \<open>The ranges the DHCP server is started with.\<close>

definition start_dhcp ::
  "dhcp_start_env \<Rightarrow> (nat \<Rightarrow> u8 list option \<Rightarrow> u8 list option) \<Rightarrow> int \<Rightarrow> dhcp \<Rightarrow> esp_err \<times> dhcp"
where
  "start_dhcp env nvs_get now s =
     dhcp_server_start env nvs_get now True (ip4 192 168 5 1) (ip4 255 255 255 0)
       (ip4 192 168 5 10) (ip4 192 168 5 101) (ip4 192 168 5 2) (ip4 192 168 5 9) s"

section \<open>What a start means\<close>

lemma run_prefix: "fst (run_steps ans steps) = take (length (fst (run_steps ans steps))) (map fst steps)"
  by (induction ans steps rule: run_steps.induct) (auto split: prod.splits)

lemma run_completed:
  "snd (run_steps ans steps) \<longleftrightarrow> list_all (\<lambda>(c, must). must \<longrightarrow> ans c = 0) steps"
  by (induction ans steps rule: run_steps.induct) (auto split: prod.splits)

lemma run_whole: "snd (run_steps ans steps) \<Longrightarrow> fst (run_steps ans steps) = map fst steps"
  by (induction ans steps rule: run_steps.induct) (auto split: prod.splits if_splits)

lemma run_stops:
  "run_steps ans (steps @ [(c, False)]) = (trace, completed) \<Longrightarrow> c \<notin> fst ` set steps \<Longrightarrow> c \<in> set trace \<longleftrightarrow> completed"
  by (induction steps arbitrary: trace completed) (auto split: prod.splits if_splits)

text \<open>In the order of the calls, \<open>a\<close> comes before any \<open>b\<close>.\<close>

fun precedes :: "init_call \<Rightarrow> init_call \<Rightarrow> init_call list \<Rightarrow> bool" where
  "precedes a b [] \<longleftrightarrow> True"
| "precedes a b (c # cs) \<longleftrightarrow> c = a \<or> c \<noteq> b \<and> precedes a b cs"

lemma precedes_take: "precedes a b cs \<Longrightarrow> precedes a b (take k cs)"
  by (induction cs arbitrary: k) (auto simp: take_Cons split: nat.split)

text \<open>
  What the comments of \<open>main.c\<close> ask of the order: the rail is read before the driver clears the register,
  the boot is on record before anything that may stop the start, every listener is registered before
  the ports start, the witness is armed after the driver's reset, and an image is only approved at the end.
\<close>

definition start_order :: "(init_call \<times> init_call) list" where
  "start_order =
     [(RailWitnessProbe, ResetLogInit), (RailWitnessProbe, EthDriverInstall), (ResetLogInit, NetifInit),
      (ResetLogInit, EthDriverInstall), (EthLinkInit, EthStart), (ClientTrackInit, EthStart), (ClientTrackInit, WifiStart),
      (SyslogCfgInit, SyslogInit), (SyslogInit, EthStart), (SyslogInit, WifiStart), (ClockCfgInit, ClockTimeInit),
      (ClockTimeInit, WanInit), (WanCfgInit, WanInit), (WanInit, WifiStart), (EthStart, RailWitnessArm),
      (WifiStart, TxdoneInit), (AuthCfgInit, WebServerStart), (AuthCfgInit, SerialConsoleInit),
      (SerialConsoleInit, MarkAppValid), (MarkAppValid, NoteReady)]"

definition vital :: "init_call list" where
  "vital =
     [EthDriverInstall, WifiCfgApply, BridgeAttach, DhcpServerStart, ClientTrackInit, SysMonitorInit, AuthCfgInit,
      SyslogInit, WanInit, EthStart, WifiStart, SerialConsoleInit]"

lemma ordered_calls: "list_all (\<lambda>(a, b). precedes a b (map fst (app_steps ans))) start_order"
  by (simp add: start_order_def app_steps_def nvs_start_def eth_init_def wifi_init_softap_def setup_bridge_def)


lemma run_append:
  "run_steps ans (xs @ ys) =
     (if snd (run_steps ans xs) then (fst (run_steps ans xs) @ fst (run_steps ans ys), snd (run_steps ans ys))
      else run_steps ans xs)"
  by (induction ans xs rule: run_steps.induct) (auto split: prod.splits)

definition approval :: "init_step list" where
  "approval = [(MarkAppValid, False), (NoteReady, False)]"

definition before_approval :: "(init_call \<Rightarrow> int) \<Rightarrow> init_step list" where
  "before_approval ans = take (length (app_steps ans) - 2) (app_steps ans)"

lemma app_steps_split:
  "app_steps ans = before_approval ans @ approval"
  "MarkAppValid \<notin> fst ` set (before_approval ans)" "NoteReady \<notin> fst ` set (before_approval ans)"
  unfolding before_approval_def approval_def
  by (simp_all add: app_steps_def nvs_start_def eth_init_def wifi_init_softap_def setup_bridge_def)

lemma approved_if_completed:
  assumes "app_main ans = (trace, completed)"
  shows "MarkAppValid \<in> set trace \<longleftrightarrow> completed" "NoteReady \<in> set trace \<longleftrightarrow> completed"
proof -
  let ?pre = "run_steps (answer ans) (before_approval ans)"
  have r: "(trace, completed) = (if snd ?pre then (fst ?pre @ [MarkAppValid, NoteReady], True) else ?pre)"
    using assms unfolding app_main_def app_steps_split(1) run_append by (auto simp: approval_def split: if_splits)
  have "set (fst ?pre) \<subseteq> fst ` set (before_approval ans)"
    using run_prefix [of "answer ans" "before_approval ans"] by (metis image_set set_take_subset)
  then have "MarkAppValid \<notin> set (fst ?pre)" "NoteReady \<notin> set (fst ?pre)" using app_steps_split(2,3) by blast+
  then show "MarkAppValid \<in> set trace \<longleftrightarrow> completed" "NoteReady \<in> set trace \<longleftrightarrow> completed"
    using r by (auto split: if_splits) (metis fst_conv snd_conv)+
qed

text \<open>The ranges of \<open>main.c\<close> are ones the server starts with, and keeps both of, whenever it can start at all.\<close>

lemma main_ranges:
  "\<not> wired_range_bad (ip4 192 168 5 1) (ip4 255 255 255 0) (ip4 192 168 5 10) (ip4 192 168 5 101)
     (ip4 192 168 5 2) (ip4 192 168 5 9)"
  "ip4 192 168 5 1 \<noteq> 0" "ip4 192 168 5 10 \<noteq> 0" "ip4 192 168 5 101 \<noteq> 0"
  "\<not> lwip_ntohl (ip4 192 168 5 10) > lwip_ntohl (ip4 192 168 5 101)"
  by code_simp+

lemma main_ranges_accepted:
  assumes "st_mutex_created env" "st_socket_opened env" "st_port_bound env" "st_task_created env"
  shows "fst (start_dhcp env nvs_get now s) = ESP_OK"
  using assms by (simp add: start_dhcp_def dhcp_server_start_def main_ranges Let_def)

section \<open>Properties\<close>



text \<open>
  A boot loop shows: if the device resets with its RTC memory intact, the next boot's record says that
  the start before it was finished exactly if it was.
\<close>

theorem boot_loop_visible:
  assumes "reset_log_init b (reset_chip rtc s0) = (err, s1)" "b_mutex b" "app_main ans = (trace, completed)"
    and "s2 = lives ops (app_main_ready trace s1)" "Ready \<notin> set ops"
    and "reset_log_init b' (reset_chip (g_rtc s2) s2) = (err', s3)" "b_mutex b'"
  shows "\<exists>e. reset_log_get_current s3 = Some e \<and> has_flag e RESET_LOG_F_PREV_STATE \<and>
    (has_flag e RESET_LOG_F_REACHED_READY \<longleftrightarrow> completed)"
proof -
  let ?ops = "(if completed then [Ready] else []) @ ops"
  have "app_main_ready trace s1 = lives (if completed then [Ready] else []) s1"
    using approved_if_completed(2) [OF assms(3)] by (simp add: app_main_ready_def lives_def)
  then have s2: "s2 = lives ?ops s1" using assms(4) by (simp add: lives_def)
  have "told (g_rtc s1) 0 RESET_INTENT_UNKNOWN False" using init_state(1) [OF assms(1,2)] seed_told by simp
  then have "told (g_rtc s2) (foldl sampled 0 ?ops) (foldl intended RESET_INTENT_UNKNOWN ?ops) (Ready \<in> set ?ops)"
    using lives_told [of s1 0 RESET_INTENT_UNKNOWN False ?ops] s2 by simp
  moreover have "Ready \<in> set ?ops \<longleftrightarrow> completed" using assms(5) by simp
  ultimately show ?thesis
    using prev_boot_told unfolding init_current [OF assms(6,7)] by (simp add: new_record_prev)
qed


theorem boot_loop_visible_witness:
  "let s = lives [Tick 1000000] (app_main_ready (fst (app_main (\<lambda>c. if c = WifiStart then - 1 else 0))) first_boot) in
   \<exists>e. reset_log_get_current (snd (reset_log_init example_boot (reset_chip (g_rtc s) s))) = Some e \<and>
     has_flag e RESET_LOG_F_PREV_STATE \<and> \<not> has_flag e RESET_LOG_F_REACHED_READY"
proof -
  have m: "b_mutex example_boot" by (simp add: example_boot_def)
  let ?ans = "\<lambda>c. if c = WifiStart then - 1 else 0"
  obtain trace completed where r: "app_main ?ans = (trace, completed)" by fastforce
  have "\<not> completed"
    using r by (simp add: app_main_def answer_def app_steps_def nvs_start_def eth_init_def wifi_init_softap_def setup_bridge_def)
  then show ?thesis
    using boot_loop_visible [OF first_boot_init m r refl _ prod.collapse [symmetric] m, of "[Tick 1000000]"]
    unfolding r by (simp add: Let_def)
qed

end
